(* ===== verification/Go_Prelude.thy ===== *)
theory Go_Prelude
  imports Main "HOL-Library.Word"
begin

text \<open>
  Shared vocabulary of the development: Go's machine integers and byte strings, the error
  values of the packages \<open>common\<close>, \<open>io\<close> and \<open>net\<close>, the four ways a Go call can end
  (return, error, panic, never), and the state-passing sequencing that the component theories
  are written in. The generic facts on these are collected in \<open>go_simps\<close>.
\<close>

named_theorems go_simps \<open>equations that execute the sequencing operators\<close>
named_theorems go_defs \<open>definitions of the component operations, unfolded on demand\<close>

section \<open>Bytes, strings and integers\<close>

type_synonym byte = "8 word"
type_synonym bytes = "byte list"
type_synonym u16 = "16 word"
type_synonym u64 = "64 word"

text \<open>A Go string is an immutable byte sequence. Literals are written as HOL strings, whose
  characters are bytes; the two conversions are Go's \<open>[]byte(s)\<close> and \<open>string(b)\<close>.\<close>

definition bytes_of :: "string \<Rightarrow> bytes" where
  "bytes_of s = map of_char s"

definition string_of :: "bytes \<Rightarrow> string" where
  "string_of bs = map (\<lambda>b. char_of (unat b)) bs"

text \<open>Go's \<open>binary.BigEndian.PutUint16\<close> and \<open>Uint16\<close>.\<close>

definition put_u16 :: "u16 \<Rightarrow> bytes" where
  "put_u16 w = [ucast (drop_bit 8 w), ucast w]"

fun get_u16 :: "bytes \<Rightarrow> u16" where
  "get_u16 (hi # lo # _) = push_bit 8 (ucast hi) + ucast lo"
| "get_u16 _ = 0"

text \<open>The value of a signed 64-bit expression that may overflow.\<close>

definition wrap64 :: "int \<Rightarrow> int" where
  "wrap64 n = (n + 2 ^ 63) mod 2 ^ 64 - 2 ^ 63"

section \<open>Errors and outcomes\<close>

text \<open>\<open>EOF\<close>, \<open>ErrUnexpectedEOF\<close> and \<open>ErrClosed\<close> are the sentinels of \<open>io\<close> and \<open>net\<close>;
  \<open>Opaque\<close> is any other error value of the standard library or the operating system;
  \<open>Err\<close> is the repository's \<open>common.Error\<close> with its message and its wrapped error.\<close>

datatype go_error =
    EOF
  | ErrUnexpectedEOF
  | ErrClosed
  | Opaque string
  | Err (info: string) (base: "go_error option")

definition NewError :: "string \<Rightarrow> go_error" where
  "NewError s = Err s None"

fun Base :: "go_error \<Rightarrow> go_error option \<Rightarrow> go_error" where
  "Base (Err s _) e = Err s e"
| "Base g _ = g"

fun Unwrap :: "go_error \<Rightarrow> go_error option" where
  "Unwrap (Err _ e) = e"
| "Unwrap _ = None"

text \<open>\<open>errors.Is\<close> along the chain of wrapped errors.\<close>

fun errors_Is :: "go_error \<Rightarrow> go_error \<Rightarrow> bool" where
  "errors_Is (Err s (Some e)) t = (Err s (Some e) = t \<or> errors_Is e t)"
| "errors_Is e t = (e = t)"

text \<open>The four ways a call can end. \<open>Hang\<close> is a call that never returns.\<close>

datatype 'a outcome = Ret 'a | Raise go_error | Panic string | Hang

fun map_outcome_error :: "(go_error \<Rightarrow> go_error) \<Rightarrow> 'a outcome \<Rightarrow> 'a outcome" where
  "map_outcome_error f (Raise e) = Raise (f e)"
| "map_outcome_error f x = x"

text \<open>\<open>common.Must\<close>: an error becomes a panic.\<close>

fun Must :: "'a outcome \<Rightarrow> 'a outcome" where
  "Must (Raise e) = Panic ''Must''"
| "Must x = x"

section \<open>Sequencing with state\<close>

type_synonym ('s, 'a) proc = "'s \<Rightarrow> 'a outcome \<times> 's"

definition retp :: "'a \<Rightarrow> ('s, 'a) proc" where
  "retp a s = (Ret a, s)"

definition bindp :: "('s, 'a) proc \<Rightarrow> ('a \<Rightarrow> ('s, 'b) proc) \<Rightarrow> ('s, 'b) proc" where
  "bindp m f s = (case m s of
      (Ret a, s') \<Rightarrow> f a s'
    | (Raise e, s') \<Rightarrow> (Raise e, s')
    | (Panic p, s') \<Rightarrow> (Panic p, s')
    | (Hang, s') \<Rightarrow> (Hang, s'))"

definition wrap_error :: "(go_error \<Rightarrow> go_error) \<Rightarrow> ('s, 'a) proc \<Rightarrow> ('s, 'a) proc" where
  "wrap_error f m s = (case m s of (r, s') \<Rightarrow> (map_outcome_error f r, s'))"

text \<open>Slicing \<open>b[lo:hi]\<close> of a slice whose capacity is its length.\<close>

definition go_slice :: "nat \<Rightarrow> nat \<Rightarrow> 'a list \<Rightarrow> 'a list outcome" where
  "go_slice lo hi b =
     (if lo \<le> hi \<and> hi \<le> length b then Ret (take (hi - lo) (drop lo b))
      else Panic ''slice bounds out of range'')"

section \<open>Shared lemmas\<close>

lemma bindp_simps [simp, go_simps]:
  "m s = (Ret a, s') \<Longrightarrow> bindp m f s = f a s'"
  "m s = (Raise e, s') \<Longrightarrow> bindp m f s = (Raise e, s')"
  "m s = (Panic p, s') \<Longrightarrow> bindp m f s = (Panic p, s')"
  "m s = (Hang, s') \<Longrightarrow> bindp m f s = (Hang, s')"
  by (simp_all add: bindp_def)

lemma wrap_error_simps [simp, go_simps]:
  "m s = (Ret a, s') \<Longrightarrow> wrap_error f m s = (Ret a, s')"
  "m s = (Raise e, s') \<Longrightarrow> wrap_error f m s = (Raise (f e), s')"
  "m s = (Panic p, s') \<Longrightarrow> wrap_error f m s = (Panic p, s')"
  "m s = (Hang, s') \<Longrightarrow> wrap_error f m s = (Hang, s')"
  by (simp_all add: wrap_error_def)

lemma retp_simp [simp, go_simps]: "retp a s = (Ret a, s)"
  by (simp add: retp_def)

lemma go_slice_Ret [simp]:
  "lo \<le> hi \<Longrightarrow> hi \<le> length b \<Longrightarrow> go_slice lo hi b = Ret (take (hi - lo) (drop lo b))"
  by (simp add: go_slice_def)

lemma take_drop_length_take: "take k xs @ drop (length (take k xs)) xs = xs"
  by (cases "k \<le> length xs") auto

lemma length_bytes_of [simp]: "length (bytes_of s) = length s"
  by (simp add: bytes_of_def)

lemma length_string_of [simp]: "length (string_of bs) = length bs"
  by (simp add: string_of_def)

lemma unat_byte_less: "unat (b :: byte) < 256"
  using unsigned_less [of b] by simp

lemma unat_byte_of_char: "unat (of_char c :: byte) = of_char c"
proof -
  have "unat (of_nat (of_char c) :: byte) = of_char c"
    by (simp only: unat_of_nat) simp
  then show ?thesis by (simp only: of_nat_of_char)
qed

lemma char_byte_char: "char_of (unat (of_char c :: byte)) = c"
  by (simp add: unat_byte_of_char)

lemma byte_char_byte: "of_char (char_of (unat b)) = (b :: byte)"
proof -
  have "unat b < 256"
    by (rule unat_byte_less)
  then have "(of_char (char_of (unat b)) :: nat) = unat b"
    by simp
  then show ?thesis by (metis of_nat_of_char of_nat_unat ucast_id)
qed

lemma string_of_bytes_of [simp]: "string_of (bytes_of s) = s"
  by (induction s) (simp_all add: string_of_def bytes_of_def char_byte_char)

lemma bytes_of_string_of [simp]: "bytes_of (string_of bs) = bs"
  by (induction bs) (simp_all add: string_of_def bytes_of_def byte_char_byte)

lemma length_put_u16 [simp]: "length (put_u16 w) = 2"
  by (simp add: put_u16_def)

lemma get_put_u16 [simp]: "get_u16 (put_u16 w @ r) = w"
proof -
  have "push_bit 8 (ucast (ucast (drop_bit 8 w) :: byte)) + ucast (ucast w :: byte) = (w :: u16)"
    by (rule bit_eqI) (auto simp: disjunctive_add bit_simps)
  then show ?thesis by (simp add: put_u16_def)
qed

end
