(* ===== verification/Traffic_Outbox.thy ===== *)
theory Traffic_Outbox
  imports Go_Prelude "HOL-Library.AList"
begin

text \<open>
  \<open>internal/trafficoutbox/outbox.go\<close>: the durable outbox that both traffic reporters use. A Go
  map is an association list with distinct keys (\<open>nil\<close> and the empty map are both the empty
  list). The file is represented by what a decoder finds in it. A \<open>Save\<close> can fail at any of
  its steps; what matters is only whether the rename (or the removal) had already happened, so
  there are two faults. The locale \<open>durable_store\<close> is what the reporters rely on.
\<close>

section \<open>State\<close>

record traffic =
  Up :: u64
  Down :: u64

type_synonym traffic_map = "(string \<times> traffic) list"

record outbox_state =
  Version :: int
  PendingSyncID :: string
  Pending :: traffic_map
  Queued :: traffic_map

definition currentVersion :: int where
  "currentVersion = 1"

definition zero_state :: outbox_state where
  "zero_state = \<lparr>Version = 0, PendingSyncID = [], Pending = [], Queued = []\<rparr>"

definition Empty_outbox :: "outbox_state \<Rightarrow> bool" where
  "Empty_outbox s \<longleftrightarrow> PendingSyncID s = [] \<and> length (Pending s) = 0 \<and> length (Queued s) = 0"

definition CloneTraffic :: "traffic_map \<Rightarrow> traffic_map" where
  "CloneTraffic source = (if length source = 0 then [] else map (\<lambda>(hash, value). (hash, value)) source)"

definition Normalize :: "outbox_state \<Rightarrow> outbox_state" where
  "Normalize s = s\<lparr>Version := currentVersion\<rparr>"

definition CopyState :: "outbox_state \<Rightarrow> outbox_state" where
  "CopyState s =
     \<lparr>Version = currentVersion, PendingSyncID = PendingSyncID s, Pending = CloneTraffic (Pending s),
      Queued = CloneTraffic (Queued s)\<rparr>"

fun validate_group :: "string \<Rightarrow> traffic_map \<Rightarrow> go_error option" where
  "validate_group grp [] = None"
| "validate_group grp ((h, v) # rest) =
     (if h = [] then Some (Opaque (grp @ '' traffic contains an empty user hash''))
      else if Up v = 0 \<and> Down v = 0 then
        Some (Opaque (grp @ '' traffic contains an empty value for user '' @ h))
      else validate_group grp rest)"

definition Validate :: "outbox_state \<Rightarrow> go_error option" where
  "Validate s =
     (if Version s \<noteq> 0 \<and> Version s \<noteq> currentVersion then
        Some (Opaque ''unsupported traffic outbox version'')
      else if length (Pending s) > 0 \<and> PendingSyncID s = [] then
        Some (Opaque ''pending traffic is missing a sync id'')
      else if length (Pending s) = 0 \<and> PendingSyncID s \<noteq> [] then
        Some (Opaque ''pending sync id has no traffic'')
      else case validate_group ''pending'' (Pending s) of
        Some e \<Rightarrow> Some e
      | None \<Rightarrow> validate_group ''queued'' (Queued s))"

section \<open>The file\<close>

datatype disk_file = Absent | Unreadable | NoData | Undecodable | Doc outbox_state

text \<open>\<open>FailBefore\<close>: some step up to and including the rename or removal failed. \<open>FailAfter\<close>: the
  directory could not be synced afterwards.\<close>

datatype save_fault = NoFault | FailBefore | FailAfter

text \<open>A nil \<open>*File\<close> is \<open>None\<close>; \<open>NewFile\<close> returns it for the empty path.\<close>

type_synonym outbox_file = "disk_file option"

definition NewFile :: "string \<Rightarrow> disk_file \<Rightarrow> outbox_file" where
  "NewFile path d = (if path = [] then None else Some d)"

definition File_Load :: "outbox_file \<Rightarrow> outbox_state outcome" where
  "File_Load f =
     (case f of
        None \<Rightarrow> Ret (Normalize zero_state)
      | Some Absent \<Rightarrow> Ret (Normalize zero_state)
      | Some Unreadable \<Rightarrow> Raise (Opaque ''read traffic outbox'')
      | Some NoData \<Rightarrow> Raise (Opaque ''traffic outbox is empty'')
      | Some Undecodable \<Rightarrow> Raise (Opaque ''decode traffic outbox'')
      | Some (Doc s) \<Rightarrow>
          (case Validate s of
             Some e \<Rightarrow> Raise (Err ''validate traffic outbox'' (Some e))
           | None \<Rightarrow> Ret (Normalize s)))"

definition File_Remove :: "save_fault \<Rightarrow> outbox_file \<Rightarrow> go_error option \<times> outbox_file" where
  "File_Remove flt f =
     (case f of
        None \<Rightarrow> (None, None)
      | Some Absent \<Rightarrow> (None, f)
      | Some _ \<Rightarrow>
          (case flt of
             FailBefore \<Rightarrow> (Some (Opaque ''remove traffic outbox''), f)
           | FailAfter \<Rightarrow> (Some (Opaque ''sync traffic outbox directory after remove''), Some Absent)
           | NoFault \<Rightarrow> (None, Some Absent)))"

definition File_Save ::
  "save_fault \<Rightarrow> outbox_state \<Rightarrow> outbox_file \<Rightarrow> go_error option \<times> outbox_file" where
  "File_Save flt st f =
     (case f of
        None \<Rightarrow> (None, None)
      | Some d \<Rightarrow>
          let s = Normalize st in
          (case Validate s of
             Some e \<Rightarrow> (Some (Err ''validate traffic outbox state'' (Some e)), f)
           | None \<Rightarrow>
               if Empty_outbox s then File_Remove flt f
               else case flt of
                 FailBefore \<Rightarrow> (Some (Opaque ''replace traffic outbox''), f)
               | FailAfter \<Rightarrow> (Some (Opaque ''sync traffic outbox directory''), Some (Doc s))
               | NoFault \<Rightarrow> (None, Some (Doc s))))"

section \<open>What the reporters rely on\<close>

text \<open>Save attempts in sequence: the value after the last success, and the values tried since.\<close>

fun save_attempts ::
  "('f \<Rightarrow> 's \<Rightarrow> 'd \<Rightarrow> go_error option \<times> 'd) \<Rightarrow> ('f \<times> 's) list \<Rightarrow> 'd \<Rightarrow> 's \<Rightarrow> 's list \<Rightarrow>
   'd \<times> 's \<times> 's list" where
  "save_attempts save [] d m tried = (d, m, tried)"
| "save_attempts save ((f, s) # rest) d m tried =
     (case save f s d of
        (None, d') \<Rightarrow> save_attempts save rest d' s []
      | (Some _, d') \<Rightarrow> save_attempts save rest d' m (s # tried))"

text \<open>A store that keeps a value: a save that reports success is what the next load returns; a
  save that reports a failure leaves the old or the new value, never anything else.\<close>

locale durable_store =
  fixes save :: "'f \<Rightarrow> 's \<Rightarrow> 'd \<Rightarrow> go_error option \<times> 'd"
    and load :: "'d \<Rightarrow> 's outcome"
    and sound :: "'s \<Rightarrow> bool"
  assumes save_done: "\<lbrakk>sound s; load d = Ret s0; fst (save f s d) = None\<rbrakk> \<Longrightarrow>
      load (snd (save f s d)) = Ret s"
    and save_failed: "\<lbrakk>sound s; load d = Ret s0; fst (save f s d) \<noteq> None\<rbrakk> \<Longrightarrow>
      load (snd (save f s d)) = Ret s0 \<or> load (snd (save f s d)) = Ret s"
begin

lemma attempts_load:
  assumes "load d = Ret s0" "s0 = m \<or> s0 \<in> set tried" "list_all (\<lambda>(f, s). sound s) xs"
    "save_attempts save xs d m tried = (d', m', tried')"
  shows "\<exists>s. load d' = Ret s \<and> (s = m' \<or> s \<in> set tried')"
  using assms
proof (induction xs arbitrary: d s0 m tried)
  case Nil
  then show ?case by auto
next
  case (Cons x xs)
  obtain f s where x: "x = (f, s)" by fastforce
  obtain e d1 where sv: "save f s d = (e, d1)" by fastforce
  have snd: "sound s" and rest: "list_all (\<lambda>(f, s). sound s) xs" using Cons.prems(3) x by auto
  show ?case
  proof (cases e)
    case None
    then have "load d1 = Ret s" using save_done [OF snd Cons.prems(1), of f] sv by simp
    moreover have "save_attempts save xs d1 s [] = (d', m', tried')"
      using Cons.prems(4) x sv None by simp
    ultimately show ?thesis using Cons.IH [of d1 s s "[]"] rest by simp
  next
    case (Some err)
    then have "load d1 = Ret s0 \<or> load d1 = Ret s"
      using save_failed [OF snd Cons.prems(1), of f] sv by simp
    moreover have "save_attempts save xs d1 m (s # tried) = (d', m', tried')"
      using Cons.prems(4) x sv Some by simp
    ultimately show ?thesis
      using Cons.IH [of d1 s0 m "s # tried"] Cons.IH [of d1 s m "s # tried"] Cons.prems(2) rest
      by auto
  qed
qed

end

lemma Validate_None:
  "Validate s = None \<longleftrightarrow> (Version s = 0 \<or> Version s = currentVersion) \<and>
     (Pending s = [] \<longleftrightarrow> PendingSyncID s = []) \<and>
     validate_group ''pending'' (Pending s) = None \<and> validate_group ''queued'' (Queued s) = None"
  by (cases "Pending s") (auto simp: Validate_def split: option.splits)

definition sound_state :: "outbox_state \<Rightarrow> bool" where
  "sound_state s \<longleftrightarrow> Version s = currentVersion \<and> Validate s = None"

lemma Normalize_sound: "sound_state s \<Longrightarrow> Normalize s = s"
  by (simp add: sound_state_def Normalize_def)

lemma Empty_Normalize: "Empty_outbox s \<Longrightarrow> Version s = currentVersion \<Longrightarrow> s = Normalize zero_state"
  by (cases s) (simp add: Empty_outbox_def Normalize_def zero_state_def)

lemma load_sound: "File_Load f = Ret s \<Longrightarrow> sound_state s"
  by (auto simp: File_Load_def sound_state_def Normalize_def Validate_None zero_state_def
      split: option.splits disk_file.splits)

lemma File_Remove_Some:
  "\<exists>d'. snd (File_Remove flt (Some d)) = Some d' \<and> (d' = d \<or> d' = Absent) \<and>
     (fst (File_Remove flt (Some d)) = None \<longrightarrow> d' = Absent)"
  by (cases d; cases flt) (simp_all add: File_Remove_def)

text \<open>The file after a save: unchanged or the new contents; the latter if the save succeeded.\<close>

lemma File_Save_sound:
  assumes "sound_state st"
  shows "\<exists>d'. snd (File_Save flt st (Some d)) = Some d' \<and>
    (d' = d \<or> File_Load (Some d') = Ret st) \<and>
    (fst (File_Save flt st (Some d)) = None \<longrightarrow> File_Load (Some d') = Ret st)"
proof (cases "Empty_outbox st")
  case True
  have "File_Load (Some Absent) = Ret st"
    using Empty_Normalize [OF True] assms by (simp add: File_Load_def sound_state_def)
  moreover have "File_Save flt st (Some d) = File_Remove flt (Some d)"
    using True assms by (simp add: File_Save_def Normalize_sound sound_state_def Let_def)
  ultimately show ?thesis using File_Remove_Some [of flt d] by auto
next
  case False
  have "File_Load (Some (Doc st)) = Ret st"
    using assms by (simp add: File_Load_def sound_state_def Normalize_def)
  with False assms show ?thesis
    by (cases flt) (simp_all add: File_Save_def Normalize_sound sound_state_def Let_def)
qed

definition disk_save :: "save_fault \<Rightarrow> outbox_state \<Rightarrow> disk_file \<Rightarrow> go_error option \<times> disk_file" where
  "disk_save flt st d =
     (case File_Save flt st (Some d) of (e, f) \<Rightarrow> (e, case f of Some d' \<Rightarrow> d' | None \<Rightarrow> d))"

definition disk_load :: "disk_file \<Rightarrow> outbox_state outcome" where
  "disk_load d = File_Load (Some d)"

lemma disk_save_sound:
  assumes "sound_state st"
  shows "snd (disk_save flt st d) = d \<or> disk_load (snd (disk_save flt st d)) = Ret st"
    and "fst (disk_save flt st d) = None \<Longrightarrow> disk_load (snd (disk_save flt st d)) = Ret st"
  using File_Save_sound [OF assms, of flt d]
  by (auto simp: disk_save_def disk_load_def split: prod.splits)

interpretation disk: durable_store disk_save disk_load sound_state
proof (unfold_locales, goal_cases)
  case (1 s d s0 f)
  then show ?case using disk_save_sound(2) by blast
next
  case (2 s d s0 f)
  then show ?case using disk_save_sound(1) [of s f d] by auto
qed

lemma File_Save_disk: "File_Save flt st (Some d) = (fst (disk_save flt st d), Some (snd (disk_save flt st d)))"
  by (auto simp: disk_save_def File_Save_def File_Remove_def Let_def
      split: option.splits disk_file.splits save_fault.splits prod.splits)

lemma validate_group_None:
  "validate_group g m = None \<longleftrightarrow> (\<forall>(h, v) \<in> set m. h \<noteq> [] \<and> \<not> (Up v = 0 \<and> Down v = 0))"
  by (induction g m rule: validate_group.induct) auto

section \<open>Properties\<close>

text \<open>C18. The outbox file is crash-consistent. Starting from a file that loads, after any sequence
  of \<open>Save\<close> calls with valid states, each of which may succeed or fail before or after its
  rename, the file loads, and the loaded state is the state of the last successful save or a
  state whose save was attempted after it: never a mixture, never an older one.\<close>

theorem outbox_crash_consistent:
  assumes "disk_load d = Ret s0" "list_all (\<lambda>(f, s). sound_state s) saves"
    "save_attempts disk_save saves d s0 [] = (d', acknowledged, tried)"
  shows "\<exists>s. disk_load d' = Ret s \<and> sound_state s \<and> (s = acknowledged \<or> s \<in> set tried)"
proof -
  obtain s where "disk_load d' = Ret s" "s = acknowledged \<or> s \<in> set tried"
    using disk.attempts_load [OF assms(1) _ assms(2,3)] by auto
  moreover from this(1) have "sound_state s" unfolding disk_load_def by (rule load_sound)
  ultimately show ?thesis by blast
qed

definition sample_state :: outbox_state where
  "sample_state = \<lparr>Version = 1, PendingSyncID = ''id'', Pending = [(''u'', \<lparr>Up = 1, Down = 2\<rparr>)], Queued = []\<rparr>"

definition sample_state2 :: outbox_state where
  "sample_state2 = \<lparr>Version = 1, PendingSyncID = [], Pending = [], Queued = [(''u'', \<lparr>Up = 1, Down = 2\<rparr>)]\<rparr>"

lemmas sample_states = sample_state_def sample_state2_def sound_state_def currentVersion_def Validate_def

theorem outbox_crash_consistent_witness:
  "\<exists>s d'. save_attempts disk_save [(NoFault, sample_state2), (FailAfter, sample_state)] Absent
        (Normalize zero_state) [] = (d', sample_state2, [sample_state]) \<and>
     disk_load d' = Ret s \<and> (s = sample_state2 \<or> s = sample_state)"
proof -
  let ?xs = "[(NoFault, sample_state2), (FailAfter, sample_state)]"
  have snd: "list_all (\<lambda>(f, s). sound_state s) ?xs" by (simp add: sample_states)
  obtain d' where r: "save_attempts disk_save ?xs Absent (Normalize zero_state) [] = (d', sample_state2, [sample_state])"
    by (simp add: disk_save_def File_Save_def Let_def Empty_outbox_def Normalize_def sample_states)
  have "disk_load Absent = Ret (Normalize zero_state)" by (simp add: disk_load_def File_Load_def)
  from outbox_crash_consistent [OF this snd r] r show ?thesis
    by (metis empty_iff empty_set set_ConsD)
qed

end
