(* ===== verification/Traffic_Store.thy ===== *)
theory Traffic_Store
  imports Traffic_Outbox "HOL-Library.Log_Nat"
begin

text \<open>
  The receiving side of the traffic reports on the control plane:
  \<open>internal/webserver/traffic_values.go\<close>, \<open>data_plane_traffic.go\<close> and the receipts of
  \<open>internal/database/models.go\<close>. The database holds one row of int64 counters per user hash
  and the receipts of accepted batches; a transaction is a function that either returns the new
  tables or leaves the old ones.
\<close>

section \<open>Counters and increments\<close>

definition maxTrafficCounter :: int where
  "maxTrafficCounter = 2 ^ 63 - 1"

record traffic_increment =
  Upload :: int
  Download :: int
  UsedInc :: int

datatype store_error = TrafficValueError string | DbError string

definition isTrafficValueError :: "store_error \<Rightarrow> bool" where
  "isTrafficValueError e \<longleftrightarrow> (case e of TrafficValueError _ \<Rightarrow> True | DbError _ \<Rightarrow> False)"

text \<open>IEEE double rounding of a positive rational, to nearest with ties to even. Rates are at most
  \<open>MaxTrafficRate\<close> and totals below \<open>2 ^ 63\<close>, so neither overflow nor subnormal
  numbers occur.\<close>

definition rat_exponent :: "rat \<Rightarrow> int" where
  "rat_exponent x =
     (if 1 \<le> x then int (floorlog 2 (nat \<lfloor>x\<rfloor>)) - 1 else - int (floorlog 2 (nat (\<lceil>1 / x\<rceil> - 1))))"

definition round_even :: "rat \<Rightarrow> int" where
  "round_even y =
     (let f = \<lfloor>y\<rfloor>; d = y - of_int f
      in if d < 1 / 2 then f else if d > 1 / 2 then f + 1 else if even f then f else f + 1)"

definition f64_round :: "rat \<Rightarrow> rat" where
  "f64_round x =
     (if x \<le> 0 then 0
      else let ulp = (2 :: rat) powi (rat_exponent x - 52) in of_int (round_even (x / ulp)) * ulp)"

definition MaxTrafficRate :: rat where
  "MaxTrafficRate = 1000"

definition ValidateTrafficRate :: "rat \<Rightarrow> store_error option" where
  "ValidateTrafficRate rate =
     (if rate \<le> 0 \<or> rate > MaxTrafficRate
      then Some (TrafficValueError ''traffic rate must be finite and within (0, max]'') else None)"

definition newTrafficIncrement :: "u64 \<Rightarrow> u64 \<Rightarrow> rat \<Rightarrow> store_error + traffic_increment" where
  "newTrafficIncrement up down rate =
     (case ValidateTrafficRate rate of
        Some e \<Rightarrow> Inl e
      | None \<Rightarrow>
          if uint up > maxTrafficCounter then Inl (TrafficValueError ''upload traffic exceeds int64 capacity'')
          else if uint down > maxTrafficCounter then Inl (TrafficValueError ''download traffic exceeds int64 capacity'')
          else if up > word_of_int maxTrafficCounter - down then Inl (TrafficValueError ''total traffic exceeds int64 capacity'')
          else
            let total = up + down in
            if rate \<noteq> 1 then
              (let scaled = f64_round (f64_round (of_int (uint total)) * rate) in
               if scaled \<ge> 2 ^ 63 then Inl (TrafficValueError ''scaled traffic exceeds int64 capacity'')
               else Inr \<lparr>Upload = uint up, Download = uint down, UsedInc = \<lfloor>scaled\<rfloor>\<rparr>)
            else Inr \<lparr>Upload = uint up, Download = uint down, UsedInc = uint total\<rparr>)"

definition addTrafficTotals :: "u64 \<Rightarrow> u64 \<Rightarrow> store_error + u64" where
  "addTrafficTotals current delta =
     (if current > (- 1) - delta then Inl (TrafficValueError ''traffic aggregation exceeds uint64 capacity'')
      else Inr (current + delta))"

section \<open>Tables\<close>

record user_row =
  row_upload :: int
  row_download :: int
  row_used :: int

record traffic_db =
  rows :: "(string \<times> user_row) list"
  receipts :: "(string \<times> int) list"

definition row_accepts :: "traffic_increment \<Rightarrow> user_row \<Rightarrow> bool" where
  "row_accepts i r \<longleftrightarrow>
     0 \<le> row_upload r \<and> row_upload r \<le> maxTrafficCounter - Upload i \<and>
     0 \<le> row_download r \<and> row_download r \<le> maxTrafficCounter - Download i \<and>
     0 \<le> row_used r \<and> row_used r \<le> maxTrafficCounter - UsedInc i"

definition row_add :: "traffic_increment \<Rightarrow> user_row \<Rightarrow> user_row" where
  "row_add i r =
     \<lparr>row_upload = row_upload r + Upload i, row_download = row_download r + Download i,
      row_used = row_used r + UsedInc i\<rparr>"

text \<open>A hash is unique in the user table.\<close>

definition persistTrafficIncrement ::
  "string \<Rightarrow> traffic_increment \<Rightarrow> traffic_db \<Rightarrow> store_error + traffic_db" where
  "persistTrafficIncrement h i db =
     (if h = [] \<or> Upload i = 0 \<and> Download i = 0 \<and> UsedInc i = 0 then Inr db
      else case map_of (rows db) h of
        Some r \<Rightarrow>
          (if row_accepts i r then Inr (db\<lparr>rows := AList.update h (row_add i r) (rows db)\<rparr>)
           else Inl (TrafficValueError ''stored traffic counters cannot accept this increment''))
      | None \<Rightarrow> Inr db)"

fun batch_increments :: "rat \<Rightarrow> traffic_map \<Rightarrow> store_error + (string \<times> traffic_increment) list" where
  "batch_increments rate [] = Inr []"
| "batch_increments rate ((h, t) # rest) =
     (if h = [] then batch_increments rate rest
      else case newTrafficIncrement (Up t) (Down t) rate of
        Inl e \<Rightarrow> Inl e
      | Inr i \<Rightarrow>
          (case batch_increments rate rest of Inl e \<Rightarrow> Inl e | Inr is \<Rightarrow> Inr ((h, i) # is)))"

fun persist_all :: "(string \<times> traffic_increment) list \<Rightarrow> traffic_db \<Rightarrow> store_error + traffic_db" where
  "persist_all [] db = Inr db"
| "persist_all ((h, i) # rest) db =
     (case persistTrafficIncrement h i db of Inl e \<Rightarrow> Inl e | Inr db' \<Rightarrow> persist_all rest db')"

text \<open>The transaction of \<open>handleDataPlaneTraffic\<close>: \<open>FirstOrCreate\<close> on the receipt, then the
  increments. \<open>down\<close> is a failure of the database itself.\<close>

definition traffic_transaction ::
  "bool \<Rightarrow> int \<Rightarrow> string \<Rightarrow> traffic_map \<Rightarrow> traffic_db \<Rightarrow> store_error + traffic_db" where
  "traffic_transaction down now syncID batch db =
     (if down then Inl (DbError ''database'')
      else if map_of (receipts db) syncID \<noteq> None then Inr db
      else case batch_increments 1 batch of
        Inl e \<Rightarrow> Inl e
      | Inr is \<Rightarrow> persist_all is (db\<lparr>receipts := receipts db @ [(syncID, now)]\<rparr>))"

definition handleDataPlaneTraffic ::
  "bool \<Rightarrow> int \<Rightarrow> string \<Rightarrow> traffic_map \<Rightarrow> traffic_db \<Rightarrow> int \<times> traffic_db" where
  "handleDataPlaneTraffic down now syncID batch db =
     (if syncID = [] \<or> length batch = 0 then (400, db)
      else if length syncID > 64 then (400, db)
      else case traffic_transaction down now syncID batch db of
        Inl e \<Rightarrow> (if isTrafficValueError e then 400 else 500, db)
      | Inr db' \<Rightarrow> (200, db'))"

definition receipt_retention :: int where
  "receipt_retention = 30 * 24 * 3600"

definition CleanupExpiredDataPlaneSyncReceipts :: "int \<Rightarrow> traffic_db \<Rightarrow> int \<times> traffic_db" where
  "CleanupExpiredDataPlaneSyncReceipts now db =
     (let keep = filter (\<lambda>(_, t). \<not> t < now - receipt_retention) (receipts db)
      in (int (length (receipts db)) - int (length keep), db\<lparr>receipts := keep\<rparr>))"

section \<open>What one batch does\<close>

definition rows_ok :: "traffic_db \<Rightarrow> bool" where
  "rows_ok db \<longleftrightarrow> (\<forall>(h, r) \<in> set (rows db).
     0 \<le> row_upload r \<and> row_upload r \<le> maxTrafficCounter \<and>
     0 \<le> row_download r \<and> row_download r \<le> maxTrafficCounter \<and>
     0 \<le> row_used r \<and> row_used r \<le> maxTrafficCounter)"

definition dir_row :: "bool \<Rightarrow> user_row \<Rightarrow> int" where
  "dir_row up r = (if up then row_upload r else row_download r)"

definition dir_amount :: "bool \<Rightarrow> traffic \<Rightarrow> int" where
  "dir_amount up t = uint (if up then Up t else Down t)"

text \<open>The charge of a user and the amount a map holds for a user, in one direction.\<close>

definition charged :: "bool \<Rightarrow> traffic_db \<Rightarrow> string \<Rightarrow> int" where
  "charged up db h = (case map_of (rows db) h of None \<Rightarrow> 0 | Some r \<Rightarrow> dir_row up r)"

definition amount :: "bool \<Rightarrow> traffic_map \<Rightarrow> string \<Rightarrow> int" where
  "amount up m h = (case map_of m h of None \<Rightarrow> 0 | Some t \<Rightarrow> dir_amount up t)"

lemma newTrafficIncrement_one:
  "newTrafficIncrement up down 1 = Inr i \<Longrightarrow>
     Upload i = uint up \<and> Download i = uint down"
  by (auto simp: newTrafficIncrement_def Let_def split: option.splits if_splits)

lemma row_add_zero: "Upload i = 0 \<Longrightarrow> Download i = 0 \<Longrightarrow> UsedInc i = 0 \<Longrightarrow> row_add i r = r"
  by (simp add: row_add_def)

lemma persist_effect:
  assumes "persistTrafficIncrement k i db = Inr db'"
  shows "receipts db' = receipts db \<and>
    map_of (rows db') h =
      (if h = k \<and> k \<noteq> [] then map_option (row_add i) (map_of (rows db) h) else map_of (rows db) h)"
proof (cases "k = [] \<or> Upload i = 0 \<and> Download i = 0 \<and> UsedInc i = 0")
  case True
  then have "db' = db" using assms by (simp add: persistTrafficIncrement_def)
  moreover have "map_option (row_add i) (map_of (rows db) h) = map_of (rows db) h" if "k \<noteq> []"
    using True that by (cases "map_of (rows db) h") (auto simp: row_add_zero)
  ultimately show ?thesis by metis
next
  case False
  then show ?thesis using assms
    by (auto simp: persistTrafficIncrement_def update_conv' split: option.splits if_splits)
qed

lemma persist_all_effect:
  assumes "persist_all is db = Inr db'" "distinct (map fst is)" "[] \<notin> fst ` set is"
  shows "receipts db' = receipts db \<and>
    map_of (rows db') h = (case map_of is h of None \<Rightarrow> map_of (rows db) h
      | Some i \<Rightarrow> map_option (row_add i) (map_of (rows db) h))"
  using assms
proof (induction "is" arbitrary: db)
  case Nil
  then show ?case by simp
next
  case (Cons x xs)
  obtain k i where x: "x = (k, i)" by fastforce
  obtain db1 where 1: "persistTrafficIncrement k i db = Inr db1" "persist_all xs db1 = Inr db'"
    using Cons.prems(1) x by (auto split: sum.splits)
  have "k \<notin> fst ` set xs" "k \<noteq> []" using Cons.prems(2,3) x by auto
  then have "h = k \<Longrightarrow> map_of xs h = None" by (simp add: map_of_eq_None_iff)
  moreover have "receipts db' = receipts db1 \<and> map_of (rows db') h = (case map_of xs h of
      None \<Rightarrow> map_of (rows db1) h | Some i \<Rightarrow> map_option (row_add i) (map_of (rows db1) h))"
    using Cons.IH [OF 1(2)] Cons.prems(2,3) by simp
  ultimately show ?case using persist_effect [OF 1(1), of h] \<open>k \<noteq> []\<close> x
    by (cases "h = k") (simp_all split: option.splits)
qed

lemma batch_increments_effect:
  assumes "batch_increments rate m = Inr is" "distinct (map fst m)"
  shows "distinct (map fst is) \<and> fst ` set is = fst ` set m - {[]} \<and>
    (h \<noteq> [] \<longrightarrow> (case map_of m h of None \<Rightarrow> map_of is h = None
      | Some t \<Rightarrow> \<exists>i. map_of is h = Some i \<and> newTrafficIncrement (Up t) (Down t) rate = Inr i))"
  using assms
proof (induction rate m arbitrary: "is" rule: batch_increments.induct)
  case (1 rate)
  then show ?case by simp
next
  case (2 rate k t rest)
  show ?case
  proof (cases "k = []")
    case True
    with 2 show ?thesis by (auto split: option.splits)
  next
    case False
    obtain i js where ij: "newTrafficIncrement (Up t) (Down t) rate = Inr i"
        "batch_increments rate rest = Inr js" "is = (k, i) # js"
      using 2(3) False by (auto split: sum.splits)
    have "k \<notin> fst ` set rest" "distinct (map fst rest)" using 2(4) by auto
    with 2(2) [OF False ij(1,2)] ij False show ?thesis
      by (cases "h = k"; cases "map_of rest h") auto
  qed
qed

lemma transaction_effect:
  assumes "traffic_transaction down now syncID m db = Inr db'" "distinct (map fst m)"
    "map_of (receipts db) syncID = None"
  shows "receipts db' = receipts db @ [(syncID, now)]"
    "h \<noteq> [] \<Longrightarrow> charged up db' h = charged up db h + (if map_of (rows db) h = None then 0 else amount up m h)"
    "map_of (rows db') h = None \<longleftrightarrow> map_of (rows db) h = None"
proof -
  obtain js where js: "batch_increments 1 m = Inr js"
      "persist_all js (db\<lparr>receipts := receipts db @ [(syncID, now)]\<rparr>) = Inr db'"
    using assms(1,3) by (auto simp: traffic_transaction_def split: if_splits sum.splits)
  note B = batch_increments_effect [OF js(1) assms(2)]
  have P: "receipts db' = receipts db @ [(syncID, now)] \<and> map_of (rows db') h =
      (case map_of js h of None \<Rightarrow> map_of (rows db) h
       | Some i \<Rightarrow> map_option (row_add i) (map_of (rows db) h))" for h
    using persist_all_effect [OF js(2), of h] B by (cases "map_of js h") auto
  then show "receipts db' = receipts db @ [(syncID, now)]" by blast
  show "map_of (rows db') h = None \<longleftrightarrow> map_of (rows db) h = None"
    using P [of h] by (auto split: option.splits)
  assume h: "h \<noteq> []"
  show "charged up db' h = charged up db h + (if map_of (rows db) h = None then 0 else amount up m h)"
  proof (cases "map_of m h")
    case None
    with B [of h] h P [of h] show ?thesis by (simp add: charged_def amount_def)
  next
    case (Some t)
    then obtain i where i: "map_of js h = Some i" "newTrafficIncrement (Up t) (Down t) 1 = Inr i"
      using B [of h] h by auto
    then show ?thesis
      using P [of h] Some newTrafficIncrement_one [OF i(2)]
      by (auto simp: charged_def amount_def dir_amount_def dir_row_def row_add_def split: option.splits)
  qed
qed

text \<open>The reply to a batch: either it is (or was) applied, or nothing happened.\<close>

lemma handle_reply:
  assumes "handleDataPlaneTraffic down now syncID m db = (status, db')" "distinct (map fst m)"
  shows "status \<noteq> 200 \<Longrightarrow> db' = db"
    and "map_of (receipts db) syncID \<noteq> None \<Longrightarrow> db' = db"
    and "status = 200 \<Longrightarrow> map_of (receipts db) syncID = None \<Longrightarrow>
      receipts db' = receipts db @ [(syncID, now)]"
    and "status = 200 \<Longrightarrow> map_of (receipts db) syncID = None \<Longrightarrow> h \<noteq> [] \<Longrightarrow>
      charged up db' h = charged up db h + (if map_of (rows db) h = None then 0 else amount up m h)"
    and "map_of (rows db') h = None \<longleftrightarrow> map_of (rows db) h = None"
proof -
  show "status \<noteq> 200 \<Longrightarrow> db' = db" "map_of (receipts db) syncID \<noteq> None \<Longrightarrow> db' = db"
    using assms(1) by (auto simp: handleDataPlaneTraffic_def traffic_transaction_def
        split: if_splits sum.splits)
  have T: "traffic_transaction down now syncID m db = Inr db'" if "status = 200"
    using assms(1) that by (auto simp: handleDataPlaneTraffic_def split: if_splits sum.splits)
  show "status = 200 \<Longrightarrow> map_of (receipts db) syncID = None \<Longrightarrow>
      receipts db' = receipts db @ [(syncID, now)]"
    "status = 200 \<Longrightarrow> map_of (receipts db) syncID = None \<Longrightarrow> h \<noteq> [] \<Longrightarrow>
      charged up db' h = charged up db h + (if map_of (rows db) h = None then 0 else amount up m h)"
    using transaction_effect [OF T assms(2)] by blast+
  show "map_of (rows db') h = None \<longleftrightarrow> map_of (rows db) h = None"
    using transaction_effect(3) [OF T assms(2)] \<open>status \<noteq> 200 \<Longrightarrow> db' = db\<close>
      \<open>map_of (receipts db) syncID \<noteq> None \<Longrightarrow> db' = db\<close> by blast
qed

section \<open>Bounds\<close>

lemma total_no_wrap:
  fixes up down :: u64
  assumes "uint up \<le> maxTrafficCounter" "uint down \<le> maxTrafficCounter"
    "\<not> up > word_of_int maxTrafficCounter - down"
  shows "uint (up + down) = uint up + uint down \<and> uint up + uint down \<le> maxTrafficCounter"
proof -
  have m: "uint (word_of_int maxTrafficCounter :: u64) = maxTrafficCounter"
    by (simp add: maxTrafficCounter_def uint_word_of_int)
  have "uint (word_of_int maxTrafficCounter - down) = maxTrafficCounter - uint down"
    using assms(2) m by (subst uint_sub_lem [THEN iffD1]) (simp_all add: word_le_def)
  then have le: "uint up + uint down \<le> maxTrafficCounter"
    using assms(3) by (simp add: word_less_def not_less)
  then have "uint up + uint down < 2 ^ LENGTH(64)" by (simp add: maxTrafficCounter_def)
  then show ?thesis using le uint_add_lem [of up down] by simp
qed

text \<open>C22. An increment never leaves int64. Whatever 64-bit counters a report carries and whatever
  rate is configured, the increment that is computed has non-negative fields, its two
  directions add up without wrap-around to at most the int64 maximum, the charged amount is below
  \<open>2 ^ 63\<close>, and at rate 1 it is exactly the sum of the two directions.\<close>

theorem increment_bounds:
  assumes "newTrafficIncrement up down rate = Inr i"
  shows "Upload i = uint up \<and> Download i = uint down \<and> 0 \<le> UsedInc i \<and>
    uint up + uint down \<le> maxTrafficCounter \<and> UsedInc i \<le> maxTrafficCounter \<and>
    (rate = 1 \<longrightarrow> UsedInc i = uint up + uint down)"
proof -
  have c: "uint up \<le> maxTrafficCounter" "uint down \<le> maxTrafficCounter"
    "\<not> up > word_of_int maxTrafficCounter - down" "\<not> rate \<le> 0"
    using assms by (auto simp: newTrafficIncrement_def ValidateTrafficRate_def split: if_splits)
  note t = total_no_wrap [OF c(1-3)]
  have nonneg: "0 \<le> f64_round x" for x
  proof (cases "x \<le> 0")
    case False
    then have "0 \<le> x / 2 powi (rat_exponent x - 52)" by simp
    then have "0 \<le> round_even (x / 2 powi (rat_exponent x - 52))"
      by (auto simp: round_even_def Let_def)
    with False show ?thesis by (simp add: f64_round_def Let_def)
  qed (simp add: f64_round_def)
  show ?thesis
  proof (cases "rate = 1")
    case True
    then show ?thesis using assms t c
      by (auto simp: newTrafficIncrement_def ValidateTrafficRate_def Let_def split: if_splits)
  next
    case False
    let ?s = "f64_round (f64_round (of_int (uint (up + down))) * rate)"
    have i: "i = \<lparr>Upload = uint up, Download = uint down, UsedInc = \<lfloor>?s\<rfloor>\<rparr>" "?s < 2 ^ 63"
      using assms False by (auto simp: newTrafficIncrement_def Let_def split: option.splits if_splits)
    have "?s < of_int (2 ^ 63)" using i(2) by simp
    then have "\<lfloor>?s\<rfloor> < 2 ^ 63" using floor_less_iff by blast
    then show ?thesis using i(1) t False nonneg by (simp add: maxTrafficCounter_def)
  qed
qed

theorem increment_bounds_witness:
  "\<exists>i. newTrafficIncrement 5 7 2 = Inr i \<and> UsedInc i \<le> maxTrafficCounter \<and> UsedInc i = 24"
proof -
  have "newTrafficIncrement 5 7 2 = Inr \<lparr>Upload = 5, Download = 7, UsedInc = 24\<rparr>"
    by code_simp
  with increment_bounds [OF this] show ?thesis by auto
qed

section \<open>Retries\<close>

text \<open>One batch delivered several times, at different times and with the database failing now and
  then. The first component tells whether some delivery was answered with 200.\<close>

definition deliver :: "string \<Rightarrow> traffic_map \<Rightarrow> bool \<times> int \<Rightarrow> bool \<times> traffic_db \<Rightarrow> bool \<times> traffic_db" where
  "deliver syncID m try st =
     (case handleDataPlaneTraffic (fst try) (snd try) syncID m (snd st) of
        (status, db') \<Rightarrow> (fst st \<or> status = 200, db'))"

definition delivered_inv :: "traffic_db \<Rightarrow> string \<Rightarrow> traffic_map \<Rightarrow> bool \<Rightarrow> string \<Rightarrow> bool \<times> traffic_db \<Rightarrow> bool" where
  "delivered_inv db0 syncID m up h st \<longleftrightarrow>
     (map_of (receipts (snd st)) syncID \<noteq> None \<longleftrightarrow> fst st) \<and>
     map_of (rows (snd st)) h \<noteq> None \<and>
     charged up (snd st) h = charged up db0 h + (if fst st then amount up m h else 0)"

lemma deliver_inv:
  assumes "distinct (map fst m)" "h \<noteq> []" "delivered_inv db0 syncID m up h st"
  shows "delivered_inv db0 syncID m up h (deliver syncID m try st)"
proof -
  obtain status db' where H: "handleDataPlaneTraffic (fst try) (snd try) syncID m (snd st) = (status, db')"
    by fastforce
  note R = handle_reply [OF H assms(1)]
  show ?thesis
  proof (cases "status = 200 \<and> map_of (receipts (snd st)) syncID = None")
    case True
    then have f: "\<not> fst st" using assms(3) by (simp add: delivered_inv_def)
    have "map_of (receipts db') syncID \<noteq> None"
      using R(3) True by (simp add: map_of_eq_None_iff)
    with True f show ?thesis
      using R(4) [OF _ _ assms(2), of up] R(5) [of h] assms(3) H
      by (auto simp: delivered_inv_def deliver_def)
  next
    case False
    then have "db' = snd st" using R(1,2) by blast
    with False H assms(3) show ?thesis by (auto simp: delivered_inv_def deliver_def)
  qed
qed

text \<open>A report is charged exactly once. A batch whose id was not seen before may be delivered any
  number of times, in any mixture of database failures and successes: a known user is charged
  the batch's amount once if some delivery was answered with success, and nothing otherwise, in
  both directions.\<close>

theorem batch_charged_once:
  fixes tries :: "(bool \<times> int) list" and db0 :: traffic_db and syncID :: string and m :: traffic_map
  defines "r \<equiv> fold (deliver syncID m) tries (False, db0)"
  assumes "distinct (map fst m)" "map_of (receipts db0) syncID = None" "h \<noteq> []"
    "map_of (rows db0) h \<noteq> None"
  shows "charged up (snd r) h = charged up db0 h + (if fst r then amount up m h else 0) \<and>
    (map_of (receipts (snd r)) syncID \<noteq> None \<longleftrightarrow> fst r)"
proof -
  have "delivered_inv db0 syncID m up h st \<Longrightarrow>
      delivered_inv db0 syncID m up h (fold (deliver syncID m) tries st)" for st
    by (induction tries arbitrary: st) (simp_all add: deliver_inv [OF assms(2,4)])
  from this [of "(False, db0)"] show ?thesis
    using assms by (simp add: delivered_inv_def r_def)
qed

definition sample_db :: traffic_db where
  "sample_db = \<lparr>rows = [(''u'', \<lparr>row_upload = 10, row_download = 20, row_used = 30\<rparr>)], receipts = []\<rparr>"

theorem batch_charged_once_witness:
  "let r = fold (deliver ''id'' [(''u'', \<lparr>Up = 1, Down = 2\<rparr>)]) [(True, 5), (False, 6), (False, 7)]
         (False, sample_db)
   in fst r \<and> charged True (snd r) ''u'' = 11"
proof -
  have ok: "fst (fold (deliver ''id'' [(''u'', \<lparr>Up = 1, Down = 2\<rparr>)]) [(True, 5), (False, 6), (False, 7)]
      (False, sample_db))" by code_simp
  have "amount True [(''u'', \<lparr>Up = 1, Down = 2\<rparr>)] ''u'' = 1" "charged True sample_db ''u'' = 10"
    by code_simp+
  with ok batch_charged_once [of "[(''u'', \<lparr>Up = 1, Down = 2\<rparr>)]" sample_db "''id''" "''u''" True
      "[(True, 5), (False, 6), (False, 7)]"]
  show ?thesis by (simp add: sample_db_def Let_def)
qed

end
