(* ===== verification/Go_Net.thy ===== *)
theory Go_Net
  imports Go_Prelude
begin

text \<open>
  The functions of Go's \<open>net\<close>, \<open>strconv\<close> and \<open>strings\<close> that the sources call, as the standard
  library defines them: textual IP addresses (\<open>ParseIP\<close>, \<open>IP.To4\<close>, \<open>IP.To16\<close>,
  \<open>IP.String\<close>, \<open>IP.IsLoopback\<close>), \<open>SplitHostPort\<close>, decimal conversion and the string
  predicates. An IP is a byte list; \<open>[]\<close> is the nil slice.
\<close>

section \<open>Characters and numbers\<close>

definition code :: "char \<Rightarrow> nat" where
  "code c = of_char c"

definition is_digit :: "char \<Rightarrow> bool" where
  "is_digit c \<longleftrightarrow> 48 \<le> code c \<and> code c \<le> 57"

fun hex_val :: "char \<Rightarrow> nat option" where
  "hex_val c =
     (if 48 \<le> code c \<and> code c \<le> 57 then Some (code c - 48)
      else if 97 \<le> code c \<and> code c \<le> 102 then Some (code c - 87)
      else if 65 \<le> code c \<and> code c \<le> 70 then Some (code c - 55)
      else None)"

definition is_hex :: "char \<Rightarrow> bool" where
  "is_hex c \<longleftrightarrow> hex_val c \<noteq> None"

fun dec_digits :: "nat \<Rightarrow> string" where
  "dec_digits n = (if n < 10 then [char_of (48 + n)]
                   else dec_digits (n div 10) @ [char_of (48 + n mod 10)])"

declare dec_digits.simps [simp del]

definition dec_string :: "int \<Rightarrow> string" where
  "dec_string i = (if i < 0 then ''-'' @ dec_digits (nat (- i)) else dec_digits (nat i))"

definition zero_pad :: "nat \<Rightarrow> nat \<Rightarrow> string" where
  "zero_pad w n = replicate (w - length (dec_digits n)) CHR ''0'' @ dec_digits n"

definition digits_val :: "string \<Rightarrow> int" where
  "digits_val ds = foldl (\<lambda>acc c. acc * 10 + int (code c - 48)) 0 ds"

definition hex_value :: "string \<Rightarrow> nat" where
  "hex_value hs = foldl (\<lambda>acc c. acc * 16 + (case hex_val c of None \<Rightarrow> 0 | Some d \<Rightarrow> d)) 0 hs"

text \<open>\<open>strconv.ParseInt(s, 10, bits)\<close>: \<open>None\<close> is a syntax or range error.\<close>

definition ParseInt :: "nat \<Rightarrow> string \<Rightarrow> int option" where
  "ParseInt bits s =
     (let neg = (s \<noteq> [] \<and> hd s = CHR ''-'');
          ds = (if s \<noteq> [] \<and> (hd s = CHR ''-'' \<or> hd s = CHR ''+'') then tl s else s)
      in if ds = [] \<or> \<not> list_all is_digit ds then None
         else let un = digits_val ds; cutoff = 2 ^ (bits - 1)
              in if \<not> neg \<and> un \<ge> cutoff then None
                 else if neg \<and> un > cutoff then None
                 else Some (if neg then - un else un))"

section \<open>IP addresses\<close>

definition v4InV6Prefix :: bytes where
  "v4InV6Prefix = [0, 0, 0, 0, 0, 0, 0, 0, 0, 0, 255, 255]"

definition IP_To4 :: "bytes \<Rightarrow> bytes" where
  "IP_To4 ip =
     (if length ip = 4 then ip
      else if length ip = 16 \<and> take 12 ip = v4InV6Prefix then drop 12 ip
      else [])"

definition IP_To16 :: "bytes \<Rightarrow> bytes" where
  "IP_To16 ip =
     (if length ip = 4 then v4InV6Prefix @ ip else if length ip = 16 then ip else [])"

definition IP_IsLoopback :: "bytes \<Rightarrow> bool" where
  "IP_IsLoopback ip =
     (if IP_To4 ip \<noteq> [] then hd (IP_To4 ip) = 127
      else ip = replicate 15 0 @ [1])"

text \<open>The dotted-quad scanner: \<open>val\<close> and \<open>digLen\<close> describe the current octet, \<open>start\<close> holds
  at the first character and right after a dot.\<close>

fun ipv4_fields :: "nat \<Rightarrow> nat \<Rightarrow> bytes \<Rightarrow> bool \<Rightarrow> string \<Rightarrow> bytes option" where
  "ipv4_fields val digLen fields start [] =
     (if length fields < 3 then None else Some (fields @ [of_nat val]))"
| "ipv4_fields val digLen fields start (c # cs) =
     (if is_digit c then
        if digLen = 1 \<and> val = 0 then None
        else let v = val * 10 + (code c - 48)
             in if v > 255 then None else ipv4_fields v (Suc digLen) fields False cs
      else if c = CHR ''.'' then
        if start \<or> cs = [] then None
        else if length fields = 3 then None
        else ipv4_fields 0 0 (fields @ [of_nat val]) True cs
      else None)"

definition parse_ipv4 :: "string \<Rightarrow> bytes option" where
  "parse_ipv4 s = ipv4_fields 0 0 [] True s"

text \<open>The loop over the colon-separated groups: the bytes so far, the position of \<open>::\<close> and
  the rest of the text.\<close>

function ipv6_groups :: "bytes \<Rightarrow> nat option \<Rightarrow> string \<Rightarrow> (bytes \<times> nat option \<times> string) option" where
  "ipv6_groups ip ell s =
     (if 16 \<le> length ip then Some (ip, ell, s)
      else
        let hs = takeWhile is_hex s; s1 = dropWhile is_hex s
        in if hs = [] \<or> 4 < length hs then None
           else if s1 \<noteq> [] \<and> hd s1 = CHR ''.'' then
             if ell = None \<and> length ip \<noteq> 12 then None
             else if length ip + 4 > 16 then None
             else (case parse_ipv4 s of None \<Rightarrow> None | Some f \<Rightarrow> Some (ip @ f, ell, []))
           else
             let v = hex_value hs; ip' = ip @ [of_nat (v div 256), of_nat v]
             in if s1 = [] then Some (ip', ell, [])
                else if hd s1 \<noteq> CHR '':'' \<or> tl s1 = [] then None
                else let s2 = tl s1
                     in if hd s2 = CHR '':'' then
                          if ell \<noteq> None then None
                          else if tl s2 = [] then Some (ip', Some (length ip'), [])
                          else ipv6_groups ip' (Some (length ip')) (tl s2)
                        else ipv6_groups ip' ell s2)"
  by pat_completeness auto
termination
  by (relation "measure (\<lambda>(ip, ell, s). 16 - length ip)") (auto simp: Let_def)

declare ipv6_groups.simps [simp del]

definition parse_ipv6 :: "string \<Rightarrow> bytes option" where
  "parse_ipv6 s =
     (let s0 = (if take 2 s = ''::'' then drop 2 s else s);
          ell0 = (if take 2 s = ''::'' then Some 0 else None)
      in if take 2 s = ''::'' \<and> s0 = [] then Some (replicate 16 0)
         else case ipv6_groups [] ell0 s0 of
           None \<Rightarrow> None
         | Some (ip, ell, rest) \<Rightarrow>
             if rest \<noteq> [] then None
             else if length ip < 16 then
               (case ell of
                  None \<Rightarrow> None
                | Some e \<Rightarrow> Some (take e ip @ replicate (16 - length ip) 0 @ drop e ip))
             else if ell \<noteq> None then None
             else Some ip)"

text \<open>\<open>net.ParseIP\<close>: the 16-byte form, or nil (\<open>[]\<close>). Zones are refused.\<close>

definition ParseIP :: "string \<Rightarrow> bytes" where
  "ParseIP s =
     (if CHR ''%'' \<in> set s then []
      else case filter (\<lambda>c. c = CHR ''.'' \<or> c = CHR '':'') s of
        [] \<Rightarrow> []
      | c # _ \<Rightarrow>
          if c = CHR ''.''
          then (case parse_ipv4 s of None \<Rightarrow> [] | Some f \<Rightarrow> v4InV6Prefix @ f)
          else (case parse_ipv6 s of None \<Rightarrow> [] | Some ip \<Rightarrow> ip))"

section \<open>Printing addresses\<close>

definition dotted :: "bytes \<Rightarrow> string" where
  "dotted ip = concat (map (\<lambda>i. (if i = 0 then [] else ''.'') @ dec_digits (unat (ip ! i))) [0..<4])"

definition hex_digit :: "nat \<Rightarrow> char" where
  "hex_digit n = (if n < 10 then char_of (48 + n) else char_of (87 + n))"

fun hex_digits :: "nat \<Rightarrow> string" where
  "hex_digits n = (if n < 16 then [hex_digit n] else hex_digits (n div 16) @ [hex_digit (n mod 16)])"

declare hex_digits.simps [simp del]

fun groups16 :: "bytes \<Rightarrow> nat list" where
  "groups16 (a # b # r) = (unat a * 256 + unat b) # groups16 r"
| "groups16 _ = []"

text \<open>The leftmost longest run of at least two zero groups, as the pair of its bounds.\<close>

fun zero_run_from :: "nat list \<Rightarrow> nat" where
  "zero_run_from (0 # gs) = Suc (zero_run_from gs)"
| "zero_run_from _ = 0"

definition zero_run :: "nat list \<Rightarrow> (nat \<times> nat) option" where
  "zero_run gs =
     fold (\<lambda>i best. let l = zero_run_from (drop i gs)
                    in if l \<ge> 2 \<and> l > (case best of None \<Rightarrow> 0 | Some (a, b) \<Rightarrow> b - a)
                       then Some (i, i + l) else best) [0..<length gs] None"

definition join_hex :: "nat list \<Rightarrow> string" where
  "join_hex gs =
     concat (map (\<lambda>i. (if i = 0 then [] else '':'') @ hex_digits (gs ! i)) [0..<length gs])"

definition ipv6_string :: "bytes \<Rightarrow> string" where
  "ipv6_string ip =
     (let gs = groups16 ip
      in case zero_run gs of
           None \<Rightarrow> join_hex gs
         | Some (a, b) \<Rightarrow> join_hex (take a gs) @ ''::'' @ join_hex (drop b gs))"

definition IP_String :: "bytes \<Rightarrow> string" where
  "IP_String ip =
     (if ip = [] then ''<nil>''
      else if IP_To4 ip \<noteq> [] then dotted (IP_To4 ip)
      else if length ip = 16 then ipv6_string ip
      else ''?'' @ concat (map (\<lambda>b. [hex_digit (unat b div 16), hex_digit (unat b mod 16)]) ip))"

section \<open>Host and port\<close>

definition last_index :: "char \<Rightarrow> string \<Rightarrow> nat option" where
  "last_index c s = fold (\<lambda>i r. if s ! i = c then Some i else r) [0..<length s] None"

fun index_char :: "char \<Rightarrow> string \<Rightarrow> nat option" where
  "index_char c [] = None"
| "index_char c (x # xs) = (if x = c then Some 0 else map_option Suc (index_char c xs))"

definition SplitHostPort :: "string \<Rightarrow> (string \<times> string) option" where
  "SplitHostPort hp =
     (case last_index (CHR '':'') hp of
        None \<Rightarrow> None
      | Some i \<Rightarrow>
          if hd hp = CHR ''['' then
            (case index_char (CHR '']'') hp of
               None \<Rightarrow> None
             | Some e \<Rightarrow>
                 if Suc e \<noteq> i then None
                 else if CHR ''['' \<in> set (drop 1 hp) \<or> CHR '']'' \<in> set (drop (Suc e) hp) then None
                 else Some (take (e - 1) (drop 1 hp), drop (Suc i) hp))
          else
            let host = take i hp
            in if CHR '':'' \<in> set host then None
               else if CHR ''['' \<in> set hp \<or> CHR '']'' \<in> set hp then None
               else Some (host, drop (Suc i) hp))"

section \<open>Strings\<close>

definition HasPrefix :: "string \<Rightarrow> string \<Rightarrow> bool" where
  "HasPrefix s p \<longleftrightarrow> take (length p) s = p"

definition HasSuffix :: "string \<Rightarrow> string \<Rightarrow> bool" where
  "HasSuffix s p \<longleftrightarrow> length p \<le> length s \<and> drop (length s - length p) s = p"

text \<open>\<open>strings.Index\<close>: the first position where \<open>p\<close> occurs.\<close>

fun Index :: "string \<Rightarrow> string \<Rightarrow> nat option" where
  "Index [] p = (if p = [] then Some 0 else None)"
| "Index (x # xs) p =
     (if HasPrefix (x # xs) p then Some 0 else map_option Suc (Index xs p))"

definition Contains :: "string \<Rightarrow> string \<Rightarrow> bool" where
  "Contains s p \<longleftrightarrow> Index s p \<noteq> None"

text \<open>\<open>strings.ToLower\<close> on ASCII text.\<close>

definition ascii_lower :: "string \<Rightarrow> string" where
  "ascii_lower s = map (\<lambda>c. if 65 \<le> code c \<and> code c \<le> 90 then char_of (code c + 32) else c) s"

definition ascii_upper :: "string \<Rightarrow> string" where
  "ascii_upper s = map (\<lambda>c. if 97 \<le> code c \<and> code c \<le> 122 then char_of (code c - 32) else c) s"

text \<open>\<open>strings.Split\<close> at a one-character separator.\<close>

fun split_at :: "char \<Rightarrow> string \<Rightarrow> string list" where
  "split_at c [] = [[]]"
| "split_at c (x # xs) =
     (if x = c then [] # split_at c xs
      else case split_at c xs of [] \<Rightarrow> [[x]] | w # ws \<Rightarrow> (x # w) # ws)"

section \<open>Lemmas\<close>

lemma length_v4InV6Prefix [simp]: "length v4InV6Prefix = 12"
  by (simp add: v4InV6Prefix_def)

lemma length_ipv4_fields: "ipv4_fields v d fs st s = Some r \<Longrightarrow> length fs \<le> 3 \<Longrightarrow> length r = 4"
  by (induction s arbitrary: v d fs st) (auto simp: Let_def split: if_splits)

lemma length_parse_ipv4: "parse_ipv4 s = Some r \<Longrightarrow> length r = 4"
  by (simp add: parse_ipv4_def length_ipv4_fields)

lemma HasPrefix_append [simp]: "HasPrefix (p @ s) p"
  by (simp add: HasPrefix_def)

lemma HasSuffix_append [simp]: "HasSuffix (s @ p) p"
  by (simp add: HasSuffix_def)

lemma HasSuffix_iff: "HasSuffix s p \<longleftrightarrow> (\<exists>q. s = q @ p)"
  by (metis HasSuffix_append HasSuffix_def append_take_drop_id)

lemma HasPrefix_iff: "HasPrefix s p \<longleftrightarrow> (\<exists>q. s = p @ q)"
  by (metis HasPrefix_append HasPrefix_def append_take_drop_id)

text \<open>Decimal text is read back.\<close>

lemma digits_val_append: "digits_val (xs @ [c]) = digits_val xs * 10 + int (code c - 48)"
  by (simp add: digits_val_def)

lemma code_of_char_of: "n < 256 \<Longrightarrow> code (char_of n) = n"
  by (simp add: code_def)

lemma digits_val_dec: "digits_val (dec_digits n) = int n"
proof (induction n rule: dec_digits.induct)
  case (1 n)
  show ?case
  proof (cases "n < 10")
    case True
    then show ?thesis by (simp add: dec_digits.simps [of n] digits_val_def code_of_char_of)
  next
    case False
    moreover have "int (n div 10) * 10 + int (n mod 10) = int n" by presburger
    ultimately show ?thesis using 1 by (simp add: dec_digits.simps [of n] digits_val_append code_of_char_of)
  qed
qed

lemma dec_digits_digits: "c \<in> set (dec_digits n) \<Longrightarrow> is_digit c"
proof (induction n rule: dec_digits.induct)
  case (1 n)
  have "is_digit (char_of (48 + k))" if "k < 10" for k :: nat using that by (simp add: is_digit_def code_of_char_of)
  then show ?case using 1 by (cases "n < 10") (auto simp: dec_digits.simps [of n])
qed

lemma dec_digits_ne [simp]: "dec_digits n \<noteq> []"
  by (subst dec_digits.simps) simp

lemma ParseInt_dec: "n < 2 ^ 63 \<Longrightarrow> ParseInt 64 (dec_digits n) = Some (int n)"
proof -
  assume n: "n < 2 ^ 63"
  have d: "list_all is_digit (dec_digits n)" using dec_digits_digits by (auto simp: list_all_iff)
  then have "is_digit (hd (dec_digits n))" by (simp add: list_all_iff)
  then have "hd (dec_digits n) \<noteq> CHR ''-''" "hd (dec_digits n) \<noteq> CHR ''+''" by (auto simp: is_digit_def code_def)
  moreover have "int n < 2 ^ 63" using n by (metis of_nat_less_iff of_nat_numeral of_nat_power)
  ultimately show ?thesis using d by (simp add: ParseInt_def Let_def digits_val_dec)
qed

end
