(* ===== verification/Memory_Stat.thy ===== *)
theory Memory_Stat
  imports Sha224
begin

text \<open>
  \<open>statistic/statistics.go\<close> and \<open>statistic/memory/memory.go\<close>: the in-memory user meters and the
  authenticator. A Go \<open>*User\<close> outlives its entry in the authenticator's table (an open
  connection keeps the pointer after \<open>DelUser\<close>), so users live in a heap and the table maps
  hashes to heap addresses. Every method runs under its lock and is one step of the model.
  \<open>x/time/rate\<close> limiters only delay \<open>AddTraffic\<close> (its result is discarded), so a limiter is
  its configured limit and burst.
\<close>

section \<open>User\<close>

record limiter =
  lim_limit :: int
  lim_burst :: int

record mem_user =
  sent :: u64
  recv :: u64
  lastSent :: u64
  lastRecv :: u64
  sendSpeed :: u64
  recvSpeed :: u64
  hash :: string
  ipTable :: "string list"
  maxIPNum :: int
  sendLimiter :: "limiter option"
  recvLimiter :: "limiter option"
  cancelled :: bool

definition new_user :: "string \<Rightarrow> mem_user" where
  "new_user h =
     \<lparr>sent = 0, recv = 0, lastSent = 0, lastRecv = 0, sendSpeed = 0, recvSpeed = 0, hash = h,
      ipTable = [], maxIPNum = 0, sendLimiter = None, recvLimiter = None, cancelled = False\<rparr>"

definition AddIP :: "string \<Rightarrow> mem_user \<Rightarrow> bool \<times> mem_user" where
  "AddIP ip u =
     (if maxIPNum u \<le> 0 then (True, u)
      else if ip \<in> set (ipTable u) then (True, u)
      else if int (length (ipTable u)) \<ge> maxIPNum u then (False, u)
      else (True, u\<lparr>ipTable := ipTable u @ [ip]\<rparr>))"

definition DelIP :: "string \<Rightarrow> mem_user \<Rightarrow> bool \<times> mem_user" where
  "DelIP ip u =
     (if maxIPNum u \<le> 0 then (True, u)
      else if ip \<notin> set (ipTable u) then (False, u)
      else (True, u\<lparr>ipTable := removeAll ip (ipTable u)\<rparr>))"

definition GetIP :: "mem_user \<Rightarrow> nat" where
  "GetIP u = length (ipTable u)"

definition SetIPLimit :: "int \<Rightarrow> mem_user \<Rightarrow> mem_user" where
  "SetIPLimit n u = (let u1 = u\<lparr>maxIPNum := n\<rparr> in if n \<le> 0 then u1\<lparr>ipTable := []\<rparr> else u1)"

definition GetIPLimit :: "mem_user \<Rightarrow> int" where
  "GetIPLimit u = maxIPNum u"

definition AddTraffic64 :: "u64 \<Rightarrow> u64 \<Rightarrow> mem_user \<Rightarrow> mem_user" where
  "AddTraffic64 s r u = u\<lparr>sent := sent u + s, recv := recv u + r\<rparr>"

definition AddTraffic :: "int \<Rightarrow> int \<Rightarrow> mem_user \<Rightarrow> mem_user" where
  "AddTraffic s r u =
     (if s < 0 \<or> r < 0 then u else AddTraffic64 (word_of_int s) (word_of_int r) u)"

definition SubtractTraffic :: "u64 \<Rightarrow> u64 \<Rightarrow> mem_user \<Rightarrow> mem_user" where
  "SubtractTraffic s r u =
     u\<lparr>sent := (if sent u \<ge> s then sent u - s else 0),
       recv := (if recv u \<ge> r then recv u - r else 0)\<rparr>"

definition SetSpeedLimit :: "int \<Rightarrow> int \<Rightarrow> mem_user \<Rightarrow> mem_user" where
  "SetSpeedLimit send rcv u =
     u\<lparr>sendLimiter := (if send \<le> 0 then None else Some \<lparr>lim_limit = send, lim_burst = send * 2\<rparr>),
       recvLimiter := (if rcv \<le> 0 then None else Some \<lparr>lim_limit = rcv, lim_burst = rcv * 2\<rparr>)\<rparr>"

definition GetSpeedLimit :: "mem_user \<Rightarrow> int \<times> int" where
  "GetSpeedLimit u =
     ((case sendLimiter u of None \<Rightarrow> 0 | Some l \<Rightarrow> lim_limit l),
      (case recvLimiter u of None \<Rightarrow> 0 | Some l \<Rightarrow> lim_limit l))"

definition SetTraffic :: "u64 \<Rightarrow> u64 \<Rightarrow> mem_user \<Rightarrow> mem_user" where
  "SetTraffic s r u = u\<lparr>sent := s, recv := r\<rparr>"

definition GetTraffic :: "mem_user \<Rightarrow> u64 \<times> u64" where
  "GetTraffic u = (sent u, recv u)"

text \<open>The checkpoint callback of \<open>TakeTraffic\<close> runs in some surrounding state \<open>'w\<close>.\<close>

type_synonym 'w checkpoint = "u64 \<Rightarrow> u64 \<Rightarrow> 'w \<Rightarrow> go_error option \<times> 'w"

definition TakeTraffic ::
  "'w checkpoint option \<Rightarrow> mem_user \<Rightarrow> 'w \<Rightarrow> (u64 \<times> u64 \<times> go_error option) \<times> mem_user \<times> 'w" where
  "TakeTraffic ck u w =
     (let s = sent u; r = recv u;
          u' = u\<lparr>sent := 0, recv := 0, lastSent := 0, lastRecv := 0\<rparr>
      in if s = 0 \<and> r = 0 then ((0, 0, None), u, w)
         else case ck of
           None \<Rightarrow> ((s, r, None), u', w)
         | Some f \<Rightarrow>
             (case f s r w of
                (Some e, w') \<Rightarrow> ((s, r, Some e), u, w')
              | (None, w') \<Rightarrow> ((s, r, None), u', w')))"

definition ResetTraffic :: "mem_user \<Rightarrow> (u64 \<times> u64) \<times> mem_user" where
  "ResetTraffic u = (case TakeTraffic None u () of ((s, r, _), u', _) \<Rightarrow> ((s, r), u'))"

definition User_Close :: "mem_user \<Rightarrow> mem_user" where
  "User_Close u = (snd (ResetTraffic u))\<lparr>cancelled := True\<rparr>"

text \<open>One tick of \<open>speedUpdater\<close>.\<close>

definition speed_tick :: "mem_user \<Rightarrow> mem_user" where
  "speed_tick u =
     u\<lparr>sendSpeed := (if sent u \<ge> lastSent u then sent u - lastSent u else 0),
       recvSpeed := (if recv u \<ge> lastRecv u then recv u - lastRecv u else 0),
       lastSent := sent u, lastRecv := recv u\<rparr>"

definition GetSpeed :: "mem_user \<Rightarrow> u64 \<times> u64" where
  "GetSpeed u = (sendSpeed u, recvSpeed u)"

section \<open>Authenticator\<close>

record mem_auth =
  users :: "(string \<times> nat) list"
  heap :: "mem_user list"

definition AuthUser :: "string \<Rightarrow> mem_auth \<Rightarrow> nat option" where
  "AuthUser h a = map_of (users a) h"

definition AddUser :: "string \<Rightarrow> mem_auth \<Rightarrow> go_error option \<times> mem_auth" where
  "AddUser h a =
     (if AuthUser h a \<noteq> None then (Some (NewError (''hash '' @ h @ '' is already exist'')), a)
      else (None, a\<lparr>heap := heap a @ [new_user h], users := users a @ [(h, length (heap a))]\<rparr>))"

definition DelUser :: "string \<Rightarrow> mem_auth \<Rightarrow> go_error option \<times> mem_auth" where
  "DelUser h a =
     (case AuthUser h a of
        None \<Rightarrow> (Some (NewError (''hash '' @ h @ '' not found'')), a)
      | Some p \<Rightarrow>
          (None, a\<lparr>heap := (heap a)[p := User_Close (heap a ! p)],
                   users := filter (\<lambda>(k, _). k \<noteq> h) (users a)\<rparr>))"

definition ListUsers :: "mem_auth \<Rightarrow> nat list" where
  "ListUsers a = map snd (users a)"

definition Auth_Close :: "mem_auth \<Rightarrow> go_error option \<times> mem_auth" where
  "Auth_Close a =
     (None, fold (\<lambda>(k, p) b. b\<lparr>heap := (heap b)[p := User_Close (heap b ! p)],
                              users := filter (\<lambda>(k', _). k' \<noteq> k) (users b)\<rparr>) (users a) a)"

definition empty_auth :: mem_auth where
  "empty_auth = \<lparr>users = [], heap = []\<rparr>"

text \<open>\<open>memory.NewAuthenticator\<close>: the result of \<open>AddUser\<close> is ignored, so a repeated password is
  added once.\<close>

definition NewAuthenticator :: "string list \<Rightarrow> mem_auth" where
  "NewAuthenticator passwords =
     fold (\<lambda>password u. snd (AddUser (SHA224String password) u)) passwords empty_auth"

text \<open>A method call on the user object at address \<open>p\<close>.\<close>

definition on_user :: "nat \<Rightarrow> (mem_user \<Rightarrow> mem_user) \<Rightarrow> mem_auth \<Rightarrow> mem_auth" where
  "on_user p f a = a\<lparr>heap := (heap a)[p := f (heap a ! p)]\<rparr>"

section \<open>The registry of authenticators\<close>

text \<open>\<open>statistics.go\<close>: the creators registered by name and the authenticators cached by context.
  A context is identified by a number; \<open>cs\<close> may fail.\<close>

record 'a auth_registry =
  authCreators :: "(string \<times> (nat \<Rightarrow> 'a outcome)) list"
  createdAuth :: "(nat \<times> 'a) list"

definition RegisterAuthenticatorCreator ::
  "string \<Rightarrow> (nat \<Rightarrow> 'a outcome) \<Rightarrow> 'a auth_registry \<Rightarrow> 'a auth_registry" where
  "RegisterAuthenticatorCreator name cr g =
     g\<lparr>authCreators := (ascii_upper name, cr) # filter (\<lambda>(n, _). n \<noteq> ascii_upper name) (authCreators g)\<rparr>"

definition registry_NewAuthenticator ::
  "nat \<Rightarrow> string \<Rightarrow> 'a auth_registry \<Rightarrow> 'a outcome \<times> 'a auth_registry" where
  "registry_NewAuthenticator ctx name g =
     (case map_of (createdAuth g) ctx of
        Some auth \<Rightarrow> (Ret auth, g)
      | None \<Rightarrow>
          (case map_of (authCreators g) (ascii_upper name) of
             None \<Rightarrow> (Raise (NewError (''auth driver name '' @ name @ '' not found'')), g)
           | Some cr \<Rightarrow>
               (case cr ctx of
                  Ret auth \<Rightarrow> (Ret auth, g\<lparr>createdAuth := (ctx, auth) # createdAuth g\<rparr>)
                | other \<Rightarrow> (other, g))))"

definition DeregisterAuthenticator :: "nat \<Rightarrow> 'a auth_registry \<Rightarrow> 'a auth_registry" where
  "DeregisterAuthenticator ctx g = g\<lparr>createdAuth := filter (\<lambda>(c, _). c \<noteq> ctx) (createdAuth g)\<rparr>"

definition CloseAuthenticator ::
  "('a \<Rightarrow> go_error option) \<Rightarrow> nat \<Rightarrow> 'a auth_registry \<Rightarrow> go_error option \<times> 'a auth_registry" where
  "CloseAuthenticator close ctx g =
     ((case map_of (createdAuth g) ctx of None \<Rightarrow> None | Some auth \<Rightarrow> close auth),
      DeregisterAuthenticator ctx g)"

definition AuthenticatorCount :: "'a auth_registry \<Rightarrow> nat" where
  "AuthenticatorCount g = length (createdAuth g)"

lemmas user_defs = AddIP_def DelIP_def SetIPLimit_def AddTraffic64_def AddTraffic_def
  SubtractTraffic_def SetSpeedLimit_def SetTraffic_def ResetTraffic_def User_Close_def
  speed_tick_def

section \<open>Invariant of the authenticator\<close>

definition auth_inv :: "mem_auth \<Rightarrow> bool" where
  "auth_inv a \<longleftrightarrow> distinct (map fst (users a)) \<and> distinct (map snd (users a)) \<and>
     (\<forall>(h, p) \<in> set (users a). p < length (heap a) \<and> hash (heap a ! p) = h)"

definition user_names :: "mem_auth \<Rightarrow> string set" where
  "user_names a = fst ` set (users a)"

lemma AuthUser_None_iff: "AuthUser h a = None \<longleftrightarrow> h \<notin> user_names a"
  by (simp add: AuthUser_def user_names_def map_of_eq_None_iff)

lemma AuthUser_SomeD: "AuthUser h a = Some p \<Longrightarrow> (h, p) \<in> set (users a)"
  by (simp add: AuthUser_def map_of_SomeD)

lemma hash_User_Close [simp]: "hash (User_Close u) = hash u"
  by (simp add: User_Close_def ResetTraffic_def TakeTraffic_def Let_def)

lemma hash_close_nth:
  "q < length hp \<Longrightarrow> hash (hp[p := User_Close (hp ! p)] ! q) = hash (hp ! q)"
  by (cases "q = p") auto

lemma auth_inv_empty [simp]: "auth_inv empty_auth"
  by (simp add: auth_inv_def empty_auth_def)

lemma user_names_empty [simp]: "user_names empty_auth = {}"
  by (simp add: user_names_def empty_auth_def)

lemma on_user_inv:
  assumes "auth_inv a" "\<And>u. hash (f u) = hash u"
  shows "auth_inv (on_user p f a)" "user_names (on_user p f a) = user_names a"
    "users (on_user p f a) = users a"
proof -
  have "hash ((heap a)[p := f (heap a ! p)] ! q) = hash (heap a ! q)" if "q < length (heap a)" for q
    using that assms(2) by (cases "q = p") auto
  then show "auth_inv (on_user p f a)" using assms(1) by (fastforce simp: on_user_def auth_inv_def)
qed (simp_all add: on_user_def user_names_def)

lemma AddUser_inv: "auth_inv a \<Longrightarrow> auth_inv (snd (AddUser h a))"
  by (auto simp: auth_inv_def AddUser_def AuthUser_None_iff user_names_def nth_append new_user_def
      split: prod.splits; force)

lemma AddUser_names: "user_names (snd (AddUser h a)) = insert h (user_names a)"
proof (cases "AuthUser h a")
  case None
  then show ?thesis by (auto simp: AddUser_def user_names_def)
next
  case (Some p)
  then have "h \<in> user_names a" using AuthUser_None_iff [of h a] by auto
  with Some show ?thesis by (auto simp: AddUser_def)
qed

lemma AddUser_error: "fst (AddUser h a) = None \<longleftrightarrow> h \<notin> user_names a"
  by (simp add: AddUser_def AuthUser_None_iff)

lemma DelUser_inv:
  assumes "auth_inv a"
  shows "auth_inv (snd (DelUser h a))"
proof (cases "AuthUser h a")
  case None
  with assms show ?thesis by (simp add: DelUser_def)
next
  case (Some p)
  have "distinct (map fst (filter (\<lambda>(k, _). k \<noteq> h) (users a)))"
    and "distinct (map snd (filter (\<lambda>(k, _). k \<noteq> h) (users a)))"
    using assms by (simp_all add: auth_inv_def distinct_map_filter)
  with Some assms show ?thesis
    by (auto simp: auth_inv_def DelUser_def hash_close_nth)
qed

lemma DelUser_names: "user_names (snd (DelUser h a)) = user_names a - {h}"
proof (cases "AuthUser h a")
  case None
  then have "h \<notin> user_names a" by (simp add: AuthUser_None_iff)
  with None show ?thesis by (simp add: DelUser_def)
next
  case (Some p)
  then show ?thesis by (auto simp: DelUser_def user_names_def)
qed

lemma DelUser_error: "fst (DelUser h a) = None \<longleftrightarrow> h \<in> user_names a"
  using AuthUser_None_iff [of h a] by (auto simp: DelUser_def split: option.splits)

lemma ListUsers_hashes:
  "auth_inv a \<Longrightarrow> map (\<lambda>p. hash (heap a ! p)) (ListUsers a) = map fst (users a)"
  by (auto simp: ListUsers_def auth_inv_def)

section \<open>The interface the control plane relies on\<close>

text \<open>What a client of \<open>statistic.Authenticator\<close> may assume of the set of users it holds: the
  operations, an invariant, and how each operation changes the set of known hashes.\<close>

locale authenticator =
  fixes add_user :: "string \<Rightarrow> 'a \<Rightarrow> go_error option \<times> 'a"
    and del_user :: "string \<Rightarrow> 'a \<Rightarrow> go_error option \<times> 'a"
    and hashes :: "'a \<Rightarrow> string list"
    and invar :: "'a \<Rightarrow> bool"
  assumes add_invar: "invar a \<Longrightarrow> invar (snd (add_user h a))"
    and add_hashes: "invar a \<Longrightarrow> set (hashes (snd (add_user h a))) = insert h (set (hashes a))"
    and add_err: "invar a \<Longrightarrow> fst (add_user h a) = None \<longleftrightarrow> h \<notin> set (hashes a)"
    and del_invar: "invar a \<Longrightarrow> invar (snd (del_user h a))"
    and del_hashes: "invar a \<Longrightarrow> set (hashes (snd (del_user h a))) = set (hashes a) - {h}"
    and del_err: "invar a \<Longrightarrow> fst (del_user h a) = None \<longleftrightarrow> h \<in> set (hashes a)"
begin

lemma del_all_invar:
  "invar a \<Longrightarrow> invar (fold (\<lambda>h b. snd (del_user h b)) hs a)"
  by (induction hs arbitrary: a) (simp_all add: del_invar)

lemma del_all_hashes:
  "invar a \<Longrightarrow> set (hashes (fold (\<lambda>h b. snd (del_user h b)) hs a)) = set (hashes a) - set hs"
  by (induction hs arbitrary: a) (auto simp: del_invar del_hashes)

lemma add_all_invar:
  "invar a \<Longrightarrow> invar (fold (\<lambda>h b. snd (add_user h b)) hs a)"
  by (induction hs arbitrary: a) (simp_all add: add_invar)

lemma add_all_hashes:
  "invar a \<Longrightarrow> set (hashes (fold (\<lambda>h b. snd (add_user h b)) hs a)) = set (hashes a) \<union> set hs"
  by (induction hs arbitrary: a) (auto simp: add_invar add_hashes)

end

definition auth_hashes :: "mem_auth \<Rightarrow> string list" where
  "auth_hashes a = map (\<lambda>p. hash (heap a ! p)) (ListUsers a)"

lemma set_auth_hashes: "auth_inv a \<Longrightarrow> set (auth_hashes a) = user_names a"
  by (simp add: auth_hashes_def ListUsers_hashes user_names_def)

interpretation mem: authenticator AddUser DelUser auth_hashes auth_inv
  by unfold_locales
    (simp_all add: set_auth_hashes AddUser_inv AddUser_names AddUser_error DelUser_inv
      DelUser_names DelUser_error)

lemma NewAuthenticator_fold:
  "NewAuthenticator ps = fold (\<lambda>h b. snd (AddUser h b)) (map SHA224String ps) empty_auth"
  by (simp add: NewAuthenticator_def fold_map comp_def)

section \<open>Runs of operations\<close>

text \<open>Traffic calls on one user in the order they take its lock. \<open>Take ok\<close> is a \<open>TakeTraffic\<close>
  whose checkpoint succeeds or fails; the surrounding state is the list of amounts that were
  checkpointed.\<close>

datatype traffic_op = Add u64 u64 | Take bool

definition log_checkpoint :: "bool \<Rightarrow> (u64 \<times> u64) list checkpoint" where
  "log_checkpoint succeeds s r w =
     (if succeeds then (None, w @ [(s, r)]) else (Some (Opaque ''checkpoint''), w))"

fun traffic_step :: "traffic_op \<Rightarrow> mem_user \<times> (u64 \<times> u64) list \<Rightarrow> mem_user \<times> (u64 \<times> u64) list" where
  "traffic_step (Add s r) (u, w) = (AddTraffic64 s r u, w)"
| "traffic_step (Take b) (u, w) = snd (TakeTraffic (Some (log_checkpoint b)) u w)"

fun added :: "traffic_op list \<Rightarrow> u64 \<times> u64" where
  "added [] = (0, 0)"
| "added (Add s r # ops) = (s + fst (added ops), r + snd (added ops))"
| "added (Take _ # ops) = added ops"

lemma traffic_step_sum:
  "traffic_step op (u, w) = (u', w') \<Longrightarrow>
     sent u' + sum_list (map fst w') = sent u + sum_list (map fst w) + fst (added [op]) \<and>
     recv u' + sum_list (map snd w') = recv u + sum_list (map snd w) + snd (added [op])"
  by (cases op)
    (auto simp: AddTraffic64_def TakeTraffic_def log_checkpoint_def Let_def split: if_splits)

text \<open>Address-table calls on one user under a fixed limit.\<close>

datatype ip_op = OpAdd string | OpDel string

fun ip_step :: "ip_op \<Rightarrow> mem_user \<Rightarrow> mem_user" where
  "ip_step (OpAdd ip) u = snd (AddIP ip u)"
| "ip_step (OpDel ip) u = snd (DelIP ip u)"

definition ip_bounded :: "int \<Rightarrow> mem_user \<Rightarrow> bool" where
  "ip_bounded n u \<longleftrightarrow> maxIPNum u = n \<and> distinct (ipTable u) \<and> int (length (ipTable u)) \<le> n"

lemma length_removeAll_le: "length (removeAll x xs) \<le> length xs"
  by (simp add: removeAll_filter_not_eq)

lemma ip_step_bounded:
  assumes "0 < n" "ip_bounded n u"
  shows "ip_bounded n (ip_step op u)"
proof (cases op)
  case (OpAdd ip)
  with assms show ?thesis by (simp add: ip_bounded_def AddIP_def)
next
  case (OpDel ip)
  have "int (length (removeAll ip (ipTable u))) \<le> n"
    using assms length_removeAll_le [of ip "ipTable u"] unfolding ip_bounded_def by linarith
  with OpDel assms show ?thesis
    by (simp add: ip_bounded_def DelIP_def distinct_removeAll)
qed

text \<open>Table calls on an authenticator and on its abstraction, the set of known hashes.\<close>

datatype auth_op = OpAddUser string | OpDelUser string

fun auth_step :: "auth_op \<Rightarrow> mem_auth \<Rightarrow> mem_auth" where
  "auth_step (OpAddUser h) a = snd (AddUser h a)"
| "auth_step (OpDelUser h) a = snd (DelUser h a)"

fun set_step :: "auth_op \<Rightarrow> string set \<Rightarrow> string set" where
  "set_step (OpAddUser h) S = insert h S"
| "set_step (OpDelUser h) S = S - {h}"

lemma auth_step_refines:
  "auth_inv a \<Longrightarrow> auth_inv (auth_step op a) \<and> user_names (auth_step op a) = set_step op (user_names a)"
  by (cases op) (simp_all add: AddUser_inv AddUser_names DelUser_inv DelUser_names)

section \<open>Properties\<close>

text \<open>Traffic is neither lost nor counted twice. For every order in which \<open>AddTraffic64\<close> and
  \<open>TakeTraffic\<close> calls get a user's lock, and whichever checkpoints fail, what the successful
  checkpoints recorded plus what is still in the counters is what was added (in 64-bit
  arithmetic).\<close>

theorem traffic_conserved:
  assumes "fold traffic_step ops (new_user h, []) = (u, w)"
  shows "sent u + sum_list (map fst w) = fst (added ops) \<and>
    recv u + sum_list (map snd w) = snd (added ops)"
proof -
  have "sent u + sum_list (map fst w) = sent u0 + sum_list (map fst w0) + fst (added ops) \<and>
        recv u + sum_list (map snd w) = recv u0 + sum_list (map snd w0) + snd (added ops)"
    if "fold traffic_step ops (u0, w0) = (u, w)" for u0 w0
    using that
  proof (induction ops arbitrary: u0 w0)
    case Nil
    then show ?case by simp
  next
    case (Cons op ops)
    obtain u1 w1 where s: "traffic_step op (u0, w0) = (u1, w1)" by fastforce
    with Cons show ?case using traffic_step_sum [OF s]
      by (cases op) (auto simp: algebra_simps)
  qed
  from this [OF assms] show ?thesis by (simp add: new_user_def)
qed

theorem traffic_conserved_witness:
  "case fold traffic_step [Add 5 7, Take False, Add 1 0, Take True, Add 2 2] (new_user ''u'', [])
   of (u, w) \<Rightarrow> w = [(6, 7)] \<and> sent u + sum_list (map fst w) = 8"
proof -
  let ?ops = "[Add 5 7, Take False, Add 1 0, Take True, Add 2 2]"
  obtain u w where r: "fold traffic_step ?ops (new_user ''u'', []) = (u, w)" by fastforce
  have "w = [(6, 7)]"
    using r by (auto simp: AddTraffic64_def TakeTraffic_def log_checkpoint_def new_user_def Let_def)
  with traffic_conserved [OF r] r show ?thesis by simp
qed

text \<open>C17. Under an address limit, no sequence of \<open>AddIP\<close> and \<open>DelIP\<close> calls makes a user's table
  hold an address twice or more addresses than the limit, and a further address is admitted
  exactly when it is already in the table or there is room.\<close>

theorem ip_limit_respected:
  assumes "0 < n" "u = fold ip_step ops (SetIPLimit n (new_user h))"
  shows "distinct (ipTable u) \<and> int (GetIP u) \<le> n \<and>
    (fst (AddIP ip u) \<longleftrightarrow> ip \<in> set (ipTable u) \<or> int (GetIP u) < n)"
proof -
  have "ip_bounded n v \<Longrightarrow> ip_bounded n (fold ip_step ops v)" for v
    by (induction ops arbitrary: v) (simp_all add: ip_step_bounded assms(1))
  moreover have "ip_bounded n (SetIPLimit n (new_user h))"
    using assms(1) by (simp add: ip_bounded_def SetIPLimit_def new_user_def)
  ultimately have "ip_bounded n u" using assms(2) by simp
  with assms(1) show ?thesis by (auto simp: ip_bounded_def AddIP_def GetIP_def)
qed

theorem ip_limit_respected_witness:
  "\<not> fst (AddIP ''c'' (fold ip_step [OpAdd ''a'', OpAdd ''b''] (SetIPLimit 2 (new_user ''u''))))"
proof -
  let ?u = "fold ip_step [OpAdd ''a'', OpAdd ''b''] (SetIPLimit 2 (new_user ''u''))"
  have "ipTable ?u = [''a'', ''b'']"
    by (simp add: AddIP_def SetIPLimit_def new_user_def)
  then show ?thesis
    using ip_limit_respected [of 2 ?u "[OpAdd ''a'', OpAdd ''b'']" "''u''" "''c''"]
    by (simp add: GetIP_def)
qed

text \<open>C16. The authenticator refines a set of hashes: after any sequence of \<open>AddUser\<close> and
  \<open>DelUser\<close> calls its table is consistent with its user objects, it holds exactly the hashes
  the set holds, \<open>AuthUser\<close> accepts exactly these and returns a user object with that hash.\<close>

theorem authenticator_refines_set:
  fixes ops :: "auth_op list"
  defines "a \<equiv> fold auth_step ops empty_auth" and "S \<equiv> fold set_step ops {}"
  shows "auth_inv a \<and> set (auth_hashes a) = S \<and>
    (case AuthUser h a of None \<Rightarrow> h \<notin> S
     | Some p \<Rightarrow> h \<in> S \<and> p \<in> set (ListUsers a) \<and> hash (heap a ! p) = h)"
proof -
  have "auth_inv b \<Longrightarrow> auth_inv (fold auth_step ops b) \<and>
      user_names (fold auth_step ops b) = fold set_step ops (user_names b)" for b
    by (induction ops arbitrary: b) (simp_all add: auth_step_refines)
  from this [of empty_auth] have inv: "auth_inv a" and names: "user_names a = S"
    by (simp_all add: a_def S_def)
  have "(case AuthUser h a of None \<Rightarrow> h \<notin> S
          | Some p \<Rightarrow> h \<in> S \<and> p \<in> set (ListUsers a) \<and> hash (heap a ! p) = h)"
  proof (cases "AuthUser h a")
    case None
    then have "h \<notin> S" using names AuthUser_None_iff by metis
    with None show ?thesis by simp
  next
    case (Some p)
    then have m: "(h, p) \<in> set (users a)" by (rule AuthUser_SomeD)
    have "h \<in> S" using image_eqI [OF _ m, of h fst] names by (simp add: user_names_def)
    moreover have "p \<in> set (ListUsers a)"
      using image_eqI [OF _ m, of p snd] by (simp add: ListUsers_def)
    moreover have "hash (heap a ! p) = h" using inv m by (auto simp: auth_inv_def)
    ultimately show ?thesis using Some by simp
  qed
  with inv names show ?thesis by (simp add: set_auth_hashes)
qed

text \<open>The server accepts exactly the configured passwords: after \<open>NewAuthenticator\<close> a hash
  authenticates if and only if it is the SHA-224 hash of a configured password, and every such
  hash has the 56 characters the wire format reads.\<close>

theorem configured_passwords_authenticate:
  "AuthUser h (NewAuthenticator passwords) \<noteq> None \<longleftrightarrow>
     (\<exists>p. List.member passwords p \<and> h = SHA224String p \<and> length h = 56)"
proof -
  have "auth_inv (NewAuthenticator passwords)"
    unfolding NewAuthenticator_fold by (rule mem.add_all_invar) simp
  moreover have "set (auth_hashes (NewAuthenticator passwords)) = SHA224String ` set passwords"
    unfolding NewAuthenticator_fold
    by (subst mem.add_all_hashes) (simp_all add: set_auth_hashes)
  ultimately have "user_names (NewAuthenticator passwords) = SHA224String ` set passwords"
    by (simp add: set_auth_hashes)
  then show ?thesis by (auto simp: AuthUser_None_iff)
qed

end
