(* ===== verification/Data_Plane_Reporter.thy ===== *)
theory Data_Plane_Reporter
  imports Traffic_Store Memory_Stat
begin

text \<open>
  \<open>tunnel/trojan/data_plane_traffic.go\<close>: the reporter of a standalone data plane. It drains the
  user meters into a queue, freezes the queue into a batch with an id, sends the batch until it is
  acknowledged, and checkpoints each of these steps in the outbox file. What the environment
  decides is a parameter: the fault of each save (consumed from a list), the random id, and the
  reply of the control plane.
\<close>

section \<open>The reporter\<close>

record reporter =
  rp_pending :: "(string \<times> traffic_map) option"
  rp_queued :: traffic_map
  rp_outbox :: outbox_file
  rp_loadErr :: "go_error option"

type_synonym faults = "save_fault list"

definition toDataPlaneOutboxTraffic :: "traffic_map \<Rightarrow> traffic_map" where
  "toDataPlaneOutboxTraffic source = map (\<lambda>(h, v). (h, \<lparr>Up = Up v, Down = Down v\<rparr>)) source"

definition fromDataPlaneOutboxTraffic :: "traffic_map \<Rightarrow> traffic_map" where
  "fromDataPlaneOutboxTraffic source = map (\<lambda>(h, v). (h, \<lparr>Up = Up v, Down = Down v\<rparr>)) source"

definition loadOutbox :: "reporter \<Rightarrow> go_error option \<times> reporter" where
  "loadOutbox r =
     (case rp_outbox r of
        None \<Rightarrow> (None, r)
      | Some d \<Rightarrow>
          (case File_Load (Some d) of
             Ret s \<Rightarrow>
               (None, r\<lparr>rp_pending := (if length (Pending s) > 0
                             then Some (PendingSyncID s, fromDataPlaneOutboxTraffic (Pending s))
                             else rp_pending r),
                        rp_queued := fromDataPlaneOutboxTraffic (Queued s)\<rparr>)
           | Raise e \<Rightarrow> (Some e, r)
           | _ \<Rightarrow> (None, r)))"

text \<open>\<open>newDataPlaneTrafficReporter\<close>: \<open>parsed\<close> is what \<open>url.Parse\<close> makes of the endpoint
  (scheme, host and host name), \<open>token\<close> the content of the token file if it is readable.\<close>

definition readInternalToken :: "string \<Rightarrow> string option \<Rightarrow> string outcome" where
  "readInternalToken path token =
     (if path = [] then Ret []
      else case token of
        None \<Rightarrow> Raise (Opaque ''read internal token file'')
      | Some t \<Rightarrow> if length t < 16 then Raise (Opaque ''internal token file is too short'') else Ret t)"

definition newDataPlaneTrafficReporter ::
  "(string \<times> string \<times> string) option \<Rightarrow> string \<Rightarrow> string option \<Rightarrow> outbox_file \<Rightarrow> (reporter \<times> string) outcome" where
  "newDataPlaneTrafficReporter parsed tokenPath token outbox =
     (case parsed of
        None \<Rightarrow> Raise (Opaque ''invalid data-plane traffic endpoint'')
      | Some (scheme, hostport, host) \<Rightarrow>
          if scheme \<noteq> ''http'' \<or> hostport = [] then Raise (Opaque ''invalid data-plane traffic endpoint'')
          else if host \<noteq> ''localhost'' \<and> (ParseIP host = [] \<or> \<not> IP_IsLoopback (ParseIP host)) then
            Raise (Opaque ''data-plane traffic endpoint must use loopback'')
          else case readInternalToken tokenPath token of
            Ret t \<Rightarrow>
              (let r = \<lparr>rp_pending = None, rp_queued = [], rp_outbox = outbox, rp_loadErr = None\<rparr>
               in case loadOutbox r of (e, r') \<Rightarrow> Ret (r'\<lparr>rp_loadErr := e\<rparr>, t))
          | Raise e \<Rightarrow> if tokenPath \<noteq> [] then Raise (Err ''read internal token for data-plane traffic'' (Some e)) else Raise e
          | Panic p \<Rightarrow> Panic p
          | Hang \<Rightarrow> Hang)"

definition reporter_state :: "reporter \<Rightarrow> outbox_state" where
  "reporter_state r =
     (case rp_pending r of
        None \<Rightarrow> \<lparr>Version = 0, PendingSyncID = [], Pending = [], Queued = toDataPlaneOutboxTraffic (rp_queued r)\<rparr>
      | Some (syncID, m) \<Rightarrow>
          \<lparr>Version = 0, PendingSyncID = syncID, Pending = toDataPlaneOutboxTraffic m,
           Queued = toDataPlaneOutboxTraffic (rp_queued r)\<rparr>)"

definition persistOutbox :: "reporter \<times> faults \<Rightarrow> go_error option \<times> reporter \<times> faults" where
  "persistOutbox st =
     (case st of (r, fs) \<Rightarrow>
      case rp_outbox r of
        None \<Rightarrow> (None, r, fs)
      | Some d \<Rightarrow>
          (case File_Save (case fs of [] \<Rightarrow> NoFault | f # _ \<Rightarrow> f) (reporter_state r) (Some d) of
             (e, f') \<Rightarrow> (e, r\<lparr>rp_outbox := f'\<rparr>, tl fs)))"

text \<open>The checkpoint that \<open>collect\<close> gives to \<open>TakeTraffic\<close>. Bytes the server received are the
  client's upload.\<close>

definition checkpoint_user :: "string \<Rightarrow> (reporter \<times> faults) checkpoint" where
  "checkpoint_user h out inc st =
     (case st of (r, fs) \<Rightarrow>
      let existed = map_of (rp_queued r) h;
          current = (case existed of None \<Rightarrow> \<lparr>Up = 0, Down = 0\<rparr> | Some t \<Rightarrow> t)
      in if Up current > (- 1) - inc \<or> Down current > (- 1) - out then
           (Some (Opaque ''data-plane traffic aggregation overflow''), (r, fs))
         else
           let new = \<lparr>Up = Up current + inc, Down = Down current + out\<rparr>
           in case persistOutbox (r\<lparr>rp_queued := AList.update h new (rp_queued r)\<rparr>, fs) of
                (None, r', fs') \<Rightarrow> (None, (r', fs'))
              | (Some e, r', fs') \<Rightarrow>
                  (Some (Err ''checkpoint data-plane traffic'' (Some e)),
                   (r'\<lparr>rp_queued := (case existed of
                        Some t \<Rightarrow> AList.update h t (rp_queued r')
                      | None \<Rightarrow> AList.delete h (rp_queued r'))\<rparr>, fs')))"

fun collect_users ::
  "nat list \<Rightarrow> mem_auth \<Rightarrow> reporter \<times> faults \<Rightarrow> go_error option \<times> mem_auth \<times> reporter \<times> faults" where
  "collect_users [] a st = (None, a, st)"
| "collect_users (p # ps) a st =
     (case TakeTraffic (Some (checkpoint_user (hash (heap a ! p)))) (heap a ! p) st of
        ((_, _, err), u, st') \<Rightarrow>
          let a' = a\<lparr>heap := (heap a)[p := u]\<rparr> in
          (case err of
             Some e \<Rightarrow> (Some e, a', st')
           | None \<Rightarrow> collect_users ps a' st'))"

definition collect ::
  "mem_auth \<Rightarrow> reporter \<times> faults \<Rightarrow> go_error option \<times> mem_auth \<times> reporter \<times> faults" where
  "collect a st = collect_users (ListUsers a) a st"

text \<open>The reply to one HTTP request: \<open>None\<close> is a transport error.\<close>

type_synonym 'srv sender = "string \<Rightarrow> traffic_map \<Rightarrow> 'srv \<Rightarrow> int option \<times> 'srv"

definition freeze ::
  "string option \<Rightarrow> reporter \<times> faults \<Rightarrow> go_error option \<times> reporter \<times> faults" where
  "freeze rand st =
     (case st of (r, fs) \<Rightarrow>
      if rp_pending r = None \<and> length (rp_queued r) > 0 then
        (case rand of
           None \<Rightarrow> (Some (Opaque ''generate data-plane traffic sync id''), r, fs)
         | Some syncID \<Rightarrow>
             (case persistOutbox (r\<lparr>rp_pending := Some (syncID, rp_queued r), rp_queued := []\<rparr>, fs) of
                (None, r', fs') \<Rightarrow> (None, r', fs')
              | (Some e, r', fs') \<Rightarrow>
                  (Some (Err ''freeze data-plane traffic batch'' (Some e)),
                   r'\<lparr>rp_pending := None, rp_queued := rp_queued r\<rparr>, fs')))
      else (None, r, fs))"

definition send_pending ::
  "'srv sender \<Rightarrow> reporter \<times> faults \<Rightarrow> 'srv \<Rightarrow> go_error option \<times> (reporter \<times> faults) \<times> 'srv" where
  "send_pending send st srv =
     (case st of (r, fs) \<Rightarrow>
      case rp_pending r of
        None \<Rightarrow> (None, (r, fs), srv)
      | Some (syncID, m) \<Rightarrow>
          (case send syncID m srv of
             (None, srv') \<Rightarrow> (Some (Opaque ''http''), (r, fs), srv')
           | (Some status, srv') \<Rightarrow>
               if status < 200 \<or> status \<ge> 300 then
                 (Some (Opaque ''traffic endpoint returned HTTP error''), (r, fs), srv')
               else case persistOutbox (r\<lparr>rp_pending := None\<rparr>, fs) of
                 (None, r', fs') \<Rightarrow> (None, (r', fs'), srv')
               | (Some e, r', fs') \<Rightarrow>
                   (Some (Err ''acknowledge data-plane traffic batch'' (Some e)),
                    (r'\<lparr>rp_pending := Some (syncID, m)\<rparr>, fs'), srv')))"

definition flush ::
  "'srv sender \<Rightarrow> string option \<Rightarrow> mem_auth \<Rightarrow> reporter \<times> faults \<Rightarrow> 'srv \<Rightarrow>
   go_error option \<times> mem_auth \<times> (reporter \<times> faults) \<times> 'srv" where
  "flush send rand a st srv =
     (case rp_loadErr (fst st) of
        Some e \<Rightarrow> (Some (Err ''traffic outbox unavailable'' (Some e)), a, st, srv)
      | None \<Rightarrow>
          (case collect a st of
             (Some e, a1, st1) \<Rightarrow> (Some e, a1, st1, srv)
           | (None, a1, st1) \<Rightarrow>
               (case freeze rand st1 of
                  (Some e, st2) \<Rightarrow> (Some e, a1, st2, srv)
                | (None, st2) \<Rightarrow>
                    (case send_pending send st2 srv of (e, st3, srv') \<Rightarrow> (e, a1, st3, srv')))))"

end
