(* ===== verification/Traffic_Pipeline.thy ===== *)
theory Traffic_Pipeline
  imports Data_Plane_Reporter
begin

text \<open>
  The data-plane reporter and the control plane together: traffic is metered, collected, frozen,
  sent, acknowledged and charged, while saves fail, requests and replies are lost, the database is
  down, and the data-plane process crashes and restarts. The theory proves that every metered byte
  is charged exactly once. The direction \<open>up\<close> is the client's upload, which the server receives.
\<close>

section \<open>Well-formed states and their views\<close>

definition wf_map :: "traffic_map \<Rightarrow> bool" where
  "wf_map m \<longleftrightarrow> distinct (map fst m) \<and> (\<forall>(k, v) \<in> set m. k \<noteq> [] \<and> \<not> (Up v = 0 \<and> Down v = 0))"

type_synonym snapshot = "(string \<times> traffic_map) option \<times> traffic_map"

definition wf_snapshot :: "snapshot \<Rightarrow> bool" where
  "wf_snapshot v \<longleftrightarrow> wf_map (snd v) \<and>
     (case fst v of None \<Rightarrow> True | Some (syncID, m) \<Rightarrow> syncID \<noteq> [] \<and> m \<noteq> [] \<and> wf_map m)"

definition mem :: "reporter \<Rightarrow> snapshot" where
  "mem r = (rp_pending r, rp_queued r)"

definition state_view :: "outbox_state \<Rightarrow> snapshot" where
  "state_view s = (if Pending s = [] then None else Some (PendingSyncID s, Pending s), Queued s)"

definition disk_view :: "disk_file \<Rightarrow> snapshot option" where
  "disk_view d = (case File_Load (Some d) of Ret s \<Rightarrow> Some (state_view s) | _ \<Rightarrow> None)"

lemma convert_id [simp]:
  "toDataPlaneOutboxTraffic m = m" "fromDataPlaneOutboxTraffic m = m"
  unfolding toDataPlaneOutboxTraffic_def fromDataPlaneOutboxTraffic_def by (induction m) auto

lemma wf_map_valid: "wf_map m \<Longrightarrow> validate_group g m = None"
  by (auto simp: wf_map_def validate_group_None)

lemma reporter_state_sound:
  assumes "wf_snapshot (mem r)"
  shows "sound_state (Normalize (reporter_state r))"
    and "state_view (Normalize (reporter_state r)) = mem r"
  using assms
  by (auto simp: wf_snapshot_def mem_def reporter_state_def sound_state_def Normalize_def Validate_None
      state_view_def wf_map_valid split: option.splits prod.splits)

lemma File_Save_Normalize: "File_Save flt (Normalize s) f = File_Save flt s f"
proof -
  have "Normalize (Normalize s) = Normalize s" by (simp add: Normalize_def)
  then show ?thesis by (simp only: File_Save_def)
qed

text \<open>A checkpoint: success puts the memory on disk, failure leaves the old or the new view.\<close>

lemma persist_view:
  assumes "persistOutbox (r, fs) = (e, r', fs')" "rp_outbox r = Some d" "wf_snapshot (mem r)"
  shows "\<exists>d'. r' = r\<lparr>rp_outbox := Some d'\<rparr> \<and> (e = None \<longrightarrow> disk_view d' = Some (mem r)) \<and>
    (disk_view d' = disk_view d \<or> disk_view d' = Some (mem r))"
proof -
  let ?s = "Normalize (reporter_state r)" and ?flt = "case fs of [] \<Rightarrow> NoFault | f # _ \<Rightarrow> f"
  obtain d' where d': "snd (File_Save ?flt ?s (Some d)) = Some d'"
    "d' = d \<or> File_Load (Some d') = Ret ?s"
    "fst (File_Save ?flt ?s (Some d)) = None \<longrightarrow> File_Load (Some d') = Ret ?s"
    using File_Save_sound [OF reporter_state_sound(1) [OF assms(3)]] by blast
  have v: "File_Load (Some d') = Ret ?s \<Longrightarrow> disk_view d' = Some (mem r)"
    using reporter_state_sound(2) [OF assms(3)] by (simp add: disk_view_def)
  have "e = fst (File_Save ?flt ?s (Some d))" "r' = r\<lparr>rp_outbox := Some d'\<rparr>"
    using assms(1,2) d'(1) by (auto simp: persistOutbox_def File_Save_Normalize split: prod.splits)
  with d' v show ?thesis by auto
qed

section \<open>Amounts\<close>

definition counter :: "bool \<Rightarrow> mem_auth \<Rightarrow> string \<Rightarrow> int" where
  "counter up a h = (case AuthUser h a of None \<Rightarrow> 0
     | Some p \<Rightarrow> uint (if up then recv (heap a ! p) else sent (heap a ! p)))"

text \<open>What a snapshot still has to deliver, given the receipts.\<close>

definition held :: "bool \<Rightarrow> (string \<times> int) list \<Rightarrow> snapshot \<Rightarrow> string \<Rightarrow> int" where
  "held up R v h = amount up (snd v) h +
     (case fst v of None \<Rightarrow> 0
      | Some (syncID, m) \<Rightarrow> if map_of R syncID = None then amount up m h else 0)"

text \<open>How far the disk may be ahead of the memory after failed saves; \<open>c\<close> is the user's counter.\<close>

definition ahead :: "bool \<Rightarrow> string \<Rightarrow> int \<Rightarrow> (string \<times> int) list \<Rightarrow> snapshot \<Rightarrow> snapshot \<Rightarrow> bool" where
  "ahead up h c R v w \<longleftrightarrow>
     fst w = fst v \<and> amount up (snd v) h \<le> amount up (snd w) h \<and>
       amount up (snd w) h \<le> amount up (snd v) h + c \<or>
     fst v = None \<and> snd w = [] \<and> (\<exists>syncID. fst w = Some (syncID, snd v) \<and> map_of R syncID = None) \<or>
     fst w = None \<and> snd w = snd v \<and> (\<exists>syncID m. fst v = Some (syncID, m) \<and> map_of R syncID \<noteq> None)"

lemma amount_update [simp]:
  "amount up (AList.update k t m) h = (if h = k then dir_amount up t else amount up m h)"
  by (simp add: amount_def update_conv')

lemma amount_nonneg: "0 \<le> amount up m h"
  by (simp add: amount_def dir_amount_def split: option.splits)

lemma amount_Nil [simp]: "amount up [] h = 0"
  by (simp add: amount_def)

lemma counter_nonneg: "0 \<le> counter up a h"
  by (simp add: counter_def split: option.splits)

lemma ahead_refl: "0 \<le> c \<Longrightarrow> ahead up h c R v v"
  by (simp add: ahead_def)

lemma ahead_held:
  assumes "ahead up h c R v w" "0 \<le> c"
  shows "held up R v h \<le> held up R w h \<and> held up R w h \<le> held up R v h + c"
  using assms by (auto simp: ahead_def held_def split: option.splits)

lemma ahead_mono: "ahead up h c R v w \<Longrightarrow> c \<le> c' \<Longrightarrow> ahead up h c' R v w"
  by (auto simp: ahead_def)

section \<open>The invariant of the data plane\<close>

definition disk_ok :: "bool \<Rightarrow> string \<Rightarrow> int \<Rightarrow> (string \<times> int) list \<Rightarrow> reporter \<Rightarrow> bool" where
  "disk_ok up h c R r \<longleftrightarrow>
     (\<exists>d w. rp_outbox r = Some d \<and> disk_view d = Some w \<and> wf_snapshot w \<and> ahead up h c R (mem r) w)"

lemma disk_okI:
  "rp_outbox r = Some d \<Longrightarrow> disk_view d = Some w \<Longrightarrow> wf_snapshot w \<Longrightarrow> ahead up h c R (mem r) w \<Longrightarrow>
   disk_ok up h c R r"
  unfolding disk_ok_def by blast

definition plane_inv :: "bool \<Rightarrow> string \<Rightarrow> (string \<times> int) list \<Rightarrow> mem_auth \<Rightarrow> reporter \<Rightarrow> bool" where
  "plane_inv up h R a r \<longleftrightarrow> auth_inv a \<and> [] \<notin> user_names a \<and> rp_loadErr r = None \<and>
     wf_snapshot (mem r) \<and> disk_ok up h (counter up a h) R r"

lemma update_same: "map_of m k = Some t \<Longrightarrow> AList.update k t m = m"
  by (induction m) auto

lemma delete_update_new: "map_of m k = None \<Longrightarrow> AList.delete k (AList.update k t m) = m"
  by (induction m) (auto simp: AList.delete_eq split: if_splits)

lemma no_overflow:
  fixes x y :: u64
  assumes "\<not> x > (- 1) - y"
  shows "uint (x + y) = uint x + uint y"
proof -
  have m: "uint (- 1 :: u64) = 2 ^ 64 - 1"
    by (simp add: unsigned_minus_1_eq_mask mask_eq_exp_minus_1)
  moreover have "uint y < 2 ^ 64" using uint_lt2p [of y] by simp
  ultimately have "uint ((- 1) - y) = 2 ^ 64 - 1 - uint y"
    by (subst uint_sub_lem [THEN iffD1]) simp_all
  then have "uint x + uint y < 2 ^ LENGTH(64)"
    using assms by (simp add: word_less_def not_less)
  then show ?thesis using uint_add_lem [of x y] by simp
qed

lemma in_set_update: "x \<in> set (AList.update k t m) \<Longrightarrow> x = (k, t) \<or> x \<in> set m"
  by (induction m) (auto split: if_splits)

lemma wf_update:
  assumes "wf_map m" "k \<noteq> []" "\<not> (Up t = 0 \<and> Down t = 0)"
  shows "wf_map (AList.update k t m)"
  using assms by (auto simp: wf_map_def distinct_update dest!: in_set_update)

text \<open>Emptying one user's meter.\<close>

lemma AuthUser_ListUsers:
  assumes "auth_inv a" "p \<in> set (ListUsers a)"
  shows "AuthUser (hash (heap a ! p)) a = Some p" "p < length (heap a)" "hash (heap a ! p) \<in> user_names a"
proof -
  obtain k where k: "(k, p) \<in> set (users a)" using assms(2) by (auto simp: ListUsers_def)
  then have "p < length (heap a)" "hash (heap a ! p) = k" using assms(1) by (auto simp: auth_inv_def)
  moreover have "map_of (users a) k = Some p"
    using k assms(1) by (simp add: auth_inv_def map_of_eq_Some_iff)
  ultimately show "AuthUser (hash (heap a ! p)) a = Some p" "p < length (heap a)"
    "hash (heap a ! p) \<in> user_names a"
    using k by (force simp: AuthUser_def user_names_def)+
qed

lemma heap_update_user:
  assumes "auth_inv a" "p \<in> set (ListUsers a)" "hash u = hash (heap a ! p)"
  defines "a' \<equiv> a\<lparr>heap := (heap a)[p := u]\<rparr>"
  shows "auth_inv a'" "user_names a' = user_names a" "ListUsers a' = ListUsers a"
    "counter up a' h = (if h = hash (heap a ! p) then uint (if up then recv u else sent u) else counter up a h)"
proof -
  note A = AuthUser_ListUsers [OF assms(1,2)]
  have nth: "hash ((heap a)[p := u] ! q) = hash (heap a ! q)" if "q < length (heap a)" for q
    using that assms(3) by (cases "q = p") auto
  show "auth_inv a'"
    using assms(1) nth by (fastforce simp: a'_def auth_inv_def)
  show "user_names a' = user_names a" "ListUsers a' = ListUsers a"
    by (simp_all add: a'_def user_names_def ListUsers_def)
  show "counter up a' h = (if h = hash (heap a ! p) then uint (if up then recv u else sent u) else counter up a h)"
  proof (cases "h = hash (heap a ! p)")
    case True
    then show ?thesis using A by (simp add: a'_def counter_def AuthUser_def)
  next
    case False
    have "AuthUser h a \<noteq> Some p"
    proof
      assume "AuthUser h a = Some p"
      then have "(h, p) \<in> set (users a)" by (rule AuthUser_SomeD)
      then have "hash (heap a ! p) = h" using assms(1) by (auto simp: auth_inv_def)
      with False show False by simp
    qed
    with False show ?thesis
      by (auto simp: a'_def counter_def AuthUser_def split: option.splits)
  qed
qed

lemma checkpoint_effect:
  assumes inv: "plane_inv up h R a r" and p: "p \<in> set (ListUsers a)"
    and ck: "checkpoint_user (hash (heap a ! p)) (sent (heap a ! p)) (recv (heap a ! p)) (r, fs) = (e, (r', fs'))"
    and nz: "\<not> (sent (heap a ! p) = 0 \<and> recv (heap a ! p) = 0)"
  defines "k \<equiv> hash (heap a ! p)"
  shows "rp_pending r' = rp_pending r \<and> rp_loadErr r' = None \<and> wf_snapshot (mem r') \<and>
    (if e = None then
       amount up (rp_queued r') h = amount up (rp_queued r) h + (if h = k then counter up a k else 0) \<and>
       (\<exists>d'. rp_outbox r' = Some d' \<and> disk_view d' = Some (mem r'))
     else mem r' = mem r \<and> disk_ok up h (counter up a h) R r')"
proof -
  let ?q = "rp_queued r" and ?s = "sent (heap a ! p)" and ?v = "recv (heap a ! p)"
  define cur where "cur = (case map_of ?q k of None \<Rightarrow> \<lparr>Up = 0, Down = 0\<rparr> | Some t \<Rightarrow> t)"
  define new where "new = \<lparr>Up = Up cur + ?v, Down = Down cur + ?s\<rparr>"
  obtain d w where d: "rp_outbox r = Some d" "disk_view d = Some w" "wf_snapshot w"
      "ahead up h (counter up a h) R (mem r) w"
    and wf: "wf_snapshot (mem r)" and le: "rp_loadErr r = None" and ai: "auth_inv a" "[] \<notin> user_names a"
    using inv unfolding plane_inv_def disk_ok_def by blast
  note A = AuthUser_ListUsers [OF ai(1) p]
  have k: "k \<noteq> []" using A(3) ai(2) by (auto simp: k_def)
  show ?thesis
  proof (cases "Up cur > (- 1) - ?v \<or> Down cur > (- 1) - ?s")
    case True
    then have "e \<noteq> None" "r' = r"
      using ck by (auto simp: checkpoint_user_def Let_def cur_def k_def)
    with d wf le show ?thesis by (auto intro: disk_okI)
  next
    case False
    then have sums: "uint (Up new) = uint (Up cur) + uint ?v" "uint (Down new) = uint (Down cur) + uint ?s"
      by (simp_all add: new_def no_overflow)
    define r1 where "r1 = r\<lparr>rp_queued := AList.update k new ?q\<rparr>"
    have "\<not> (Up new = 0 \<and> Down new = 0)"
    proof
      assume "Up new = 0 \<and> Down new = 0"
      then have "uint (Up cur) + uint ?v = 0" "uint (Down cur) + uint ?s = 0" using sums by simp_all
      then have "uint ?v = 0" "uint ?s = 0"
        using uint_nonnegative [of "Up cur"] uint_nonnegative [of "Down cur"]
          uint_nonnegative [of ?v] uint_nonnegative [of ?s] by linarith+
      with nz show False by (simp add: uint_0_iff)
    qed
    then have wf1: "wf_snapshot (mem r1)"
      using wf k wf_update by (auto simp: wf_snapshot_def mem_def r1_def)
    obtain e1 r2 fs2 where per: "persistOutbox (r1, fs) = (e1, r2, fs2)" by (metis prod.exhaust)
    have "rp_outbox r1 = Some d" using d(1) by (simp add: r1_def)
    from persist_view [OF per this wf1] obtain d' where d':
      "r2 = r1\<lparr>rp_outbox := Some d'\<rparr>" "e1 = None \<longrightarrow> disk_view d' = Some (mem r1)"
      "disk_view d' = disk_view d \<or> disk_view d' = Some (mem r1)" by blast
    have am: "amount up (rp_queued r1) h = amount up ?q h + (if h = k then counter up a k else 0)"
      using sums A(1) by (auto simp: r1_def dir_amount_def amount_def counter_def cur_def k_def update_conv'
          split: option.splits)
    show ?thesis
    proof (cases e1)
      case None
      then have "e = None" "r' = r2"
        using ck per False by (auto simp: checkpoint_user_def Let_def cur_def new_def k_def r1_def)
      with None d' am wf1 le show ?thesis by (simp add: r1_def mem_def)
    next
      case (Some err)
      then have e: "e \<noteq> None" and r': "r' = r2\<lparr>rp_queued := (case map_of ?q k of
          Some t \<Rightarrow> AList.update k t (rp_queued r2) | None \<Rightarrow> AList.delete k (rp_queued r2))\<rparr>"
        using ck [folded k_def] per False
        by (auto simp: checkpoint_user_def Let_def cur_def new_def r1_def)
      have "(case map_of ?q k of Some t \<Rightarrow> AList.update k t (rp_queued r2)
          | None \<Rightarrow> AList.delete k (rp_queued r2)) = ?q"
        using d'(1) by (simp add: r1_def update_same delete_update_new split: option.splits)
      then have m: "mem r' = mem r" "rp_outbox r' = Some d'" "rp_loadErr r' = None"
        using r' d'(1) le by (simp_all add: mem_def r1_def)
      have "0 \<le> counter up a h" by (rule counter_nonneg)
      then have "ahead up h (counter up a h) R (mem r) (mem r1)"
        using am by (auto simp: ahead_def mem_def r1_def)
      then have "disk_ok up h (counter up a h) R r'"
        using d d'(3) wf1 m by (metis disk_okI)
      with m e wf show ?thesis by (auto simp: mem_def)
    qed
  qed
qed

lemma take_effect:
  assumes inv: "plane_inv up h R a r" and p: "p \<in> set (ListUsers a)"
    and tk: "TakeTraffic (Some (checkpoint_user (hash (heap a ! p)))) (heap a ! p) (r, fs) = ((x, y, e), u, (r', fs'))"
  defines "a' \<equiv> a\<lparr>heap := (heap a)[p := u]\<rparr>"
  shows "plane_inv up h R a' r' \<and> rp_pending r' = rp_pending r \<and> ListUsers a' = ListUsers a \<and>
    user_names a' = user_names a \<and> amount up (rp_queued r) h \<le> amount up (rp_queued r') h \<and>
    amount up (rp_queued r') h + counter up a' h = amount up (rp_queued r) h + counter up a h"
proof -
  let ?s = "sent (heap a ! p)" and ?v = "recv (heap a ! p)" and ?k = "hash (heap a ! p)"
  have ai: "auth_inv a" using inv by (simp add: plane_inv_def)
  show ?thesis
  proof (cases "?s = 0 \<and> ?v = 0")
    case True
    then have "a' = a" "r' = r" using tk by (auto simp: TakeTraffic_def a'_def)
    with inv show ?thesis by simp
  next
    case False
    obtain e1 r1 fs1 where ck: "checkpoint_user ?k ?s ?v (r, fs) = (e1, (r1, fs1))"
      by (metis prod.exhaust)
    note C = checkpoint_effect [OF inv p ck False]
    show ?thesis
    proof (cases e1)
      case None
      then have u: "u = (heap a ! p)\<lparr>sent := 0, recv := 0, lastSent := 0, lastRecv := 0\<rparr>" "r' = r1"
        using tk ck False by (auto simp: TakeTraffic_def Let_def)
      then have "hash u = ?k" by simp
      note H = heap_update_user [OF ai p this, folded a'_def]
      have c: "counter up a' h = (if h = ?k then 0 else counter up a h)" using H(4) u by simp
      obtain d' where "rp_outbox r' = Some d'" "disk_view d' = Some (mem r')"
        using C None u(2) by auto
      then have "disk_ok up h (counter up a' h) R r'"
        using C None u(2) by (intro disk_okI [OF _ _ _ ahead_refl [OF counter_nonneg]]) auto
      then have "plane_inv up h R a' r'"
        using C None u(2) inv H(1,2) by (auto simp: plane_inv_def)
      then show ?thesis using C None u(2) H(2,3) c counter_nonneg [of up a ?k] by auto
    next
      case (Some err)
      then have "u = heap a ! p" "r' = r1"
        using tk ck False by (auto simp: TakeTraffic_def Let_def)
      then have "a' = a" "r' = r1" by (simp_all add: a'_def)
      with C Some inv show ?thesis by (auto simp: plane_inv_def mem_def)
    qed
  qed
qed

lemma collect_effect:
  "\<lbrakk>plane_inv up h R a r; set ps \<subseteq> set (ListUsers a); collect_users ps a (r, fs) = (e, a', (r', fs'))\<rbrakk> \<Longrightarrow>
   plane_inv up h R a' r' \<and> rp_pending r' = rp_pending r \<and> user_names a' = user_names a \<and>
   amount up (rp_queued r) h \<le> amount up (rp_queued r') h \<and>
   amount up (rp_queued r') h + counter up a' h = amount up (rp_queued r) h + counter up a h"
proof (induction ps arbitrary: a r fs)
  case Nil
  then show ?case by simp
next
  case (Cons p ps)
  obtain x y e1 u r1 fs1 where tk: "TakeTraffic (Some (checkpoint_user (hash (heap a ! p))))
      (heap a ! p) (r, fs) = ((x, y, e1), u, (r1, fs1))" by (metis prod.exhaust)
  have p: "p \<in> set (ListUsers a)" using Cons.prems(2) by simp
  note T = take_effect [OF Cons.prems(1) p tk]
  show ?case
  proof (cases e1)
    case None
    then have "collect_users ps (a\<lparr>heap := (heap a)[p := u]\<rparr>) (r1, fs1) = (e, a', (r', fs'))"
      using Cons.prems(3) tk by simp
    from Cons.IH [OF _ _ this] T Cons.prems(2) show ?thesis by auto
  next
    case (Some err)
    with Cons.prems(3) tk have "a' = a\<lparr>heap := (heap a)[p := u]\<rparr>" "r' = r1" by auto
    with T show ?thesis by auto
  qed
qed

section \<open>Freezing and sending\<close>

lemma held_mem: "held up R (mem r) h = amount up (rp_queued r) h +
    (case rp_pending r of None \<Rightarrow> 0 | Some (syncID, m) \<Rightarrow> if map_of R syncID = None then amount up m h else 0)"
  by (simp add: held_def mem_def)

lemma freeze_effect:
  assumes inv: "plane_inv up h R a r" and fz: "freeze rand (r, fs) = (e, r', fs')"
    and fresh: "\<And>syncID. rand = Some syncID \<Longrightarrow> syncID \<noteq> [] \<and> map_of R syncID = None"
  shows "plane_inv up h R a r' \<and> held up R (mem r') h = held up R (mem r) h \<and>
    (rp_pending r' = rp_pending r \<or> (\<exists>syncID. rand = Some syncID \<and> rp_pending r' = Some (syncID, rp_queued r)))"
proof (cases "rp_pending r = None \<and> length (rp_queued r) > 0 \<and> rand \<noteq> None")
  case False
  then have "r' = r" using fz by (auto simp: freeze_def split: if_splits option.splits)
  with inv show ?thesis by simp
next
  case True
  then obtain syncID where id: "rand = Some syncID" "syncID \<noteq> []" "map_of R syncID = None"
    using fresh by auto
  obtain d w where d: "rp_outbox r = Some d" "disk_view d = Some w" "wf_snapshot w"
      "ahead up h (counter up a h) R (mem r) w"
    and wf: "wf_snapshot (mem r)" and le: "rp_loadErr r = None" and ai: "auth_inv a" "[] \<notin> user_names a"
    using inv unfolding plane_inv_def disk_ok_def by blast
  define r1 where "r1 = r\<lparr>rp_pending := Some (syncID, rp_queued r), rp_queued := []\<rparr>"
  have wf1: "wf_snapshot (mem r1)"
    using wf True id(2) by (auto simp: wf_snapshot_def mem_def r1_def wf_map_def)
  obtain e1 r2 fs2 where per: "persistOutbox (r1, fs) = (e1, r2, fs2)" by (metis prod.exhaust)
  have "rp_outbox r1 = Some d" using d(1) by (simp add: r1_def)
  from persist_view [OF per this wf1] obtain d' where d':
    "r2 = r1\<lparr>rp_outbox := Some d'\<rparr>" "e1 = None \<longrightarrow> disk_view d' = Some (mem r1)"
    "disk_view d' = disk_view d \<or> disk_view d' = Some (mem r1)" by blast
  have ah: "ahead up h (counter up a h) R (mem r) (mem r1)"
    using True id(3) by (simp add: ahead_def mem_def r1_def)
  show ?thesis
  proof (cases e1)
    case None
    then have r': "r' = r2" using fz per True id(1) by (simp add: freeze_def r1_def)
    then have m: "mem r' = mem r1" "rp_outbox r' = Some d'" "rp_loadErr r' = None"
      using d'(1) le by (simp_all add: mem_def r1_def)
    have "disk_ok up h (counter up a h) R r'"
      using d'(2) None m wf1 ahead_refl [OF counter_nonneg] by (metis disk_okI)
    then have "plane_inv up h R a r'" using m wf1 ai by (simp add: plane_inv_def)
    moreover have "held up R (mem r') h = held up R (mem r) h"
      using m(1) True id(3) by (simp add: held_def mem_def r1_def)
    ultimately show ?thesis using m(1) id(1) by (simp add: mem_def r1_def)
  next
    case (Some err)
    then have r': "r' = r2\<lparr>rp_pending := None, rp_queued := rp_queued r\<rparr>"
      using fz per True id(1) by (auto simp: freeze_def r1_def)
    then have m: "mem r' = mem r" "rp_outbox r' = Some d'" "rp_loadErr r' = None"
      using d'(1) le True by (simp_all add: mem_def r1_def)
    have "disk_ok up h (counter up a h) R r'"
      using d'(3) d m wf1 ah by (metis disk_okI)
    then have "plane_inv up h R a r'" using m wf ai by (simp add: plane_inv_def)
    with m(1) show ?thesis by (simp add: mem_def)
  qed
qed

text \<open>What the network does with one request.\<close>

datatype link = Deliver | LoseRequest | LoseResponse

definition send_over :: "link \<Rightarrow> bool \<Rightarrow> int \<Rightarrow> traffic_db sender" where
  "send_over link down now syncID m db =
     (case link of
        LoseRequest \<Rightarrow> (None, db)
      | Deliver \<Rightarrow> (case handleDataPlaneTraffic down now syncID m db of (status, db') \<Rightarrow> (Some status, db'))
      | LoseResponse \<Rightarrow> (case handleDataPlaneTraffic down now syncID m db of (status, db') \<Rightarrow> (None, db')))"

lemma handle_status:
  "handleDataPlaneTraffic down now syncID m db = (status, db') \<Longrightarrow> status = 200 \<or> status = 400 \<or> status = 500"
  by (auto simp: handleDataPlaneTraffic_def split: if_splits sum.splits)

text \<open>A request moves the batch from the reporter's to the user's account, or changes nothing.\<close>

lemma send_over_effect:
  assumes "send_over link down now syncID m db = (reply, db')" "wf_map m" "h \<noteq> []"
    "map_of (rows db) h \<noteq> None"
  shows "map_of (rows db') h \<noteq> None"
    and "db' = db \<or> map_of (receipts db) syncID = None \<and> receipts db' = receipts db @ [(syncID, now)] \<and>
      charged up db' h = charged up db h + amount up m h"
    and "\<And>status. reply = Some status \<Longrightarrow> 200 \<le> status \<Longrightarrow> status < 300 \<Longrightarrow> map_of (receipts db') syncID \<noteq> None"
proof -
  have dist: "distinct (map fst m)" using assms(2) by (simp add: wf_map_def)
  obtain st db1 where H: "handleDataPlaneTraffic down now syncID m db = (st, db1)" by fastforce
  note R = handle_reply [OF H dist] and S = handle_status [OF H]
  have eff: "db1 = db \<or> map_of (receipts db) syncID = None \<and> receipts db1 = receipts db @ [(syncID, now)] \<and>
      charged up db1 h = charged up db h + amount up m h" for up
    using R(1) R(2) R(3) R(4) [OF _ _ assms(3), of up] assms(4)
    by (cases "st = 200"; cases "map_of (receipts db) syncID") auto
  have ack: "st = 200 \<Longrightarrow> map_of (receipts db1) syncID \<noteq> None"
    using R(2,3) by (cases "map_of (receipts db) syncID") (auto simp: map_of_eq_None_iff)
  have link: "db' = db \<or> db' = db1" using assms(1) H by (cases link) (auto simp: send_over_def)
  show "map_of (rows db') h \<noteq> None" using link R(5) [of h] assms(4) by auto
  show "db' = db \<or> map_of (receipts db) syncID = None \<and> receipts db' = receipts db @ [(syncID, now)] \<and>
      charged up db' h = charged up db h + amount up m h"
    using link eff by blast
  show "map_of (receipts db') syncID \<noteq> None"
    if "reply = Some status" "200 \<le> status" "status < 300" for status
  proof -
    have "st = status" "db' = db1" using assms(1) H that(1) by (cases link; auto simp: send_over_def)+
    with S that ack show ?thesis by auto
  qed
qed

lemma ahead_receipts:
  assumes "ahead up h c R v w" "fst v = Some (syncID, m)" "R' = R \<or> R' = R @ [x]"
  shows "ahead up h c R' v w"
  using assms by (auto simp: ahead_def map_add_def split: option.splits)

lemma send_pending_effect:
  assumes inv: "plane_inv up h (receipts db) a r" and h: "h \<noteq> []" "map_of (rows db) h \<noteq> None"
    and sp: "send_pending (send_over link down now) (r, fs) db = (e, (r', fs'), db')"
  shows "plane_inv up h (receipts db') a r' \<and> map_of (rows db') h \<noteq> None \<and>
    charged up db' h + held up (receipts db') (mem r') h = charged up db h + held up (receipts db) (mem r) h \<and>
    (rp_pending r' = rp_pending r \<or> rp_pending r' = None) \<and>
    (receipts db' = receipts db \<or>
      (\<exists>syncID m. rp_pending r = Some (syncID, m) \<and> receipts db' = receipts db @ [(syncID, now)]))"
proof (cases "rp_pending r")
  case None
  then have "r' = r" "db' = db" using sp by (simp_all add: send_pending_def)
  with inv h show ?thesis by simp
next
  case (Some idm)
  obtain syncID m where p: "rp_pending r = Some (syncID, m)" using Some by fastforce
  obtain reply db1 where S: "send_over link down now syncID m db = (reply, db1)" by fastforce
  obtain d w where d: "rp_outbox r = Some d" "disk_view d = Some w" "wf_snapshot w"
      "ahead up h (counter up a h) (receipts db) (mem r) w"
    and wf: "wf_snapshot (mem r)" and le: "rp_loadErr r = None" and ai: "auth_inv a" "[] \<notin> user_names a"
    using inv unfolding plane_inv_def disk_ok_def by blast
  have wfm: "wf_map m" using wf p by (simp add: wf_snapshot_def mem_def)
  note E = send_over_effect [OF S wfm h]
  have R: "receipts db1 = receipts db \<or> receipts db1 = receipts db @ [(syncID, now)]"
    using E(2) by auto
  have fstm: "fst (mem r) = Some (syncID, m)" by (simp add: mem_def p)
  have ah: "ahead up h (counter up a h) (receipts db1) (mem r) w"
    by (rule ahead_receipts [OF d(4) fstm R])
  have keep: "plane_inv up h (receipts db1) a r"
    using d ah wf le ai by (auto simp: plane_inv_def intro: disk_okI)
  have total: "charged up db1 h + held up (receipts db1) (mem r) h =
      charged up db h + held up (receipts db) (mem r) h"
    using E(2) [of up] p by (auto simp: held_def mem_def)
  show ?thesis
  proof (cases "reply = None \<or> (\<exists>st. reply = Some st \<and> (st < 200 \<or> st \<ge> 300))")
    case True
    then have "r' = r" "db' = db1" using sp p S by (auto simp: send_pending_def)
    with keep total E(1) R p show ?thesis by auto
  next
    case False
    then obtain st where st: "reply = Some st" "200 \<le> st" "st < 300" by (cases reply) auto
    have ack: "map_of (receipts db1) syncID \<noteq> None" by (rule E(3) [OF st])
    define r1 where "r1 = r\<lparr>rp_pending := None\<rparr>"
    have wf1: "wf_snapshot (mem r1)" using wf by (simp add: wf_snapshot_def mem_def r1_def)
    obtain e1 r2 fs2 where per: "persistOutbox (r1, fs) = (e1, r2, fs2)" by (metis prod.exhaust)
    have "rp_outbox r1 = Some d" using d(1) by (simp add: r1_def)
    from persist_view [OF per this wf1] obtain d' where d':
      "r2 = r1\<lparr>rp_outbox := Some d'\<rparr>" "e1 = None \<longrightarrow> disk_view d' = Some (mem r1)"
      "disk_view d' = disk_view d \<or> disk_view d' = Some (mem r1)" by blast
    have db': "db' = db1" using sp p S st per by (auto simp: send_pending_def r1_def split: option.splits)
    show ?thesis
    proof (cases e1)
      case None
      then have "r' = r2" using sp p S st per by (simp add: send_pending_def r1_def)
      then have m: "mem r' = mem r1" "rp_outbox r' = Some d'" "rp_loadErr r' = None" "rp_pending r' = None"
        using d'(1) le by (simp_all add: mem_def r1_def)
      have "disk_ok up h (counter up a h) (receipts db') r'"
        using d'(2) None m wf1 ahead_refl [OF counter_nonneg] by (metis disk_okI)
      then have "plane_inv up h (receipts db') a r'" using m wf1 ai by (simp add: plane_inv_def)
      moreover have "held up (receipts db1) (mem r') h = held up (receipts db1) (mem r) h"
        using m(1) ack p by (auto simp: held_def mem_def r1_def)
      ultimately show ?thesis using total E(1) R p m db' by auto
    next
      case (Some err)
      then have "r' = r2\<lparr>rp_pending := Some (syncID, m)\<rparr>"
        using sp p S st per by (auto simp: send_pending_def r1_def)
      then have m: "mem r' = mem r" "rp_outbox r' = Some d'" "rp_loadErr r' = None" "rp_pending r' = rp_pending r"
        using d'(1) le p by (simp_all add: mem_def r1_def)
      have "ahead up h (counter up a h) (receipts db1) (mem r) (mem r1)"
        using ack p by (auto simp: ahead_def mem_def r1_def)
      then have "disk_ok up h (counter up a h) (receipts db') r'"
        using d'(3) d(2,3) ah m wf1 db' by (metis disk_okI)
      then have "plane_inv up h (receipts db') a r'" using m wf ai by (simp add: plane_inv_def)
      then show ?thesis using total E(1) R p m db' by auto
    qed
  qed
qed

section \<open>Runs\<close>

record plane_world =
  pw_auth :: mem_auth
  pw_reporter :: reporter
  pw_db :: traffic_db

text \<open>\<open>PAdd\<close>: a connection of a user transfers bytes. \<open>PFlush\<close>: the reporter's tick, with the
  faults of its saves, the random id, the fate of the request, whether the database is down,
  and the time. \<open>PCrash\<close>: the data-plane process dies and restarts with the same users.\<close>

datatype plane_ev = PAdd string u64 u64 | PFlush faults "string option" link bool int | PCrash

definition restart_auth :: "mem_auth \<Rightarrow> mem_auth" where
  "restart_auth a = a\<lparr>heap := map (\<lambda>u. new_user (hash u)) (heap a)\<rparr>"

definition restart_reporter :: "reporter \<Rightarrow> reporter" where
  "restart_reporter r =
     (case loadOutbox \<lparr>rp_pending = None, rp_queued = [], rp_outbox = rp_outbox r, rp_loadErr = None\<rparr> of
        (e, r') \<Rightarrow> r'\<lparr>rp_loadErr := e\<rparr>)"

fun plane_step :: "plane_ev \<Rightarrow> plane_world \<Rightarrow> plane_world" where
  "plane_step (PAdd k s v) w =
     (case AuthUser k (pw_auth w) of
        None \<Rightarrow> w
      | Some p \<Rightarrow> w\<lparr>pw_auth := (pw_auth w)\<lparr>heap := (heap (pw_auth w))[p := AddTraffic64 s v (heap (pw_auth w) ! p)]\<rparr>\<rparr>)"
| "plane_step (PFlush fs rand link down now) w =
     (case flush (send_over link down now) rand (pw_auth w) (pw_reporter w, fs) (pw_db w) of
        (_, a, (r, _), db) \<Rightarrow> \<lparr>pw_auth = a, pw_reporter = r, pw_db = db\<rparr>)"
| "plane_step PCrash w =
     w\<lparr>pw_auth := restart_auth (pw_auth w), pw_reporter := restart_reporter (pw_reporter w)\<rparr>"

text \<open>What is safe from a crash, and the whole.\<close>

definition durable :: "bool \<Rightarrow> string \<Rightarrow> plane_world \<Rightarrow> int" where
  "durable up h w = charged up (pw_db w) h + held up (receipts (pw_db w)) (mem (pw_reporter w)) h"

definition accounted :: "bool \<Rightarrow> string \<Rightarrow> plane_world \<Rightarrow> int" where
  "accounted up h w = durable up h w + counter up (pw_auth w) h"

fun ev_added :: "bool \<Rightarrow> string \<Rightarrow> plane_ev \<Rightarrow> int" where
  "ev_added up h (PAdd k s v) = (if k = h then uint (if up then v else s) else 0)"
| "ev_added up h _ = 0"

text \<open>What \<open>crypto/rand\<close> is relied on for: an id is not empty and was never accepted before.\<close>

fun fresh_ev :: "plane_ev \<Rightarrow> plane_world \<Rightarrow> bool" where
  "fresh_ev (PFlush fs (Some syncID) link down now) w \<longleftrightarrow>
     syncID \<noteq> [] \<and> map_of (receipts (pw_db w)) syncID = None"
| "fresh_ev _ w \<longleftrightarrow> True"

fun fresh_run :: "plane_ev list \<Rightarrow> plane_world \<Rightarrow> bool" where
  "fresh_run [] w \<longleftrightarrow> True"
| "fresh_run (e # es) w \<longleftrightarrow> fresh_ev e w \<and> fresh_run es (plane_step e w)"

definition world_inv :: "bool \<Rightarrow> string \<Rightarrow> plane_world \<Rightarrow> bool" where
  "world_inv up h w \<longleftrightarrow> plane_inv up h (receipts (pw_db w)) (pw_auth w) (pw_reporter w) \<and>
     h \<in> user_names (pw_auth w) \<and> map_of (rows (pw_db w)) h \<noteq> None"

lemma world_inv_hash: "world_inv up h w \<Longrightarrow> h \<noteq> []"
  by (auto simp: world_inv_def plane_inv_def)

lemma uint_add_small:
  fixes x y :: u64
  shows "uint x + uint y < 2 ^ 64 \<Longrightarrow> uint (x + y) = uint x + uint y"
  using uint_add_lem [of x y] by simp

lemma step_add:
  assumes inv: "world_inv up h w" and fit: "counter up (pw_auth w) h + ev_added up h (PAdd k s v) < 2 ^ 64"
  defines "w' \<equiv> plane_step (PAdd k s v) w"
  shows "world_inv up h w' \<and> durable up h w' = durable up h w \<and>
    accounted up h w' = accounted up h w + ev_added up h (PAdd k s v)"
proof (cases "AuthUser k (pw_auth w)")
  case None
  have "AuthUser h (pw_auth w) \<noteq> None"
    using inv by (simp add: world_inv_def AuthUser_None_iff)
  with None have "k \<noteq> h" by auto
  with None inv show ?thesis by (simp add: w'_def)
next
  case (Some p)
  let ?a = "pw_auth w"
  let ?u = "AddTraffic64 s v (heap ?a ! p)"
  have ai: "auth_inv ?a" using inv by (simp add: world_inv_def plane_inv_def)
  have m: "(k, p) \<in> set (users ?a)" using Some by (rule AuthUser_SomeD)
  then have p: "p \<in> set (ListUsers ?a)" and k: "hash (heap ?a ! p) = k"
    using ai by (force simp: ListUsers_def auth_inv_def)+
  have hu: "hash ?u = hash (heap ?a ! p)" by (simp add: AddTraffic64_def)
  define a' where "a' = ?a\<lparr>heap := (heap ?a)[p := ?u]\<rparr>"
  note H = heap_update_user [OF ai p hu, folded a'_def]
  have w': "w' = w\<lparr>pw_auth := a'\<rparr>" using Some by (simp add: w'_def a'_def)
  have c: "counter up a' h = counter up ?a h + ev_added up h (PAdd k s v)"
  proof (cases "h = k")
    case True
    have "counter up ?a k = uint (if up then recv (heap ?a ! p) else sent (heap ?a ! p))"
      using Some by (simp add: counter_def)
    with True fit H(4) [of up h] k show ?thesis
      by (auto simp: AddTraffic64_def uint_add_small)
  qed (use H(4) [of up h] k in auto)
  have "0 \<le> ev_added up h (PAdd k s v)" by simp
  then have "counter up ?a h \<le> counter up a' h" using c by linarith
  then have "disk_ok up h (counter up a' h) (receipts (pw_db w)) (pw_reporter w)"
    using inv unfolding world_inv_def plane_inv_def disk_ok_def by (meson ahead_mono)
  then have "world_inv up h w'"
    using inv H(1,2) w' by (auto simp: world_inv_def plane_inv_def)
  then show ?thesis using c w' by (simp add: durable_def accounted_def)
qed

lemma step_crash:
  assumes "world_inv up h w"
  defines "w' \<equiv> plane_step PCrash w"
  shows "world_inv up h w' \<and> durable up h w \<le> durable up h w' \<and> accounted up h w' \<le> accounted up h w"
proof -
  let ?a = "pw_auth w" and ?r = "pw_reporter w" and ?R = "receipts (pw_db w)"
  obtain d v where d: "rp_outbox ?r = Some d" "disk_view d = Some v" "wf_snapshot v"
      "ahead up h (counter up ?a h) ?R (mem ?r) v"
    and ai: "auth_inv ?a" "[] \<notin> user_names ?a" "h \<in> user_names ?a"
    using assms(1) unfolding world_inv_def plane_inv_def disk_ok_def by blast
  let ?a' = "restart_auth ?a" and ?r' = "restart_reporter ?r"
  obtain s where s: "File_Load (Some d) = Ret s" "state_view s = v"
    using d(2) by (auto simp: disk_view_def split: outcome.splits)
  then have r': "mem ?r' = v" "rp_outbox ?r' = Some d" "rp_loadErr ?r' = None"
    using d(1) by (auto simp: restart_reporter_def loadOutbox_def mem_def state_view_def)
  have names: "user_names ?a' = user_names ?a" by (simp add: restart_auth_def user_names_def)
  have "auth_inv ?a'"
    using ai(1) by (fastforce simp: restart_auth_def auth_inv_def new_user_def)
  moreover have c0: "counter up ?a' h = 0"
  proof -
    obtain p where "AuthUser h ?a = Some p" using ai(3) AuthUser_None_iff by fastforce
    moreover from this have "p < length (heap ?a)"
      using AuthUser_SomeD ai(1) by (fastforce simp: auth_inv_def)
    ultimately show ?thesis by (simp add: counter_def restart_auth_def AuthUser_def new_user_def)
  qed
  moreover have "disk_ok up h 0 ?R ?r'"
    using r' d(2,3) ahead_refl [of 0 up h ?R v] by (intro disk_okI) simp_all
  ultimately have "plane_inv up h ?R ?a' ?r'"
    using r' d(3) ai(2) names by (simp add: plane_inv_def)
  then have inv: "world_inv up h w'"
    using assms(1) names by (simp add: world_inv_def w'_def)
  have "held up ?R (mem ?r) h \<le> held up ?R v h" "held up ?R v h \<le> held up ?R (mem ?r) h + counter up ?a h"
    using ahead_held [OF d(4) counter_nonneg] by simp_all
  with inv c0 r'(1) show ?thesis by (simp add: durable_def accounted_def w'_def)
qed

lemma held_collect:
  "rp_pending r' = rp_pending r \<Longrightarrow> amount up (rp_queued r') h = amount up (rp_queued r) h + x \<Longrightarrow>
   held up R (mem r') h = held up R (mem r) h + x"
  by (simp add: held_def mem_def)

lemma step_flush:
  assumes inv: "world_inv up h w" and fresh: "fresh_ev (PFlush fs rand link down now) w"
  defines "w' \<equiv> plane_step (PFlush fs rand link down now) w"
  shows "world_inv up h w' \<and> durable up h w \<le> durable up h w' \<and> accounted up h w' = accounted up h w"
proof -
  let ?a = "pw_auth w" and ?r = "pw_reporter w" and ?db = "pw_db w"
  have pi: "plane_inv up h (receipts ?db) ?a ?r" and hn: "h \<in> user_names ?a" "map_of (rows ?db) h \<noteq> None"
    using inv by (auto simp: world_inv_def)
  have h: "h \<noteq> []" by (rule world_inv_hash [OF inv])
  have le: "rp_loadErr ?r = None" using pi by (simp add: plane_inv_def)
  obtain e1 a1 r1 fs1 where co: "collect ?a (?r, fs) = (e1, a1, (r1, fs1))" by (metis prod.exhaust)
  note C = collect_effect [OF pi subset_refl co [unfolded collect_def]]
  then have heldC: "held up (receipts ?db) (mem r1) h + counter up a1 h =
      held up (receipts ?db) (mem ?r) h + counter up ?a h"
    and heldC': "held up (receipts ?db) (mem ?r) h \<le> held up (receipts ?db) (mem r1) h"
    using held_collect [of r1 ?r up h _ "receipts ?db"] by (auto simp: held_def mem_def)
  show ?thesis
  proof (cases e1)
    case (Some err)
    then have "w' = \<lparr>pw_auth = a1, pw_reporter = r1, pw_db = ?db\<rparr>"
      using co le by (simp add: w'_def flush_def)
    with C hn heldC heldC' show ?thesis by (simp add: world_inv_def durable_def accounted_def)
  next
    case e1: None
    obtain e2 r2 fs2 where fz: "freeze rand (r1, fs1) = (e2, (r2, fs2))" by (metis prod.exhaust)
    have "\<And>syncID. rand = Some syncID \<Longrightarrow> syncID \<noteq> [] \<and> map_of (receipts ?db) syncID = None"
      using fresh by simp
    note F = freeze_effect [OF C [THEN conjunct1] fz this]
    show ?thesis
    proof (cases e2)
      case (Some err)
      then have "w' = \<lparr>pw_auth = a1, pw_reporter = r2, pw_db = ?db\<rparr>"
        using co le e1 fz by (simp add: w'_def flush_def)
      with C F hn heldC heldC' show ?thesis by (simp add: world_inv_def durable_def accounted_def)
    next
      case None
      obtain e3 r3 fs3 db3 where sp: "send_pending (send_over link down now) (r2, fs2) ?db = (e3, (r3, fs3), db3)"
        by (metis prod.exhaust)
      note S = send_pending_effect [OF F [THEN conjunct1] h hn(2) sp]
      have "w' = \<lparr>pw_auth = a1, pw_reporter = r3, pw_db = db3\<rparr>"
        using co le e1 fz None sp by (simp add: w'_def flush_def)
      with C F S hn heldC heldC' show ?thesis by (simp add: world_inv_def durable_def accounted_def)
    qed
  qed
qed

lemma step_effect:
  assumes "world_inv up h w" "fresh_ev e w" "counter up (pw_auth w) h + ev_added up h e < 2 ^ 64"
  shows "world_inv up h (plane_step e w) \<and> durable up h w \<le> durable up h (plane_step e w) \<and>
    accounted up h (plane_step e w) \<le> accounted up h w + ev_added up h e \<and>
    (e \<noteq> PCrash \<longrightarrow> accounted up h (plane_step e w) = accounted up h w + ev_added up h e)"
proof (cases e)
  case (PAdd k s v)
  then show ?thesis using step_add [of up h w k s v] assms by auto
next
  case (PFlush fs rand link down now)
  then show ?thesis using step_flush [of up h w fs rand link down now] assms by auto
next
  case PCrash
  then show ?thesis using step_crash [of up h w] assms by auto
qed

lemma ev_added_nonneg: "0 \<le> ev_added up h e"
  by (cases e) simp_all

lemma durable_nonneg: "world_inv up h w \<Longrightarrow> 0 \<le> charged up (pw_db w) h \<Longrightarrow> 0 \<le> durable up h w"
  using amount_nonneg by (auto simp: durable_def held_def intro!: add_nonneg_nonneg split: option.splits)

lemma run_effect:
  "\<lbrakk>world_inv up h w; 0 \<le> durable up h w; fresh_run es w;
    accounted up h w + sum_list (map (ev_added up h) es) < 2 ^ 64\<rbrakk> \<Longrightarrow>
   world_inv up h (fold plane_step es w) \<and> durable up h w \<le> durable up h (fold plane_step es w) \<and>
   accounted up h (fold plane_step es w) \<le> accounted up h w + sum_list (map (ev_added up h) es) \<and>
   (PCrash \<notin> set es \<longrightarrow>
     accounted up h (fold plane_step es w) = accounted up h w + sum_list (map (ev_added up h) es))"
proof (induction es arbitrary: w)
  case Nil
  then show ?case by simp
next
  case (Cons e es)
  have rest: "0 \<le> sum_list (map (ev_added up h) es)"
    by (intro sum_list_nonneg) (auto simp: ev_added_nonneg)
  have "counter up (pw_auth w) h \<le> accounted up h w" using Cons.prems(2) by (simp add: accounted_def)
  then have "counter up (pw_auth w) h + ev_added up h e < 2 ^ 64"
    using Cons.prems(4) rest by simp
  from step_effect [OF Cons.prems(1) _ this] Cons.prems(3)
  have S: "world_inv up h (plane_step e w)" "durable up h w \<le> durable up h (plane_step e w)"
    "accounted up h (plane_step e w) \<le> accounted up h w + ev_added up h e"
    "e \<noteq> PCrash \<longrightarrow> accounted up h (plane_step e w) = accounted up h w + ev_added up h e"
    by auto
  have "0 \<le> durable up h (plane_step e w)" using S(2) Cons.prems(2) by linarith
  moreover have "accounted up h (plane_step e w) + sum_list (map (ev_added up h) es) < 2 ^ 64"
    using S(3) Cons.prems(4) by simp
  moreover have "fresh_run es (plane_step e w)" using Cons.prems(3) by simp
  ultimately show ?case using Cons.IH [OF S(1)] S by auto
qed

text \<open>A flush that reports success.\<close>

lemma take_drains:
  "TakeTraffic (Some f) u st = ((x, y, None), u', st') \<Longrightarrow> sent u' = 0 \<and> recv u' = 0"
  by (auto simp: TakeTraffic_def Let_def split: if_splits prod.splits option.splits)

lemma collect_drains:
  "collect_users ps a st = (None, a', st') \<Longrightarrow> q < length (heap a) \<Longrightarrow>
   q \<in> set ps \<or> sent (heap a ! q) = 0 \<and> recv (heap a ! q) = 0 \<Longrightarrow>
   sent (heap a' ! q) = 0 \<and> recv (heap a' ! q) = 0"
proof (induction ps arbitrary: a st)
  case Nil
  then show ?case by simp
next
  case (Cons p ps)
  obtain x y e1 u st1 where tk: "TakeTraffic (Some (checkpoint_user (hash (heap a ! p)))) (heap a ! p) st =
      ((x, y, e1), u, st1)" by (metis prod.exhaust)
  have e1: "e1 = None" and rest: "collect_users ps (a\<lparr>heap := (heap a)[p := u]\<rparr>) st1 = (None, a', st')"
    using Cons.prems(1) tk by (auto simp: Let_def split: option.splits)
  have "q \<in> set ps \<or> sent ((heap a)[p := u] ! q) = 0 \<and> recv ((heap a)[p := u] ! q) = 0"
    using Cons.prems(2,3) take_drains [OF tk [unfolded e1]] by (cases "q = p") auto
  with Cons.IH [OF rest] Cons.prems(2) show ?case by simp
qed

lemma collect_users_same: "collect_users ps a st = (e, a', st') \<Longrightarrow> users a' = users a"
proof (induction ps arbitrary: a st)
  case (Cons p ps)
  obtain x y e1 u st1 where tk: "TakeTraffic (Some (checkpoint_user (hash (heap a ! p)))) (heap a ! p) st =
      ((x, y, e1), u, st1)" by (metis prod.exhaust)
  with Cons show ?case by (cases e1) (auto simp: Let_def)
qed simp

lemma persist_mem: "persistOutbox (r, fs) = (e, r', fs') \<Longrightarrow> mem r' = mem r"
  by (auto simp: persistOutbox_def mem_def split: option.splits prod.splits)

lemma freeze_done:
  assumes "freeze rand (r, fs) = (None, r', fs')" "rp_pending r = None"
  shows "rp_queued r' = []"
  using assms persist_mem
  by (auto simp: freeze_def mem_def split: if_splits option.splits prod.splits; fastforce simp: mem_def)

lemma send_done:
  assumes "send_pending send (r, fs) srv = (None, (r', fs'), srv')"
  shows "mem r' = (None, rp_queued r)"
proof (cases "rp_pending r")
  case None
  with assms show ?thesis by (simp add: send_pending_def mem_def)
next
  case (Some p)
  then obtain syncID m where p: "rp_pending r = Some (syncID, m)" by (cases p) auto
  obtain e1 r1 fs1 where per: "persistOutbox (r\<lparr>rp_pending := None\<rparr>, fs) = (e1, r1, fs1)"
    by (metis prod.exhaust)
  have "r' = r1"
    using assms p per by (auto simp: send_pending_def split: prod.splits option.splits if_splits)
  with persist_mem [OF per] show ?thesis by (simp add: mem_def)
qed

section \<open>Properties\<close>

text \<open>C1. Every metered byte is charged at most once, and is not lost but by a crash. Take any run of
  user transfers, reporter ticks and crashes of the data-plane process, in which saves fail before
  or after their rename, requests and replies get lost and the database fails, and in which the
  random ids are fresh and a user's traffic fits the 64-bit meters. Then what is charged plus
  what the outbox still holds never decreases, also not by a crash; charged, held and metered
  traffic together never exceed what was transferred; and without a crash they are exactly what
  was transferred. So no retry ever charges a byte twice, and a crash can only lose what was
  still in the meters.\<close>

theorem traffic_charged_exactly_once:
  fixes es :: "plane_ev list" and w0 :: plane_world
  defines "w \<equiv> fold plane_step es w0"
  assumes "world_inv up h w0" "0 \<le> charged up (pw_db w0) h" "fresh_run es w0"
    "accounted up h w0 + sum_list (map (ev_added up h) es) < 2 ^ 64"
  shows "durable up h w0 \<le> durable up h w \<and>
    charged up (pw_db w) h + held up (receipts (pw_db w)) (mem (pw_reporter w)) h + counter up (pw_auth w) h
      \<le> accounted up h w0 + sum_list (map (ev_added up h) es) \<and>
    (PCrash \<notin> set es \<longrightarrow>
     charged up (pw_db w) h + held up (receipts (pw_db w)) (mem (pw_reporter w)) h + counter up (pw_auth w) h
      = accounted up h w0 + sum_list (map (ev_added up h) es))"
proof -
  have "0 \<le> durable up h w0" by (rule durable_nonneg [OF assms(2,3)])
  from run_effect [OF assms(2) this assms(4,5)] show ?thesis
    by (simp add: w_def durable_def accounted_def)
qed

text \<open>A run with a failed save after a rename, a crash and a lost reply.\<close>

definition sample_world :: plane_world where
  "sample_world =
     \<lparr>pw_auth = \<lparr>users = [(''u'', 0)], heap = [new_user ''u'']\<rparr>,
      pw_reporter = \<lparr>rp_pending = None, rp_queued = [], rp_outbox = Some Absent, rp_loadErr = None\<rparr>,
      pw_db = sample_db\<rparr>"

definition sample_run :: "plane_ev list" where
  "sample_run = [PAdd ''u'' 5 7, PFlush [FailAfter] (Some ''a'') Deliver False 1, PCrash,
     PFlush [] (Some ''b'') LoseResponse False 2, PFlush [] (Some ''c'') Deliver False 3]"

lemma sample_world_inv: "world_inv True ''u'' sample_world"
proof -
  have "disk_view Absent = Some (None, [])"
    by (simp add: disk_view_def File_Load_def state_view_def Normalize_def zero_state_def)
  then have "disk_ok True ''u'' 0 [] (pw_reporter sample_world)"
    by (intro disk_okI [where d = Absent and w = "(None, [])"])
      (auto simp: sample_world_def wf_snapshot_def wf_map_def mem_def ahead_def)
  then show ?thesis
    by (simp add: world_inv_def plane_inv_def sample_world_def auth_inv_def user_names_def new_user_def
        wf_snapshot_def wf_map_def mem_def sample_db_def counter_def AuthUser_def)
qed

theorem traffic_charged_exactly_once_witness:
  "charged True (pw_db (fold plane_step sample_run sample_world)) ''u'' = 17 \<and>
   charged True (pw_db (fold plane_step sample_run sample_world)) ''u'' +
     held True (receipts (pw_db (fold plane_step sample_run sample_world)))
       (mem (pw_reporter (fold plane_step sample_run sample_world))) ''u'' +
     counter True (pw_auth (fold plane_step sample_run sample_world)) ''u'' \<le> 17"
proof -
  have c: "charged True (pw_db (fold plane_step sample_run sample_world)) ''u'' = 17" by code_simp
  have f: "fresh_run sample_run sample_world" by code_simp
  have a: "accounted True ''u'' sample_world + sum_list (map (ev_added True ''u'') sample_run) = 17"
    by code_simp
  have "0 \<le> charged True (pw_db sample_world) ''u''" by code_simp
  from traffic_charged_exactly_once [OF sample_world_inv this f] a c show ?thesis by simp
qed

text \<open>C21. A flush that reports success leaves nothing behind. When no batch was pending and the tick
  returns without an error, everything the user had transferred so far is charged: the meter and
  the outbox are empty for the user.\<close>

theorem successful_flush_charges_everything:
  assumes "world_inv up h w" "fresh_ev (PFlush fs rand link down now) w" "rp_pending (pw_reporter w) = None"
    "flush (send_over link down now) rand (pw_auth w) (pw_reporter w, fs) (pw_db w) = (None, a', (r', fs'), db')"
  shows "charged up db' h = accounted up h w \<and> counter up a' h = 0 \<and> mem r' = (None, [])"
proof -
  let ?a = "pw_auth w" and ?r = "pw_reporter w" and ?db = "pw_db w"
  have ai: "auth_inv ?a" "h \<in> user_names ?a" and le: "rp_loadErr ?r = None"
    and pi: "plane_inv up h (receipts ?db) ?a ?r"
    using assms(1) by (auto simp: world_inv_def plane_inv_def)
  obtain e1 a1 r1 fs1 where co: "collect ?a (?r, fs) = (e1, a1, (r1, fs1))" by (metis prod.exhaust)
  obtain e2 r2 fs2 where fz: "freeze rand (r1, fs1) = (e2, (r2, fs2))" by (metis prod.exhaust)
  have ok: "e1 = None" "e2 = None" "a' = a1"
    "send_pending (send_over link down now) (r2, fs2) ?db = (None, (r', fs'), db')"
    using assms(4) le co fz by (auto simp: flush_def split: option.splits prod.splits)
  have "rp_pending r1 = None"
    using collect_effect [OF pi subset_refl co [unfolded collect_def]] assms(3) by simp
  then have mem: "mem r' = (None, [])" using send_done [OF ok(4)] freeze_done [OF fz [unfolded ok]] by simp
  obtain p where p: "AuthUser h ?a = Some p" using ai(2) AuthUser_None_iff by fastforce
  then have in_list: "(h, p) \<in> set (users ?a)" by (rule AuthUser_SomeD)
  then have "p \<in> set (ListUsers ?a)" "p < length (heap ?a)"
    using ai(1) by (force simp: ListUsers_def auth_inv_def)+
  then have "sent (heap a1 ! p) = 0 \<and> recv (heap a1 ! p) = 0"
    using collect_drains co ok(1) by (metis collect_def)
  moreover have "AuthUser h a1 = Some p"
    using p collect_users_same [OF co [unfolded collect_def]] by (simp add: AuthUser_def)
  ultimately have c: "counter up a' h = 0" using ok(3) by (simp add: counter_def)
  have "accounted up h \<lparr>pw_auth = a', pw_reporter = r', pw_db = db'\<rparr> = accounted up h w"
    using step_flush [OF assms(1,2)] assms(4) by simp
  then show ?thesis using c mem by (simp add: accounted_def durable_def held_def)
qed

theorem successful_flush_charges_everything_witness:
  "\<exists>a' r' fs' db'. flush (send_over Deliver False 1) (Some ''a'') (pw_auth sample_world)
     (pw_reporter sample_world, []) (pw_db sample_world) = (None, a', (r', fs'), db') \<and>
   charged True db' ''u'' = 10"
proof -
  obtain e a' r' fs' db' where f: "flush (send_over Deliver False 1) (Some ''a'') (pw_auth sample_world)
     (pw_reporter sample_world, []) (pw_db sample_world) = (e, a', (r', fs'), db')" by (metis prod.exhaust)
  have "fst (flush (send_over Deliver False 1) (Some ''a'') (pw_auth sample_world)
     (pw_reporter sample_world, []) (pw_db sample_world)) = None" by code_simp
  then have e: "e = None" using f by simp
  have fr: "fresh_ev (PFlush [] (Some ''a'') Deliver False 1) sample_world" by code_simp
  have p: "rp_pending (pw_reporter sample_world) = None" by (simp add: sample_world_def)
  have "accounted True ''u'' sample_world = 10" by code_simp
  with successful_flush_charges_everything [OF sample_world_inv fr p f [unfolded e]] f e show ?thesis by auto
qed

end
