(* ===== verification/User_Policy.thy ===== *)
theory User_Policy
  imports Memory_Stat Traffic_Store
begin

text \<open>
  Who may use the proxy. Four parts of the program answer this from the user table:
  \<open>SyncAuthenticatorFromDatabase\<close> (\<open>internal/webserver/auth_sync.go\<close>), the reply of
  \<open>handleNodeSync\<close> to worker nodes and \<open>handleHysteriaAuth\<close> (\<open>internal/webserver/nodes.go\<close>),
  and the updaters of the MySQL and SQLite authenticators (\<open>statistic/mysql\<close>,
  \<open>statistic/sqlite\<close>). Times count from Go's zero time.
\<close>

section \<open>The user table\<close>

record db_user =
  du_hash :: string
  du_quota :: int
  du_used :: int
  du_upload :: int
  du_download :: int
  du_expiry :: "int option"
  du_ip_limit :: int
  du_status :: int

definition expired :: "int \<Rightarrow> db_user \<Rightarrow> bool" where
  "expired now u \<longleftrightarrow> (case du_expiry u of None \<Rightarrow> False | Some t \<Rightarrow> t \<noteq> 0 \<and> t < now)"

definition over_quota :: "db_user \<Rightarrow> bool" where
  "over_quota u \<longleftrightarrow> du_quota u > 0 \<and> du_used u \<ge> du_quota u"

section \<open>auth_sync.go\<close>

text \<open>The first loop. The query result is \<open>dbUsers\<close>, the hashes seen are collected in \<open>valid\<close>.\<close>

fun sync_users ::
  "int \<Rightarrow> db_user list \<Rightarrow> string list \<Rightarrow> mem_auth \<Rightarrow> go_error option \<times> string list \<times> mem_auth" where
  "sync_users now [] valid a = (None, valid, a)"
| "sync_users now (u # us) valid a =
     (if du_hash u = [] \<or> expired now u \<or> over_quota u then sync_users now us valid a
      else
        let valid' = List.insert (du_hash u) valid in
        case AuthUser (du_hash u) a of
          Some p \<Rightarrow> sync_users now us valid' (on_user p (SetIPLimit (du_ip_limit u)) a)
        | None \<Rightarrow>
            (case AddUser (du_hash u) a of
               (Some e, a1) \<Rightarrow> (Some e, valid', a1)
             | (None, a1) \<Rightarrow>
                 (case AuthUser (du_hash u) a1 of
                    Some p \<Rightarrow> sync_users now us valid' (on_user p (SetIPLimit (du_ip_limit u)) a1)
                  | None \<Rightarrow> sync_users now us valid' a1)))"

definition remove_stale :: "string list \<Rightarrow> mem_auth \<Rightarrow> mem_auth" where
  "remove_stale valid a =
     fold (\<lambda>p b. if hash (heap b ! p) \<in> set valid then b else snd (DelUser (hash (heap b ! p)) b))
       (ListUsers a) a"

definition SyncAuthenticatorFromDatabase ::
  "int \<Rightarrow> db_user list option \<Rightarrow> mem_auth \<Rightarrow> go_error option \<times> mem_auth" where
  "SyncAuthenticatorFromDatabase now db a =
     (case db of
        None \<Rightarrow> (Some (Opaque ''database''), a)
      | Some us \<Rightarrow>
          (case sync_users now (filter (\<lambda>u. du_status u = 0) us) [] a of
             (Some e, _, a1) \<Rightarrow> (Some e, a1)
           | (None, valid, a1) \<Rightarrow> (None, remove_stale valid a1)))"

definition syncAuthAddUser :: "string \<Rightarrow> mem_auth list \<Rightarrow> mem_auth list" where
  "syncAuthAddUser h auths = (if h = [] then auths else map (\<lambda>a. snd (AddUser h a)) auths)"

definition syncAuthDelUser :: "string \<Rightarrow> mem_auth list \<Rightarrow> mem_auth list" where
  "syncAuthDelUser h auths = (if h = [] then auths else map (\<lambda>a. snd (DelUser h a)) auths)"

section \<open>nodes.go\<close>

text \<open>The hashes that \<open>handleNodeSync\<close> returns to a worker.\<close>

definition node_valid_hashes :: "int \<Rightarrow> db_user list \<Rightarrow> string list" where
  "node_valid_hashes now us =
     map du_hash (filter (\<lambda>u. \<not> expired now u \<and> \<not> over_quota u \<and> du_hash u \<noteq> [])
       (filter (\<lambda>u. du_status u = 0) us))"

text \<open>\<open>handleHysteriaAuth\<close> on the password found in the request.\<close>

definition handleHysteriaAuth :: "int \<Rightarrow> db_user list \<Rightarrow> string \<Rightarrow> int" where
  "handleHysteriaAuth now us password =
     (if password = [] then 400
      else case find (\<lambda>u. du_hash u = SHA224String password) us of
        None \<Rightarrow> 401
      | Some u \<Rightarrow>
          if du_status u \<noteq> 0 then 401
          else if expired now u then 401
          else if over_quota u then 401
          else 200)"

section \<open>statistic/mysql and statistic/sqlite\<close>

record mysql_row =
  my_hash :: string
  my_quota :: int
  my_download :: int
  my_upload :: int

text \<open>The first loop of the MySQL \<open>updater\<close>. \<open>execs h\<close> tells whether the UPDATE for the user
  succeeds and \<open>countErr h\<close> whether the driver fails to report the affected rows.\<close>

definition mysql_push_user ::
  "(string \<Rightarrow> bool) \<Rightarrow> (string \<Rightarrow> bool) \<Rightarrow> nat \<Rightarrow> mem_auth \<times> mysql_row list \<Rightarrow> mem_auth \<times> mysql_row list" where
  "mysql_push_user execs countErr p st =
     (case st of (a, tab) \<Rightarrow>
      let h = hash (heap a ! p);
          ((s, r), u) = ResetTraffic (heap a ! p);
          a1 = on_user p (\<lambda>_. u) a
      in if \<not> execs h then (a1, tab)
         else
           let tab' = map (\<lambda>w. if my_hash w = h
                 then w\<lparr>my_upload := my_upload w + uint r, my_download := my_download w + uint s\<rparr> else w) tab;
               affected = length (filter (\<lambda>w. my_hash w = h) tab)
           in if countErr h \<and> affected = 0 then (snd (DelUser h a1), tab') else (a1, tab'))"

definition mysql_pull :: "mysql_row list \<Rightarrow> mem_auth \<Rightarrow> mem_auth" where
  "mysql_pull tab a =
     fold (\<lambda>w b. if wrap64 (my_download w + my_upload w) < my_quota w \<or> my_quota w < 0
             then snd (AddUser (my_hash w) b) else snd (DelUser (my_hash w) b)) tab a"

definition mysql_updater ::
  "(string \<Rightarrow> bool) \<Rightarrow> (string \<Rightarrow> bool) \<Rightarrow> bool \<Rightarrow> mem_auth \<times> mysql_row list \<Rightarrow> mem_auth \<times> mysql_row list" where
  "mysql_updater execs countErr queryOk st =
     (case fold (mysql_push_user execs countErr) (ListUsers (fst st)) st of
        (a, tab) \<Rightarrow> (if queryOk then mysql_pull tab a else a, tab))"

text \<open>One tick of the SQLite \<open>updater\<close>. A NULL expiry or one in the future is accepted.\<close>

definition sqlite_push_user ::
  "(string \<Rightarrow> bool) \<Rightarrow> nat \<Rightarrow> mem_auth \<times> db_user list \<Rightarrow> mem_auth \<times> db_user list" where
  "sqlite_push_user execs p st =
     (case st of (a, us) \<Rightarrow>
      let h = hash (heap a ! p);
          ((s, r), u) = ResetTraffic (heap a ! p);
          a1 = on_user p (\<lambda>_. u) a
      in if s = 0 \<and> r = 0 \<or> \<not> execs h then (a1, us)
         else (a1, map (\<lambda>w. if du_hash w = h
                 then w\<lparr>du_used := du_used w + uint (s + r), du_upload := du_upload w + uint r,
                        du_download := du_download w + uint s\<rparr> else w) us))"

definition sqlite_selected :: "int \<Rightarrow> db_user \<Rightarrow> bool" where
  "sqlite_selected now u \<longleftrightarrow>
     du_status u = 0 \<and> (case du_expiry u of None \<Rightarrow> True | Some t \<Rightarrow> now < t)"

definition sqlite_pull :: "int \<Rightarrow> db_user list \<Rightarrow> mem_auth \<Rightarrow> mem_auth" where
  "sqlite_pull now us a =
     (let dbUsers = filter (sqlite_selected now) us;
          current = auth_hashes a;
          added = fold (\<lambda>u b. if du_hash u \<in> set current then b else snd (AddUser (du_hash u) b)) dbUsers a;
          gone = filter (\<lambda>h. h \<notin> du_hash ` set dbUsers) current
      in fold (\<lambda>h b. snd (DelUser h b)) gone added)"

definition sqlite_updater ::
  "int \<Rightarrow> (string \<Rightarrow> bool) \<Rightarrow> bool \<Rightarrow> mem_auth \<times> db_user list \<Rightarrow> mem_auth \<times> db_user list" where
  "sqlite_updater now execs queryOk st =
     (case fold (sqlite_push_user execs) (ListUsers (fst st)) st of
        (a, us) \<Rightarrow> (if queryOk then sqlite_pull now us a else a, us))"

section \<open>One policy\<close>

definition active :: "int \<Rightarrow> db_user \<Rightarrow> bool" where
  "active now u \<longleftrightarrow> du_hash u \<noteq> [] \<and> \<not> expired now u \<and> \<not> over_quota u"

definition limit_of :: "string \<Rightarrow> mem_auth \<Rightarrow> int option" where
  "limit_of h a = map_option (\<lambda>p. maxIPNum (heap a ! p)) (AuthUser h a)"

lemma AuthUser_hash: "auth_inv a \<Longrightarrow> AuthUser h a = Some p \<Longrightarrow> hash (heap a ! p) = h"
  by (auto simp: auth_inv_def dest!: AuthUser_SomeD)

lemma AuthUser_inj: "auth_inv a \<Longrightarrow> AuthUser h a = Some p \<Longrightarrow> AuthUser k a = Some p \<Longrightarrow> h = k"
  using AuthUser_hash [of a h p] AuthUser_hash [of a k p] by simp

lemma AuthUser_range: "auth_inv a \<Longrightarrow> AuthUser h a = Some p \<Longrightarrow> p < length (heap a)"
  using AuthUser_SomeD [of h a p] by (auto simp: auth_inv_def)

lemma limit_of_set:
  assumes "auth_inv a" "AuthUser k a = Some p"
  shows "limit_of h (on_user p (SetIPLimit n) a) = (if h = k then Some n else limit_of h a)"
proof -
  have "p < length (heap a)" by (rule AuthUser_range [OF assms])
  moreover have "AuthUser h a = Some p \<Longrightarrow> h = k" using AuthUser_inj [OF assms(1) _ assms(2)] by blast
  ultimately show ?thesis using assms(2)
    by (cases "AuthUser h a") (auto simp: limit_of_def on_user_def AuthUser_def SetIPLimit_def Let_def
        nth_list_update)
qed

lemma limit_of_add: "auth_inv a \<Longrightarrow> h \<noteq> k \<Longrightarrow> limit_of h (snd (AddUser k a)) = limit_of h a"
  using AuthUser_range [of a h]
  by (cases "map_of (users a) h") (auto simp: limit_of_def AddUser_def AuthUser_def map_add_def nth_append
      split: option.splits)

lemma limit_of_del:
  assumes "auth_inv a" "h \<noteq> k"
  shows "limit_of h (snd (DelUser k a)) = limit_of h a"
proof (cases "AuthUser k a")
  case None
  then show ?thesis by (simp add: DelUser_def)
next
  case (Some p)
  have "map_of (filter (\<lambda>(k', _). k' \<noteq> k) xs) h = map_of xs h" for xs :: "(string \<times> nat) list"
    using assms(2) by (induction xs) auto
  moreover have "AuthUser h a \<noteq> Some p" using AuthUser_inj [OF assms(1) _ Some] assms(2) by blast
  ultimately show ?thesis using Some
    by (cases "AuthUser h a") (auto simp: limit_of_def DelUser_def AuthUser_def)
qed

lemma AddUser_AuthUser: "AuthUser h a = None \<Longrightarrow> AuthUser h (snd (AddUser h a)) = Some (length (heap a))"
  by (simp add: AddUser_def AuthUser_def map_add_def)

text \<open>One active row: the user is known afterwards, with the row's address limit.\<close>

definition ensure_user :: "db_user \<Rightarrow> mem_auth \<Rightarrow> mem_auth" where
  "ensure_user u a =
     (let a1 = snd (AddUser (du_hash u) a) in
      case AuthUser (du_hash u) a1 of Some p \<Rightarrow> on_user p (SetIPLimit (du_ip_limit u)) a1 | None \<Rightarrow> a1)"

lemma ensure_user_effect:
  assumes "auth_inv a"
  shows "auth_inv (ensure_user u a)" "user_names (ensure_user u a) = insert (du_hash u) (user_names a)"
    "limit_of h (ensure_user u a) = (if h = du_hash u then Some (du_ip_limit u) else limit_of h a)"
proof -
  let ?a1 = "snd (AddUser (du_hash u) a)"
  have 1: "auth_inv ?a1" "user_names ?a1 = insert (du_hash u) (user_names a)"
    using assms by (simp_all add: AddUser_inv AddUser_names)
  then obtain p where p: "AuthUser (du_hash u) ?a1 = Some p"
    using AuthUser_None_iff by fastforce
  have keep: "\<And>n v. hash (SetIPLimit n v) = hash v" by (simp add: SetIPLimit_def Let_def)
  note O = on_user_inv [OF 1(1) keep]
  have e: "ensure_user u a = on_user p (SetIPLimit (du_ip_limit u)) ?a1"
    using p by (simp add: ensure_user_def Let_def)
  show "auth_inv (ensure_user u a)" "user_names (ensure_user u a) = insert (du_hash u) (user_names a)"
    using O 1(2) e by simp_all
  show "limit_of h (ensure_user u a) = (if h = du_hash u then Some (du_ip_limit u) else limit_of h a)"
    using limit_of_set [OF 1(1) p, of h] limit_of_add [OF assms, of h "du_hash u"] e by auto
qed

lemma sync_users_ensure:
  "sync_users now us valid a =
     (None, fold (\<lambda>u v. List.insert (du_hash u) v) (filter (active now) us) valid,
      fold ensure_user (filter (active now) us) a)"
proof (induction us arbitrary: valid a)
  case Nil
  then show ?case by simp
next
  case (Cons u us)
  show ?case
  proof (cases "active now u")
    case False
    then show ?thesis using Cons by (auto simp: active_def)
  next
    case True
    then have act: "\<not> (du_hash u = [] \<or> expired now u \<or> over_quota u)" by (simp add: active_def)
    show ?thesis
    proof (cases "AuthUser (du_hash u) a")
      case None
      then have "fst (AddUser (du_hash u) a) = None" by (simp add: AddUser_def)
      then show ?thesis
        using None act True Cons AddUser_AuthUser [OF None]
        by (cases "AddUser (du_hash u) a") (auto simp: ensure_user_def Let_def)
    next
      case (Some p)
      then have "snd (AddUser (du_hash u) a) = a" by (simp add: AddUser_def)
      then show ?thesis using Some act True Cons by (simp add: ensure_user_def Let_def)
    qed
  qed
qed

lemma ensure_all_effect:
  "auth_inv a \<Longrightarrow> distinct (map du_hash us) \<Longrightarrow>
   auth_inv (fold ensure_user us a) \<and>
   user_names (fold ensure_user us a) = user_names a \<union> du_hash ` set us \<and>
   (\<forall>u \<in> set us. limit_of (du_hash u) (fold ensure_user us a) = Some (du_ip_limit u)) \<and>
   (\<forall>h. h \<notin> du_hash ` set us \<longrightarrow> limit_of h (fold ensure_user us a) = limit_of h a)"
proof (induction us arbitrary: a)
  case Nil
  then show ?case by simp
next
  case (Cons u us)
  have "du_hash u \<notin> du_hash ` set us" using Cons.prems(2) by auto
  moreover note Cons.IH [OF ensure_user_effect(1) [OF Cons.prems(1)]]
  ultimately show ?case using Cons.prems ensure_user_effect [OF Cons.prems(1), where u = u] by auto
qed

lemma hash_after_del: "hash (heap (snd (DelUser k a)) ! q) = hash (heap a ! q)"
proof -
  have "hash (xs[i := User_Close (xs ! i)] ! j) = hash (xs ! j)" for xs :: "mem_user list" and i j
    by (cases "i = j"; cases "i < length xs") (simp_all add: list_update_beyond)
  then show ?thesis by (simp add: DelUser_def split: option.splits)
qed

lemma remove_stale_fold:
  "\<forall>p \<in> set ps. hash (heap b ! p) = f p \<Longrightarrow>
   fold (\<lambda>p b. if hash (heap b ! p) \<in> V then b else snd (DelUser (hash (heap b ! p)) b)) ps b =
   fold (\<lambda>h b. snd (DelUser h b)) (filter (\<lambda>h. h \<notin> V) (map f ps)) b"
  by (induction ps arbitrary: b) (auto simp: hash_after_del)

lemma del_all_limit:
  "auth_inv a \<Longrightarrow> h \<notin> set hs \<Longrightarrow> limit_of h (fold (\<lambda>h b. snd (DelUser h b)) hs a) = limit_of h a"
  by (induction hs arbitrary: a) (auto simp: DelUser_inv limit_of_del)

lemma remove_stale_effect:
  assumes "auth_inv a"
  shows "auth_inv (remove_stale valid a)" "user_names (remove_stale valid a) = user_names a \<inter> set valid"
    "h \<in> set valid \<Longrightarrow> limit_of h (remove_stale valid a) = limit_of h a"
proof -
  let ?hs = "filter (\<lambda>h. h \<notin> set valid) (auth_hashes a)"
  have r: "remove_stale valid a = fold (\<lambda>h b. snd (DelUser h b)) ?hs a"
    unfolding remove_stale_def auth_hashes_def
    by (rule remove_stale_fold [where f = "\<lambda>p. hash (heap a ! p)"]) simp
  show inv: "auth_inv (remove_stale valid a)" unfolding r by (rule mem.del_all_invar [OF assms])
  have "set (auth_hashes (remove_stale valid a)) = set (auth_hashes a) - set ?hs"
    unfolding r by (rule mem.del_all_hashes [OF assms])
  then show "user_names (remove_stale valid a) = user_names a \<inter> set valid"
    using set_auth_hashes [OF inv] set_auth_hashes [OF assms] by auto
  show "limit_of h (remove_stale valid a) = limit_of h a" if "h \<in> set valid"
    unfolding r using that by (intro del_all_limit [OF assms]) auto
qed

lemma find_by_hash:
  "distinct (map du_hash us) \<Longrightarrow>
   find (\<lambda>u. du_hash u = h) us = Some u \<longleftrightarrow> u \<in> set us \<and> du_hash u = h"
  by (induction us) (auto simp: image_iff)

lemma sync_result:
  assumes "auth_inv a" "distinct (map du_hash us)" "SyncAuthenticatorFromDatabase now (Some us) a = r"
  shows "fst r = None" "auth_inv (snd r)" "user_names (snd r) = set (node_valid_hashes now us)"
    "u \<in> set us \<Longrightarrow> du_status u = 0 \<Longrightarrow> active now u \<Longrightarrow> limit_of (du_hash u) (snd r) = Some (du_ip_limit u)"
proof -
  let ?us = "filter (active now) (filter (\<lambda>u. du_status u = 0) us)"
  let ?valid = "fold (\<lambda>u v. List.insert (du_hash u) v) ?us []"
  have vs: "set (fold (\<lambda>u v. List.insert (du_hash u) v) xs vs) = set vs \<union> du_hash ` set xs" for xs vs
    by (induction xs arbitrary: vs) auto
  have valid: "set ?valid = du_hash ` set ?us" by (simp only: vs) simp
  have nv: "set (node_valid_hashes now us) = du_hash ` set ?us"
    by (auto simp: node_valid_hashes_def active_def)
  have r: "r = (None, remove_stale ?valid (fold ensure_user ?us a))"
    using assms(3) by (simp add: SyncAuthenticatorFromDatabase_def sync_users_ensure)
  have "distinct (map du_hash ?us)" using assms(2) by (simp add: distinct_map_filter)
  note E = ensure_all_effect [OF assms(1) this]
  note R = remove_stale_effect [OF E [THEN conjunct1], where valid = ?valid]
  show "fst r = None" "auth_inv (snd r)" using r R(1) by simp_all
  show "user_names (snd r) = set (node_valid_hashes now us)" using r R(2) E valid nv by auto
  show "limit_of (du_hash u) (snd r) = Some (du_ip_limit u)"
    if "u \<in> set us" "du_status u = 0" "active now u"
  proof -
    have "u \<in> set ?us" using that by simp
    moreover from this have "du_hash u \<in> set ?valid" unfolding valid by (rule imageI)
    ultimately show ?thesis using E R(3) r by simp
  qed
qed

section \<open>Updates that lose users or traffic\<close>

lemma reset_user: "ResetTraffic u = ((sent u, recv u), v) \<Longrightarrow> hash v = hash u \<and> sent v = 0 \<and> recv v = 0"
  by (auto simp: ResetTraffic_def TakeTraffic_def Let_def split: if_splits)

lemma ResetTraffic_fst: "fst (ResetTraffic u) = (sent u, recv u)"
  by (auto simp: ResetTraffic_def TakeTraffic_def Let_def)

lemma mysql_push_names:
  assumes "\<not> countErr (hash (heap (fst st) ! p))"
  shows "users (fst (mysql_push_user execs countErr p st)) = users (fst st)"
    and "hash (heap (fst (mysql_push_user execs countErr p st)) ! q) = hash (heap (fst st) ! q)"
    and "map my_hash (snd (mysql_push_user execs countErr p st)) = map my_hash (snd st)"
proof -
  obtain a tab where st: "st = (a, tab)" by fastforce
  obtain v where v: "ResetTraffic (heap a ! p) = ((sent (heap a ! p), recv (heap a ! p)), v)"
    using ResetTraffic_fst [of "heap a ! p"] by (metis prod.collapse)
  have "hash ((heap a)[p := v] ! q) = hash (heap a ! q)"
    using reset_user [OF v] by (cases "p = q"; cases "p < length (heap a)") (simp_all add: list_update_beyond)
  then show "users (fst (mysql_push_user execs countErr p st)) = users (fst st)"
    "hash (heap (fst (mysql_push_user execs countErr p st)) ! q) = hash (heap (fst st) ! q)"
    "map my_hash (snd (mysql_push_user execs countErr p st)) = map my_hash (snd st)"
    using assms v st by (auto simp: mysql_push_user_def Let_def on_user_def)
qed

lemma mysql_push_all_names:
  assumes "\<forall>h. \<not> countErr h"
  shows "users (fst (fold (mysql_push_user execs countErr) ps st)) = users (fst st) \<and>
    map my_hash (snd (fold (mysql_push_user execs countErr) ps st)) = map my_hash (snd st)"
  using assms by (induction ps arbitrary: st) (simp_all add: mysql_push_names)

lemma mysql_pull_other:
  "h \<notin> my_hash ` set tab \<Longrightarrow> h \<in> user_names (mysql_pull tab a) \<longleftrightarrow> h \<in> user_names a"
  unfolding mysql_pull_def
  by (induction tab arbitrary: a) (auto simp: AddUser_names DelUser_names)

section \<open>Properties\<close>

text \<open>C10. One policy everywhere. After a refresh of the data plane's authenticator from the user table,
  for any table with unique hashes: the authenticator accepts exactly the hashes the control
  plane sends to its worker nodes, every accepted user has the address limit of its row, and
  the Hysteria endpoint accepts a password exactly when the authenticator accepts its hash.\<close>

theorem one_user_policy:
  assumes "auth_inv a" "distinct (map du_hash us)" "SyncAuthenticatorFromDatabase now (Some us) a = (e, a')"
  shows "e = None \<and> auth_inv a' \<and>
    (\<forall>h. AuthUser h a' \<noteq> None \<longleftrightarrow> h \<in> set (node_valid_hashes now us)) \<and>
    (\<forall>u p. u \<in> set us \<and> du_status u = 0 \<and> AuthUser (du_hash u) a' = Some p \<longrightarrow>
       maxIPNum (heap a' ! p) = du_ip_limit u) \<and>
    (\<forall>password. password \<noteq> [] \<longrightarrow>
       (handleHysteriaAuth now us password = 200 \<longleftrightarrow> AuthUser (SHA224String password) a' \<noteq> None))"
proof -
  note S = sync_result [OF assms, unfolded fst_conv snd_conv]
  have names: "AuthUser h a' \<noteq> None \<longleftrightarrow> h \<in> set (node_valid_hashes now us)" for h
    using S(3) AuthUser_None_iff by metis
  have valid: "h \<in> set (node_valid_hashes now us) \<longleftrightarrow>
      (\<exists>u \<in> set us. du_hash u = h \<and> du_status u = 0 \<and> active now u)" for h
    by (auto simp: node_valid_hashes_def active_def)
  have lim: "maxIPNum (heap a' ! p) = du_ip_limit u"
    if u: "u \<in> set us" "du_status u = 0" "AuthUser (du_hash u) a' = Some p" for u p
  proof -
    obtain v where v: "v \<in> set us" "du_hash v = du_hash u" "active now v"
      using names [of "du_hash u"] valid u(3) by auto
    then have "v = u" using assms(2) u(1) by (auto simp: distinct_map inj_on_def)
    then show ?thesis using S(4) [OF u(1,2)] v(3) u(3) by (simp add: limit_of_def)
  qed
  have hyst: "handleHysteriaAuth now us password = 200 \<longleftrightarrow>
      SHA224String password \<in> set (node_valid_hashes now us)" if "password \<noteq> []" for password
  proof (cases "find (\<lambda>u. du_hash u = SHA224String password) us")
    case None
    then have "\<forall>u \<in> set us. du_hash u \<noteq> SHA224String password" by (simp add: find_None_iff)
    with None that valid show ?thesis by (auto simp: handleHysteriaAuth_def)
  next
    case (Some u)
    then have u: "u \<in> set us" "du_hash u = SHA224String password"
      using find_by_hash [OF assms(2)] by auto
    have "SHA224String password \<noteq> []" using length_SHA224String [of password] by fastforce
    moreover have "\<And>v. v \<in> set us \<Longrightarrow> du_hash v = SHA224String password \<Longrightarrow> v = u"
      using u assms(2) by (auto simp: distinct_map inj_on_def)
    ultimately have "SHA224String password \<in> set (node_valid_hashes now us) \<longleftrightarrow>
        du_status u = 0 \<and> \<not> expired now u \<and> \<not> over_quota u"
      using valid [of "SHA224String password"] u unfolding active_def by metis
    then show ?thesis using Some that by (simp add: handleHysteriaAuth_def)
  qed
  have "handleHysteriaAuth now us password = 200 \<longleftrightarrow> AuthUser (SHA224String password) a' \<noteq> None"
    if "password \<noteq> []" for password
    using hyst [OF that] names [of "SHA224String password"] by simp
  then show ?thesis using S(1,2) names lim by blast
qed

text \<open>The MySQL authenticator never drops a user whose row was deleted. As long as the driver
  reports affected rows without an error, a tick keeps every user that is known in memory and
  has no row, whatever the table holds: the deletion is only attempted when the driver fails.\<close>

theorem mysql_deleted_user_keeps_access:
  assumes "\<forall>h. \<not> countErr h" "h \<in> user_names a" "h \<notin> my_hash ` set tab"
  shows "AuthUser h (fst (mysql_updater execs countErr queryOk (a, tab))) \<noteq> None"
proof -
  obtain b tab' where f: "fold (mysql_push_user execs countErr) (ListUsers a) (a, tab) = (b, tab')"
    by fastforce
  have "users b = users a" "map my_hash tab' = map my_hash tab"
    using mysql_push_all_names [OF assms(1), of execs "ListUsers a" "(a, tab)"] f by simp_all
  then have "h \<in> user_names b" "h \<notin> my_hash ` set tab'"
    using assms(2,3) by (simp_all add: user_names_def flip: set_map)
  then show ?thesis using f mysql_pull_other [of h tab' b]
    by (auto simp: mysql_updater_def AuthUser_None_iff)
qed

definition sample_users :: "db_user list" where
  "sample_users =
     [\<lparr>du_hash = ''a'', du_quota = - 1, du_used = 5, du_upload = 2, du_download = 3, du_expiry = None,
       du_ip_limit = 2, du_status = 0\<rparr>,
      \<lparr>du_hash = ''b'', du_quota = 10, du_used = 10, du_upload = 5, du_download = 5, du_expiry = None,
       du_ip_limit = 0, du_status = 0\<rparr>]"

theorem one_user_policy_witness:
  "\<exists>a'. SyncAuthenticatorFromDatabase 7 (Some sample_users) empty_auth = (None, a') \<and>
     AuthUser ''a'' a' \<noteq> None \<and> AuthUser ''b'' a' = None"
proof -
  obtain e a' where s: "SyncAuthenticatorFromDatabase 7 (Some sample_users) empty_auth = (e, a')" by fastforce
  have d: "distinct (map du_hash sample_users)" by (simp add: sample_users_def)
  have v: "node_valid_hashes 7 sample_users = [''a'']" by code_simp
  note P = one_user_policy [OF auth_inv_empty d s]
  have "e = None" using P by (rule conjunct1)
  moreover have "AuthUser h a' \<noteq> None \<longleftrightarrow> h \<in> set (node_valid_hashes 7 sample_users)" for h
    using P by blast
  from this [of "''a''"] this [of "''b''"] have "AuthUser ''a'' a' \<noteq> None" "AuthUser ''b'' a' = None"
    unfolding v by simp_all
  ultimately show ?thesis using s by simp
qed

theorem mysql_deleted_user_keeps_access_witness:
  "AuthUser ''gone'' (fst (mysql_updater (\<lambda>_. True) (\<lambda>_. False) True
     (snd (AddUser ''gone'' empty_auth), []))) \<noteq> None"
  by (rule mysql_deleted_user_keeps_access) (simp_all add: AddUser_names)

text \<open>The updaters of both database authenticators reset a user's meters before the UPDATE runs and
  never put the values back: when the UPDATE of a user fails, its counters are zero and the
  table is unchanged, so the traffic is lost.\<close>

theorem failed_update_loses_traffic:
  assumes "p < length (heap a)" "\<not> execs (hash (heap a ! p))"
  shows "let (a1, tab1) = mysql_push_user execs countErr p (a, tab);
             (a2, us2) = sqlite_push_user execs p (a, us)
         in tab1 = tab \<and> us2 = us \<and> sent (heap a1 ! p) = 0 \<and> recv (heap a1 ! p) = 0 \<and>
            sent (heap a2 ! p) = 0 \<and> recv (heap a2 ! p) = 0"
proof -
  obtain v where v: "ResetTraffic (heap a ! p) = ((sent (heap a ! p), recv (heap a ! p)), v)"
    using ResetTraffic_fst [of "heap a ! p"] by (metis prod.collapse)
  with reset_user [OF v] assms show ?thesis
    by (simp add: mysql_push_user_def sqlite_push_user_def Let_def on_user_def)
qed

theorem failed_update_loses_traffic_witness:
  "let a = \<lparr>users = [(''u'', 0)], heap = [AddTraffic64 5 7 (new_user ''u'')]\<rparr>;
       (a1, tab1) = mysql_push_user (\<lambda>_. False) (\<lambda>_. False) 0 (a, [])
   in GetTraffic (heap a ! 0) = (5, 7) \<and> GetTraffic (heap a1 ! 0) = (0, 0)"
  using failed_update_loses_traffic [of 0 "\<lparr>users = [(''u'', 0)], heap = [AddTraffic64 5 7 (new_user ''u'')]\<rparr>"
      "\<lambda>_. False" "\<lambda>_. False" "[]" "[]"]
  by (auto simp: Let_def GetTraffic_def AddTraffic64_def new_user_def split: prod.splits)

end
