(* ===== verification/Node_Sync.thy ===== *)
theory Node_Sync
  imports Traffic_Pipeline User_Policy
begin

text \<open>
  \<open>internal/nodesync/manager.go\<close>, the worker node's side of the multi-node protocol, and
  \<open>handleNodeSync\<close> of \<open>internal/webserver/nodes.go\<close>, the control plane's side. One call of
  \<open>performSync\<close> collects traffic, freezes a batch, sends it, acknowledges it, and replaces the
  local users by the ones the control plane returned. Times and durations are in nanoseconds.
\<close>

section \<open>Intervals and backoff\<close>

definition second :: int where
  "second = 1000000000"

definition maxSyncBackoff :: int where
  "maxSyncBackoff = 10 * 60 * second"

definition normalizedSyncInterval :: "int \<Rightarrow> int" where
  "normalizedSyncInterval intervalSec =
     (if intervalSec \<le> 0 then 60 * second else wrap64 (intervalSec * second))"

text \<open>The loop of \<open>boundedSyncBackoff\<close>, with the number of iterations that are left.\<close>

fun backoff_loop :: "nat \<Rightarrow> int \<Rightarrow> int" where
  "backoff_loop 0 backoff = backoff"
| "backoff_loop (Suc n) backoff =
     (if backoff < maxSyncBackoff then backoff_loop n (wrap64 (backoff * 2)) else backoff)"

text \<open>Go's integer division truncates towards zero.\<close>

definition go_div :: "int \<Rightarrow> int \<Rightarrow> int" where
  "go_div a b = (if (a < 0) = (b < 0) then \<bar>a\<bar> div \<bar>b\<bar> else - (\<bar>a\<bar> div \<bar>b\<bar>))"

text \<open>\<open>rand.Int64N(n)\<close> panics unless \<open>n\<close> is positive; otherwise it is some value below \<open>n\<close>,
  taken here from the parameter \<open>r\<close>.\<close>

definition boundedSyncBackoff :: "int \<Rightarrow> nat \<Rightarrow> nat \<Rightarrow> int outcome" where
  "boundedSyncBackoff interval failures r =
     (if failures \<le> 0 then Ret 0
      else
        let b = min (backoff_loop (failures - 1) interval) maxSyncBackoff; n = go_div b 5 + 1
        in if n \<le> 0 then Panic ''invalid argument to Int64N'' else Ret (b + int r mod n))"

fun validate_hashes :: "string list \<Rightarrow> string list \<Rightarrow> go_error option" where
  "validate_hashes seen [] = None"
| "validate_hashes seen (h # hs) =
     (if length h \<noteq> 56 then Some (Opaque ''invalid user hash length'')
      else if \<not> list_all is_hex h then Some (Opaque ''invalid SHA-224 user hash'')
      else if h \<in> set seen then Some (Opaque ''duplicate user hash in sync response'')
      else validate_hashes (h # seen) hs)"

definition validateUserHashes :: "string list \<Rightarrow> go_error option" where
  "validateUserHashes hs = validate_hashes [] hs"

section \<open>The manager\<close>

record node_outbox =
  no_pendingSyncID :: string
  no_pending :: traffic_map
  no_queued :: traffic_map
  no_file :: outbox_file

record node_manager =
  nm_out :: node_outbox
  nm_loadErr :: "go_error option"
  nm_auths :: "mem_auth list"
  nm_interval :: int
  nm_failures :: nat
  nm_nextSyncAt :: "int option"
  nm_cache :: "(string \<times> string) list option"

definition node_loadOutbox :: "node_outbox \<Rightarrow> go_error option \<times> node_outbox" where
  "node_loadOutbox o1 =
     (case no_file o1 of
        None \<Rightarrow> (None, o1)
      | Some d \<Rightarrow>
          (case File_Load (Some d) of
             Ret s \<Rightarrow> (None, o1\<lparr>no_pendingSyncID := PendingSyncID s, no_pending := Pending s, no_queued := Queued s\<rparr>)
           | Raise e \<Rightarrow> (Some e, o1)
           | _ \<Rightarrow> (None, o1)))"

definition NewManager :: "int \<Rightarrow> outbox_file \<Rightarrow> node_manager" where
  "NewManager intervalSec file =
     (case node_loadOutbox \<lparr>no_pendingSyncID = [], no_pending = [], no_queued = [], no_file = file\<rparr> of
        (e, o1) \<Rightarrow>
          \<lparr>nm_out = o1, nm_loadErr = e, nm_auths = [], nm_interval = normalizedSyncInterval intervalSec,
           nm_failures = 0, nm_nextSyncAt = None, nm_cache = None\<rparr>)"

definition AddAuthenticator :: "mem_auth \<Rightarrow> node_manager \<Rightarrow> node_manager" where
  "AddAuthenticator a m = m\<lparr>nm_auths := nm_auths m @ [a]\<rparr>"

definition SetDB :: "(string \<times> string) list option \<Rightarrow> node_manager \<Rightarrow> node_manager" where
  "SetDB db m = m\<lparr>nm_cache := db\<rparr>"

definition syncReady :: "int \<Rightarrow> node_manager \<Rightarrow> bool" where
  "syncReady now m \<longleftrightarrow> (case nm_nextSyncAt m of None \<Rightarrow> True | Some t \<Rightarrow> \<not> now < t)"

definition recordSyncFailure :: "int \<Rightarrow> nat \<Rightarrow> node_manager \<Rightarrow> node_manager outcome" where
  "recordSyncFailure now r m =
     (let m1 = m\<lparr>nm_failures := nm_failures m + 1\<rparr> in
      case boundedSyncBackoff (nm_interval m1) (nm_failures m1) r of
        Ret b \<Rightarrow> Ret (m1\<lparr>nm_nextSyncAt := Some (now + b)\<rparr>)
      | Raise e \<Rightarrow> Raise e
      | Panic p \<Rightarrow> Panic p
      | Hang \<Rightarrow> Hang)"

definition recordSyncSuccess :: "node_manager \<Rightarrow> node_manager" where
  "recordSyncSuccess m = m\<lparr>nm_failures := 0, nm_nextSyncAt := None\<rparr>"

definition persistOutboxLocked :: "node_outbox \<times> faults \<Rightarrow> go_error option \<times> node_outbox \<times> faults" where
  "persistOutboxLocked st =
     (case st of (o1, fs) \<Rightarrow>
      case no_file o1 of
        None \<Rightarrow> (None, o1, fs)
      | Some d \<Rightarrow>
          (case File_Save (case fs of [] \<Rightarrow> NoFault | f # _ \<Rightarrow> f)
                  \<lparr>Version = 0, PendingSyncID = no_pendingSyncID o1, Pending = no_pending o1,
                   Queued = no_queued o1\<rparr> (Some d) of
             (e, f') \<Rightarrow> (e, o1\<lparr>no_file := f'\<rparr>, tl fs)))"

definition node_checkpoint :: "string \<Rightarrow> (node_outbox \<times> faults) checkpoint" where
  "node_checkpoint h out inc st =
     (case st of (o1, fs) \<Rightarrow>
      let existed = map_of (no_queued o1) h;
          queued = (case existed of None \<Rightarrow> \<lparr>Up = 0, Down = 0\<rparr> | Some t \<Rightarrow> t)
      in if Up queued > (- 1) - inc \<or> Down queued > (- 1) - out then
           (Some (Opaque ''traffic aggregation overflow''), (o1, fs))
         else
           let updated = \<lparr>Up = Up queued + inc, Down = Down queued + out\<rparr>
           in case persistOutboxLocked (o1\<lparr>no_queued := AList.update h updated (no_queued o1)\<rparr>, fs) of
                (None, o2, fs') \<Rightarrow> (None, (o2, fs'))
              | (Some e, o2, fs') \<Rightarrow>
                  (Some (Err ''checkpoint traffic'' (Some e)),
                   (o2\<lparr>no_queued := (case existed of
                        Some t \<Rightarrow> AList.update h t (no_queued o2)
                      | None \<Rightarrow> AList.delete h (no_queued o2))\<rparr>, fs')))"

fun node_collect_users ::
  "nat list \<Rightarrow> mem_auth \<Rightarrow> node_outbox \<times> faults \<Rightarrow> go_error option \<times> mem_auth \<times> node_outbox \<times> faults" where
  "node_collect_users [] a st = (None, a, st)"
| "node_collect_users (p # ps) a st =
     (case TakeTraffic (Some (node_checkpoint (hash (heap a ! p)))) (heap a ! p) st of
        ((_, _, err), u, st') \<Rightarrow>
          let a' = a\<lparr>heap := (heap a)[p := u]\<rparr> in
          (case err of
             Some e \<Rightarrow> (Some e, a', st')
           | None \<Rightarrow> node_collect_users ps a' st'))"

fun node_collect ::
  "mem_auth list \<Rightarrow> node_outbox \<times> faults \<Rightarrow> go_error option \<times> mem_auth list \<times> node_outbox \<times> faults" where
  "node_collect [] st = (None, [], st)"
| "node_collect (a # as) st =
     (case node_collect_users (ListUsers a) a st of
        (Some e, a', st') \<Rightarrow> (Some e, a' # as, st')
      | (None, a', st') \<Rightarrow>
          (case node_collect as st' of (e, as', st'') \<Rightarrow> (e, a' # as', st'')))"

text \<open>Freezing takes the next random id only when there is something to freeze.\<close>

type_synonym rand_ids = "string option list"

definition next_id :: "rand_ids \<Rightarrow> string option \<times> rand_ids" where
  "next_id ids = (case ids of [] \<Rightarrow> (None, []) | x # xs \<Rightarrow> (x, xs))"

definition node_freeze ::
  "rand_ids \<Rightarrow> node_outbox \<times> faults \<Rightarrow> go_error option \<times> rand_ids \<times> node_outbox \<times> faults" where
  "node_freeze ids st =
     (case st of (o1, fs) \<Rightarrow>
      if length (no_pending o1) = 0 \<and> length (no_queued o1) > 0 then
        (case next_id ids of
           (None, ids') \<Rightarrow> (Some (Opaque ''failed to generate idempotency key''), ids', o1, fs)
         | (Some syncID, ids') \<Rightarrow>
             (case persistOutboxLocked (o1\<lparr>no_pending := no_queued o1, no_queued := [], no_pendingSyncID := syncID\<rparr>, fs) of
                (None, o2, fs') \<Rightarrow> (None, ids', o2, fs')
              | (Some e, o2, fs') \<Rightarrow>
                  (Some (Err ''failed to freeze traffic outbox batch'' (Some e)), ids',
                   o2\<lparr>no_pending := [], no_queued := no_queued o1, no_pendingSyncID := []\<rparr>, fs')))
      else (None, ids, o1, fs))"

definition node_acknowledge :: "node_outbox \<times> faults \<Rightarrow> go_error option \<times> node_outbox \<times> faults" where
  "node_acknowledge st =
     (case st of (o1, fs) \<Rightarrow>
      if length (no_pending o1) > 0 then
        (case persistOutboxLocked (o1\<lparr>no_pending := [], no_pendingSyncID := []\<rparr>, fs) of
           (None, o2, fs') \<Rightarrow> (None, o2, fs')
         | (Some e, o2, fs') \<Rightarrow>
             (Some (Err ''failed to acknowledge traffic outbox batch'' (Some e)),
              o2\<lparr>no_pending := no_pending o1, no_pendingSyncID := no_pendingSyncID o1\<rparr>, fs'))
      else (None, o1, fs))"

text \<open>Step 3: the local users become the ones of the response.\<close>

definition apply_master_users :: "string list \<Rightarrow> mem_auth \<Rightarrow> mem_auth" where
  "apply_master_users us a =
     (let local = auth_hashes a;
          a1 = fold (\<lambda>h b. snd (DelUser h b)) (filter (\<lambda>h. h \<notin> set us) local) a
      in fold (\<lambda>h b. snd (AddUser h b)) (filter (\<lambda>h. h \<notin> set local) us) a1)"

text \<open>Step 4: the local cache table of hashes and names.\<close>

definition cache_users :: "string list \<Rightarrow> (string \<times> string) list \<Rightarrow> (string \<times> string) list" where
  "cache_users us tab =
     fold (\<lambda>h t. if h \<in> fst ` set t then t else t @ [(h, ''sync-user-'' @ take 6 h)]) us
       (filter (\<lambda>(h, _). h \<in> set us) tab)"

datatype node_reply = NoReply | BadStatus int | BadBody | Users "string list"

type_synonym 'srv master = "string \<Rightarrow> traffic_map \<Rightarrow> 'srv \<Rightarrow> node_reply \<times> 'srv"

text \<open>What the environment decides during one \<open>performSync\<close>.\<close>

record sync_env =
  en_now :: int
  en_failNow :: int
  en_jitter :: nat
  en_faults :: faults
  en_ids :: rand_ids
  en_dbOk :: bool

datatype sync_end = Skipped | Failed | Synced

definition sync_fail ::
  "sync_env \<Rightarrow> node_manager \<Rightarrow> 'srv \<Rightarrow> (sync_end \<times> node_manager) outcome \<times> 'srv" where
  "sync_fail env m srv =
     (case recordSyncFailure (en_failNow env) (en_jitter env) m of
        Ret m' \<Rightarrow> (Ret (Failed, m'), srv)
      | Raise e \<Rightarrow> (Raise e, srv)
      | Panic p \<Rightarrow> (Panic p, srv)
      | Hang \<Rightarrow> (Hang, srv))"

text \<open>The part of \<open>performSync\<close> after a response with a list of users.\<close>

definition sync_apply ::
  "sync_env \<Rightarrow> faults \<Rightarrow> string list \<Rightarrow> node_manager \<Rightarrow> 'srv \<Rightarrow> (sync_end \<times> node_manager) outcome \<times> 'srv" where
  "sync_apply env fs us m srv =
     (if validateUserHashes us \<noteq> None then sync_fail env m srv
      else case node_acknowledge (nm_out m, fs) of
        (Some e, o2, _) \<Rightarrow> sync_fail env (m\<lparr>nm_out := o2\<rparr>) srv
      | (None, o2, _) \<Rightarrow>
          let m1 = m\<lparr>nm_out := o2, nm_auths := map (apply_master_users us) (nm_auths m)\<rparr> in
          (case nm_cache m1 of
             None \<Rightarrow> (Ret (Synced, recordSyncSuccess m1), srv)
           | Some tab \<Rightarrow>
               if en_dbOk env
               then (Ret (Synced, recordSyncSuccess (m1\<lparr>nm_cache := Some (cache_users us tab)\<rparr>)), srv)
               else sync_fail env m1 srv))"

definition performSync ::
  "sync_env \<Rightarrow> 'srv master \<Rightarrow> node_manager \<Rightarrow> 'srv \<Rightarrow> (sync_end \<times> node_manager) outcome \<times> 'srv" where
  "performSync env master m srv =
     (if \<not> syncReady (en_now env) m then (Ret (Skipped, m), srv)
      else if nm_loadErr m \<noteq> None then sync_fail env m srv
      else if length (nm_auths m) = 0 then (Ret (Skipped, m), srv)
      else case node_collect (nm_auths m) (nm_out m, en_faults env) of
        (Some e, auths, (o1, _)) \<Rightarrow> sync_fail env (m\<lparr>nm_auths := auths, nm_out := o1\<rparr>) srv
      | (None, auths, st1) \<Rightarrow>
          (case node_freeze (en_ids env) st1 of
             (Some e, _, (o2, _)) \<Rightarrow> sync_fail env (m\<lparr>nm_auths := auths, nm_out := o2\<rparr>) srv
           | (None, ids, (o2, fs2)) \<Rightarrow>
               let m2 = m\<lparr>nm_auths := auths, nm_out := o2\<rparr>;
                   requestID = (if no_pendingSyncID o2 = [] then fst (next_id ids) else Some (no_pendingSyncID o2))
               in case requestID of
                    None \<Rightarrow> sync_fail env m2 srv
                  | Some syncID \<Rightarrow>
                      (case master syncID (no_pending o2) srv of
                         (Users us, srv') \<Rightarrow> sync_apply env fs2 us m2 srv'
                       | (_, srv') \<Rightarrow> sync_fail env m2 srv')))"

section \<open>Backoff\<close>

lemma wrap64_small: "- (2 ^ 63) \<le> n \<Longrightarrow> n < 2 ^ 63 \<Longrightarrow> wrap64 n = n"
  by (simp add: wrap64_def)

lemma backoff_loop_min:
  "0 < b \<Longrightarrow> min (backoff_loop n b) maxSyncBackoff = min (b * 2 ^ n) maxSyncBackoff"
proof (induction n arbitrary: b)
  case 0
  then show ?case by simp
next
  case (Suc n)
  show ?case
  proof (cases "b < maxSyncBackoff")
    case True
    then have "wrap64 (b * 2) = b * 2"
      using Suc.prems by (intro wrap64_small) (simp_all add: maxSyncBackoff_def second_def)
    with True Suc.IH [of "b * 2"] Suc.prems show ?thesis by (simp add: mult.assoc)
  next
    case False
    have "1 \<le> (2 :: int) ^ Suc n" by (rule one_le_power) simp
    then have "b * 1 \<le> b * 2 ^ Suc n" using Suc.prems by (intro mult_left_mono) simp_all
    then have "maxSyncBackoff \<le> b * 2 ^ Suc n" using False by linarith
    with False show ?thesis by (simp add: min_def)
  qed
qed

lemma go_div_pos: "0 \<le> a \<Longrightarrow> 0 < b \<Longrightarrow> go_div a b = a div b"
  by (simp add: go_div_def)

text \<open>Exponential backoff with a cap and jitter. For a positive interval the delay after the n-th
  consecutive failure is the interval doubled n - 1 times, capped at ten minutes, plus a jitter
  between zero and a fifth of it, never negative and never above twelve minutes; it does not
  panic and does not overflow, however many failures there were.\<close>

theorem backoff_bounds:
  assumes "0 < interval" "0 < failures"
  defines "b \<equiv> min (interval * 2 ^ (failures - 1)) maxSyncBackoff"
  shows "\<exists>d. boundedSyncBackoff interval failures r = Ret d \<and> 0 < d \<and> b \<le> d \<and> d \<le> b + b div 5 \<and>
    d \<le> 12 * 60 * second"
proof -
  have min: "min (backoff_loop (failures - 1) interval) maxSyncBackoff = b"
    unfolding b_def by (rule backoff_loop_min [OF assms(1)])
  have b: "0 < b" "b \<le> maxSyncBackoff"
    using assms(1) by (simp_all add: b_def maxSyncBackoff_def second_def)
  let ?n = "b div 5 + 1" and ?j = "int r mod (b div 5 + 1)"
  have "0 < ?n" using b(1) by simp
  then have j: "0 \<le> ?j" "?j < ?n" by (rule pos_mod_sign, rule pos_mod_bound)
  have "boundedSyncBackoff interval failures r = Ret (b + ?j)"
    using assms(2) b(1) min by (simp add: boundedSyncBackoff_def go_div_pos Let_def)
  moreover have "b + b div 5 \<le> 12 * 60 * second"
    using b(2) by (simp add: maxSyncBackoff_def second_def)
  moreover have "0 < b + ?j \<and> b \<le> b + ?j \<and> b + ?j \<le> b + b div 5" using j b(1) by linarith
  ultimately show ?thesis by (metis order_trans)
qed

theorem backoff_bounds_witness:
  "\<exists>d. boundedSyncBackoff (60 * second) 40 123 = Ret d \<and> maxSyncBackoff \<le> d \<and> d \<le> 12 * 60 * second"
proof -
  have "min (60 * second * 2 ^ (40 - 1)) maxSyncBackoff = maxSyncBackoff"
    by (simp add: second_def maxSyncBackoff_def)
  with backoff_bounds [of "60 * second" 40 123] show ?thesis by (auto simp: second_def)
qed

section \<open>The outbox of a worker is the outbox of a data plane\<close>

definition consistent :: "node_outbox \<Rightarrow> bool" where
  "consistent o1 \<longleftrightarrow> (no_pending o1 = [] \<longleftrightarrow> no_pendingSyncID o1 = [])"

definition rep_of :: "node_outbox \<Rightarrow> reporter" where
  "rep_of o1 =
     \<lparr>rp_pending = (if no_pending o1 = [] then None else Some (no_pendingSyncID o1, no_pending o1)),
      rp_queued = no_queued o1, rp_outbox = no_file o1, rp_loadErr = None\<rparr>"

lemma persist_refines:
  assumes "consistent o1" "persistOutboxLocked (o1, fs) = (e, o2, fs')"
  shows "persistOutbox (rep_of o1, fs) = (e, rep_of o2, fs') \<and> (\<exists>f. o2 = o1\<lparr>no_file := f\<rparr>)"
proof (cases "no_file o1")
  case None
  with assms(2) show ?thesis
    by (auto simp: persistOutboxLocked_def persistOutbox_def rep_of_def intro: exI [of _ "no_file o1"])
next
  case (Some d)
  have "reporter_state (rep_of o1) = \<lparr>Version = 0, PendingSyncID = no_pendingSyncID o1,
      Pending = no_pending o1, Queued = no_queued o1\<rparr>"
    using assms(1) by (auto simp: reporter_state_def rep_of_def consistent_def)
  with Some assms(2) show ?thesis
    by (auto simp: persistOutboxLocked_def persistOutbox_def rep_of_def split: prod.splits)
qed

lemma checkpoint_refines:
  assumes "consistent o1" "node_checkpoint h out inc (o1, fs) = (e, (o2, fs'))"
  shows "\<exists>e'. checkpoint_user h out inc (rep_of o1, fs) = (e', (rep_of o2, fs')) \<and> (e' = None \<longleftrightarrow> e = None) \<and>
    consistent o2 \<and> no_pending o2 = no_pending o1 \<and> no_pendingSyncID o2 = no_pendingSyncID o1"
proof -
  define cur where "cur = (case map_of (no_queued o1) h of None \<Rightarrow> \<lparr>Up = 0, Down = 0\<rparr> | Some t \<Rightarrow> t)"
  define o' where "o' = o1\<lparr>no_queued := AList.update h \<lparr>Up = Up cur + inc, Down = Down cur + out\<rparr> (no_queued o1)\<rparr>"
  have c': "consistent o'" using assms(1) by (simp add: consistent_def o'_def)
  have q: "rp_queued (rep_of o1) = no_queued o1"
    "(rep_of o1)\<lparr>rp_queued := AList.update h \<lparr>Up = Up cur + inc, Down = Down cur + out\<rparr> (no_queued o1)\<rparr> = rep_of o'"
    by (simp_all add: rep_of_def o'_def)
  show ?thesis
  proof (cases "Up cur > (- 1) - inc \<or> Down cur > (- 1) - out")
    case True
    with assms q show ?thesis
      by (auto simp: node_checkpoint_def checkpoint_user_def Let_def cur_def)
  next
    case False
    obtain e1 o3 fs3 where p: "persistOutboxLocked (o', fs) = (e1, o3, fs3)" by (metis prod.exhaust)
    obtain f where P: "persistOutbox (rep_of o', fs) = (e1, rep_of o3, fs3)" "o3 = o'\<lparr>no_file := f\<rparr>"
      using persist_refines [OF c' p] by blast
    show ?thesis
    proof (cases e1)
      case None
      then have "e = None" "o2 = o3" "fs' = fs3"
        using assms(2) p False by (auto simp: node_checkpoint_def Let_def cur_def o'_def)
      moreover have "checkpoint_user h out inc (rep_of o1, fs) = (None, (rep_of o3, fs3))"
        using P None False q by (auto simp: checkpoint_user_def Let_def cur_def)
      ultimately show ?thesis using P(2) assms(1) by (simp add: consistent_def o'_def)
    next
      case (Some x)
      define Q where "Q = (case map_of (no_queued o1) h of
          Some t \<Rightarrow> AList.update h t (no_queued o3) | None \<Rightarrow> AList.delete h (no_queued o3))"
      have o2: "e \<noteq> None" "fs' = fs3" "o2 = o3\<lparr>no_queued := Q\<rparr>"
        using assms(2) p False Some by (auto simp: node_checkpoint_def Let_def cur_def o'_def Q_def)
      have q3: "rp_queued (rep_of o3) = no_queued o3" by (simp add: rep_of_def)
      have "\<exists>y. checkpoint_user h out inc (rep_of o1, fs) = (Some y, ((rep_of o3)\<lparr>rp_queued := Q\<rparr>, fs3))"
        using P Some False q unfolding Q_def q3 [symmetric] by (auto simp: checkpoint_user_def Let_def cur_def)
      moreover have "(rep_of o3)\<lparr>rp_queued := Q\<rparr> = rep_of o2" unfolding o2(3) by (simp add: rep_of_def)
      moreover have "consistent o2" "no_pending o2 = no_pending o1" "no_pendingSyncID o2 = no_pendingSyncID o1"
        using assms(1) unfolding o2(3) P(2) by (simp_all add: consistent_def o'_def)
      ultimately show ?thesis using o2(1,2) by auto
    qed
  qed
qed

lemma take_refines:
  assumes "consistent o1" "TakeTraffic (Some (node_checkpoint h)) u (o1, fs) = ((x, y, e), u', (o2, fs'))"
  shows "\<exists>e'. TakeTraffic (Some (checkpoint_user h)) u (rep_of o1, fs) = ((x, y, e'), u', (rep_of o2, fs')) \<and>
    (e' = None \<longleftrightarrow> e = None) \<and> consistent o2 \<and> no_pending o2 = no_pending o1 \<and>
    no_pendingSyncID o2 = no_pendingSyncID o1"
proof (cases "sent u = 0 \<and> recv u = 0")
  case True
  with assms show ?thesis by (auto simp: TakeTraffic_def)
next
  case False
  obtain e1 o3 fs3 where c: "node_checkpoint h (sent u) (recv u) (o1, fs) = (e1, (o3, fs3))"
    by (metis prod.exhaust)
  from checkpoint_refines [OF assms(1) c] obtain e2 where
    "checkpoint_user h (sent u) (recv u) (rep_of o1, fs) = (e2, (rep_of o3, fs3))" "e2 = None \<longleftrightarrow> e1 = None"
    "consistent o3" "no_pending o3 = no_pending o1" "no_pendingSyncID o3 = no_pendingSyncID o1" by blast
  with c False assms(2) show ?thesis
    by (cases e1; cases e2) (auto simp: TakeTraffic_def Let_def)
qed

lemma collect_refines:
  "\<lbrakk>consistent o1; node_collect_users ps a (o1, fs) = (e, a', (o2, fs'))\<rbrakk> \<Longrightarrow>
   \<exists>e'. collect_users ps a (rep_of o1, fs) = (e', a', (rep_of o2, fs')) \<and> (e' = None \<longleftrightarrow> e = None) \<and>
     consistent o2 \<and> no_pending o2 = no_pending o1 \<and> no_pendingSyncID o2 = no_pendingSyncID o1 \<and>
     users a' = users a \<and> (auth_inv a \<longrightarrow> auth_inv a')"
proof (induction ps arbitrary: a o1 fs)
  case Nil
  then show ?case by auto
next
  case (Cons p ps)
  obtain x y e1 u o3 fs3 where t: "TakeTraffic (Some (node_checkpoint (hash (heap a ! p)))) (heap a ! p) (o1, fs) =
      ((x, y, e1), u, (o3, fs3))" by (metis prod.exhaust)
  from take_refines [OF Cons.prems(1) t] obtain e2 where
    t2: "TakeTraffic (Some (checkpoint_user (hash (heap a ! p)))) (heap a ! p) (rep_of o1, fs) =
      ((x, y, e2), u, (rep_of o3, fs3))" "e2 = None \<longleftrightarrow> e1 = None" "consistent o3"
      "no_pending o3 = no_pending o1" "no_pendingSyncID o3 = no_pendingSyncID o1" by blast
  let ?a = "a\<lparr>heap := (heap a)[p := u]\<rparr>"
  have "hash u = hash (heap a ! p)"
    using t by (auto simp: TakeTraffic_def Let_def split: if_splits prod.splits option.splits)
  then have "hash ((heap a)[p := u] ! q) = hash (heap a ! q)" if "q < length (heap a)" for q
    using that by (cases "q = p") auto
  then have inv: "auth_inv a \<longrightarrow> auth_inv ?a" by (fastforce simp: auth_inv_def)
  show ?case
  proof (cases e1)
    case None
    then have "node_collect_users ps ?a (o3, fs3) = (e, a', (o2, fs'))" using Cons.prems(2) t by simp
    from Cons.IH [OF t2(3) this] None t2 inv show ?thesis by auto
  next
    case (Some err)
    then obtain z where "e2 = Some z" using t2(2) by auto
    with Some Cons.prems(2) t t2 inv show ?thesis by auto
  qed
qed

lemma freeze_refines:
  assumes "consistent o1" "node_freeze (x # ids) (o1, fs) = (e, ids', (o2, fs'))" "x \<noteq> Some []"
  shows "\<exists>e'. freeze x (rep_of o1, fs) = (e', (rep_of o2, fs')) \<and> (e' = None \<longleftrightarrow> e = None) \<and> consistent o2"
proof (cases "no_pending o1 = [] \<and> no_queued o1 \<noteq> []")
  case False
  with assms show ?thesis by (auto simp: node_freeze_def freeze_def rep_of_def)
next
  case True
  then have id0: "no_pendingSyncID o1 = []" using assms(1) by (simp add: consistent_def)
  show ?thesis
  proof (cases x)
    case None
    with True assms show ?thesis by (auto simp: node_freeze_def freeze_def rep_of_def next_id_def)
  next
    case (Some syncID)
    define o' where "o' = o1\<lparr>no_pending := no_queued o1, no_queued := [], no_pendingSyncID := syncID\<rparr>"
    have c': "consistent o'" using True assms(3) Some by (simp add: consistent_def o'_def)
    obtain e1 o3 fs3 where p: "persistOutboxLocked (o', fs) = (e1, o3, fs3)" by (metis prod.exhaust)
    obtain f where P: "persistOutbox (rep_of o', fs) = (e1, rep_of o3, fs3)" "o3 = o'\<lparr>no_file := f\<rparr>"
      using persist_refines [OF c' p] by blast
    have q: "(rep_of o1)\<lparr>rp_pending := Some (syncID, rp_queued (rep_of o1)), rp_queued := []\<rparr> = rep_of o'"
      "rp_pending (rep_of o1) = None" "rp_queued (rep_of o1) = no_queued o1"
      using True by (simp_all add: rep_of_def o'_def)
    show ?thesis
    proof (cases e1)
      case None
      then have "e = None" "o2 = o3" "fs' = fs3"
        using assms(2) p True Some by (auto simp: node_freeze_def next_id_def o'_def)
      moreover have "freeze x (rep_of o1, fs) = (None, (rep_of o3, fs3))"
        using P None q True Some by (simp add: freeze_def)
      ultimately show ?thesis using P(2) c' by (simp add: consistent_def)
    next
      case (Some err)
      then have o2: "e \<noteq> None" "fs' = fs3"
        "o2 = o3\<lparr>no_pending := [], no_queued := no_queued o1, no_pendingSyncID := []\<rparr>"
        using assms(2) p True \<open>x = Some syncID\<close> by (auto simp: node_freeze_def next_id_def o'_def)
      have "\<exists>z. freeze x (rep_of o1, fs) = (Some z, ((rep_of o3)\<lparr>rp_pending := None, rp_queued := no_queued o1\<rparr>, fs3))"
        using P Some q True \<open>x = Some syncID\<close> by (simp add: freeze_def)
      moreover have "(rep_of o3)\<lparr>rp_pending := None, rp_queued := no_queued o1\<rparr> = rep_of o2"
        unfolding o2(3) by (simp add: rep_of_def)
      ultimately show ?thesis using o2 by (auto simp: consistent_def)
    qed
  qed
qed

text \<open>C20. A worker node's outbox refines the data plane's. For every consistent outbox, every fault
  schedule and every non-empty random id, draining an authenticator and freezing the queue, as the
  node sync manager codes it, has the same outcome as the data-plane reporter's collect and
  freeze on the corresponding reporter: the same meters, the same file, the same pending batch
  and queue, and a failure exactly when the other fails.\<close>

theorem node_outbox_refines_reporter:
  assumes "consistent o1" "x \<noteq> Some []"
    "node_collect_users (ListUsers a) a (o1, fs) = (e1, a', (o2, fs2))"
    "node_freeze (x # ids) (o2, fs2) = (e2, ids', (o3, fs3))"
  shows "consistent o3 \<and>
    (\<exists>d1 d2. collect a (rep_of o1, fs) = (d1, a', (rep_of o2, fs2)) \<and> (d1 = None \<longleftrightarrow> e1 = None) \<and>
       freeze x (rep_of o2, fs2) = (d2, (rep_of o3, fs3)) \<and> (d2 = None \<longleftrightarrow> e2 = None))"
proof -
  obtain d1 where "collect a (rep_of o1, fs) = (d1, a', (rep_of o2, fs2))" "d1 = None \<longleftrightarrow> e1 = None"
      "consistent o2"
    using collect_refines [OF assms(1,3)] by (auto simp: collect_def)
  moreover from freeze_refines [OF this(3) assms(4,2)] obtain d2 where
    "freeze x (rep_of o2, fs2) = (d2, (rep_of o3, fs3))" "d2 = None \<longleftrightarrow> e2 = None" "consistent o3"
    by blast
  ultimately show ?thesis by blast
qed

definition sample_node_auth :: mem_auth where
  "sample_node_auth = \<lparr>users = [(''u'', 0)], heap = [AddTraffic64 3 4 (new_user ''u'')]\<rparr>"

definition sample_node_outbox :: node_outbox where
  "sample_node_outbox = \<lparr>no_pendingSyncID = [], no_pending = [], no_queued = [], no_file = Some Absent\<rparr>"

theorem node_outbox_refines_reporter_witness:
  "\<exists>e1 a' o2 fs2 e2 ids' o3 fs3.
     node_collect_users (ListUsers sample_node_auth) sample_node_auth (sample_node_outbox, [NoFault, FailAfter]) =
       (e1, a', (o2, fs2)) \<and>
     node_freeze [Some ''id''] (o2, fs2) = (e2, ids', (o3, fs3)) \<and> consistent o3 \<and>
     (\<exists>d2. freeze (Some ''id'') (rep_of o2, fs2) = (d2, (rep_of o3, fs3)))"
proof -
  obtain e1 a' o2 fs2 where c: "node_collect_users (ListUsers sample_node_auth) sample_node_auth
      (sample_node_outbox, [NoFault, FailAfter]) = (e1, a', (o2, fs2))" by (metis prod.exhaust)
  obtain e2 ids' o3 fs3 where f: "node_freeze [Some ''id''] (o2, fs2) = (e2, ids', (o3, fs3))"
    by (metis prod.exhaust)
  have "consistent sample_node_outbox" by (simp add: consistent_def sample_node_outbox_def)
  from node_outbox_refines_reporter [OF this _ c f] c f show ?thesis by blast
qed


section \<open>A successful synchronisation\<close>

lemma apply_master_users_names:
  assumes "auth_inv a"
  shows "auth_inv (apply_master_users us a)" "user_names (apply_master_users us a) = set us"
proof -
  define a1 where "a1 = fold (\<lambda>h b. snd (DelUser h b)) (filter (\<lambda>h. h \<notin> set us) (auth_hashes a)) a"
  have a1: "auth_inv a1" "set (auth_hashes a1) = set (auth_hashes a) \<inter> set us"
    using mem.del_all_invar [OF assms] mem.del_all_hashes [OF assms] by (auto simp: a1_def)
  have eq: "apply_master_users us a =
      fold (\<lambda>h b. snd (AddUser h b)) (filter (\<lambda>h. h \<notin> set (auth_hashes a)) us) a1"
    by (simp add: apply_master_users_def a1_def Let_def)
  show inv: "auth_inv (apply_master_users us a)" unfolding eq by (rule mem.add_all_invar [OF a1(1)])
  show "user_names (apply_master_users us a) = set us"
    unfolding set_auth_hashes [OF inv, symmetric] unfolding eq mem.add_all_hashes [OF a1(1)] a1(2) by auto
qed

definition cached :: "(string \<times> string) list \<Rightarrow> string set" where
  "cached tab = fst ` set tab"

lemma cache_users_hashes: "cached (cache_users us tab) = set us"
proof -
  let ?f = "\<lambda>h t. if h \<in> fst ` set t then t else t @ [(h, ''sync-user-'' @ take 6 h)]"
  have "fst ` set (fold ?f hs t) = fst ` set t \<union> set hs" for hs and t :: "(string \<times> string) list"
    by (induction hs arbitrary: t) auto
  then have "fst ` set (cache_users us tab) = fst ` set (filter (\<lambda>(h, _). h \<in> set us) tab) \<union> set us"
    by (simp add: cache_users_def)
  then show ?thesis unfolding cached_def by auto
qed

lemma node_collect_inv:
  "\<lbrakk>consistent o1; node_collect as (o1, fs) = (e, as', (o2, fs')); \<forall>a \<in> set as. auth_inv a\<rbrakk> \<Longrightarrow>
   consistent o2 \<and> no_pending o2 = no_pending o1 \<and> no_pendingSyncID o2 = no_pendingSyncID o1 \<and>
   length as' = length as \<and> (\<forall>a \<in> set as'. auth_inv a)"
proof (induction as arbitrary: o1 fs as')
  case Nil
  then show ?case by simp
next
  case (Cons a as)
  obtain e1 a1 o3 fs3 where c: "node_collect_users (ListUsers a) a (o1, fs) = (e1, a1, (o3, fs3))"
    by (metis prod.exhaust)
  have r: "consistent o3" "no_pending o3 = no_pending o1" "no_pendingSyncID o3 = no_pendingSyncID o1" "auth_inv a1"
    using collect_refines [OF Cons.prems(1) c] Cons.prems(3) by auto
  show ?case
  proof (cases e1)
    case None
    obtain e2 as2 st2 where n: "node_collect as (o3, fs3) = (e2, as2, st2)" by (metis prod.exhaust)
    then have "as' = a1 # as2" "e = e2" "st2 = (o2, fs')" using Cons.prems(2) c None by auto
    with Cons.IH [OF r(1), of fs3 as2] n r Cons.prems(3) show ?thesis by auto
  next
    case (Some x)
    with Cons.prems c r show ?thesis by auto
  qed
qed

lemma node_freeze_cases:
  assumes "node_freeze ids (o1, fs) = (e, ids', (o2, fs'))" "no_pending o1 \<noteq> []"
  shows "e = None" "o2 = o1" "fs' = fs" "ids' = ids"
  using assms by (auto simp: node_freeze_def)

lemma persist_keeps:
  "persistOutboxLocked (o1, fs) = (e, o2, fs') \<Longrightarrow>
     no_pending o2 = no_pending o1 \<and> no_pendingSyncID o2 = no_pendingSyncID o1 \<and> no_queued o2 = no_queued o1"
  by (auto simp: persistOutboxLocked_def split: option.splits prod.splits)

lemma node_acknowledge_effect:
  assumes "node_acknowledge (o1, fs) = (e, o2, fs')"
  shows "e = None \<Longrightarrow> no_pending o2 = []"
    "e \<noteq> None \<Longrightarrow> no_pending o2 = no_pending o1 \<and> no_pendingSyncID o2 = no_pendingSyncID o1"
  using assms by (auto simp: node_acknowledge_def split: if_splits prod.splits option.splits dest: persist_keeps)

lemma sync_fail_cases:
  assumes "sync_fail env m srv = (Ret (k, m'), srv')"
  shows "k = Failed \<and> srv' = srv \<and> nm_out m' = nm_out m \<and> nm_auths m' = nm_auths m"
  using assms by (auto simp: sync_fail_def recordSyncFailure_def Let_def split: outcome.splits)

lemmas sync_splits = if_splits option.splits prod.splits node_reply.splits

lemma sync_apply_synced:
  assumes "sync_apply env fs us m srv = (Ret (Synced, m'), srv')" "\<forall>a \<in> set (nm_auths m). auth_inv a"
  shows "(\<forall>a \<in> set (nm_auths m'). auth_inv a \<and> user_names a = set us) \<and> no_pending (nm_out m') = [] \<and>
    nm_failures m' = 0 \<and> nm_nextSyncAt m' = None \<and> validateUserHashes us = None \<and>
    (\<forall>tab. nm_cache m' = Some tab \<longrightarrow> cached tab = set us)"
  using assms(1,2)
  by (auto simp: sync_apply_def Let_def recordSyncSuccess_def apply_master_users_names cache_users_hashes
      split: sync_splits dest: sync_fail_cases node_acknowledge_effect(1))

lemma sync_apply_cases:
  assumes "sync_apply env fs us m srv = (Ret (k, m'), srv')"
  shows "srv' = srv \<and> (no_pending (nm_out m') = [] \<or>
    no_pending (nm_out m') = no_pending (nm_out m) \<and> no_pendingSyncID (nm_out m') = no_pendingSyncID (nm_out m))"
  using assms by (auto simp: sync_apply_def Let_def recordSyncSuccess_def
      split: sync_splits dest!: sync_fail_cases dest: node_acknowledge_effect)

text \<open>The ways a synchronisation returns: before it asked the control plane, after an answer that is
  not a list of users, or after the list was applied.\<close>

definition asked ::
  "sync_env \<Rightarrow> 'srv master \<Rightarrow> node_manager \<Rightarrow> faults \<Rightarrow> 'srv \<Rightarrow> sync_end \<Rightarrow> node_manager \<Rightarrow> 'srv \<Rightarrow> bool" where
  "asked env master m2 fs srv k m' srv' \<longleftrightarrow>
     (\<exists>sid r. master sid (no_pending (nm_out m2)) srv = (r, srv') \<and>
        (no_pendingSyncID (nm_out m2) \<noteq> [] \<longrightarrow> sid = no_pendingSyncID (nm_out m2)) \<and>
        (k \<noteq> Synced \<and> nm_out m' = nm_out m2 \<or>
         (\<exists>us. r = Users us \<and> sync_apply env fs us m2 srv' = (Ret (k, m'), srv'))))"

lemma asked_fail:
  assumes "master sid (no_pending (nm_out m2)) srv = (r, srv1)" "sync_fail env m2 srv1 = (Ret (k, m'), srv')"
    "no_pendingSyncID (nm_out m2) \<noteq> [] \<longrightarrow> sid = no_pendingSyncID (nm_out m2)"
  shows "asked env master m2 fs srv k m' srv'"
  using assms sync_fail_cases [OF assms(2)] unfolding asked_def by blast

lemma performSync_cases:
  assumes "performSync env master m srv = (Ret (k, m'), srv')"
    "node_collect (nm_auths m) (nm_out m, en_faults env) = (e1, auths, (o1, fs1))"
    "node_freeze (en_ids env) (o1, fs1) = (e2, ids, (o2, fs2))"
  shows "srv' = srv \<and> k \<noteq> Synced \<and> nm_out m' \<in> {nm_out m, o1, o2} \<or>
    asked env master (m\<lparr>nm_auths := auths, nm_out := o2\<rparr>) fs2 srv k m' srv'"
proof -
  let ?m2 = "m\<lparr>nm_auths := auths, nm_out := o2\<rparr>"
  let ?id = "if no_pendingSyncID o2 = [] then fst (next_id ids) else Some (no_pendingSyncID o2)"
  show ?thesis
  proof (cases "syncReady (en_now env) m \<and> nm_loadErr m = None \<and> nm_auths m \<noteq> [] \<and> e1 = None \<and> e2 = None \<and> ?id \<noteq> None")
    case False
    then show ?thesis using assms
      by (auto simp: performSync_def Let_def split: if_splits option.splits dest!: sync_fail_cases)
  next
    case True
    then obtain sid where sid: "?id = Some sid" by blast
    obtain r srv1 where r: "master sid (no_pending o2) srv = (r, srv1)" by (metis prod.exhaust)
    have res: "(case r of Users us \<Rightarrow> sync_apply env fs2 us ?m2 srv1 | _ \<Rightarrow> sync_fail env ?m2 srv1) = (Ret (k, m'), srv')"
      using assms True sid r by (cases r) (simp_all add: performSync_def Let_def)
    have keep: "no_pendingSyncID (nm_out ?m2) \<noteq> [] \<longrightarrow> sid = no_pendingSyncID (nm_out ?m2)"
      using sid by (simp split: if_splits)
    have r2: "master sid (no_pending (nm_out ?m2)) srv = (r, srv1)" using r by simp
    have "asked env master ?m2 fs2 srv k m' srv'"
    proof (cases r)
      case (Users us)
      with res have a: "sync_apply env fs2 us ?m2 srv1 = (Ret (k, m'), srv')" by simp
      moreover have "srv' = srv1" using sync_apply_cases [OF a] by simp
      ultimately show ?thesis using Users r2 keep unfolding asked_def by blast
    qed (use res r2 keep in \<open>auto intro: asked_fail\<close>)
    then show ?thesis by blast
  qed
qed

text \<open>C19. After a synchronisation that reports success, the worker mirrors the control plane: the
  control plane was asked, its answer was a well-formed list of users, every local authenticator
  admits exactly these users, the cache table (when there is one) holds exactly these hashes, no
  batch is left pending, and the failure counter and the backoff deadline are cleared.\<close>

theorem sync_mirrors_master:
  assumes "performSync env master m srv = (Ret (Synced, m'), srv')"
    "\<forall>a \<in> set (nm_auths m). auth_inv a" "consistent (nm_out m)"
  shows "\<exists>syncID batch us. master syncID batch srv = (Users us, srv') \<and> validateUserHashes us = None \<and>
    (\<forall>a \<in> set (nm_auths m'). auth_inv a \<and> user_names a = set us) \<and>
    (\<forall>tab. nm_cache m' = Some tab \<longrightarrow> cached tab = set us) \<and>
    no_pending (nm_out m') = [] \<and> nm_failures m' = 0 \<and> nm_nextSyncAt m' = None"
proof -
  obtain e1 auths o1 fs1 where c: "node_collect (nm_auths m) (nm_out m, en_faults env) = (e1, auths, (o1, fs1))"
    by (metis prod.exhaust)
  have inv: "\<forall>a \<in> set auths. auth_inv a" using node_collect_inv [OF assms(3) c assms(2)] by blast
  obtain e2 ids o2 fs2 where f: "node_freeze (en_ids env) (o1, fs1) = (e2, ids, (o2, fs2))"
    by (metis prod.exhaust)
  have "asked env master (m\<lparr>nm_auths := auths, nm_out := o2\<rparr>) fs2 srv Synced m' srv'"
    using performSync_cases [OF assms(1) c f] by simp
  then obtain sid us where "master sid (no_pending o2) srv = (Users us, srv')"
    "sync_apply env fs2 us (m\<lparr>nm_auths := auths, nm_out := o2\<rparr>) srv' = (Ret (Synced, m'), srv')"
    unfolding asked_def by auto
  with sync_apply_synced [OF this(2)] inv show ?thesis by auto
qed

definition sample_hash :: string where
  "sample_hash = replicate 56 (CHR ''a'')"

definition sample_master :: "unit master" where
  "sample_master syncID batch srv = (Users [sample_hash], srv)"

definition sample_manager :: node_manager where
  "sample_manager = SetDB (Some [(''old'', ''name'')]) (AddAuthenticator sample_node_auth (NewManager 60 (Some Absent)))"

definition sample_env :: sync_env where
  "sample_env = \<lparr>en_now = 0, en_failNow = 0, en_jitter = 0, en_faults = [], en_ids = [Some ''id1'', Some ''id2''],
     en_dbOk = True\<rparr>"

lemmas sample_sync_defs = sample_hash_def sample_master_def sample_manager_def sample_env_def
  sample_node_auth_def AddAuthenticator_def SetDB_def

lemma validate_sample: "validateUserHashes [sample_hash] = None"
  by code_simp

lemma sample_sync: "\<exists>m'. performSync sample_env sample_master sample_manager () = (Ret (Synced, m'), ())"
proof -
  have "(case fst (performSync sample_env sample_master sample_manager ()) of
      Ret (Synced, _) \<Rightarrow> True | _ \<Rightarrow> False)" by code_simp
  then show ?thesis by (cases "performSync sample_env sample_master sample_manager ()")
    (auto split: outcome.splits sync_end.splits)
qed

theorem sync_mirrors_master_witness:
  "\<exists>m'. performSync sample_env sample_master sample_manager () = (Ret (Synced, m'), ()) \<and>
     (\<forall>a \<in> set (nm_auths m'). user_names a = {sample_hash})"
proof -
  obtain m' where m': "performSync sample_env sample_master sample_manager () = (Ret (Synced, m'), ())"
    using sample_sync by blast
  have "\<forall>a \<in> set (nm_auths sample_manager). auth_inv a" "consistent (nm_out sample_manager)"
    by (simp_all add: sample_sync_defs NewManager_def node_loadOutbox_def auth_inv_def new_user_def AddTraffic64_def
      consistent_def File_Load_def Normalize_def zero_state_def split: outcome.splits)
  from sync_mirrors_master [OF m' this] m' show ?thesis by (auto simp: sample_master_def)
qed

text \<open>C13. A frozen batch is never changed, renamed or dropped before the control plane has answered
  for it. Starting with a pending batch, whatever fails during a synchronisation: the only request
  the control plane can see carries exactly this batch under exactly this id, and afterwards the
  batch and its id are still pending, or the batch is gone and the control plane did answer this
  very request with a list of users.\<close>

theorem frozen_batch_stable:
  assumes "performSync env master m srv = (Ret (k, m'), srv')"
    "\<forall>a \<in> set (nm_auths m). auth_inv a" "consistent (nm_out m)" "no_pending (nm_out m) \<noteq> []"
  defines "sid \<equiv> no_pendingSyncID (nm_out m)" and "batch \<equiv> no_pending (nm_out m)"
  shows "(srv' = srv \<or> (\<exists>r. master sid batch srv = (r, srv'))) \<and>
    (no_pendingSyncID (nm_out m') = sid \<and> no_pending (nm_out m') = batch \<or>
     no_pending (nm_out m') = [] \<and> (\<exists>us. master sid batch srv = (Users us, srv')))"
proof -
  obtain e1 auths o1 fs1 where c: "node_collect (nm_auths m) (nm_out m, en_faults env) = (e1, auths, (o1, fs1))"
    by (metis prod.exhaust)
  have o1: "no_pending o1 = batch" "no_pendingSyncID o1 = sid" "sid \<noteq> []"
    using node_collect_inv [OF assms(3) c assms(2)] assms(3,4) by (auto simp: sid_def batch_def consistent_def)
  obtain e2 ids o2 fs2 where f: "node_freeze (en_ids env) (o1, fs1) = (e2, ids, (o2, fs2))"
    by (metis prod.exhaust)
  have o2: "e2 = None" "o2 = o1" "fs2 = fs1"
    using node_freeze_cases [OF f] o1(1) assms(4) by (auto simp: batch_def)
  from performSync_cases [OF assms(1) c f] show ?thesis
  proof
    assume "srv' = srv \<and> k \<noteq> Synced \<and> nm_out m' \<in> {nm_out m, o1, o2}"
    with o1 o2 show ?thesis by (auto simp: sid_def batch_def)
  next
    assume "asked env master (m\<lparr>nm_auths := auths, nm_out := o2\<rparr>) fs2 srv k m' srv'"
    then obtain r where r: "master sid batch srv = (r, srv')" and
      "nm_out m' = o1 \<or> (\<exists>us. r = Users us \<and>
         sync_apply env fs1 us (m\<lparr>nm_auths := auths, nm_out := o1\<rparr>) srv' = (Ret (k, m'), srv'))"
      using o1 o2 unfolding asked_def by auto
    with o1 show ?thesis by (auto dest: sync_apply_cases)
  qed
qed

definition stuck_manager :: node_manager where
  "stuck_manager = sample_manager\<lparr>nm_out :=
     \<lparr>no_pendingSyncID = ''b1'', no_pending = [(''u'', \<lparr>Up = 5, Down = 6\<rparr>)], no_queued = [], no_file = None\<rparr>\<rparr>"

theorem frozen_batch_stable_witness:
  "\<exists>m'. performSync sample_env (\<lambda>_ _ n. (BadStatus 500, Suc n)) stuck_manager 0 = (Ret (Failed, m'), 1) \<and>
     no_pendingSyncID (nm_out m') = ''b1'' \<and> no_pending (nm_out m') = [(''u'', \<lparr>Up = 5, Down = 6\<rparr>)]"
proof -
  let ?s = "performSync sample_env (\<lambda>_ _ n. (BadStatus 500, Suc n)) stuck_manager 0"
  have "(case ?s of (Ret (Failed, _), n) \<Rightarrow> n = 1 | _ \<Rightarrow> False)" by code_simp
  then obtain m' where m': "?s = (Ret (Failed, m'), 1)"
    by (cases ?s) (auto split: outcome.splits sync_end.splits)
  have "\<forall>a \<in> set (nm_auths stuck_manager). auth_inv a" "consistent (nm_out stuck_manager)"
    "no_pending (nm_out stuck_manager) \<noteq> []"
    by (simp_all add: stuck_manager_def sample_sync_defs NewManager_def node_loadOutbox_def auth_inv_def new_user_def
      AddTraffic64_def consistent_def split: outcome.splits)
  from frozen_batch_stable [OF m' this] m' show ?thesis by (auto simp: stuck_manager_def)
qed

end
