(* ===== verification/Secret_File.thy ===== *)
theory Secret_File
  imports Go_Net
begin

text \<open>
  \<open>internal/secretfile/secretfile.go\<close>: reading files that hold secrets and replacing a
  sensitive file atomically. A path is what the operating system shows of it when it is opened:
  nothing, an error, a symbolic link, or an open file with its mode, owner and content.
\<close>

unbundle bit_operations_syntax

type_synonym file_mode = "32 word"

record open_file =
  of_regular :: bool
  of_perm :: file_mode
  of_uid :: nat
  of_data :: bytes

datatype path_entry = Missing | OpenFails string | Symlink "open_file option" | OpenFile open_file

definition ErrNotExist :: go_error where
  "ErrNotExist = Opaque ''file does not exist''"

definition maxSecretSize :: nat where
  "maxSecretSize = 1048576"

definition checkOwner :: "nat \<Rightarrow> open_file \<Rightarrow> go_error option" where
  "checkOwner getuid f =
     (let owner = of_uid f in
      if owner = 0 then None
      else if owner \<noteq> getuid then Some (Opaque ''owned by another uid'')
      else None)"

definition secretfile_open :: "nat \<Rightarrow> path_entry \<Rightarrow> open_file outcome" where
  "secretfile_open getuid p =
     (case p of
        Symlink _ \<Rightarrow> Raise (Opaque ''must be a regular file, not a symbolic link'')
      | Missing \<Rightarrow> Raise (Err ''open'' (Some ErrNotExist))
      | OpenFails m \<Rightarrow> Raise (Err ''open'' (Some (Opaque m)))
      | OpenFile f \<Rightarrow>
          if \<not> of_regular f then Raise (Opaque ''must be a regular file'')
          else if of_perm f AND 0x3F \<noteq> 0 then Raise (Opaque ''must be accessible only by its owner (mode 0600)'')
          else case checkOwner getuid f of Some e \<Rightarrow> Raise e | None \<Rightarrow> Ret f)"

definition secretfile_Read :: "nat \<Rightarrow> path_entry \<Rightarrow> bytes outcome" where
  "secretfile_Read getuid p =
     (case secretfile_open getuid p of
        Ret f \<Rightarrow>
          if length (take (maxSecretSize + 1) (of_data f)) > maxSecretSize
          then Raise (Opaque ''larger than the limit for secret files'')
          else Ret (take (maxSecretSize + 1) (of_data f))
      | Raise e \<Rightarrow> Raise e
      | Panic m \<Rightarrow> Panic m
      | Hang \<Rightarrow> Hang)"

text \<open>The system calls of \<open>WriteAtomic\<close> that can fail, in their order; a failing write leaves a
  prefix of the content in the temporary file. The state is the path and the temporary file.\<close>

datatype write_fault = WCreate | WChmod | WWrite nat | WSync | WClose | WRename

record write_dir =
  wd_path :: path_entry
  wd_tmp :: "open_file option"

definition DefaultPerm :: file_mode where
  "DefaultPerm = 0x180"

text \<open>\<open>os.Stat\<close> follows a symbolic link; \<open>rename\<close> replaces the link itself.\<close>

definition stat_perm :: "path_entry \<Rightarrow> file_mode option" where
  "stat_perm p = (case p of OpenFile f \<Rightarrow> Some (of_perm f AND 0x1FF)
     | Symlink (Some f) \<Rightarrow> Some (of_perm f AND 0x1FF) | _ \<Rightarrow> None)"

definition write_perm :: "path_entry \<Rightarrow> file_mode" where
  "write_perm p =
     (case stat_perm p of
        Some m \<Rightarrow> if m AND 0x3F \<noteq> 0 then DefaultPerm else m
      | None \<Rightarrow> DefaultPerm)"

text \<open>The deferred clean-up of an uncommitted temporary file.\<close>

definition wa_abort :: "string \<Rightarrow> write_dir \<Rightarrow> go_error option \<times> write_dir" where
  "wa_abort what d = (Some (Opaque what), d\<lparr>wd_tmp := None\<rparr>)"

definition WriteAtomic ::
  "nat \<Rightarrow> write_fault option \<Rightarrow> bytes \<Rightarrow> write_dir \<Rightarrow> go_error option \<times> write_dir" where
  "WriteAtomic getuid fault content d =
     (let perm = write_perm (wd_path d) in
      if fault = Some WCreate then (Some (Opaque ''create temp file''), d)
      else
        let tmp = \<lparr>of_regular = True, of_perm = 0x180, of_uid = getuid, of_data = []\<rparr>; d1 = d\<lparr>wd_tmp := Some tmp\<rparr>
        in if fault = Some WChmod then wa_abort ''chmod'' d1
        else
          let d2 = d1\<lparr>wd_tmp := Some (tmp\<lparr>of_perm := perm\<rparr>)\<rparr>
          in case fault of
               Some (WWrite n) \<Rightarrow> wa_abort ''write'' (d2\<lparr>wd_tmp := Some (tmp\<lparr>of_perm := perm, of_data := take n content\<rparr>)\<rparr>)
             | _ \<Rightarrow>
                 let tmp3 = tmp\<lparr>of_perm := perm, of_data := content\<rparr>; d3 = d2\<lparr>wd_tmp := Some tmp3\<rparr>
                 in if fault = Some WSync then wa_abort ''sync'' d3
                    else if fault = Some WClose then wa_abort ''close'' d3
                    else if fault = Some WRename then wa_abort ''rename'' d3
                    else (None, d3\<lparr>wd_path := OpenFile tmp3, wd_tmp := None\<rparr>))"

section \<open>Properties\<close>

lemma DefaultPerm_private: "DefaultPerm AND 0x3F = 0"
  by (simp add: DefaultPerm_def)

lemma write_perm_private: "write_perm p AND 0x3F = 0"
  using DefaultPerm_private by (simp add: write_perm_def split: option.splits)

text \<open>Replacing a sensitive file is atomic and never exposes it. Whatever the path was before and
  whichever system call fails: no temporary file is left, and either the call reports an error and
  the path is exactly what it was, or it succeeds, the new file is a regular file no other user
  can access whatever the old mode was, and reading it back as a secret file yields the written
  content as long as it is within the size limit.\<close>

theorem write_atomic_private:
  assumes "wd_tmp d = None" "WriteAtomic getuid fault content d = (e, d')"
  shows "wd_tmp d' = None \<and>
    (if e \<noteq> None then wd_path d' = wd_path d
     else (\<exists>f. wd_path d' = OpenFile f \<and> of_regular f \<and> of_perm f AND 0x3F = 0 \<and> of_data f = content) \<and>
       (length content \<le> maxSecretSize \<longrightarrow> secretfile_Read getuid (wd_path d') = Ret content))"
proof (cases fault)
  case (Some x)
  with assms show ?thesis by (cases x) (auto simp: WriteAtomic_def wa_abort_def Let_def)
next
  case None
  then have "e = None" "wd_tmp d' = None" "wd_path d' = OpenFile
      \<lparr>of_regular = True, of_perm = write_perm (wd_path d), of_uid = getuid, of_data = content\<rparr>"
    using assms by (auto simp: WriteAtomic_def Let_def)
  then show ?thesis using write_perm_private [of "wd_path d"]
    by (auto simp: secretfile_Read_def secretfile_open_def checkOwner_def Let_def)
qed

definition sample_dir :: write_dir where
  "sample_dir = \<lparr>wd_path = OpenFile \<lparr>of_regular = True, of_perm = 0x1A4, of_uid = 7, of_data = [9]\<rparr>, wd_tmp = None\<rparr>"

theorem write_atomic_private_witness:
  "\<exists>d'. WriteAtomic 7 None [1, 2] sample_dir = (None, d') \<and> secretfile_Read 7 (wd_path d') = Ret [1, 2]"
proof -
  obtain e d' where w: "WriteAtomic 7 None [1, 2] sample_dir = (e, d')" by (metis prod.exhaust)
  moreover have "e = None" using w by (simp add: WriteAtomic_def Let_def)
  moreover have "wd_tmp sample_dir = None" by (simp add: sample_dir_def)
  ultimately show ?thesis using write_atomic_private [OF _ w] by (auto simp: maxSecretSize_def)
qed

end
