(* ===== verification/Credentials.thy ===== *)
theory Credentials
  imports Complex_Main Secret_File Sha224 "HOL-Library.AList"
begin

text \<open>
  \<open>internal/database/credentials.go\<close>: encrypted passwords, node secrets and the JWT key. The
  AES-256-GCM primitive is a parameter, a record of its two functions; base64, HMAC and SHA-256
  are written out. The key file is a \<open>path_entry\<close>, random bytes are arguments.
\<close>

section \<open>Base64, raw URL alphabet\<close>

definition b64_char :: "nat \<Rightarrow> char" where
  "b64_char n =
     (if n < 26 then char_of (65 + n) else if n < 52 then char_of (71 + n)
      else if n < 62 then char_of (n - 4) else if n = 62 then CHR ''-'' else CHR ''_'')"

definition b64_val :: "char \<Rightarrow> nat option" where
  "b64_val c =
     (let n = code c in
      if 65 \<le> n \<and> n \<le> 90 then Some (n - 65) else if 97 \<le> n \<and> n \<le> 122 then Some (n - 71)
      else if 48 \<le> n \<and> n \<le> 57 then Some (n + 4)
      else if n = 45 then Some 62 else if n = 95 then Some 63 else None)"

fun b64_encode :: "bytes \<Rightarrow> string" where
  "b64_encode [] = []"
| "b64_encode [a] = [b64_char (unat a div 4), b64_char (unat a mod 4 * 16)]"
| "b64_encode [a, b] =
     [b64_char (unat a div 4), b64_char (unat a mod 4 * 16 + unat b div 16), b64_char (unat b mod 16 * 4)]"
| "b64_encode (a # b # c # r) =
     b64_char (unat a div 4) # b64_char (unat a mod 4 * 16 + unat b div 16) #
     b64_char (unat b mod 16 * 4 + unat c div 64) # b64_char (unat c mod 64) # b64_encode r"

text \<open>Go's decoder skips carriage returns and newlines and ignores the unused low bits of the last
  character.\<close>

fun b64_quads :: "nat list \<Rightarrow> bytes option" where
  "b64_quads [] = Some []"
| "b64_quads [_] = None"
| "b64_quads [w, x] = Some [of_nat (w * 4 + x div 16)]"
| "b64_quads [w, x, y] = Some [of_nat (w * 4 + x div 16), of_nat (x mod 16 * 16 + y div 4)]"
| "b64_quads (w # x # y # z # r) =
     (case b64_quads r of
        None \<Rightarrow> None
      | Some bs \<Rightarrow> Some (of_nat (w * 4 + x div 16) # of_nat (x mod 16 * 16 + y div 4) # of_nat (y mod 4 * 64 + z) # bs))"

fun b64_vals :: "string \<Rightarrow> nat list option" where
  "b64_vals [] = Some []"
| "b64_vals (c # cs) =
     (case b64_val c of None \<Rightarrow> None | Some v \<Rightarrow>
      (case b64_vals cs of None \<Rightarrow> None | Some vs \<Rightarrow> Some (v # vs)))"

definition b64_decode :: "string \<Rightarrow> bytes option" where
  "b64_decode s =
     (case b64_vals (filter (\<lambda>c. code c \<noteq> 10 \<and> code c \<noteq> 13) s) of None \<Rightarrow> None | Some vs \<Rightarrow> b64_quads vs)"

section \<open>SHA-256 and HMAC\<close>

definition sha256_init :: "w32 list" where
  "sha256_init = [
    1779033703, 3144134277, 1013904242, 2773480762, 1359893119, 2600822924, 528734635,
    1541459225]"

definition sha256 :: "bytes \<Rightarrow> bytes" where
  "sha256 m =
     (let p = sha_pad m
      in concat (map be32_bytes (fold sha_block (chunks (length p div 64) 64 p) sha256_init)))"

definition hmac_sha256 :: "bytes \<Rightarrow> bytes \<Rightarrow> bytes" where
  "hmac_sha256 key m =
     (let k = (if length key > 64 then sha256 key else key); k64 = k @ replicate (64 - length k) 0
      in sha256 (map (\<lambda>b. b XOR 0x5C) k64 @ sha256 (map (\<lambda>b. b XOR 0x36) k64 @ m)))"

section \<open>The key file\<close>

definition credentialCipherVersion :: string where
  "credentialCipherVersion = ''enc:v1:default:''"

definition loadCredentialKey :: "nat \<Rightarrow> path_entry \<Rightarrow> bytes outcome" where
  "loadCredentialKey getuid p =
     (case secretfile_Read getuid p of
        Raise e \<Rightarrow>
          if errors_Is e ErrNotExist then Raise (Opaque ''credential key file is missing'')
          else Raise (Err ''load credential key'' (Some e))
      | Ret key \<Rightarrow> if length key \<noteq> 32 then Raise (Opaque ''credential key must contain exactly 32 bytes'') else Ret key
      | Panic m \<Rightarrow> Panic m
      | Hang \<Rightarrow> Hang)"

text \<open>One attempt of \<open>EnsureCredentialKey\<close>: the path as the read finds it, whether the directory can be
  made, the random key, and what the exclusive create and the write do. Another process may create
  the file in between; then the function starts again. The attempts are a list.\<close>

datatype create_result = Created | AlreadyExists | CreateFails | WriteFails nat

record attempt =
  at_path :: path_entry
  at_mkdir :: bool
  at_rand :: "bytes option"
  at_create :: create_result

fun EnsureCredentialKey :: "nat \<Rightarrow> attempt list \<Rightarrow> (path_entry) outcome" where
  "EnsureCredentialKey getuid [] = Hang"
| "EnsureCredentialKey getuid (t # ts) =
     (case secretfile_Read getuid (at_path t) of
        Ret d \<Rightarrow> if length d \<noteq> 32 then Raise (Opaque ''credential key must contain exactly 32 bytes'') else Ret (at_path t)
      | Raise e \<Rightarrow>
          if \<not> errors_Is e ErrNotExist then Raise (Err ''read credential key'' (Some e))
          else if \<not> at_mkdir t then Raise (Opaque ''create credential key directory'')
          else
            (case at_rand t of
               None \<Rightarrow> Raise (Opaque ''generate credential key'')
             | Some key \<Rightarrow>
                 (case at_create t of
                    AlreadyExists \<Rightarrow> EnsureCredentialKey getuid ts
                  | CreateFails \<Rightarrow> Raise (Opaque ''create credential key'')
                  | WriteFails _ \<Rightarrow> Raise (Opaque ''write credential key'')
                  | Created \<Rightarrow> Ret (OpenFile \<lparr>of_regular = True, of_perm = 0x180, of_uid = getuid, of_data = key\<rparr>)))
      | Panic m \<Rightarrow> Panic m
      | Hang \<Rightarrow> Hang)"

section \<open>Encrypting and decrypting\<close>

text \<open>AES-256-GCM with its key, nonce, text and associated data.\<close>

record aead =
  Seal :: "bytes \<Rightarrow> bytes \<Rightarrow> bytes \<Rightarrow> bytes \<Rightarrow> bytes"
  Open :: "bytes \<Rightarrow> bytes \<Rightarrow> bytes \<Rightarrow> bytes \<Rightarrow> bytes option"

definition nonce_size :: nat where
  "nonce_size = 12"

text \<open>\<open>env\<close> of a call: the primitive and the key the file yields.\<close>

record vault =
  va_aead :: aead
  va_key :: "bytes outcome"

definition EncryptCredential :: "vault \<Rightarrow> bytes option \<Rightarrow> string \<Rightarrow> string \<Rightarrow> string outcome" where
  "EncryptCredential v rnd purpose value =
     (if value = [] then Ret []
      else case va_key v of
        Ret key \<Rightarrow>
          (case rnd of
             None \<Rightarrow> Raise (Opaque ''generate credential nonce'')
           | Some nonce \<Rightarrow>
               let ciphertext = Seal (va_aead v) key nonce (bytes_of value) (bytes_of purpose)
               in Ret (credentialCipherVersion @ b64_encode (nonce @ ciphertext)))
      | Raise e \<Rightarrow> Raise e
      | Panic m \<Rightarrow> Panic m
      | Hang \<Rightarrow> Hang)"

definition DecryptCredential :: "vault \<Rightarrow> string \<Rightarrow> string \<Rightarrow> string outcome" where
  "DecryptCredential v purpose value =
     (if value = [] then Ret []
      else if \<not> HasPrefix value credentialCipherVersion then Raise (Opaque ''credential ciphertext has an unsupported format'')
      else case b64_decode (drop (length credentialCipherVersion) value) of
        None \<Rightarrow> Raise (Opaque ''decode credential ciphertext'')
      | Some payload \<Rightarrow>
          (case va_key v of
             Ret key \<Rightarrow>
               if length payload < nonce_size then Raise (Opaque ''credential ciphertext is too short'')
               else (case Open (va_aead v) key (take nonce_size payload) (drop nonce_size payload) (bytes_of purpose) of
                       None \<Rightarrow> Raise (Opaque ''credential ciphertext authentication failed'')
                     | Some plaintext \<Rightarrow> Ret (string_of plaintext))
           | Raise e \<Rightarrow> Raise e
           | Panic m \<Rightarrow> Panic m
           | Hang \<Rightarrow> Hang))"

definition CredentialFingerprint :: "vault \<Rightarrow> string \<Rightarrow> string \<Rightarrow> string outcome" where
  "CredentialFingerprint v purpose value =
     (if value = [] then Ret []
      else case va_key v of
        Ret key \<Rightarrow> Ret (concat (map hex_byte (hmac_sha256 key (bytes_of purpose @ [0] @ bytes_of value))))
      | Raise e \<Rightarrow> Raise e
      | Panic m \<Rightarrow> Panic m
      | Hang \<Rightarrow> Hang)"

section \<open>User passwords\<close>

record user_cred =
  uc_id :: nat
  uc_password :: string
  uc_ciphertext :: string
  uc_keyID :: string
  uc_hash :: string

definition userPasswordPurpose :: "nat \<Rightarrow> string" where
  "userPasswordPurpose i = ''user-password:'' @ dec_string (int i)"

definition nodeSecretPurpose :: "nat \<Rightarrow> string" where
  "nodeSecretPurpose i = ''node-secret:'' @ dec_string (int i)"

definition sha224Password :: "string \<Rightarrow> string" where
  "sha224Password password = concat (map hex_byte (sha224 (bytes_of password)))"

text \<open>\<open>dbErr\<close> is what the UPDATE statement reports; the record the caller holds is updated first.\<close>

definition SetUserPassword ::
  "vault \<Rightarrow> bytes option \<Rightarrow> go_error option \<Rightarrow> string \<Rightarrow> user_cred \<Rightarrow> unit outcome \<times> user_cred" where
  "SetUserPassword v rnd dbErr password u =
     (if uc_id u = 0 then (Raise (Opaque ''user must be persisted before encrypting a password''), u)
      else case EncryptCredential v rnd (userPasswordPurpose (uc_id u)) password of
        Ret c \<Rightarrow>
          (case dbErr of None \<Rightarrow> Ret () | Some e \<Rightarrow> Raise e,
           u\<lparr>uc_password := [], uc_ciphertext := c, uc_keyID := ''default'', uc_hash := sha224Password password\<rparr>)
      | Raise e \<Rightarrow> (Raise e, u)
      | Panic m \<Rightarrow> (Panic m, u)
      | Hang \<Rightarrow> (Hang, u))"

definition UserPassword :: "vault \<Rightarrow> user_cred \<Rightarrow> string outcome" where
  "UserPassword v u =
     (if uc_ciphertext u \<noteq> [] then DecryptCredential v (userPasswordPurpose (uc_id u)) (uc_ciphertext u)
      else Ret (uc_password u))"

section \<open>Node secrets\<close>

record node_row =
  nd_id :: nat
  nd_secret :: string
  nd_ciphertext :: string
  nd_hash :: string
  nd_rotatedAt :: "int option"
  nd_status :: int
  nd_lastHeartbeat :: "int option"
  nd_detectedIP :: string
  nd_rate :: rat

text \<open>The unique indexes on the two secret columns make an UPDATE fail that would repeat a value.\<close>

definition unique_secrets :: "node_row list \<Rightarrow> bool" where
  "unique_secrets ns \<longleftrightarrow> distinct (map nd_id ns) \<and> distinct (map nd_secret ns) \<and> distinct (map nd_hash ns)"

definition update_node :: "node_row \<Rightarrow> node_row list \<Rightarrow> node_row list" where
  "update_node n ns = map (\<lambda>x. if nd_id x = nd_id n then n else x) ns"

definition SetNodeSecret ::
  "vault \<Rightarrow> bytes option \<Rightarrow> int \<Rightarrow> string \<Rightarrow> node_row \<Rightarrow> node_row list \<Rightarrow> unit outcome \<times> node_row list" where
  "SetNodeSecret v rnd now secret n ns =
     (if nd_id n = 0 then (Raise (Opaque ''persisted node and database are required''), ns)
      else case EncryptCredential v rnd (nodeSecretPurpose (nd_id n)) secret of
        Ret ciphertext \<Rightarrow>
          (case CredentialFingerprint v ''node-secret-lookup'' secret of
             Ret fingerprint \<Rightarrow>
               let ns' = update_node (n\<lparr>nd_secret := ''retired:'' @ dec_string (int (nd_id n)), nd_ciphertext := ciphertext,
                                        nd_hash := fingerprint, nd_rotatedAt := Some now\<rparr>) ns
               in if unique_secrets ns' then (Ret (), ns') else (Raise (Opaque ''UNIQUE constraint failed''), ns)
           | Raise e \<Rightarrow> (Raise e, ns)
           | Panic m \<Rightarrow> (Panic m, ns)
           | Hang \<Rightarrow> (Hang, ns))
      | Raise e \<Rightarrow> (Raise e, ns)
      | Panic m \<Rightarrow> (Panic m, ns)
      | Hang \<Rightarrow> (Hang, ns))"

text \<open>\<open>First\<close> orders by primary key; the rows of the model are in that order.\<close>

definition NodeBySecret :: "vault \<Rightarrow> string \<Rightarrow> node_row list \<Rightarrow> node_row outcome" where
  "NodeBySecret v secret ns =
     (case CredentialFingerprint v ''node-secret-lookup'' secret of
        Ret fingerprint \<Rightarrow>
          (case find (\<lambda>n. nd_hash n = fingerprint) ns of
             Some n \<Rightarrow> Ret n
           | None \<Rightarrow>
               (case find (\<lambda>n. nd_secret n = secret \<and> nd_ciphertext n = []) ns of
                  Some n \<Rightarrow> Ret n
                | None \<Rightarrow> Raise (Opaque ''record not found'')))
      | Raise e \<Rightarrow> Raise e
      | Panic m \<Rightarrow> Panic m
      | Hang \<Rightarrow> Hang)"

section \<open>The JWT key\<close>

type_synonym config_table = "(string \<times> string) list"

definition jwt_purpose :: string where
  "jwt_purpose = ''jwt-secret:global''"

definition RotateJWTSecret ::
  "vault \<Rightarrow> bytes option \<Rightarrow> bytes option \<Rightarrow> bool \<Rightarrow> config_table \<Rightarrow> bytes outcome \<times> config_table" where
  "RotateJWTSecret v fresh rnd dbOk db =
     (case fresh of
        None \<Rightarrow> (Raise (Opaque ''generate JWT secret''), db)
      | Some secret \<Rightarrow>
          (case EncryptCredential v rnd jwt_purpose (b64_encode secret) of
             Ret c \<Rightarrow> if dbOk then (Ret secret, AList.update ''jwt_secret'' c db) else (Raise (Opaque ''database''), db)
           | Raise e \<Rightarrow> (Raise e, db)
           | Panic m \<Rightarrow> (Panic m, db)
           | Hang \<Rightarrow> (Hang, db)))"

definition LoadJWTSecret ::
  "vault \<Rightarrow> bytes option \<Rightarrow> bytes option \<Rightarrow> bool \<Rightarrow> config_table \<Rightarrow> bytes outcome \<times> config_table" where
  "LoadJWTSecret v fresh rnd dbOk db =
     (case map_of db ''jwt_secret'' of
        None \<Rightarrow> RotateJWTSecret v fresh rnd dbOk db
      | Some value \<Rightarrow>
          if value = [] then RotateJWTSecret v fresh rnd dbOk db
          else if HasPrefix value credentialCipherVersion then
            (case DecryptCredential v jwt_purpose value of
               Ret encoded \<Rightarrow>
                 (case b64_decode encoded of
                    Some secret \<Rightarrow> if length secret \<noteq> 32 then (Raise (Opaque ''stored JWT secret is invalid''), db) else (Ret secret, db)
                  | None \<Rightarrow> (Raise (Opaque ''stored JWT secret is invalid''), db))
             | Raise e \<Rightarrow> (Raise e, db)
             | Panic m \<Rightarrow> (Panic m, db)
             | Hang \<Rightarrow> (Hang, db))
          else if length value = 32 then
            (case EncryptCredential v rnd jwt_purpose (b64_encode (bytes_of value)) of
               Ret c \<Rightarrow>
                 if dbOk then (Ret (bytes_of value), AList.update ''jwt_secret'' c db)
                 else (Raise (Opaque ''database''), db)
             | Raise e \<Rightarrow> (Raise e, db)
             | Panic m \<Rightarrow> (Panic m, db)
             | Hang \<Rightarrow> (Hang, db))
          else RotateJWTSecret v fresh rnd dbOk db)"


section \<open>Base64 round trip\<close>

lemma code_b64_char:
  "n < 64 \<Longrightarrow> code (b64_char n) =
     (if n < 26 then 65 + n else if n < 52 then 71 + n else if n < 62 then n - 4 else if n = 62 then 45 else 95)"
  by (simp add: b64_char_def code_of_char_of) (simp add: code_def)

lemma b64_val_char: "n < 64 \<Longrightarrow> b64_val (b64_char n) = Some n"
  by (auto simp: b64_val_def code_b64_char Let_def)

lemma b64_char_no_newline: "n < 64 \<Longrightarrow> code (b64_char n) \<noteq> 10 \<and> code (b64_char n) \<noteq> 13"
  by (auto simp: code_b64_char)

lemma byte_split: "of_nat (unat a div 4 * 4 + (unat a mod 4 * 16 + k) div 16) = a" if "k < 16" for a :: byte
proof -
  have "(unat a mod 4 * 16 + k) div 16 = unat a mod 4" using that by simp
  then show ?thesis by (simp only: div_mult_mod_eq) simp
qed

lemma byte_split2: "of_nat ((j * 16 + unat b div 16) mod 16 * 16 + (unat b mod 16 * 4 + k) div 4) = b"
  if "k < 4" for b :: byte
proof -
  have "unat b div 16 < 16" using unat_byte_less [of b] by simp
  then have "(j * 16 + unat b div 16) mod 16 = unat b div 16" "(unat b mod 16 * 4 + k) div 4 = unat b mod 16"
    using that by simp_all
  then show ?thesis by (simp only: div_mult_mod_eq) simp
qed

lemma byte_split3: "of_nat ((j * 4 + unat c div 64) mod 4 * 64 + unat c mod 64) = (c :: byte)"
proof -
  have "unat c div 64 < 4" using unat_byte_less [of c] by simp
  then have "(j * 4 + unat c div 64) mod 4 = unat c div 64" by simp
  then show ?thesis by (simp only: div_mult_mod_eq) simp
qed

lemma b64_ranges:
  "unat (a :: byte) div 4 < 64" "unat (a :: byte) mod 4 * 16 + unat (b :: byte) div 16 < 64"
  "unat (b :: byte) mod 16 * 4 + unat (c :: byte) div 64 < 64" "unat (c :: byte) mod 64 < 64"
  "unat (a :: byte) mod 4 * 16 < 64" "unat (b :: byte) mod 16 * 4 < 64"
proof -
  have "unat b div 16 < 16" "unat c div 64 < 4" "unat a div 4 < 64"
    using unat_byte_less [of a] unat_byte_less [of b] unat_byte_less [of c] by simp_all
  moreover have "unat a mod 4 < 4" "unat b mod 16 < 16" by simp_all
  ultimately show "unat a div 4 < 64" "unat a mod 4 * 16 + unat b div 16 < 64"
    "unat b mod 16 * 4 + unat c div 64 < 64" "unat c mod 64 < 64"
    "unat a mod 4 * 16 < 64" "unat b mod 16 * 4 < 64" by linarith+
qed

lemma b64_vals_encode: "\<exists>vs. b64_vals (b64_encode bs) = Some vs \<and> b64_quads vs = Some bs"
proof (induction bs rule: b64_encode.induct)
  case (2 a)
  show ?case using byte_split [of 0 a] by (simp add: b64_val_char b64_ranges)
next
  case (3 a b)
  have "unat b div 16 < 16" using unat_byte_less [of b] by simp
  then show ?case using byte_split [of "unat b div 16" a] byte_split2 [of 0 "unat a mod 4" b]
    by (simp add: b64_val_char b64_ranges)
next
  case (4 a b c r)
  have "unat b div 16 < 16" "unat c div 64 < 4" using unat_byte_less [of b] unat_byte_less [of c] by simp_all
  then show ?case
    using 4 byte_split [of "unat b div 16" a] byte_split2 [of "unat c div 64" "unat a mod 4" b]
      byte_split3 [of "unat b mod 16" c]
    by (auto simp: b64_val_char b64_ranges)
qed simp

lemma b64_encode_no_newline: "filter (\<lambda>c. code c \<noteq> 10 \<and> code c \<noteq> 13) (b64_encode bs) = b64_encode bs"
  by (induction bs rule: b64_encode.induct) (simp_all add: b64_char_no_newline b64_ranges)

lemma b64_roundtrip: "b64_decode (b64_encode bs) = Some bs"
  using b64_vals_encode [of bs] by (auto simp: b64_decode_def b64_encode_no_newline)

lemma b64_encode_Nil_iff [simp]: "b64_encode bs = [] \<longleftrightarrow> bs = []"
  by (cases bs rule: b64_encode.cases) simp_all

section \<open>Properties\<close>

text \<open>What the code relies on of AES-GCM: opening what was sealed with the same key, nonce and
  associated data gives the text back.\<close>

definition aead_ok :: "aead \<Rightarrow> bool" where
  "aead_ok c \<longleftrightarrow> (\<forall>k n t a. Open c k n (Seal c k n t a) a = Some t)"

lemma encrypt_decrypt:
  assumes "aead_ok (va_aead v)" "length nonce = nonce_size" "EncryptCredential v (Some nonce) purpose value = Ret c"
  shows "DecryptCredential v purpose c = Ret value \<and> (value \<noteq> [] \<longrightarrow> c \<noteq> [] \<and> HasPrefix c credentialCipherVersion)"
proof (cases "value = []")
  case True
  with assms(3) show ?thesis by (simp add: EncryptCredential_def DecryptCredential_def)
next
  case False
  then obtain key where key: "va_key v = Ret key"
    using assms(3) by (auto simp: EncryptCredential_def split: outcome.splits)
  define ct where "ct = Seal (va_aead v) key nonce (bytes_of value) (bytes_of purpose)"
  have c: "c = credentialCipherVersion @ b64_encode (nonce @ ct)"
    using assms(3) False key by (simp add: EncryptCredential_def ct_def)
  have "Open (va_aead v) key nonce ct (bytes_of purpose) = Some (bytes_of value)"
    using assms(1) by (simp add: aead_ok_def ct_def)
  then have "DecryptCredential v purpose c = Ret value"
    using key assms(2) by (simp add: DecryptCredential_def c b64_roundtrip credentialCipherVersion_def HasPrefix_def)
  moreover have "HasPrefix c credentialCipherVersion" "c \<noteq> []"
    unfolding c by (rule HasPrefix_append) (simp add: credentialCipherVersion_def)
  ultimately show ?thesis by simp
qed

text \<open>C23. A stored user password can be read back. With an authenticated cipher that opens what it
  sealed, setting a password and then reading it returns exactly the password, for every
  password, while the row keeps no plaintext and its hash is the one the proxy authenticates by.\<close>

theorem password_roundtrip:
  assumes "aead_ok (va_aead v)" "length nonce = nonce_size"
    "SetUserPassword v (Some nonce) dbErr password u = (Ret (), u')"
  shows "UserPassword v u' = Ret password \<and> uc_password u' = [] \<and> uc_hash u' = SHA224String password \<and>
    (password \<noteq> [] \<longrightarrow> HasPrefix (uc_ciphertext u') credentialCipherVersion)"
proof -
  obtain c where c: "EncryptCredential v (Some nonce) (userPasswordPurpose (uc_id u)) password = Ret c"
    and u': "u' = u\<lparr>uc_password := [], uc_ciphertext := c, uc_keyID := ''default'', uc_hash := sha224Password password\<rparr>"
    using assms(3) by (auto simp: SetUserPassword_def split: if_splits outcome.splits)
  have "c = []" if "password = []" using c that by (simp add: EncryptCredential_def)
  with encrypt_decrypt [OF assms(1,2) c] show ?thesis
    by (cases "password = []") (simp_all add: u' UserPassword_def sha224Password_def SHA224String_def)
qed

definition sample_vault :: vault where
  "sample_vault = \<lparr>va_aead = \<lparr>Seal = \<lambda>k n t a. a @ rev t, Open = \<lambda>k n c a. if take (length a) c = a then Some (rev (drop (length a) c)) else None\<rparr>,
     va_key = Ret (replicate 32 7)\<rparr>"

definition sample_cred :: user_cred where
  "sample_cred = \<lparr>uc_id = 3, uc_password = ''old'', uc_ciphertext = [], uc_keyID = [], uc_hash = []\<rparr>"

lemma sample_vault_ok: "aead_ok (va_aead sample_vault)"
  by (simp add: aead_ok_def sample_vault_def)

theorem password_roundtrip_witness:
  "\<exists>u'. SetUserPassword sample_vault (Some (replicate 12 1)) None ''secret'' sample_cred = (Ret (), u') \<and>
     UserPassword sample_vault u' = Ret ''secret''"
proof -
  obtain u' where u': "SetUserPassword sample_vault (Some (replicate 12 1)) None ''secret'' sample_cred = (Ret (), u')"
    by (simp add: SetUserPassword_def sample_cred_def EncryptCredential_def sample_vault_def)
  with password_roundtrip [OF sample_vault_ok _ u'] show ?thesis by (simp add: nonce_size_def)
qed

lemma length_sha256 [simp]: "length (sha256 m) = 32"
  using length_concat_const [of _ be32_bytes 4]
  by (simp add: sha256_def Let_def be32_bytes_def sha256_init_def)

lemma find_unique:
  assumes "distinct (map f xs)" "x \<in> set xs"
  shows "find (\<lambda>y. f y = f x) xs = Some x"
  using assms
proof (induction xs)
  case (Cons a xs)
  show ?case
  proof (cases "f a = f x")
    case True
    with Cons.prems have "a = x" by (metis distinct.simps(2) image_eqI list.set_map list.simps(9) set_ConsD)
    with True show ?thesis by simp
  next
    case False
    with Cons show ?thesis by auto
  qed
qed simp

text \<open>Rotating a node secret. After \<open>SetNodeSecret\<close> succeeds for a node of the table with a non-empty
  secret, this secret authenticates as that node, and nothing else does unless it has the same keyed
  fingerprint: neither an earlier secret nor the marker in the legacy plaintext column.\<close>

theorem node_secret_rotation:
  assumes "n \<in> set ns" "secret \<noteq> []" "SetNodeSecret v rnd now secret n ns = (Ret (), ns')"
  shows "(\<exists>n'. NodeBySecret v secret ns' = Ret n' \<and> nd_id n' = nd_id n) \<and>
    (\<forall>s m. NodeBySecret v s ns' = Ret m \<and> nd_id m = nd_id n \<longrightarrow>
       CredentialFingerprint v ''node-secret-lookup'' s = CredentialFingerprint v ''node-secret-lookup'' secret)"
proof -
  obtain c fp where c: "EncryptCredential v rnd (nodeSecretPurpose (nd_id n)) secret = Ret c"
    and fp: "CredentialFingerprint v ''node-secret-lookup'' secret = Ret fp"
    using assms(3) by (auto simp: SetNodeSecret_def split: if_splits outcome.splits)
  define n' where "n' = n\<lparr>nd_secret := ''retired:'' @ dec_string (int (nd_id n)), nd_ciphertext := c,
      nd_hash := fp, nd_rotatedAt := Some now\<rparr>"
  have ns': "ns' = update_node n' ns" "unique_secrets ns'"
    using assms(3) c fp by (auto simp: SetNodeSecret_def n'_def Let_def split: if_splits)
  have mem: "n' \<in> set ns'" using assms(1) by (auto simp: ns'(1) update_node_def n'_def)
  have only: "m = n'" if "m \<in> set ns'" "nd_id m = nd_id n" for m
    using that by (auto simp: ns'(1) update_node_def n'_def split: if_splits)
  have "c \<noteq> []" using c assms(2)
    by (auto simp: EncryptCredential_def credentialCipherVersion_def Let_def split: outcome.splits option.splits)
  have 1: "NodeBySecret v secret ns' = Ret n'"
    using find_unique [of nd_hash ns' n'] mem ns'(2) fp by (simp add: NodeBySecret_def unique_secrets_def n'_def)
  have 2: "CredentialFingerprint v ''node-secret-lookup'' s = Ret fp"
    if s: "NodeBySecret v s ns' = Ret m" "nd_id m = nd_id n" for s m
  proof -
    have "m \<in> set ns'" using s(1)
      by (auto simp: NodeBySecret_def find_Some_iff split: outcome.splits option.splits)
    then have "m = n'" using only s(2) by blast
    then have m: "nd_hash m = fp" "nd_ciphertext m \<noteq> []" using \<open>c \<noteq> []\<close> by (simp_all add: n'_def)
    obtain x where x: "CredentialFingerprint v ''node-secret-lookup'' s = Ret x"
      using s(1) by (auto simp: NodeBySecret_def split: outcome.splits)
    have "find (\<lambda>n. nd_hash n = x) ns' = Some m \<or> find (\<lambda>n. nd_secret n = s \<and> nd_ciphertext n = []) ns' = Some m"
      using s(1) x by (auto simp: NodeBySecret_def split: option.splits)
    then have "nd_hash m = x" using m(2) by (auto simp: find_Some_iff)
    then show ?thesis using m(1) x by simp
  qed
  show ?thesis using 1 2 fp by (auto simp: n'_def)
qed

definition sample_node :: "nat \<Rightarrow> string \<Rightarrow> node_row" where
  "sample_node i h = \<lparr>nd_id = i, nd_secret = ''plain'' @ h, nd_ciphertext = [], nd_hash = h, nd_rotatedAt = None,
     nd_status = 0, nd_lastHeartbeat = None, nd_detectedIP = [], nd_rate = 1\<rparr>"

theorem node_secret_rotation_witness:
  "\<exists>ns' n'. SetNodeSecret sample_vault (Some (replicate 12 1)) 5 ''s3cret'' (sample_node 1 ''a'') [sample_node 1 ''a'', sample_node 2 ''b''] = (Ret (), ns') \<and>
     NodeBySecret sample_vault ''s3cret'' ns' = Ret n' \<and> nd_id n' = 1"
proof -
  let ?ns = "[sample_node 1 ''a'', sample_node 2 ''b'']"
  let ?r = "SetNodeSecret sample_vault (Some (replicate 12 1)) 5 ''s3cret'' (sample_node 1 ''a'') ?ns"
  obtain fp where fp: "CredentialFingerprint sample_vault ''node-secret-lookup'' ''s3cret'' = Ret fp" "length fp = 64"
    using length_concat_const [of _ hex_byte 2]
    by (simp add: CredentialFingerprint_def sample_vault_def hex_byte_def hmac_sha256_def Let_def)
  then have "fp \<noteq> ''b''" by auto
  then obtain ns' where r: "?r = (Ret (), ns')"
    using fp by (simp add: SetNodeSecret_def EncryptCredential_def sample_vault_def sample_node_def update_node_def
      unique_secrets_def Let_def)
  from node_secret_rotation [OF _ _ r] r show ?thesis by (auto simp: sample_node_def)
qed

text \<open>The JWT signing key is stable. Once a load has returned a key, generated, migrated from the
  legacy plaintext, or decrypted, every later load returns the same key and changes nothing, so
  tokens stay valid across restarts.\<close>

theorem jwt_secret_stable:
  assumes "aead_ok (va_aead v)" "length nonce = nonce_size" "length seed = 32"
    "LoadJWTSecret v (Some seed) (Some nonce) dbOk db = (Ret secret, db')"
  shows "LoadJWTSecret v fresh rnd ok db' = (Ret secret, db')"
proof -
  have stored: "LoadJWTSecret v fresh rnd ok (AList.update ''jwt_secret'' c db) = (Ret k, AList.update ''jwt_secret'' c db)"
    if "EncryptCredential v (Some nonce) jwt_purpose (b64_encode k) = Ret c" "length k = 32" for k c
  proof -
    have "b64_encode k \<noteq> []" using that(2) by auto
    with encrypt_decrypt [OF assms(1,2) that(1)] that(2) show ?thesis
      by (auto simp: LoadJWTSecret_def update_conv' b64_roundtrip)
  qed
  show ?thesis
  proof (cases "\<exists>value. map_of db ''jwt_secret'' = Some value \<and> value \<noteq> [] \<and> HasPrefix value credentialCipherVersion")
    case True
    with assms(4) show ?thesis by (auto simp: LoadJWTSecret_def split: outcome.splits option.splits if_splits)
  next
    case False
    then obtain c where "EncryptCredential v (Some nonce) jwt_purpose (b64_encode secret) = Ret c" "length secret = 32"
        "db' = AList.update ''jwt_secret'' c db"
      using assms(3,4) by (auto simp: LoadJWTSecret_def RotateJWTSecret_def split: outcome.splits option.splits if_splits)
    with stored show ?thesis by simp
  qed
qed

theorem jwt_secret_stable_witness:
  "\<exists>db'. LoadJWTSecret sample_vault (Some (replicate 32 9)) (Some (replicate 12 1)) True [] = (Ret (replicate 32 9), db') \<and>
     LoadJWTSecret sample_vault None None False db' = (Ret (replicate 32 9), db')"
proof -
  have "b64_encode (replicate 32 9) \<noteq> []" by simp
  then obtain db' where "LoadJWTSecret sample_vault (Some (replicate 32 9)) (Some (replicate 12 1)) True [] = (Ret (replicate 32 9), db')"
    by (auto simp del: b64_encode_Nil_iff simp: LoadJWTSecret_def RotateJWTSecret_def EncryptCredential_def sample_vault_def)
  with jwt_secret_stable [OF sample_vault_ok _ _ this] show ?thesis by (auto simp: nonce_size_def)
qed

end
