(* ===== verification/Node_Master.thy ===== *)
theory Node_Master
  imports Node_Sync Credentials
begin

text \<open>
  The control plane's side of the multi-node protocol: \<open>handleNodeSync\<close> and
  \<open>handleNodeHeartbeat\<close> of \<open>internal/webserver/nodes.go\<close> behind the body limit of
  \<open>internal/webserver/middleware.go\<close>, the receipts of worker batches, and the heartbeat address a
  worker derives from its synchronisation address.
\<close>

section \<open>Requests\<close>

text \<open>The JSON a worker sends. Hashes are hexadecimal, so nothing in them is escaped.\<close>

definition entry_json :: "string \<times> traffic \<Rightarrow> string" where
  "entry_json e =
     (case e of (h, t) \<Rightarrow>
      [CHR 0x22] @ h @ [CHR 0x22] @ '':{'' @ [CHR 0x22] @ ''up'' @ [CHR 0x22] @ '':'' @ dec_string (uint (Up t)) @
      '','' @ [CHR 0x22] @ ''down'' @ [CHR 0x22] @ '':'' @ dec_string (uint (Down t)) @ ''}'')"

fun entries_json :: "traffic_map \<Rightarrow> string" where
  "entries_json [] = []"
| "entries_json [e] = entry_json e"
| "entries_json (e # es) = entry_json e @ '','' @ entries_json es"

definition traffic_json :: "traffic_map \<Rightarrow> string" where
  "traffic_json m = ''{'' @ [CHR 0x22] @ ''traffic'' @ [CHR 0x22] @ '':{'' @ entries_json m @ ''}}''"

definition maxAdminRequestBody :: nat where
  "maxAdminRequestBody = 1048576"

text \<open>What \<open>ShouldBindJSON\<close> finds behind \<open>limitRequestBody\<close>: an error when the body is longer than the
  limit.\<close>

definition limitRequestBody :: "traffic_map \<Rightarrow> traffic_map option" where
  "limitRequestBody m = (if length (traffic_json m) > maxAdminRequestBody then None else Some m)"

section \<open>Tables\<close>

record node_db =
  nb_nodes :: "node_row list"
  nb_users :: "db_user list"
  nb_receipts :: "((nat \<times> string) \<times> int) list"

text \<open>The counters of the user table, keyed by the unique hash, and their write-back.\<close>

definition rows_of :: "db_user list \<Rightarrow> (string \<times> user_row) list" where
  "rows_of us = map (\<lambda>u. (du_hash u, \<lparr>row_upload = du_upload u, row_download = du_download u, row_used = du_used u\<rparr>)) us"

definition write_rows :: "(string \<times> user_row) list \<Rightarrow> db_user list \<Rightarrow> db_user list" where
  "write_rows rs us =
     map (\<lambda>u. case map_of rs (du_hash u) of
        None \<Rightarrow> u
      | Some r \<Rightarrow> u\<lparr>du_upload := row_upload r, du_download := row_download r, du_used := row_used r\<rparr>) us"

fun node_increments :: "rat \<Rightarrow> traffic_map \<Rightarrow> store_error + (string \<times> traffic_increment) list" where
  "node_increments rate [] = Inr []"
| "node_increments rate ((h, t) # rest) =
     (case newTrafficIncrement (Up t) (Down t) rate of
        Inl e \<Rightarrow> Inl e
      | Inr i \<Rightarrow> (case node_increments rate rest of Inl e \<Rightarrow> Inl e | Inr js \<Rightarrow> Inr ((h, i) # js)))"

definition node_transaction ::
  "bool \<Rightarrow> int \<Rightarrow> node_row \<Rightarrow> string \<Rightarrow> traffic_map \<Rightarrow> node_db \<Rightarrow> store_error + node_db" where
  "node_transaction down now n syncID batch db =
     (if down then Inl (DbError ''database'')
      else if map_of (nb_receipts db) (nd_id n, syncID) \<noteq> None then Inr db
      else case node_increments (nd_rate n) batch of
        Inl e \<Rightarrow> Inl e
      | Inr js \<Rightarrow>
          (case persist_all js \<lparr>rows = rows_of (nb_users db), receipts = []\<rparr> of
             Inl e \<Rightarrow> Inl e
           | Inr t \<Rightarrow> Inr (db\<lparr>nb_receipts := nb_receipts db @ [((nd_id n, syncID), now)],
                            nb_users := write_rows (rows t) (nb_users db)\<rparr>)))"

section \<open>Handlers\<close>

text \<open>Which statement of a request fails in the database.\<close>

record db_faults =
  fl_save :: bool
  fl_tx :: bool
  fl_list :: bool

definition is_local_ip :: "string \<Rightarrow> bool" where
  "is_local_ip ip \<longleftrightarrow> ip = [] \<or> ip = ''::1'' \<or> ip = ''127.0.0.1''"

definition heartbeat :: "int \<Rightarrow> string \<Rightarrow> node_row \<Rightarrow> node_row" where
  "heartbeat now ip n =
     (let n1 = n\<lparr>nd_lastHeartbeat := Some now, nd_status := 1\<rparr>
      in if is_local_ip ip then n1 else n1\<lparr>nd_detectedIP := ip\<rparr>)"

definition handleNodeSync ::
  "vault \<Rightarrow> db_faults \<Rightarrow> int \<Rightarrow> string \<Rightarrow> string \<Rightarrow> string \<Rightarrow> traffic_map option \<Rightarrow> node_db \<Rightarrow> (int \<times> string list) \<times> node_db" where
  "handleNodeSync v fl now secret ip syncID body db =
     (if secret = [] then ((401, []), db)
      else case NodeBySecret v secret (nb_nodes db) of
        Ret n0 \<Rightarrow>
          if fl_save fl then ((500, []), db)
          else
            let n = heartbeat now ip n0;
                db1 = db\<lparr>nb_nodes := update_node n (nb_nodes db)\<rparr>;
                batch = (case body of None \<Rightarrow> [] | Some m \<Rightarrow> m);
                list_users = (\<lambda>d. if fl_list fl then ((500, []), d) else ((200, node_valid_hashes now (nb_users d)), d))
            in if length batch > 0 then
                 (if syncID = [] then ((400, []), db1)
                  else if length syncID > 64 then ((400, []), db1)
                  else case node_transaction (fl_tx fl) now n syncID batch db1 of
                    Inl e \<Rightarrow> ((if isTrafficValueError e then 400 else 500, []), db1)
                  | Inr db2 \<Rightarrow> list_users db2)
               else list_users db1
      | _ \<Rightarrow> ((401, []), db))"

definition handleNodeHeartbeat ::
  "vault \<Rightarrow> bool \<Rightarrow> int \<Rightarrow> string \<Rightarrow> string \<Rightarrow> node_db \<Rightarrow> int \<times> node_db" where
  "handleNodeHeartbeat v saveFails now secret ip db =
     (if secret = [] then (401, db)
      else case NodeBySecret v secret (nb_nodes db) of
        Ret n0 \<Rightarrow> if saveFails then (500, db)
                 else (200, db\<lparr>nb_nodes := update_node (heartbeat now ip n0) (nb_nodes db)\<rparr>)
      | _ \<Rightarrow> (401, db))"

definition CleanupExpiredNodeSyncReceipts :: "int \<Rightarrow> node_db \<Rightarrow> int \<times> node_db" where
  "CleanupExpiredNodeSyncReceipts now db =
     (let keep = filter (\<lambda>(_, t). \<not> t < now - receipt_retention) (nb_receipts db)
      in (int (length (nb_receipts db)) - int (length keep), db\<lparr>nb_receipts := keep\<rparr>))"

text \<open>The worker's address for heartbeats. \<open>parsed\<close> is what \<open>url.Parse\<close> returns: scheme, host and path.\<close>

definition syncEndpointPath :: string where
  "syncEndpointPath = ''/control/v1/nodes/sync''"

definition legacySyncEndpointPath :: string where
  "legacySyncEndpointPath = ''/admin/api/node/sync''"

definition heartbeatURL :: "(string \<times> string \<times> string) option \<Rightarrow> (string \<times> string \<times> string) outcome" where
  "heartbeatURL parsed =
     (case parsed of
        None \<Rightarrow> Raise (Opaque ''invalid master sync URL'')
      | Some (scheme, host, path) \<Rightarrow>
          if scheme = [] \<or> host = [] then Raise (Opaque ''invalid master sync URL'')
          else if HasSuffix path syncEndpointPath then
            Ret (scheme, host, take (length path - length syncEndpointPath) path @ ''/control/v1/nodes/heartbeat'')
          else if HasSuffix path legacySyncEndpointPath then
            Ret (scheme, host, take (length path - length legacySyncEndpointPath) path @ ''/admin/api/node/heartbeat'')
          else Raise (Opaque ''master sync URL path must end with the sync endpoint''))"

text \<open>The control plane as a worker with this secret and address sees it.\<close>

definition control_plane :: "vault \<Rightarrow> db_faults \<Rightarrow> int \<Rightarrow> string \<Rightarrow> string \<Rightarrow> node_db master" where
  "control_plane v fl now secret ip syncID batch db =
     (case handleNodeSync v fl now secret ip syncID (limitRequestBody batch) db of
        ((status, us), db') \<Rightarrow> (if status = 200 then Users us else BadStatus status, db'))"

section \<open>The ledger of worker reports\<close>

lemma map_of_write_rows:
  "map_of (rows_of (write_rows rs us)) h =
     (case map_of (rows_of us) h of None \<Rightarrow> None | Some r \<Rightarrow> (case map_of rs h of None \<Rightarrow> Some r | Some r' \<Rightarrow> Some r'))"
  by (induction us) (auto simp: rows_of_def write_rows_def split: option.splits)

lemma node_increments_effect:
  assumes "node_increments rate m = Inr js"
  shows "map fst js = map fst m"
    "case map_of m h of None \<Rightarrow> map_of js h = None
      | Some t \<Rightarrow> \<exists>i. map_of js h = Some i \<and> newTrafficIncrement (Up t) (Down t) rate = Inr i"
  using assms by (induction rate m arbitrary: js rule: node_increments.induct) (auto split: sum.splits option.splits)

lemma persist_all_effect':
  assumes "persist_all js db = Inr db'" "distinct (map fst js)" "h \<noteq> []"
  shows "map_of (rows db') h = (case map_of js h of None \<Rightarrow> map_of (rows db) h
      | Some i \<Rightarrow> map_option (row_add i) (map_of (rows db) h))"
  using assms
proof (induction js arbitrary: db)
  case (Cons x xs)
  obtain k i where x: "x = (k, i)" by fastforce
  obtain db1 where 1: "persistTrafficIncrement k i db = Inr db1" "persist_all xs db1 = Inr db'"
    using Cons.prems(1) x by (auto split: sum.splits)
  have "h = k \<Longrightarrow> map_of xs h = None" using Cons.prems(2) x by (auto simp: map_of_eq_None_iff)
  with Cons.IH [OF 1(2)] Cons.prems(2,3) persist_effect [OF 1(1), of h] x show ?case
    by (cases "h = k") (simp_all split: option.splits)
qed simp

definition used_by :: "string \<Rightarrow> node_db \<Rightarrow> int option" where
  "used_by h db = map_option row_used (map_of (rows_of (nb_users db)) h)"

text \<open>What one accepted batch costs a user at the rate of its node.\<close>

definition batch_cost :: "string \<Rightarrow> rat \<times> traffic_map \<Rightarrow> int" where
  "batch_cost h b =
     (case map_of (snd b) h of
        None \<Rightarrow> 0
      | Some t \<Rightarrow> (case newTrafficIncrement (Up t) (Down t) (fst b) of Inl _ \<Rightarrow> 0 | Inr i \<Rightarrow> UsedInc i))"

lemma node_transaction_effect:
  assumes "node_transaction down now n syncID m db = Inr db'" "distinct (map fst m)"
  shows "map_of (nb_receipts db) (nd_id n, syncID) \<noteq> None \<and> db' = db \<or>
    map_of (nb_receipts db) (nd_id n, syncID) = None \<and>
    nb_receipts db' = nb_receipts db @ [((nd_id n, syncID), now)] \<and> nb_nodes db' = nb_nodes db \<and>
    (\<forall>h. h \<noteq> [] \<longrightarrow> used_by h db' = map_option (\<lambda>x. x + batch_cost h (nd_rate n, m)) (used_by h db))"
proof (cases "map_of (nb_receipts db) (nd_id n, syncID) = None")
  case False
  with assms(1) show ?thesis by (auto simp: node_transaction_def split: if_splits)
next
  case True
  obtain js t where js: "node_increments (nd_rate n) m = Inr js"
      "persist_all js \<lparr>rows = rows_of (nb_users db), receipts = []\<rparr> = Inr t"
      "db' = db\<lparr>nb_receipts := nb_receipts db @ [((nd_id n, syncID), now)], nb_users := write_rows (rows t) (nb_users db)\<rparr>"
    using assms(1) True by (auto simp: node_transaction_def split: if_splits sum.splits)
  have d: "distinct (map fst js)" using node_increments_effect(1) [OF js(1)] assms(2) by simp
  have "used_by h db' = map_option (\<lambda>x. x + batch_cost h (nd_rate n, m)) (used_by h db)" if "h \<noteq> []" for h
    using persist_all_effect' [OF js(2) d that] node_increments_effect(2) [OF js(1), of h]
    by (auto simp: used_by_def js(3) map_of_write_rows batch_cost_def row_add_def split: option.splits)
  with True js(3) show ?thesis by simp
qed

text \<open>A request as it arrives, and a run of requests with the entries the ledger gains.\<close>

record node_request =
  rq_faults :: db_faults
  rq_now :: int
  rq_secret :: string
  rq_ip :: string
  rq_syncID :: string
  rq_body :: "traffic_map option"

definition answer :: "vault \<Rightarrow> node_request \<Rightarrow> node_db \<Rightarrow> (int \<times> string list) \<times> node_db" where
  "answer v q db = handleNodeSync v (rq_faults q) (rq_now q) (rq_secret q) (rq_ip q) (rq_syncID q) (rq_body q) db"

definition batch_of :: "node_request \<Rightarrow> traffic_map" where
  "batch_of q = (case rq_body q of None \<Rightarrow> [] | Some m \<Rightarrow> m)"

definition node_of :: "vault \<Rightarrow> node_request \<Rightarrow> node_db \<Rightarrow> node_row option" where
  "node_of v q db = (case NodeBySecret v (rq_secret q) (nb_nodes db) of Ret n \<Rightarrow> Some n | _ \<Rightarrow> None)"

type_synonym ledger = "((nat \<times> string) \<times> rat \<times> traffic_map) list"

definition new_entries :: "vault \<Rightarrow> node_request \<Rightarrow> node_db \<Rightarrow> ledger" where
  "new_entries v q db =
     (case node_of v q db of
        None \<Rightarrow> []
      | Some n \<Rightarrow>
          if nb_receipts (snd (answer v q db)) = nb_receipts db then []
          else [((nd_id n, rq_syncID q), nd_rate n, batch_of q)])"

fun serve :: "vault \<Rightarrow> node_request list \<Rightarrow> node_db \<Rightarrow> node_db \<times> ledger" where
  "serve v [] db = (db, [])"
| "serve v (q # qs) db =
     (case serve v qs (snd (answer v q db)) of (db', led) \<Rightarrow> (db', new_entries v q db @ led))"

lemma heartbeat_keeps [simp]: "nd_id (heartbeat now ip n) = nd_id n" "nd_rate (heartbeat now ip n) = nd_rate n"
  by (simp_all add: heartbeat_def Let_def)

lemma answer_effect:
  assumes "distinct (map fst (batch_of q))"
  shows "(new_entries v q db = [] \<and> nb_receipts (snd (answer v q db)) = nb_receipts db \<and>
      nb_users (snd (answer v q db)) = nb_users db) \<or>
    (\<exists>k b t. new_entries v q db = [(k, b)] \<and> map_of (nb_receipts db) k = None \<and>
      nb_receipts (snd (answer v q db)) = nb_receipts db @ [(k, t)] \<and>
      (\<forall>h. h \<noteq> [] \<longrightarrow> used_by h (snd (answer v q db)) = map_option (\<lambda>x. x + batch_cost h b) (used_by h db)))"
    (is "?A \<or> ?B")
proof (cases "nb_receipts (snd (answer v q db)) = nb_receipts db \<and> nb_users (snd (answer v q db)) = nb_users db")
  case True
  then show ?thesis by (simp add: new_entries_def split: option.splits)
next
  case False
  then obtain n0 where n0: "NodeBySecret v (rq_secret q) (nb_nodes db) = Ret n0" and nofault: "\<not> fl_save (rq_faults q)"
    by (auto simp: answer_def handleNodeSync_def split: if_splits outcome.splits)
  define n where "n = heartbeat (rq_now q) (rq_ip q) n0"
  define db1 where "db1 = db\<lparr>nb_nodes := update_node n (nb_nodes db)\<rparr>"
  have tx: "\<exists>db2. node_transaction (fl_tx (rq_faults q)) (rq_now q) n (rq_syncID q) (batch_of q) db1 = Inr db2 \<and>
      snd (answer v q db) = db2"
    using False n0 nofault
    by (auto simp: answer_def handleNodeSync_def Let_def batch_of_def n_def db1_def
        split: if_splits sum.splits option.splits)
  then obtain db2 where db2: "node_transaction (fl_tx (rq_faults q)) (rq_now q) n (rq_syncID q) (batch_of q) db1 = Inr db2"
      "snd (answer v q db) = db2" by blast
  have same: "nb_receipts db1 = nb_receipts db" "used_by h db1 = used_by h db" "nb_users db1 = nb_users db" for h
    by (simp_all add: db1_def used_by_def)
  from node_transaction_effect [OF db2(1) assms] have ?B
  proof
    assume "map_of (nb_receipts db1) (nd_id n, rq_syncID q) \<noteq> None \<and> db2 = db1"
    with False db2(2) same show ?B by simp
  next
    assume new: "map_of (nb_receipts db1) (nd_id n, rq_syncID q) = None \<and>
      nb_receipts db2 = nb_receipts db1 @ [((nd_id n, rq_syncID q), rq_now q)] \<and> nb_nodes db2 = nb_nodes db1 \<and>
      (\<forall>h. h \<noteq> [] \<longrightarrow> used_by h db2 = map_option (\<lambda>x. x + batch_cost h (nd_rate n, batch_of q)) (used_by h db1))"
    then have "new_entries v q db = [((nd_id n, rq_syncID q), nd_rate n, batch_of q)]"
      using n0 db2(2) same by (simp add: new_entries_def node_of_def n_def)
    with new db2(2) same show ?B by auto
  qed
  then show ?thesis ..
qed

lemma map_of_append_None: "map_of (xs @ [(k, t)]) j = None \<longleftrightarrow> map_of xs j = None \<and> j \<noteq> k"
  by (auto simp: map_add_def split: option.splits)

text \<open>C6. The ledger of worker reports is exact. For every run of requests from any number of nodes, with
  retries, failures and reordering: each pair of node and batch id enters the ledger at most once
  and never again once it has a receipt, and the usage of every known user grows by exactly
  the sum of the ledger's entries, each computed at the rate of its node. A retry of an accepted
  batch is therefore free, whatever else happens in between.\<close>

theorem node_ledger_exact:
  assumes "\<forall>q \<in> set qs. distinct (map fst (batch_of q))" "serve v qs db = (db', led)"
  shows "distinct (map fst led) \<and> (\<forall>k \<in> fst ` set led. map_of (nb_receipts db) k = None) \<and>
    (\<forall>h. h \<noteq> [] \<longrightarrow>
       used_by h db' = map_option (\<lambda>x. x + (\<Sum>e\<leftarrow>led. batch_cost h (snd e))) (used_by h db))"
  using assms
proof (induction qs arbitrary: db led)
  case Nil
  then show ?case by (simp add: option.map_ident)
next
  case (Cons q qs)
  define db1 where "db1 = snd (answer v q db)"
  obtain led1 where s: "serve v qs db1 = (db', led1)" and led: "led = new_entries v q db @ led1"
    using Cons.prems(2) by (auto simp: db1_def split: prod.splits)
  have IH: "distinct (map fst led1) \<and> (\<forall>k \<in> fst ` set led1. map_of (nb_receipts db1) k = None) \<and>
      (\<forall>h. h \<noteq> [] \<longrightarrow> used_by h db' = map_option (\<lambda>x. x + (\<Sum>e\<leftarrow>led1. batch_cost h (snd e))) (used_by h db1))"
    using Cons.IH [OF _ s] Cons.prems(1) by simp
  have "distinct (map fst (batch_of q))" using Cons.prems(1) by simp
  from answer_effect [OF this, of v db] show ?case
  proof
    assume "new_entries v q db = [] \<and> nb_receipts (snd (answer v q db)) = nb_receipts db \<and>
      nb_users (snd (answer v q db)) = nb_users db"
    with IH led show ?thesis unfolding db1_def used_by_def by simp
  next
    assume "\<exists>k b t. new_entries v q db = [(k, b)] \<and> map_of (nb_receipts db) k = None \<and>
      nb_receipts (snd (answer v q db)) = nb_receipts db @ [(k, t)] \<and>
      (\<forall>h. h \<noteq> [] \<longrightarrow> used_by h (snd (answer v q db)) = map_option (\<lambda>x. x + batch_cost h b) (used_by h db))"
    then obtain k b t where k: "new_entries v q db = [(k, b)]" "map_of (nb_receipts db) k = None"
        "nb_receipts db1 = nb_receipts db @ [(k, t)]"
        "\<And>h. h \<noteq> [] \<Longrightarrow> used_by h db1 = map_option (\<lambda>x. x + batch_cost h b) (used_by h db)"
      by (auto simp: db1_def)
    have R: "\<forall>j \<in> fst ` set led1. map_of (nb_receipts db) j = None \<and> j \<noteq> k"
      using IH [THEN conjunct2, THEN conjunct1] unfolding k(3) map_of_append_None .
    have "used_by h db' = map_option (\<lambda>x. x + (\<Sum>e\<leftarrow>led. batch_cost h (snd e))) (used_by h db)" if "h \<noteq> []" for h
    proof -
      have "used_by h db' = map_option (\<lambda>x. x + (\<Sum>e\<leftarrow>led1. batch_cost h (snd e))) (used_by h db1)"
        using IH that by blast
      then show ?thesis by (simp add: k(4) [OF that] led k(1) option.map_comp comp_def add.assoc)
    qed
    moreover have "distinct (map fst led)" "\<forall>j \<in> fst ` set led. map_of (nb_receipts db) j = None"
      using R IH k(2) unfolding led k(1) by auto
    ultimately show ?thesis by blast
  qed
qed

definition no_faults :: db_faults where
  "no_faults = \<lparr>fl_save = False, fl_tx = False, fl_list = False\<rparr>"

definition legacy_node :: node_row where
  "legacy_node = \<lparr>nd_id = 1, nd_secret = ''s'', nd_ciphertext = [], nd_hash = [], nd_rotatedAt = None,
     nd_status = 0, nd_lastHeartbeat = None, nd_detectedIP = [], nd_rate = 1\<rparr>"

definition sample_user :: "string \<Rightarrow> db_user" where
  "sample_user h = \<lparr>du_hash = h, du_quota = - 1, du_used = 0, du_upload = 0, du_download = 0, du_expiry = None,
     du_ip_limit = 0, du_status = 0\<rparr>"

definition sample_ndb :: node_db where
  "sample_ndb = \<lparr>nb_nodes = [legacy_node], nb_users = [sample_user ''u''], nb_receipts = []\<rparr>"

definition sample_request :: node_request where
  "sample_request = \<lparr>rq_faults = no_faults, rq_now = 9, rq_secret = ''s'', rq_ip = [], rq_syncID = ''b1'',
     rq_body = Some [(''u'', \<lparr>Up = 3, Down = 4\<rparr>)]\<rparr>"

text \<open>A request sent twice is charged once.\<close>

theorem node_ledger_exact_witness:
  "\<exists>db' led. serve sample_vault [sample_request, sample_request] sample_ndb = (db', led) \<and> distinct (map fst led) \<and>
     used_by ''u'' db' = Some (\<Sum>e\<leftarrow>led. batch_cost ''u'' (snd e))"
proof -
  obtain db' led where s: "serve sample_vault [sample_request, sample_request] sample_ndb = (db', led)"
    by (metis prod.exhaust)
  have "\<forall>q \<in> set [sample_request, sample_request]. distinct (map fst (batch_of q))"
    by (simp add: sample_request_def batch_of_def)
  note L = node_ledger_exact [OF this s]
  have "used_by ''u'' sample_ndb = Some 0"
    by (simp add: used_by_def sample_ndb_def sample_user_def rows_of_def)
  moreover have "used_by ''u'' db' = map_option (\<lambda>x. x + (\<Sum>e\<leftarrow>led. batch_cost ''u'' (snd e))) (used_by ''u'' sample_ndb)"
    using L [THEN conjunct2, THEN conjunct2, THEN spec, of "''u''"] by simp
  ultimately show ?thesis using s L [THEN conjunct1] by auto
qed

section \<open>Reports above the body limit\<close>

lemma dec_string_nonempty: "1 \<le> length (dec_string i)"
proof -
  have "dec_digits n \<noteq> []" for n by (subst dec_digits.simps) simp
  then show ?thesis by (auto simp: dec_string_def Suc_le_eq)
qed

lemma length_entry_json: "length h + 20 \<le> length (entry_json (h, t))"
  using dec_string_nonempty [of "uint (Up t)"] dec_string_nonempty [of "uint (Down t)"]
  by (simp add: entry_json_def)

lemma length_entries_json:
  "\<forall>e \<in> set m. length (fst e) = 56 \<Longrightarrow> 76 * length m \<le> length (entries_json m)"
proof (induction m rule: entries_json.induct)
  case (2 e)
  then show ?case using length_entry_json [of "fst e" "snd e"] by simp
next
  case (3 e f es)
  then show ?case using length_entry_json [of "fst e" "snd e"] by simp
qed simp

lemma oversized_body:
  assumes "\<forall>e \<in> set m. length (fst e) = 56" "13798 \<le> length m"
  shows "limitRequestBody m = None"
  using length_entries_json [OF assms(1)] assms(2)
  by (simp add: limitRequestBody_def traffic_json_def maxAdminRequestBody_def)

lemma undecodable_free:
  "handleNodeSync v fl now secret ip syncID None db = (r, db') \<Longrightarrow>
     nb_users db' = nb_users db \<and> nb_receipts db' = nb_receipts db"
  by (auto simp: handleNodeSync_def Let_def split: if_splits outcome.splits)


definition hash56 :: "nat \<Rightarrow> string" where
  "hash56 i = map (\<lambda>k. if bit i k then CHR ''1'' else CHR ''0'') [0..<56]"

definition huge_batch :: traffic_map where
  "huge_batch = map (\<lambda>i. (hash56 i, \<lparr>Up = 1, Down = 1\<rparr>)) [0..<14000]"

definition huge_manager :: node_manager where
  "huge_manager = AddAuthenticator empty_auth (NewManager 60 None)\<lparr>nm_out :=
     \<lparr>no_pendingSyncID = ''b1'', no_pending = huge_batch, no_queued = [], no_file = None\<rparr>\<rparr>"

lemma huge_batch_facts: "\<forall>e \<in> set huge_batch. length (fst e) = 56" "length huge_batch = 14000" "huge_batch \<noteq> []"
  by (auto simp: huge_batch_def hash56_def)

definition huge_ndb :: node_db where
  "huge_ndb = \<lparr>nb_nodes = [legacy_node], nb_users = [sample_user sample_hash], nb_receipts = []\<rparr>"

lemma huge_answer:
  "\<exists>db'. control_plane sample_vault no_faults 9 ''s'' [] ''b1'' huge_batch huge_ndb = (Users [sample_hash], db')"
proof -
  have none: "limitRequestBody huge_batch = None" using oversized_body huge_batch_facts by simp
  obtain fp where fp: "CredentialFingerprint sample_vault ''node-secret-lookup'' ''s'' = Ret fp" "length fp = 64"
    using length_concat_const [of _ hex_byte 2]
    by (simp add: CredentialFingerprint_def sample_vault_def hex_byte_def hmac_sha256_def Let_def)
  then have "fp \<noteq> []" by auto
  with fp(1) have "NodeBySecret sample_vault ''s'' [legacy_node] = Ret legacy_node"
    by (simp add: NodeBySecret_def legacy_node_def)
  moreover have "sample_hash \<noteq> []" by (simp add: sample_hash_def)
  ultimately show ?thesis
    by (simp add: control_plane_def none handleNodeSync_def huge_ndb_def no_faults_def Let_def node_valid_hashes_def
        sample_user_def expired_def over_quota_def)
qed


end
