(* ===== verification/Migrations.thy ===== *)
theory Migrations
  imports Credentials
begin

text \<open>
  The migration engine of \<open>internal/database/migrations.go\<close>: the lease in the table
  \<open>migration_locks\<close>, the run of one migration in a transaction, and the loop over the registered
  migrations. A process is its place in \<open>runMigrations\<close>; processes that share a database are
  interleaved at its statements. A transaction is one atomic step, and \<open>'d\<close> is the data
  the migrations change.
\<close>

section \<open>Tables\<close>

datatype audit_status = AuditStarted | AuditApplied | AuditFailed

record schema_migration =
  sm_version :: u64
  sm_name :: string
  sm_checksum :: string

record 'd mig_db =
  mg_lock :: "(string \<times> int) option"
  mg_applied :: "schema_migration list"
  mg_audits :: "(u64 \<times> audit_status) list"
  mg_data :: 'd

record 'd migration =
  mi_version :: u64
  mi_name :: string
  mi_revision :: string
  mi_up :: "'d \<Rightarrow> 'd outcome"

definition checksum :: "'d migration \<Rightarrow> string" where
  "checksum m =
     concat (map hex_byte (sha256 (bytes_of (dec_string (uint (mi_version m)) @ '':'' @ mi_name m @ '':'' @ mi_revision m))))"

section \<open>The lease\<close>

definition migrationLockTTL :: int where
  "migrationLockTTL = 300"

text \<open>The UPDATE of an expired row, then the INSERT, which fails when the row exists. The token is random.\<close>

definition acquireMigrationLock :: "string option \<Rightarrow> int \<Rightarrow> 'd mig_db \<Rightarrow> string outcome \<times> 'd mig_db" where
  "acquireMigrationLock rnd now db =
     (case rnd of
        None \<Rightarrow> (Raise (Opaque ''generate migration lock token''), db)
      | Some token \<Rightarrow>
          (case mg_lock db of
             Some (_, expires) \<Rightarrow>
               if expires < now then (Ret token, db\<lparr>mg_lock := Some (token, now + migrationLockTTL)\<rparr>)
               else (Raise (Opaque ''acquire migration lock: another process may be migrating''), db)
           | None \<Rightarrow> (Ret token, db\<lparr>mg_lock := Some (token, now + migrationLockTTL)\<rparr>)))"

definition renewMigrationLock :: "string \<Rightarrow> int \<Rightarrow> int \<Rightarrow> 'd mig_db \<Rightarrow> unit outcome \<times> 'd mig_db" where
  "renewMigrationLock token now extension db =
     (case mg_lock db of
        Some (t, _) \<Rightarrow>
          if t = token then (Ret (), db\<lparr>mg_lock := Some (token, now + extension)\<rparr>)
          else (Raise (Opaque ''migration lock was lost''), db)
      | None \<Rightarrow> (Raise (Opaque ''migration lock was lost''), db))"

definition releaseMigrationLock :: "string \<Rightarrow> 'd mig_db \<Rightarrow> 'd mig_db" where
  "releaseMigrationLock token db =
     (case mg_lock db of
        Some (t, _) \<Rightarrow> if t = token then db\<lparr>mg_lock := None\<rparr> else db
      | None \<Rightarrow> db)"

definition verifyLockOwnership :: "string \<Rightarrow> int \<Rightarrow> 'd mig_db \<Rightarrow> go_error option" where
  "verifyLockOwnership token now db =
     (case mg_lock db of
        None \<Rightarrow> Some (Opaque ''migration lock was lost before commit: lease row missing'')
      | Some (t, expires) \<Rightarrow>
          if t \<noteq> token then Some (Opaque ''migration lock was taken over before commit: token mismatch'')
          else if \<not> expires > now then Some (Opaque ''migration lock expired before commit'')
          else None)"

section \<open>One migration\<close>

text \<open>What the environment does to one run: whether a statement fails, and the time of the final check.\<close>

record run_env =
  re_auditFails :: bool
  re_beginFails :: bool
  re_insertFails :: bool
  re_commitFails :: bool
  re_auditUpdateFails :: bool
  re_checkTime :: int

definition set_audit :: "u64 \<Rightarrow> audit_status \<Rightarrow> 'd mig_db \<Rightarrow> 'd mig_db" where
  "set_audit v st db = db\<lparr>mg_audits := butlast (mg_audits db) @ [(v, st)]\<rparr>"

definition finishMigrationFailure :: "run_env \<Rightarrow> u64 \<Rightarrow> go_error \<Rightarrow> 'd mig_db \<Rightarrow> unit outcome \<times> 'd mig_db" where
  "finishMigrationFailure env v e db =
     (if re_auditUpdateFails env then (Raise (Err ''migration failed; record failure audit'' (Some e)), db)
      else (Raise (Err ''migration failed'' (Some e)), set_audit v AuditFailed db))"

definition runMigration ::
  "run_env \<Rightarrow> bool \<Rightarrow> string \<Rightarrow> 'd migration \<Rightarrow> 'd mig_db \<Rightarrow> unit outcome \<times> 'd mig_db" where
  "runMigration env cancelled token m db =
     (if re_auditFails env then (Raise (Opaque ''create audit for migration''), db)
      else
        let v = mi_version m; db0 = db\<lparr>mg_audits := mg_audits db @ [(v, AuditStarted)]\<rparr> in
        if cancelled \<or> re_beginFails env then finishMigrationFailure env v (Opaque ''begin transaction'') db0
        else case mi_up m (mg_data db0) of
          Ret d \<Rightarrow>
            (let row = \<lparr>sm_version = v, sm_name = mi_name m, sm_checksum = checksum m\<rparr>;
                 tx = db0\<lparr>mg_data := d, mg_applied := mg_applied db0 @ [row]\<rparr>
             in if re_insertFails env \<or> v \<in> sm_version ` set (mg_applied db0) then
                  finishMigrationFailure env v (Opaque ''record applied migration'') db0
                else case verifyLockOwnership token (re_checkTime env) tx of
                  Some e \<Rightarrow> finishMigrationFailure env v e db0
                | None \<Rightarrow>
                    if re_commitFails env then finishMigrationFailure env v (Opaque ''commit migration'') db0
                    else if re_auditUpdateFails env then (Raise (Opaque ''record successful migration audit''), tx)
                    else (Ret (), set_audit v AuditApplied tx))
        | Raise e \<Rightarrow> finishMigrationFailure env v e db0
        | Panic p \<Rightarrow> (Panic p, db0)
        | Hang \<Rightarrow> (Hang, db0))"

section \<open>The loop\<close>

text \<open>Where a process is in \<open>runMigrations\<close>: before the lock, at the head of the loop with the previous
  version and the migrations left, after the look-up of a migration that is not applied, or returned.
  \<open>pr_lost\<close> is set when the renewal loop has failed: the error is in its channel and the context of the
  migration is cancelled.\<close>

datatype 'd phase =
    Start
  | Loop u64 "'d migration list"
  | Ready "'d migration" "'d migration list"
  | Finished "unit outcome"

record 'd mig_proc =
  pr_phase :: "'d phase"
  pr_token :: string
  pr_lost :: bool

definition finish :: "unit outcome \<Rightarrow> 'd mig_proc \<Rightarrow> 'd mig_db \<Rightarrow> 'd mig_proc \<times> 'd mig_db" where
  "finish r p db = (p\<lparr>pr_phase := Finished r\<rparr>, releaseMigrationLock (pr_token p) db)"

definition valid_migration :: "'d migration \<Rightarrow> bool" where
  "valid_migration m \<longleftrightarrow> mi_version m \<noteq> 0 \<and> mi_name m \<noteq> [] \<and> mi_revision m \<noteq> []"

record step_env =
  se_token :: "string option"
  se_now :: int
  se_readFails :: bool
  se_run :: run_env

fun find_applied :: "u64 \<Rightarrow> schema_migration list \<Rightarrow> schema_migration option" where
  "find_applied v [] = None"
| "find_applied v (r # rs) = (if sm_version r = v then Some r else find_applied v rs)"

definition proc_step ::
  "'d migration list \<Rightarrow> step_env \<Rightarrow> 'd mig_proc \<Rightarrow> 'd mig_db \<Rightarrow> 'd mig_proc \<times> 'd mig_db" where
  "proc_step migs env p db =
     (case pr_phase p of
        Start \<Rightarrow>
          (case acquireMigrationLock (se_token env) (se_now env) db of
             (Ret token, db') \<Rightarrow> (p\<lparr>pr_token := token, pr_phase := Loop 0 migs\<rparr>, db')
           | (Raise e, db') \<Rightarrow> (p\<lparr>pr_phase := Finished (Raise e)\<rparr>, db')
           | (Panic x, db') \<Rightarrow> (p\<lparr>pr_phase := Finished (Panic x)\<rparr>, db')
           | (Hang, db') \<Rightarrow> (p\<lparr>pr_phase := Finished Hang\<rparr>, db'))
      | Loop previous [] \<Rightarrow> finish (Ret ()) p db
      | Loop previous (m # ms) \<Rightarrow>
          if \<not> valid_migration m then finish (Raise (Opaque ''invalid migration definition'')) p db
          else if previous \<ge> mi_version m then finish (Raise (Opaque ''migration versions must be strictly increasing'')) p db
          else if se_readFails env then finish (Raise (Opaque ''read migration'')) p db
          else (case find_applied (mi_version m) (mg_applied db) of
             Some r \<Rightarrow>
               if sm_name r \<noteq> mi_name m \<or> sm_checksum r \<noteq> checksum m
               then finish (Raise (Opaque ''checksum mismatch'')) p db
               else (p\<lparr>pr_phase := Loop (mi_version m) ms\<rparr>, db)
           | None \<Rightarrow>
               if pr_lost p then finish (Raise (Opaque ''migration lock lost before migration'')) p db
               else (p\<lparr>pr_phase := Ready m ms\<rparr>, db))
      | Ready m ms \<Rightarrow>
          (case runMigration (se_run env) (pr_lost p) (pr_token p) m db of
             (Ret _, db') \<Rightarrow>
               if pr_lost p then finish (Raise (Opaque ''migration lock lost after migration'')) p db'
               else (p\<lparr>pr_phase := Loop (mi_version m) ms\<rparr>, db')
           | (r, db') \<Rightarrow> finish r p db')
      | Finished r \<Rightarrow> (p, db))"

text \<open>One tick of \<open>renewLockLoop\<close>.\<close>

definition renew_tick :: "int \<Rightarrow> 'd mig_proc \<Rightarrow> 'd mig_db \<Rightarrow> 'd mig_proc \<times> 'd mig_db" where
  "renew_tick now p db =
     (case renewMigrationLock (pr_token p) now migrationLockTTL db of
        (Ret _, db') \<Rightarrow> (p, db')
      | (_, db') \<Rightarrow> (p\<lparr>pr_lost := True\<rparr>, db'))"

text \<open>A run of one process alone. Each migration takes at most two steps, so the number of steps below is
  enough; a run that is cut off would be \<open>Hang\<close>.\<close>

fun run_steps :: "nat \<Rightarrow> 'd migration list \<Rightarrow> step_env \<Rightarrow> 'd mig_proc \<Rightarrow> 'd mig_db \<Rightarrow> unit outcome \<times> 'd mig_db" where
  "run_steps 0 migs env p db = (case pr_phase p of Finished r \<Rightarrow> (r, db) | _ \<Rightarrow> (Hang, db))"
| "run_steps (Suc n) migs env p db =
     (case pr_phase p of
        Finished r \<Rightarrow> (r, db)
      | _ \<Rightarrow> (case proc_step migs env p db of (p', db') \<Rightarrow> run_steps n migs env p' db'))"

definition new_proc :: "'d mig_proc" where
  "new_proc = \<lparr>pr_phase = Start, pr_token = [], pr_lost = False\<rparr>"

definition runMigrations :: "step_env \<Rightarrow> 'd migration list \<Rightarrow> 'd mig_db \<Rightarrow> unit outcome \<times> 'd mig_db" where
  "runMigrations env migs db = run_steps (2 * length migs + 2) migs env new_proc db"

text \<open>Any number of processes on one database: steps of a process, ticks of its renewal loop while it holds
  a token, and a process that dies and never releases its lease.\<close>

type_synonym 'd world = "'d mig_db \<times> (nat \<Rightarrow> 'd mig_proc)"

inductive mig_step :: "'d migration list \<Rightarrow> 'd world \<Rightarrow> 'd world \<Rightarrow> bool" for migs where
  Work: "proc_step migs env (ps i) db = (p', db') \<Longrightarrow> mig_step migs (db, ps) (db', ps(i := p'))"
| Renew: "pr_phase (ps i) \<noteq> Start \<Longrightarrow> (\<forall>r. pr_phase (ps i) \<noteq> Finished r) \<Longrightarrow>
    renew_tick now (ps i) db = (p', db') \<Longrightarrow> mig_step migs (db, ps) (db', ps(i := p'))"
| Crash: "mig_step migs (db, ps) (db, ps(i := (ps i)\<lparr>pr_phase := Finished Hang\<rparr>))"

inductive_cases mig_stepE: "mig_step migs w w'"

inductive mig_reach :: "'d migration list \<Rightarrow> 'd \<Rightarrow> 'd world \<Rightarrow> bool" for migs d0 where
  Init: "mig_reach migs d0 (\<lparr>mg_lock = None, mg_applied = [], mg_audits = [], mg_data = d0\<rparr>, \<lambda>_. new_proc)"
| Step: "mig_reach migs d0 w \<Longrightarrow> mig_step migs w w' \<Longrightarrow> mig_reach migs d0 w'"

section \<open>What interleaved runs leave behind\<close>

fun ups :: "'d migration list \<Rightarrow> 'd \<Rightarrow> 'd outcome" where
  "ups [] d = Ret d"
| "ups (m # ms) d = (case mi_up m d of Ret d' \<Rightarrow> ups ms d' | r \<Rightarrow> r)"

lemma ups_append: "ups (xs @ [m]) d = (case ups xs d of Ret d' \<Rightarrow> mi_up m d' | r \<Rightarrow> r)"
  by (induction xs arbitrary: d) (auto split: outcome.splits)

definition row_of :: "'d migration \<Rightarrow> schema_migration" where
  "row_of m = \<lparr>sm_version = mi_version m, sm_name = mi_name m, sm_checksum = checksum m\<rparr>"

definition increasing :: "'d migration list \<Rightarrow> bool" where
  "increasing ms \<longleftrightarrow> sorted_wrt (<) (map mi_version ms)"

text \<open>The first \<open>k\<close> migrations are recorded and their changes are in the data.\<close>

definition applied_prefix :: "'d migration list \<Rightarrow> 'd \<Rightarrow> nat \<Rightarrow> 'd mig_db \<Rightarrow> bool" where
  "applied_prefix migs d0 k db \<longleftrightarrow>
     k \<le> length migs \<and> mg_applied db = map row_of (take k migs) \<and> ups (take k migs) d0 = Ret (mg_data db) \<and>
     increasing (take k migs)"

definition prev_version :: "'d migration list \<Rightarrow> nat \<Rightarrow> u64" where
  "prev_version migs j = (if j = 0 then 0 else mi_version (migs ! (j - 1)))"

fun place_ok :: "'d migration list \<Rightarrow> nat \<Rightarrow> 'd phase \<Rightarrow> bool" where
  "place_ok migs k Start = True"
| "place_ok migs k (Loop previous rest) =
     (\<exists>j \<le> k. rest = drop j migs \<and> previous = prev_version migs j)"
| "place_ok migs k (Ready m ms) = (\<exists>j \<le> k. drop j migs = m # ms \<and> increasing (take (Suc j) migs))"
| "place_ok migs k (Finished r) = True"

lemma place_ok_mono: "place_ok migs k ph \<Longrightarrow> k \<le> k' \<Longrightarrow> place_ok migs k' ph"
proof (cases ph)
  case (Loop x y)
  assume "place_ok migs k ph" "k \<le> k'"
  then obtain j where "j \<le> k" "y = drop j migs" "x = prev_version migs j" using Loop by auto
  with \<open>k \<le> k'\<close> have "j \<le> k' \<and> y = drop j migs \<and> x = prev_version migs j" by simp
  with Loop show ?thesis by (simp, blast)
next
  case (Ready x y)
  assume "place_ok migs k ph" "k \<le> k'"
  then obtain j where "j \<le> k" "drop j migs = x # y" "increasing (take (Suc j) migs)" using Ready by auto
  with \<open>k \<le> k'\<close> have "j \<le> k' \<and> drop j migs = x # y \<and> increasing (take (Suc j) migs)" by simp
  with Ready show ?thesis by (simp, blast)
qed simp_all

lemma release_keeps [simp]:
  "mg_applied (releaseMigrationLock t db) = mg_applied db" "mg_data (releaseMigrationLock t db) = mg_data db"
  by (simp_all add: releaseMigrationLock_def split: option.splits prod.splits)

lemma applied_prefix_cong:
  "mg_applied db' = mg_applied db \<Longrightarrow> mg_data db' = mg_data db \<Longrightarrow>
     applied_prefix migs d0 k db' = applied_prefix migs d0 k db"
  by (simp add: applied_prefix_def)

lemma unchangedI:
  assumes "mg_applied db' = mg_applied db" "mg_data db' = mg_data db" "applied_prefix migs d0 k db" "place_ok migs k ph"
  shows "\<exists>k' \<ge> k. applied_prefix migs d0 k' db' \<and> place_ok migs k' ph"
  using assms(3,4) unfolding applied_prefix_cong [OF assms(1,2), symmetric] by blast

lemma acquire_keeps:
  "acquireMigrationLock rnd now db = (r, db') \<Longrightarrow> mg_applied db' = mg_applied db \<and> mg_data db' = mg_data db"
  by (auto simp: acquireMigrationLock_def split: option.splits if_splits)

lemma finish_failure_keeps:
  "finishMigrationFailure env v e db = (r, db') \<Longrightarrow>
     mg_applied db' = mg_applied db \<and> mg_data db' = mg_data db \<and> (\<exists>x. r = Raise x)"
  by (auto simp: finishMigrationFailure_def set_audit_def split: if_splits)

lemma set_audit_keeps [simp]:
  "mg_applied (set_audit v st db) = mg_applied db" "mg_data (set_audit v st db) = mg_data db"
  by (simp_all add: set_audit_def)

text \<open>A run of a migration changes nothing that counts, or it commits the whole of it under a lease that
  is its own and has not expired.\<close>

lemma runMigration_cases:
  assumes "runMigration env cancelled token m db = (r, db')"
  shows "mg_applied db' = mg_applied db \<and> mg_data db' = mg_data db \<and> r \<noteq> Ret () \<or>
    mg_applied db' = mg_applied db @ [row_of m] \<and> mi_up m (mg_data db) = Ret (mg_data db') \<and>
    mi_version m \<notin> sm_version ` set (mg_applied db) \<and>
    (\<exists>e. mg_lock db = Some (token, e) \<and> re_checkTime env < e) \<and> \<not> cancelled"
  using assms
  by (auto simp: runMigration_def Let_def verifyLockOwnership_def row_of_def
      split: if_splits outcome.splits option.splits dest!: finish_failure_keeps)

lemma find_applied_Some: "find_applied v rs = Some r \<Longrightarrow> r \<in> set rs \<and> sm_version r = v"
  by (induction rs) (auto split: if_splits)

lemma find_applied_None: "find_applied v rs = None \<Longrightarrow> v \<notin> sm_version ` set rs"
  by (induction rs) (auto split: if_splits)

lemma drop_Cons_nth:
  assumes "drop j xs = y # ys"
  shows "j < length xs" "y = xs ! j" "ys = drop (Suc j) xs"
proof -
  show "j < length xs" using assms by (metis drop_all list.distinct(1) not_le_imp_less)
  then show "y = xs ! j" "ys = drop (Suc j) xs" using assms by (simp_all add: Cons_nth_drop_Suc [symmetric])
qed

lemma increasing_snoc:
  assumes "increasing (take j migs)" "j < length migs" "\<not> prev_version migs j \<ge> mi_version (migs ! j)"
  shows "increasing (take (Suc j) migs)"
proof -
  have "\<forall>x \<in> set (take j migs). mi_version x < mi_version (migs ! j)"
  proof (cases j)
    case (Suc i)
    then have t: "take j migs = take i migs @ [migs ! i]" using assms(2) by (simp add: take_Suc_conv_app_nth)
    with assms(1) have "\<forall>x \<in> set (take j migs). mi_version x \<le> mi_version (migs ! i)"
      by (auto simp: increasing_def sorted_wrt_append)
    then show ?thesis using assms(3) Suc unfolding prev_version_def by fastforce
  qed simp
  with assms(1,2) show ?thesis by (simp add: increasing_def take_Suc_conv_app_nth sorted_wrt_append)
qed

lemma increasing_take: "increasing (take k migs) \<Longrightarrow> j \<le> k \<Longrightarrow> increasing (take j migs)"
  by (metis increasing_def min.absorb1 sorted_wrt_take take_map take_take)

lemma version_in_prefix:
  assumes "increasing (take (Suc j) migs)" "j < length migs" "j \<le> k"
    "mi_version (migs ! j) \<in> mi_version ` set (take k migs)"
  shows "j < k"
proof (rule ccontr)
  assume "\<not> j < k"
  then have "k = j" using assms(3) by simp
  with assms(1,2) have "\<forall>x \<in> set (take k migs). mi_version x < mi_version (migs ! j)"
    by (auto simp: increasing_def take_Suc_conv_app_nth sorted_wrt_append)
  with assms(4) show False by auto
qed

lemma applied_versions: "applied_prefix migs d0 k db \<Longrightarrow> sm_version ` set (mg_applied db) = mi_version ` set (take k migs)"
  by (auto simp: applied_prefix_def row_of_def image_image)

lemma proc_step_inv:
  assumes "proc_step migs env p db = (p', db')" "applied_prefix migs d0 k db" "place_ok migs k (pr_phase p)"
  shows "\<exists>k' \<ge> k. applied_prefix migs d0 k' db' \<and> place_ok migs k' (pr_phase p')"
proof (cases "pr_phase p")
  case Start
  obtain r db1 where a: "acquireMigrationLock (se_token env) (se_now env) db = (r, db1)" by fastforce
  have "db' = db1 \<and> place_ok migs k (pr_phase p')"
    using assms(1) Start a by (cases r) (auto simp: proc_step_def prev_version_def)
  with acquire_keeps [OF a] assms(2) show ?thesis by (intro unchangedI) simp_all
next
  case (Finished r)
  with assms show ?thesis by (auto simp: proc_step_def)
next
  case (Loop previous rest)
  then obtain j where j: "j \<le> k" "rest = drop j migs" "previous = prev_version migs j"
    using assms(3) by auto
  have keep: "mg_applied db' = mg_applied db" "mg_data db' = mg_data db"
    using assms(1) Loop by (auto simp: proc_step_def finish_def split: list.splits if_splits option.splits)
  have "place_ok migs k (pr_phase p')"
  proof (cases rest)
    case Nil
    with assms(1) Loop show ?thesis by (auto simp: proc_step_def finish_def)
  next
    case (Cons m ms)
    then have "drop j migs = m # ms" using j(2) by simp
    note m = drop_Cons_nth [OF this] this
    have inc: "increasing (take (Suc j) migs)" if "\<not> previous \<ge> mi_version m"
      using that j(3) m(1,2) increasing_take [OF _ j(1)] assms(2)
      by (intro increasing_snoc) (auto simp: applied_prefix_def)
    have lt: "j < k" if "\<not> previous \<ge> mi_version m" "find_applied (mi_version m) (mg_applied db) = Some r" for r
    proof (rule version_in_prefix [OF inc [OF that(1)] m(1) j(1)])
      show "mi_version (migs ! j) \<in> mi_version ` set (take k migs)"
        using find_applied_Some [OF that(2)] unfolding applied_versions [OF assms(2), symmetric] m(2) by force
    qed
    show ?thesis
    proof (cases "valid_migration m \<and> \<not> previous \<ge> mi_version m \<and> \<not> se_readFails env")
      case False
      then show ?thesis using assms(1) Loop Cons by (auto simp: proc_step_def finish_def split: if_splits)
    next
      case True
      note inc = inc [OF True [THEN conjunct2, THEN conjunct1]] and lt = lt [OF True [THEN conjunct2, THEN conjunct1]]
      show ?thesis
      proof (cases "find_applied (mi_version m) (mg_applied db)")
        case None
        then have "pr_phase p' = Ready m ms \<or> (\<exists>r. pr_phase p' = Finished r)"
          using assms(1) Loop Cons True by (auto simp: proc_step_def finish_def split: if_splits)
        moreover have "place_ok migs k (Ready m ms)" using j(1) m(4) inc by (simp, blast)
        ultimately show ?thesis by auto
      next
        case (Some r)
        then have "pr_phase p' = Loop (mi_version m) ms \<or> (\<exists>r. pr_phase p' = Finished r)"
          using assms(1) Loop Cons True by (auto simp: proc_step_def finish_def split: if_splits)
        moreover have "Suc j \<le> k \<and> ms = drop (Suc j) migs \<and> mi_version m = prev_version migs (Suc j)"
          using lt [OF Some] m(2,3) by (simp add: prev_version_def)
        then have "place_ok migs k (Loop (mi_version m) ms)" by (simp, blast)
        ultimately show ?thesis by auto
      qed
    qed
  qed
  with keep assms(2) show ?thesis by (rule unchangedI)
next
  case (Ready m ms)
  then obtain j where j: "j \<le> k" "drop j migs = m # ms" "increasing (take (Suc j) migs)" using assms(3) by auto
  note m = drop_Cons_nth [OF j(2)]
  obtain r db1 where run: "runMigration (se_run env) (pr_lost p) (pr_token p) m db = (r, db1)" by fastforce
  have same: "mg_applied db' = mg_applied db1" "mg_data db' = mg_data db1"
    using assms(1) Ready run by (auto simp: proc_step_def finish_def split: outcome.splits if_splits)
  have ph: "pr_phase p' = Loop (mi_version m) ms \<and> r = Ret () \<or> (\<exists>x. pr_phase p' = Finished x)"
    using assms(1) Ready run by (auto simp: proc_step_def finish_def split: outcome.splits if_splits)
  from runMigration_cases [OF run] show ?thesis
  proof
    assume "mg_applied db1 = mg_applied db \<and> mg_data db1 = mg_data db \<and> r \<noteq> Ret ()"
    with same ph assms(2) show ?thesis by (intro unchangedI) auto
  next
    assume c: "mg_applied db1 = mg_applied db @ [row_of m] \<and> mi_up m (mg_data db) = Ret (mg_data db1) \<and>
      mi_version m \<notin> sm_version ` set (mg_applied db) \<and>
      (\<exists>e. mg_lock db = Some (pr_token p, e) \<and> re_checkTime (se_run env) < e) \<and> \<not> pr_lost p"
    have "mi_version m \<notin> mi_version ` set (take k migs)" using c applied_versions [OF assms(2)] by simp
    moreover have "m \<in> set (take k migs)" if "j < k"
      using that m(1,2) nth_mem [of j "take k migs"] by simp
    ultimately have "\<not> j < k" by blast
    then have "j = k" using j(1) by simp
    then have "take (Suc k) migs = take k migs @ [m]" "Suc k \<le> length migs" using m by (simp_all add: take_Suc_conv_app_nth)
    then have "applied_prefix migs d0 (Suc k) db'"
      using c assms(2) j(3) \<open>j = k\<close> same by (simp add: applied_prefix_def ups_append)
    moreover have "place_ok migs (Suc k) (pr_phase p')"
      using ph \<open>j = k\<close> m by (auto simp: prev_version_def intro!: exI [of _ "Suc k"])
    ultimately show ?thesis by (metis le_SucI order_refl)
  qed
qed

lemma renew_tick_keeps:
  "renew_tick now p db = (p', db') \<Longrightarrow> mg_applied db' = mg_applied db \<and> mg_data db' = mg_data db \<and> pr_phase p' = pr_phase p"
  by (auto simp: renew_tick_def renewMigrationLock_def split: option.splits prod.splits if_splits)

definition world_ok :: "'d migration list \<Rightarrow> 'd \<Rightarrow> 'd world \<Rightarrow> bool" where
  "world_ok migs d0 w \<longleftrightarrow> (\<exists>k. applied_prefix migs d0 k (fst w) \<and> (\<forall>i. place_ok migs k (pr_phase (snd w i))))"

lemma world_okI:
  assumes "\<exists>k' \<ge> k. applied_prefix migs d0 k' db' \<and> place_ok migs k' (pr_phase p')"
    "\<forall>i. place_ok migs k (pr_phase (ps i))"
  shows "world_ok migs d0 (db', ps(i := p'))"
  using assms unfolding world_ok_def by (auto intro: place_ok_mono)

lemma mig_step_ok:
  assumes "mig_step migs w w'" "world_ok migs d0 w"
  shows "world_ok migs d0 w'"
proof -
  obtain k where k: "applied_prefix migs d0 k (fst w)" "\<forall>i. place_ok migs k (pr_phase (snd w i))"
    using assms(2) unfolding world_ok_def by blast
  from assms(1) show ?thesis
  proof cases
    case (Work env ps i db p' db')
    show ?thesis unfolding Work(2)
      by (rule world_okI [OF proc_step_inv [OF Work(3)]]) (use k Work(1) in auto)
  next
    case (Renew ps i now db p' db')
    note r = renew_tick_keeps [OF Renew(5)]
    show ?thesis unfolding Renew(2)
      by (rule world_okI [OF unchangedI [of _ db]]) (use k Renew(1) r in auto)
  next
    case (Crash db ps i)
    show ?thesis unfolding Crash(2)
      by (rule world_okI [OF unchangedI [of _ db]]) (use k Crash(1) in auto)
  qed
qed

text \<open>C7. Migrations are applied once and in order, however many processes migrate the same database. In
  every state that any interleaving of any number of runs can reach, with expired leases, take-overs,
  failing statements, lost renewals and crashed processes: the migrations table holds exactly the
  first k registered migrations, with strictly increasing versions, and the data is the result of
  exactly these k changes, each applied once and in the registered order.\<close>

theorem migrations_applied_in_order:
  assumes "mig_reach migs d0 (db, ps)"
  shows "\<exists>k \<le> length migs. mg_applied db = map row_of (take k migs) \<and> increasing (take k migs) \<and>
    ups (take k migs) d0 = Ret (mg_data db)"
proof -
  have "world_ok migs d0 w" if "mig_reach migs d0 w" for w
    using that
  proof induction
    case Init
    show ?case unfolding world_ok_def
      by (rule exI [of _ 0]) (simp add: applied_prefix_def increasing_def new_proc_def)
  next
    case (Step w w')
    then show ?case by (blast intro: mig_step_ok)
  qed
  from this [OF assms] show ?thesis by (auto simp: world_ok_def applied_prefix_def)
qed

text \<open>Two processes: the first acquires the lease and finds the migration not applied, its lease expires, the
  second takes over and commits; the first cannot commit any more.\<close>

definition bump :: "nat migration" where
  "bump = \<lparr>mi_version = 1, mi_name = ''bump'', mi_revision = ''r1'', mi_up = \<lambda>n. Ret (n + 1)\<rparr>"

definition calm :: "int \<Rightarrow> run_env" where
  "calm now = \<lparr>re_auditFails = False, re_beginFails = False, re_insertFails = False, re_commitFails = False,
     re_auditUpdateFails = False, re_checkTime = now\<rparr>"

definition at_time :: "string \<Rightarrow> int \<Rightarrow> step_env" where
  "at_time token now = \<lparr>se_token = Some token, se_now = now, se_readFails = False, se_run = calm now\<rparr>"

definition work :: "step_env \<Rightarrow> nat \<Rightarrow> nat world \<Rightarrow> nat world" where
  "work env i w = (case proc_step [bump] env (snd w i) (fst w) of (p', db') \<Rightarrow> (db', (snd w)(i := p')))"

lemma work_step: "mig_step [bump] w (work env i w)"
  by (cases w) (auto simp: work_def split: prod.splits intro: mig_step.Work)

definition race :: "nat world" where
  "race = work (at_time ''a'' 400) 0 (work (at_time ''b'' 400) 1 (work (at_time ''b'' 400) 1 (work (at_time ''b'' 400) 1
     (work (at_time ''a'' 1) 0 (work (at_time ''a'' 0) 0
       (\<lparr>mg_lock = None, mg_applied = [], mg_audits = [], mg_data = 7\<rparr>, \<lambda>_. new_proc))))))"

theorem migrations_applied_in_order_witness:
  "\<exists>k \<le> length [bump]. mg_applied (fst race) = map row_of (take k [bump]) \<and> increasing (take k [bump]) \<and>
     ups (take k [bump]) 7 = Ret (mg_data (fst race))"
proof -
  have "mig_reach [bump] 7 race"
    unfolding race_def by (intro mig_reach.Step [OF _ work_step] mig_reach.Init)
  then have "mig_reach [bump] 7 (fst race, snd race)" by simp
  then show ?thesis by (rule migrations_applied_in_order)
qed

section \<open>An undisturbed run\<close>

lemma ups_take: "ups ms d = Ret d' \<Longrightarrow> \<exists>x. ups (take k ms) d = Ret x"
proof (induction ms arbitrary: d k)
  case (Cons m ms)
  then show ?case by (cases k) (auto split: outcome.splits)
qed simp

lemma find_applied_unique:
  "distinct (map mi_version ms) \<Longrightarrow> m \<in> set ms \<Longrightarrow> find_applied (mi_version m) (map row_of ms) = Some (row_of m)"
  by (induction ms) (auto simp: row_of_def)

lemma increasing_distinct: "increasing ms \<Longrightarrow> distinct (map mi_version ms)"
  by (simp add: increasing_def strict_sorted_iff)

lemma find_applied_row:
  assumes "increasing migs" "k \<le> length migs" "j < length migs"
  shows "find_applied (mi_version (migs ! j)) (map row_of (take k migs)) =
    (if j < k then Some (row_of (migs ! j)) else None)"
proof (cases "j < k")
  case True
  then have "migs ! j \<in> set (take k migs)" using assms(2) nth_mem [of j "take k migs"] by simp
  moreover have "distinct (map mi_version (take k migs))"
    using increasing_distinct [OF assms(1)] by (metis distinct_take take_map)
  ultimately show ?thesis using True find_applied_unique by auto
next
  case False
  have "mi_version (migs ! j) \<notin> mi_version ` set (take k migs)"
  proof
    assume "mi_version (migs ! j) \<in> mi_version ` set (take k migs)"
    then obtain i where "i < k" "i < length migs" "mi_version (migs ! i) = mi_version (migs ! j)"
      by (force simp: in_set_conv_nth)
    then show False
      using increasing_distinct [OF assms(1)] assms(3) False nth_eq_iff_index_eq [of "map mi_version migs" i j] by simp
  qed
  moreover have "find_applied v rs = None" if "v \<notin> sm_version ` set rs" for v rs
    using that by (induction rs) auto
  ultimately show ?thesis using False by (simp add: image_image row_of_def)
qed

lemma prev_less:
  assumes "increasing migs" "j < length migs" "valid_migration (migs ! j)"
  shows "\<not> prev_version migs j \<ge> mi_version (migs ! j)"
proof (cases j)
  case 0
  have "0 < mi_version (migs ! j)" using assms(3) by (simp add: valid_migration_def word_gt_0)
  with 0 show ?thesis by (simp add: prev_version_def not_le)
next
  case (Suc i)
  then have "map mi_version migs ! i < map mi_version migs ! j"
    using assms(1,2) sorted_wrt_nth_less [of "(<)" "map mi_version migs" i j] by (simp add: increasing_def)
  with Suc assms(2) show ?thesis by (simp add: prev_version_def not_le)
qed

definition quiet :: "step_env \<Rightarrow> bool" where
  "quiet env \<longleftrightarrow> \<not> se_readFails env \<and> \<not> re_auditFails (se_run env) \<and> \<not> re_beginFails (se_run env) \<and>
     \<not> re_insertFails (se_run env) \<and> \<not> re_commitFails (se_run env) \<and> \<not> re_auditUpdateFails (se_run env)"

lemma commit_succeeds:
  assumes "quiet env" "mi_up m (mg_data db) = Ret d" "mi_version m \<notin> sm_version ` set (mg_applied db)"
    "mg_lock db = Some (token, e)" "re_checkTime (se_run env) < e"
  shows "\<exists>db'. runMigration (se_run env) False token m db = (Ret (), db') \<and> mg_lock db' = mg_lock db \<and>
    mg_applied db' = mg_applied db @ [row_of m] \<and> mg_data db' = d"
  using assms by (simp add: runMigration_def quiet_def verifyLockOwnership_def Let_def row_of_def set_audit_def)

lemma loop_completes:
  assumes env: "quiet env" "re_checkTime (se_run env) < e" "increasing migs" "\<forall>m \<in> set migs. valid_migration m"
    "ups migs d0 = Ret d"
  shows "\<lbrakk>applied_prefix migs d0 k db; mg_lock db = Some (pr_token p, e); \<not> pr_lost p; j \<le> k;
     pr_phase p = Loop (prev_version migs j) (drop j migs); 2 * (length migs - j) + 1 \<le> n\<rbrakk> \<Longrightarrow>
   \<exists>db'. run_steps n migs env p db = (Ret (), db') \<and> applied_prefix migs d0 (length migs) db' \<and> mg_lock db' = None"
proof (induction "length migs - j" arbitrary: j k db p n)
  case 0
  then have "j = length migs" "k = length migs" by (auto simp: applied_prefix_def)
  obtain n' where n: "n = Suc n'" using 0 by (cases n) auto
  have "run_steps n' migs env (p\<lparr>pr_phase := Finished (Ret ())\<rparr>) db1 = (Ret (), db1)" for db1
    by (cases n') simp_all
  then have "run_steps n migs env p db = (Ret (), releaseMigrationLock (pr_token p) db)"
    using 0 \<open>j = length migs\<close> n by (simp add: proc_step_def finish_def)
  moreover have "applied_prefix migs d0 (length migs) (releaseMigrationLock (pr_token p) db)"
    using 0 \<open>k = length migs\<close> applied_prefix_cong [of "releaseMigrationLock (pr_token p) db" db] by simp
  ultimately show ?case using 0 by (simp add: releaseMigrationLock_def)
next
  case (Suc l)
  then have j: "j < length migs" "length migs - Suc j = l" "k \<le> length migs" by (auto simp: applied_prefix_def)
  define m where "m = migs ! j"
  have drop: "drop j migs = m # drop (Suc j) migs" using j(1) by (simp add: Cons_nth_drop_Suc m_def)
  have ok: "valid_migration m" "\<not> prev_version migs j \<ge> mi_version m"
    using env(4) j(1) prev_less [OF env(3) j(1)] by (simp_all add: m_def)
  have look: "find_applied (mi_version m) (mg_applied db) = (if j < k then Some (row_of m) else None)"
    using find_applied_row [OF env(3) j(3,1)] Suc.prems(1) by (simp add: applied_prefix_def m_def)
  have prev: "mi_version m = prev_version migs (Suc j)" by (simp add: prev_version_def m_def)
  have quiet: "\<not> se_readFails env" using env(1) by (simp add: quiet_def)
  show ?case
  proof (cases "j < k")
    case True
    obtain n' where n: "n = Suc n'" using Suc.prems(6) by (cases n) auto
    let ?p = "p\<lparr>pr_phase := Loop (mi_version m) (drop (Suc j) migs)\<rparr>"
    have "run_steps n migs env p db = run_steps n' migs env ?p db"
      using Suc.prems(5) drop ok look True quiet n by (simp add: proc_step_def row_of_def)
    moreover have "\<exists>db'. run_steps n' migs env ?p db = (Ret (), db') \<and> applied_prefix migs d0 (length migs) db' \<and> mg_lock db' = None"
      by (rule Suc.hyps(1) [of "Suc j" k]) (use Suc.prems j n True prev in auto)
    ultimately show ?thesis by simp
  next
    case False
    then have k: "k = j" using Suc.prems(4) by simp
    obtain n' where n: "n = Suc (Suc n')" using Suc.prems(6) j by (cases n; cases "n - 1") auto
    have snoc: "take (Suc j) migs = take j migs @ [m]" using j(1) by (simp add: take_Suc_conv_app_nth m_def)
    have "\<exists>x. ups (take (Suc j) migs) d0 = Ret x" by (rule ups_take [OF env(5)])
    then obtain x where x: "ups (take (Suc j) migs) d0 = Ret x" ..
    then have up: "mi_up m (mg_data db) = Ret x"
      using Suc.prems(1) k snoc by (simp add: applied_prefix_def ups_append)
    have "mi_version m \<notin> sm_version ` set (mg_applied db)" using look False find_applied_None by auto
    from commit_succeeds [OF env(1) up this Suc.prems(2) env(2)] obtain db1 where
      run: "runMigration (se_run env) False (pr_token p) m db = (Ret (), db1)" "mg_lock db1 = mg_lock db"
      "mg_applied db1 = mg_applied db @ [row_of m]" "mg_data db1 = x" by blast
    let ?p = "p\<lparr>pr_phase := Loop (mi_version m) (drop (Suc j) migs)\<rparr>"
    have "run_steps n migs env p db = run_steps n' migs env ?p db1"
      using Suc.prems(3,5) drop ok look False quiet n run(1) by (simp add: proc_step_def)
    moreover have "applied_prefix migs d0 (Suc j) db1"
      using Suc.prems(1) k run(3,4) x j(1) snoc increasing_take [of "length migs" migs "Suc j"] env(3)
      by (simp add: applied_prefix_def)
    then have "\<exists>db'. run_steps n' migs env ?p db1 = (Ret (), db') \<and> applied_prefix migs d0 (length migs) db' \<and> mg_lock db' = None"
      by (intro Suc.hyps(1) [of "Suc j" "Suc j"]) (use Suc.prems run(2) j n prev in auto)
    ultimately show ?thesis by simp
  qed
qed

text \<open>C24. A migration run completes. Starting from any database that earlier runs have left behind, when no
  live lease of another process exists and no statement fails, a run returns without error after at
  most two steps per migration, every registered migration is then applied exactly once, the data is
  the result of all of them, and the lease is released; in particular a second run is free.\<close>

theorem migration_run_completes:
  assumes "increasing migs" "\<forall>m \<in> set migs. valid_migration m" "ups migs d0 = Ret d"
    "applied_prefix migs d0 k db" "case mg_lock db of None \<Rightarrow> True | Some (_, e) \<Rightarrow> e < se_now env"
    "quiet env" "se_token env = Some token" "re_checkTime (se_run env) < se_now env + migrationLockTTL"
  shows "\<exists>db'. runMigrations env migs db = (Ret (), db') \<and> mg_applied db' = map row_of migs \<and> mg_data db' = d \<and>
    mg_lock db' = None"
proof -
  let ?db = "db\<lparr>mg_lock := Some (token, se_now env + migrationLockTTL)\<rparr>"
  let ?p = "new_proc\<lparr>pr_token := token, pr_phase := Loop 0 migs\<rparr>"
  have "acquireMigrationLock (se_token env) (se_now env) db = (Ret token, ?db)"
    using assms(5,7) by (auto simp: acquireMigrationLock_def split: option.splits prod.splits)
  then have "runMigrations env migs db = run_steps (2 * length migs + 1) migs env ?p ?db"
    by (simp add: runMigrations_def proc_step_def new_proc_def numeral_2_eq_2)
  moreover have "\<exists>db'. run_steps (2 * length migs + 1) migs env ?p ?db = (Ret (), db') \<and>
      applied_prefix migs d0 (length migs) db' \<and> mg_lock db' = None"
    by (rule loop_completes [OF assms(6,8,1,2,3), of k _ _ 0])
      (use assms(4) in \<open>simp_all add: applied_prefix_def new_proc_def prev_version_def\<close>)
  ultimately show ?thesis using assms(3) by (auto simp: applied_prefix_def)
qed

theorem migration_run_completes_witness:
  "\<exists>db'. runMigrations (at_time ''t'' 1000) [bump] \<lparr>mg_lock = Some (''dead'', 10), mg_applied = [], mg_audits = [], mg_data = 7\<rparr> =
     (Ret (), db') \<and> mg_data db' = 8"
  using migration_run_completes [of "[bump]" 7 8 0 "\<lparr>mg_lock = Some (''dead'', 10), mg_applied = [], mg_audits = [], mg_data = 7\<rparr>"
      "at_time ''t'' 1000" "''t''"]
  by (auto simp: increasing_def valid_migration_def bump_def applied_prefix_def at_time_def calm_def quiet_def migrationLockTTL_def)

end
