(* ===== verification/Byte_Reader.thy ===== *)
theory Byte_Reader
  imports Go_Prelude
begin

text \<open>
  \<open>common/io.go\<close> and the parts of \<open>io\<close> and \<open>net\<close> it is used with. An inbound connection is
  the sequence of segments the network delivers (\<open>net_in\<close>); one \<open>Read\<close> never spans two
  segments, so short reads are part of the model. \<open>io.ReadFull\<close>, the discarding \<open>io.CopyN\<close>
  and \<open>RewindReader\<close> are written over any reader. The locale \<open>byte_reader\<close> states what a
  client may rely on; its lemmas give the parsers of the other theories, and the sublocale
  shows that a rewinding reader over a reader keeps the contract and remembers every byte.
\<close>

section \<open>Readers\<close>

text \<open>\<open>rd k s\<close> is \<open>Read\<close> into a buffer of length \<open>k\<close>: the bytes copied and the error.\<close>

type_synonym 's reader = "nat \<Rightarrow> 's \<Rightarrow> (bytes \<times> go_error option) \<times> 's"

record net_in =
  segs :: "bytes list"
  fin_err :: go_error

definition seg_read :: "net_in reader" where
  "seg_read k s =
     (if k = 0 then (([], None), s)
      else case segs s of
        [] \<Rightarrow> (([], Some (fin_err s)), s)
      | g # gs \<Rightarrow> ((take k g, None),
          s\<lparr>segs := (if length g \<le> k then gs else drop k g # gs)\<rparr>))"

definition seg_content :: "net_in \<Rightarrow> bytes" where
  "seg_content s = concat (segs s)"

definition seg_ok :: "nat \<Rightarrow> net_in \<Rightarrow> bool" where
  "seg_ok n s \<longleftrightarrow> (\<forall>g \<in> set (segs s). g \<noteq> [])"

text \<open>\<open>io.ReadFull\<close>. The fuel is the number of bytes wanted plus one; a reader that makes
  progress never runs out of it (\<open>read_full_some\<close>, \<open>read_full_short\<close>).\<close>

fun read_more :: "nat \<Rightarrow> 's reader \<Rightarrow> nat \<Rightarrow> bytes \<Rightarrow> ('s, bytes) proc" where
  "read_more 0 rd need acc s = (Hang, s)"
| "read_more (Suc fuel) rd need acc s =
     (if need = 0 then (Ret acc, s)
      else case rd need s of ((bs, err), s') \<Rightarrow>
        (case err of
           None \<Rightarrow> read_more fuel rd (need - length bs) (acc @ bs) s'
         | Some e \<Rightarrow>
             (if need \<le> length bs then Ret (acc @ bs)
              else if acc @ bs \<noteq> [] \<and> e = EOF then Raise ErrUnexpectedEOF
              else Raise e, s')))"

definition io_ReadFull :: "'s reader \<Rightarrow> nat \<Rightarrow> ('s, bytes) proc" where
  "io_ReadFull rd k = read_more (Suc k) rd k []"

text \<open>\<open>io.CopyN(io.Discard, r, n)\<close>: reads through an 8192-byte buffer limited to what is left.\<close>

fun discard_more :: "nat \<Rightarrow> 's reader \<Rightarrow> nat \<Rightarrow> ('s, unit) proc" where
  "discard_more 0 rd left s = (Hang, s)"
| "discard_more (Suc fuel) rd left s =
     (if left = 0 then (Ret (), s)
      else case rd (min left 8192) s of ((bs, err), s') \<Rightarrow>
        (case err of
           None \<Rightarrow> discard_more fuel rd (left - length bs) s'
         | Some e \<Rightarrow> (if left \<le> length bs then Ret () else Raise e, s')))"

definition io_CopyN_Discard :: "'s reader \<Rightarrow> nat \<Rightarrow> ('s, unit) proc" where
  "io_CopyN_Discard rd n = discard_more (Suc n) rd n"

section \<open>RewindReader\<close>

record 's rewind_reader =
  rawReader :: 's
  buf :: bytes
  bufReadIdx :: nat
  rewound :: bool
  buffering :: bool
  bufferSize :: nat

definition NewRewindConn :: "'s \<Rightarrow> 's rewind_reader" where
  "NewRewindConn conn =
     \<lparr>rawReader = conn, buf = [], bufReadIdx = 0, rewound = False, buffering = False,
      bufferSize = 0\<rparr>"

definition max_rewind_buffer :: nat where
  "max_rewind_buffer = 1024 * 1024"

definition RewindReader_Read :: "'s reader \<Rightarrow> 's rewind_reader reader" where
  "RewindReader_Read rd k r =
     (if rewound r \<and> bufReadIdx r < length (buf r) then
        let bs = take k (drop (bufReadIdx r) (buf r))
        in ((bs, None), r\<lparr>bufReadIdx := bufReadIdx r + length bs\<rparr>)
      else
        let r1 = r\<lparr>rewound := False\<rparr>
        in case rd k (rawReader r1) of ((bs, err), raw') \<Rightarrow>
          let r2 = r1\<lparr>rawReader := raw'\<rparr>
          in if buffering r1 \<and> bs \<noteq> [] then
               (if length (buf r2) + length bs > max_rewind_buffer then
                  ((bs, Some (NewError ''RewindReader buffer size exceeded 1MB limit'')), r2)
                else ((bs, err), r2\<lparr>buf := buf r2 @ bs\<rparr>))
             else ((bs, err), r2))"

text \<open>\<open>ReadByte\<close> returns the zero byte when nothing was read.\<close>

definition RewindReader_ReadByte ::
  "'s reader \<Rightarrow> 's rewind_reader \<Rightarrow> (byte \<times> go_error option) \<times> 's rewind_reader" where
  "RewindReader_ReadByte rd r =
     (case RewindReader_Read rd 1 r of ((bs, err), r') \<Rightarrow>
        (((case bs of [] \<Rightarrow> 0 | b # _ \<Rightarrow> b), err), r'))"

function discard_loop ::
  "'s reader \<Rightarrow> nat \<Rightarrow> nat \<Rightarrow> 's rewind_reader \<Rightarrow> (nat \<times> go_error option) \<times> 's rewind_reader" where
  "discard_loop rd n discarded r =
     (if discarded < n then
        (case RewindReader_Read rd (min (n - discarded) 128) r of ((bs, err), r') \<Rightarrow>
          (case err of
             Some e \<Rightarrow> ((discarded + length bs, Some e), r')
           | None \<Rightarrow>
               if bs = [] then ((discarded, Some ErrUnexpectedEOF), r')
               else discard_loop rd n (discarded + length bs) r'))
      else ((discarded, None), r))"
  by pat_completeness auto
termination
  by (relation "measure (\<lambda>(rd, n, discarded, r). n - discarded)") (auto intro!: diff_less_mono2)

declare discard_loop.simps [simp del]

definition RewindReader_Discard ::
  "'s reader \<Rightarrow> int \<Rightarrow> 's rewind_reader \<Rightarrow> (nat \<times> go_error option) \<times> 's rewind_reader" where
  "RewindReader_Discard rd n r =
     (if n < 0 then ((0, Some ErrUnexpectedEOF), r) else discard_loop rd (nat n) 0 r)"

definition Rewind :: "'s rewind_reader \<Rightarrow> 's rewind_reader outcome" where
  "Rewind r = (if bufferSize r = 0 then Panic ''no buffer''
               else Ret (r\<lparr>rewound := True, bufReadIdx := 0\<rparr>))"

definition StopBuffering :: "'s rewind_reader \<Rightarrow> 's rewind_reader" where
  "StopBuffering r = r\<lparr>buffering := False\<rparr>"

definition SetBufferSize :: "nat \<Rightarrow> 's rewind_reader \<Rightarrow> 's rewind_reader outcome" where
  "SetBufferSize sz r =
     (if sz = 0 then
        (if \<not> buffering r then Panic ''reader is disabled''
         else Ret (r\<lparr>buffering := False, buf := [], bufReadIdx := 0, bufferSize := 0\<rparr>))
      else if buffering r then Panic ''reader is buffering''
      else Ret (r\<lparr>buffering := True, bufReadIdx := 0, bufferSize := sz, buf := []\<rparr>))"

text \<open>What is still to be read, and what a rewind would replay.\<close>

definition rewind_content :: "('s \<Rightarrow> bytes) \<Rightarrow> 's rewind_reader \<Rightarrow> bytes" where
  "rewind_content content r =
     (if rewound r then drop (bufReadIdx r) (buf r) else []) @ content (rawReader r)"

definition rewind_fin :: "('s \<Rightarrow> go_error) \<Rightarrow> 's rewind_reader \<Rightarrow> go_error" where
  "rewind_fin fin r = fin (rawReader r)"

definition rewind_origin :: "('s \<Rightarrow> bytes) \<Rightarrow> 's rewind_reader \<Rightarrow> bytes" where
  "rewind_origin content r = (if buffering r then buf r @ content (rawReader r) else [])"

definition rewind_ok :: "(nat \<Rightarrow> 's \<Rightarrow> bool) \<Rightarrow> nat \<Rightarrow> 's rewind_reader \<Rightarrow> bool" where
  "rewind_ok ok n r \<longleftrightarrow> ok n (rawReader r)
     \<and> (buffering r \<longrightarrow> length (buf r) + n \<le> max_rewind_buffer)"

section \<open>StickyWriter and WriteAllBytes\<close>

text \<open>A writer takes the bytes and reports how many it accepted.\<close>

type_synonym 's writer = "bytes \<Rightarrow> 's \<Rightarrow> (nat \<times> go_error option) \<times> 's"

definition buffer_write :: "bytes writer" where
  "buffer_write bs w = ((length bs, None), w @ bs)"

record 's sticky_writer =
  rawWriter :: 's
  writeBuffer :: bytes
  MaxBuffered :: int

definition StickyWriter_Write :: "'s writer \<Rightarrow> 's sticky_writer writer" where
  "StickyWriter_Write wr p w =
     (if MaxBuffered w > 0 then
        let w1 = w\<lparr>MaxBuffered := MaxBuffered w - 1, writeBuffer := writeBuffer w @ p\<rparr>
        in if MaxBuffered w1 \<noteq> 0 then ((length p, None), w1)
           else case wr (writeBuffer w1) (rawWriter w1) of ((n, err), raw') \<Rightarrow>
             ((length p, err), w1\<lparr>MaxBuffered := 0, rawWriter := raw', writeBuffer := []\<rparr>)
      else case wr p (rawWriter w) of ((n, err), raw') \<Rightarrow> ((n, err), w\<lparr>rawWriter := raw'\<rparr>))"

section \<open>The reader contract\<close>

text \<open>\<open>content\<close> is what the peer will still deliver, \<open>fin\<close> the error after it, \<open>origin\<close> what
  the reader can replay; \<open>ok n\<close> says that at least \<open>n\<close> more bytes may be read safely.\<close>

locale byte_reader =
  fixes rd :: "nat \<Rightarrow> 's \<Rightarrow> (bytes \<times> go_error option) \<times> 's"
    and content :: "'s \<Rightarrow> bytes"
    and fin :: "'s \<Rightarrow> go_error"
    and origin :: "'s \<Rightarrow> bytes"
    and ok :: "nat \<Rightarrow> 's \<Rightarrow> bool"
  assumes rd_some: "\<lbrakk>ok n s; 0 < k; k \<le> n; content s \<noteq> []\<rbrakk> \<Longrightarrow>
      \<exists>bs s'. rd k s = ((bs, None), s') \<and> bs \<noteq> [] \<and> length bs \<le> k \<and>
        content s = bs @ content s' \<and> fin s' = fin s \<and> origin s' = origin s \<and>
        ok (n - length bs) s'"
    and rd_end: "\<lbrakk>ok n s; 0 < k; k \<le> n; content s = []\<rbrakk> \<Longrightarrow>
      \<exists>s'. rd k s = (([], Some (fin s)), s') \<and> content s' = [] \<and> fin s' = fin s \<and>
        origin s' = origin s \<and> ok n s'"
    and ok_mono: "\<lbrakk>ok n s; m \<le> n\<rbrakk> \<Longrightarrow> ok m s"
begin

text \<open>\<open>advances n s bs s'\<close>: the bytes \<open>bs\<close> were taken off the stream and at least \<open>n\<close> more
  may be read.\<close>

definition advances :: "nat \<Rightarrow> 's \<Rightarrow> bytes \<Rightarrow> 's \<Rightarrow> bool" where
  "advances n s bs s' \<longleftrightarrow>
     content s = bs @ content s' \<and> fin s' = fin s \<and> origin s' = origin s \<and> ok n s'"

lemma advances_refl: "ok n s \<Longrightarrow> advances n s [] s"
  by (simp add: advances_def)

lemma advances_trans:
  "advances m s bs s' \<Longrightarrow> advances n s' cs s'' \<Longrightarrow> advances n s (bs @ cs) s''"
  by (simp add: advances_def)

lemma advances_le: "advances n s bs s' \<Longrightarrow> m \<le> n \<Longrightarrow> advances m s bs s'"
  using ok_mono by (auto simp: advances_def)

lemma read_more_some:
  "\<lbrakk>ok n s; need \<le> n; need \<le> length (content s); need < fuel\<rbrakk> \<Longrightarrow>
     \<exists>s'. read_more fuel rd need acc s = (Ret (acc @ take need (content s)), s') \<and>
       advances (n - need) s (take need (content s)) s'"
proof (induction fuel arbitrary: n s need acc)
  case 0
  then show ?case by simp
next
  case (Suc fuel)
  show ?case
  proof (cases "need = 0")
    case True
    with Suc.prems show ?thesis by (simp add: advances_refl)
  next
    case False
    with Suc.prems have "0 < need" and "content s \<noteq> []" by auto
    with Suc.prems obtain bs s1 where r: "rd need s = ((bs, None), s1)" "bs \<noteq> []"
        "length bs \<le> need" "content s = bs @ content s1" "fin s1 = fin s"
        "origin s1 = origin s" "ok (n - length bs) s1"
      using rd_some [of n s need] by blast
    from r(2) have pos: "0 < length bs" by simp
    have len: "length (content s) = length bs + length (content s1)"
      using r(4) by simp
    from Suc.prems r(3) pos len
    have "need - length bs \<le> n - length bs" "need - length bs \<le> length (content s1)"
         "need - length bs < fuel" by linarith+
    with r(7) obtain s' where
      s': "read_more fuel rd (need - length bs) (acc @ bs) s1
             = (Ret ((acc @ bs) @ take (need - length bs) (content s1)), s')"
          "advances (n - length bs - (need - length bs)) s1
             (take (need - length bs) (content s1)) s'"
      using Suc.IH by blast
    have take: "take need (content s) = bs @ take (need - length bs) (content s1)"
      using r(3,4) by simp
    have "advances (n - length bs) s bs s1" using r by (simp add: advances_def)
    then have "advances (n - length bs - (need - length bs)) s
        (bs @ take (need - length bs) (content s1)) s'"
      using s'(2) by (rule advances_trans)
    moreover have "n - length bs - (need - length bs) = n - need"
      using r(3) by simp
    ultimately have adv: "advances (n - need) s (take need (content s)) s'"
      using take by simp
    have "read_more (Suc fuel) rd need acc s = (Ret (acc @ take need (content s)), s')"
      using False r(1) s'(1) take by simp
    with adv show ?thesis by blast
  qed
qed

lemma read_more_short:
  "\<lbrakk>ok n s; need \<le> n; length (content s) < need; need < fuel\<rbrakk> \<Longrightarrow>
     \<exists>s'. read_more fuel rd need acc s =
       (Raise (if acc @ content s \<noteq> [] \<and> fin s = EOF then ErrUnexpectedEOF else fin s), s') \<and>
       advances (n - length (content s)) s (content s) s' \<and> content s' = []"
proof (induction fuel arbitrary: n s need acc)
  case 0
  then show ?case by simp
next
  case (Suc fuel)
  then have pos: "0 < need" by auto
  show ?case
  proof (cases "content s = []")
    case True
    then obtain s' where "rd need s = (([], Some (fin s)), s')" "content s' = []"
        "fin s' = fin s" "origin s' = origin s" "ok n s'"
      using rd_end [OF Suc.prems(1) pos Suc.prems(2)] by blast
    with True pos show ?thesis by (simp add: advances_def)
  next
    case False
    with Suc.prems pos obtain bs s1 where r: "rd need s = ((bs, None), s1)" "bs \<noteq> []"
        "length bs \<le> need" "content s = bs @ content s1" "fin s1 = fin s"
        "origin s1 = origin s" "ok (n - length bs) s1"
      using rd_some [of n s need] by blast
    from r(2) have pos: "0 < length bs" by simp
    have len: "length (content s) = length bs + length (content s1)"
      using r(4) by simp
    from Suc.prems r(3) pos len
    have "need - length bs \<le> n - length bs" "length (content s1) < need - length bs"
         "need - length bs < fuel" by linarith+
    with r(7) obtain s' where
      s': "read_more fuel rd (need - length bs) (acc @ bs) s1 =
             (Raise (if (acc @ bs) @ content s1 \<noteq> [] \<and> fin s1 = EOF
                     then ErrUnexpectedEOF else fin s1), s')"
          "advances (n - length bs - length (content s1)) s1 (content s1) s'" "content s' = []"
      using Suc.IH by blast
    have "advances (n - length bs) s bs s1" using r by (simp add: advances_def)
    then have "advances (n - length bs - length (content s1)) s (bs @ content s1) s'"
      using s'(2) by (rule advances_trans)
    then have adv: "advances (n - length (content s)) s (content s) s'"
      using r(4) len by simp
    have "need \<noteq> 0" using Suc.prems by auto
    then have "read_more (Suc fuel) rd need acc s =
       (Raise (if acc @ content s \<noteq> [] \<and> fin s = EOF then ErrUnexpectedEOF else fin s), s')"
      using r(1,2,4,5) s'(1) by simp
    with adv s'(3) show ?thesis by blast
  qed
qed

lemma read_full_some:
  assumes "ok n s" "k \<le> n" "k \<le> length (content s)"
  shows "\<exists>s'. io_ReadFull rd k s = (Ret (take k (content s)), s') \<and>
    advances (n - k) s (take k (content s)) s'"
  using read_more_some [OF assms, of "Suc k" "[]"] by (simp add: io_ReadFull_def)

lemma read_full_append:
  assumes "ok n s" "content s = bs @ rest" "length bs = k" "k \<le> n"
  shows "\<exists>s'. io_ReadFull rd k s = (Ret bs, s') \<and> advances (n - k) s bs s' \<and> content s' = rest"
proof -
  have "k \<le> length (content s)" using assms by simp
  then obtain s' where "io_ReadFull rd k s = (Ret (take k (content s)), s')"
      "advances (n - k) s (take k (content s)) s'"
    using read_full_some assms by blast
  moreover have "take k (content s) = bs" using assms by simp
  ultimately have *: "io_ReadFull rd k s = (Ret bs, s')" "advances (n - k) s bs s'" by simp_all
  then have "content s' = rest" using assms by (simp add: advances_def)
  with * show ?thesis by blast
qed

lemma read_full_short:
  assumes "ok n s" "k \<le> n" "length (content s) < k"
  shows "\<exists>s'. io_ReadFull rd k s =
      (Raise (if content s \<noteq> [] \<and> fin s = EOF then ErrUnexpectedEOF else fin s), s') \<and>
    advances (n - length (content s)) s (content s) s' \<and> content s' = []"
  using read_more_short [OF assms, of "Suc k" "[]"] by (simp add: io_ReadFull_def)

lemma discard_more_some:
  "\<lbrakk>ok n s; left \<le> n; left \<le> length (content s); left < fuel\<rbrakk> \<Longrightarrow>
     \<exists>s'. discard_more fuel rd left s = (Ret (), s') \<and>
       advances (n - left) s (take left (content s)) s'"
proof (induction fuel arbitrary: n s left)
  case 0
  then show ?case by simp
next
  case (Suc fuel)
  show ?case
  proof (cases "left = 0")
    case True
    with Suc.prems show ?thesis by (simp add: advances_refl)
  next
    case False
    with Suc.prems have "0 < min left 8192" "min left 8192 \<le> n" "content s \<noteq> []" by auto
    with Suc.prems obtain bs s1 where r: "rd (min left 8192) s = ((bs, None), s1)" "bs \<noteq> []"
        "length bs \<le> min left 8192" "content s = bs @ content s1" "fin s1 = fin s"
        "origin s1 = origin s" "ok (n - length bs) s1"
      using rd_some [of n s "min left 8192"] by blast
    from r(2) have pos: "0 < length bs" by simp
    have len: "length (content s) = length bs + length (content s1)" using r(4) by simp
    from Suc.prems r(3) pos len
    have "left - length bs \<le> n - length bs" "left - length bs \<le> length (content s1)"
         "left - length bs < fuel" by linarith+
    with r(7) obtain s' where
      s': "discard_more fuel rd (left - length bs) s1 = (Ret (), s')"
          "advances (n - length bs - (left - length bs)) s1
             (take (left - length bs) (content s1)) s'"
      using Suc.IH by blast
    have "advances (n - length bs) s bs s1" using r by (simp add: advances_def)
    then have "advances (n - length bs - (left - length bs)) s
        (bs @ take (left - length bs) (content s1)) s'"
      using s'(2) by (rule advances_trans)
    moreover have "n - length bs - (left - length bs) = n - left" using r(3) by simp
    moreover have "take left (content s) = bs @ take (left - length bs) (content s1)"
      using r(3,4) by simp
    ultimately have "advances (n - left) s (take left (content s)) s'" by simp
    with False r(1) s'(1) show ?thesis by simp
  qed
qed

lemma copyN_discard_append:
  assumes "ok n s" "content s = bs @ rest" "length bs = k" "k \<le> n"
  shows "\<exists>s'. io_CopyN_Discard rd k s = (Ret (), s') \<and> advances (n - k) s bs s' \<and>
    content s' = rest"
proof -
  have "k \<le> length (content s)" using assms by simp
  then obtain s' where "io_CopyN_Discard rd k s = (Ret (), s')"
      "advances (n - k) s (take k (content s)) s'"
    using discard_more_some [of n s k "Suc k"] assms by (auto simp: io_CopyN_Discard_def)
  moreover have "take k (content s) = bs" using assms by simp
  ultimately have *: "io_CopyN_Discard rd k s = (Ret (), s')" "advances (n - k) s bs s'" by simp_all
  then have "content s' = rest" using assms by (simp add: advances_def)
  with * show ?thesis by blast
qed

text \<open>\<open>polite k p\<close>: whatever the peer sends, \<open>p\<close> ends, reads at most \<open>k\<close> bytes and only moves
  forward in the stream, so a rewind can undo it. It composes along the sequencing.\<close>

definition polite :: "nat \<Rightarrow> ('s, 'a) proc \<Rightarrow> bool" where
  "polite k p \<longleftrightarrow> (\<forall>n s. ok n s \<longrightarrow> k \<le> n \<longrightarrow>
     fst (p s) \<noteq> Hang \<and> (\<exists>bs. advances (n - k) s bs (snd (p s))))"

lemma politeD:
  assumes "polite k p" "ok n s" "k \<le> n"
  shows "fst (p s) \<noteq> Hang" and "\<exists>bs. advances (n - k) s bs (snd (p s))"
  using assms by (auto simp: polite_def)

lemma polite_stay: "(\<And>s. snd (p s) = s) \<Longrightarrow> (\<And>s. fst (p s) \<noteq> Hang) \<Longrightarrow> polite k p"
  unfolding polite_def by (metis advances_refl diff_le_self ok_mono)

lemma polite_retp: "polite k (retp a)"
  by (rule polite_stay) (simp_all add: retp_def)

lemma polite_raise: "polite k (\<lambda>s. (Raise e, s))"
  by (rule polite_stay) simp_all

lemma polite_mono:
  assumes "polite j p" "j \<le> k"
  shows "polite k p"
  unfolding polite_def
proof (intro allI impI conjI)
  fix n s
  assume n: "ok n s" "k \<le> n"
  then have "j \<le> n" using assms(2) by linarith
  then show "fst (p s) \<noteq> Hang" using politeD(1) [OF assms(1) n(1)] by blast
  obtain bs where "advances (n - j) s bs (snd (p s))"
    using politeD(2) [OF assms(1) n(1) \<open>j \<le> n\<close>] by blast
  then show "\<exists>bs. advances (n - k) s bs (snd (p s))"
    using advances_le [of "n - j" s bs "snd (p s)" "n - k"] diff_le_mono2 [OF assms(2)]
    by blast
qed

lemma polite_wrap: "polite k p \<Longrightarrow> polite k (wrap_error f p)"
proof -
  have "snd (wrap_error f p s) = snd (p s) \<and> (fst (wrap_error f p s) = Hang \<longleftrightarrow> fst (p s) = Hang)" for s
    by (cases "p s"; cases "fst (p s)") simp_all
  then show "polite k p \<Longrightarrow> ?thesis" by (simp add: polite_def)
qed

lemma polite_bind:
  assumes "polite j m" "\<And>a. polite k (f a)"
  shows "polite (j + k) (bindp m f)"
  unfolding polite_def
proof (intro allI impI)
  fix n s
  assume n: "ok n s" "j + k \<le> n"
  then have jn: "j \<le> n" by simp
  obtain r s1 where m: "m s = (r, s1)" by fastforce
  obtain bs where bs: "advances (n - j) s bs s1"
    using politeD(2) [OF assms(1) n(1) jn] m by auto
  have low: "advances (n - (j + k)) s bs s1"
    by (rule advances_le [OF bs]) simp
  show "fst (bindp m f s) \<noteq> Hang \<and> (\<exists>bs. advances (n - (j + k)) s bs (snd (bindp m f s)))"
  proof (cases r)
    case (Ret a)
    have "ok (n - j) s1" "k \<le> n - j" using bs n(2) by (auto simp: advances_def)
    note f = politeD [OF assms(2) this, of a]
    then obtain cs where "advances (n - j - k) s1 cs (snd (f a s1))" by blast
    with bs have "advances (n - (j + k)) s (bs @ cs) (snd (f a s1))"
      using advances_trans by (simp add: diff_diff_left)
    then show ?thesis using m Ret f(1) by auto
  next
    case Hang
    then show ?thesis using politeD(1) [OF assms(1) n(1) jn] m by simp
  qed (use m low in auto)
qed

lemma polite_read_full: "polite k (io_ReadFull rd k)"
  unfolding polite_def
proof (intro allI impI)
  fix n s
  assume n: "ok n s" "k \<le> n"
  show "fst (io_ReadFull rd k s) \<noteq> Hang \<and> (\<exists>bs. advances (n - k) s bs (snd (io_ReadFull rd k s)))"
  proof (cases "k \<le> length (content s)")
    case True
    then show ?thesis using read_full_some [OF n] by auto
  next
    case False
    then obtain s' where *: "fst (io_ReadFull rd k s) \<noteq> Hang" "snd (io_ReadFull rd k s) = s'"
        "advances (n - length (content s)) s (content s) s'"
      using read_full_short [OF n] by auto
    have "advances (n - k) s (content s) s'"
      using False by (intro advances_le [OF *(3)]) simp
    with * show ?thesis by blast
  qed
qed

end

section \<open>The network and the rewinding reader keep the contract\<close>

lemma seg_ok_any: "seg_ok n s \<longleftrightarrow> seg_ok m s"
  by (simp add: seg_ok_def)

interpretation net: byte_reader seg_read seg_content fin_err "\<lambda>_. []" seg_ok
proof (unfold_locales, goal_cases)
  case (1 n s k)
  then obtain g gs where s: "segs s = g # gs" by (cases "segs s") (auto simp: seg_content_def)
  with 1 have "g \<noteq> []" by (simp add: seg_ok_def)
  with 1 s show ?case
    by (auto simp: seg_read_def seg_content_def seg_ok_def dest: in_set_dropD)
next
  case (2 n s k)
  then have "segs s = []" by (cases "segs s") (auto simp: seg_content_def seg_ok_def)
  with 2 show ?case by (simp add: seg_read_def seg_content_def seg_ok_def)
next
  case (3 n s m)
  then show ?case by (simp add: seg_ok_def)
qed

locale rewind_over = byte_reader

sublocale rewind_over \<subseteq> rw: byte_reader "RewindReader_Read rd" "rewind_content content"
    "rewind_fin fin" "rewind_origin content" "rewind_ok ok"
proof (unfold_locales, goal_cases)
  case (1 n r k)
  show ?case
  proof (cases "rewound r \<and> bufReadIdx r < length (buf r)")
    case True
    let ?bs = "take k (drop (bufReadIdx r) (buf r))"
    have "?bs \<noteq> []" using True 1 by simp
    moreover have "drop (bufReadIdx r) (buf r) =
        ?bs @ drop (bufReadIdx r + length ?bs) (buf r)"
      using take_drop_length_take [of k "drop (bufReadIdx r) (buf r)"]
      by (simp only: drop_drop add.commute)
    ultimately show ?thesis using True 1
      by (auto simp: RewindReader_Read_def rewind_content_def rewind_fin_def rewind_origin_def
          rewind_ok_def Let_def intro: ok_mono)
  next
    case False
    then have "content (rawReader r) \<noteq> []" and cont: "rewind_content content r = content (rawReader r)"
      using 1 by (auto simp: rewind_content_def split: if_splits)
    moreover have "ok n (rawReader r)" using 1 by (simp add: rewind_ok_def)
    ultimately obtain bs s' where r: "rd k (rawReader r) = ((bs, None), s')" "bs \<noteq> []"
        "length bs \<le> k" "content (rawReader r) = bs @ content s'" "fin s' = fin (rawReader r)"
        "ok (n - length bs) s'"
      using rd_some 1 by blast
    have "buffering r \<longrightarrow> length (buf r) + length bs \<le> max_rewind_buffer"
      using 1 r(3) by (auto simp: rewind_ok_def)
    with False r cont 1 show ?thesis
      by (auto simp: RewindReader_Read_def rewind_fin_def rewind_origin_def rewind_ok_def Let_def
          rewind_content_def)
  qed
next
  case (2 n r k)
  then have no: "\<not> (rewound r \<and> bufReadIdx r < length (buf r))"
    and "content (rawReader r) = []" "ok n (rawReader r)"
    by (auto simp: rewind_content_def rewind_ok_def split: if_splits)
  then obtain s' where "rd k (rawReader r) = (([], Some (fin (rawReader r))), s')"
      "content s' = []" "fin s' = fin (rawReader r)" "ok n s'"
    using rd_end 2 by blast
  with no \<open>content (rawReader r) = []\<close> 2 show ?case
    by (auto simp: RewindReader_Read_def rewind_fin_def rewind_origin_def rewind_ok_def Let_def
        rewind_content_def)
next
  case (3 n r m)
  then show ?case by (auto simp: rewind_ok_def intro: ok_mono)
qed

interpretation net_rw: rewind_over seg_read seg_content fin_err "\<lambda>_. []" seg_ok
  by unfold_locales

end
