(* ===== verification/Address_Codec.thy ===== *)
theory Address_Codec
  imports Byte_Reader Go_Net
begin

text \<open>
  \<open>tunnel/metadata.go\<close>: the address and metadata structures and their wire format, the
  SOCKS5-style ATYP encoding shared by every tunnel. Reading is written over an arbitrary
  reader and characterised in the reader locale, so each result holds for every way the
  network cuts the stream into segments.
\<close>

section \<open>Addresses\<close>

record address =
  DomainName :: string
  Port :: int
  NetworkType :: string
  IP :: bytes
  AddressType :: byte

definition ATYP_IPv4 :: byte where "ATYP_IPv4 = 1"
definition ATYP_DomainName :: byte where "ATYP_DomainName = 3"
definition ATYP_IPv6 :: byte where "ATYP_IPv6 = 4"

lemmas atyp_defs = ATYP_IPv4_def ATYP_DomainName_def ATYP_IPv6_def

definition zero_address :: address where
  "zero_address = \<lparr>DomainName = [], Port = 0, NetworkType = [], IP = [], AddressType = 0\<rparr>"

definition Address_String :: "address \<Rightarrow> string" where
  "Address_String a =
     (if AddressType a = ATYP_IPv4 then IP_String (IP a) @ '':'' @ dec_string (Port a)
      else if AddressType a = ATYP_IPv6 then ''['' @ IP_String (IP a) @ '']:'' @ dec_string (Port a)
      else if AddressType a = ATYP_DomainName then DomainName a @ '':'' @ dec_string (Port a)
      else ''INVALID_ADDRESS_TYPE'')"

text \<open>\<open>resolve\<close> is \<open>net.ResolveIPAddr\<close>, the system resolver.\<close>

definition ResolveIP :: "(string \<Rightarrow> bytes option) \<Rightarrow> address \<Rightarrow> bytes outcome \<times> address" where
  "ResolveIP resolve a =
     (if AddressType a = ATYP_IPv4 \<or> AddressType a = ATYP_IPv6 then (Ret (IP a), a)
      else if IP a \<noteq> [] then (Ret (IP a), a)
      else case resolve (DomainName a) of
        None \<Rightarrow> (Raise (Opaque ''lookup''), a)
      | Some ip \<Rightarrow> (Ret ip, a\<lparr>IP := ip\<rparr>))"

definition NewAddressFromHostPort :: "string \<Rightarrow> string \<Rightarrow> int \<Rightarrow> address" where
  "NewAddressFromHostPort network host port =
     (let ip = ParseIP host
      in if ip \<noteq> [] then
           (if IP_To4 ip \<noteq> [] then
              \<lparr>DomainName = [], Port = port, NetworkType = network, IP = ip, AddressType = ATYP_IPv4\<rparr>
            else
              \<lparr>DomainName = [], Port = port, NetworkType = network, IP = ip, AddressType = ATYP_IPv6\<rparr>)
         else
           \<lparr>DomainName = host, Port = port, NetworkType = network, IP = [],
            AddressType = ATYP_DomainName\<rparr>)"

definition NewAddressFromAddr :: "string \<Rightarrow> string \<Rightarrow> address outcome" where
  "NewAddressFromAddr network addr =
     (case SplitHostPort addr of
        None \<Rightarrow> Raise (Opaque ''SplitHostPort'')
      | Some (host, portStr) \<Rightarrow>
          (case ParseInt 32 portStr of
             None \<Rightarrow> Panic ''Must''
           | Some port \<Rightarrow> Ret (NewAddressFromHostPort network host port)))"

definition invalid_atyp :: "byte \<Rightarrow> go_error" where
  "invalid_atyp t = NewError (''invalid ATYP '' @ dec_string (uint t))"

definition Address_ReadFrom :: "'s reader \<Rightarrow> address \<Rightarrow> ('s, int \<times> address) proc" where
  "Address_ReadFrom rd a =
     bindp (wrap_error (\<lambda>e. Base (NewError ''unable to read ATYP'') (Some e)) (io_ReadFull rd 1))
       (\<lambda>b. let a1 = a\<lparr>AddressType := hd b\<rparr>
        in if hd b = ATYP_IPv4 then
             bindp (wrap_error (\<lambda>e. Base (NewError ''failed to read IPv4'') (Some e)) (io_ReadFull rd 6))
               (\<lambda>bf. retp (1 + 6, a1\<lparr>IP := take 4 bf, Port := uint (get_u16 (drop 4 bf))\<rparr>))
           else if hd b = ATYP_IPv6 then
             bindp (wrap_error (\<lambda>e. Base (NewError ''failed to read IPv6'') (Some e)) (io_ReadFull rd 18))
               (\<lambda>bf. retp (1 + 18, a1\<lparr>IP := take 16 bf, Port := uint (get_u16 (drop 16 bf))\<rparr>))
           else if hd b = ATYP_DomainName then
             bindp (wrap_error (\<lambda>_. NewError ''failed to read domain name length'') (io_ReadFull rd 1))
               (\<lambda>lb. let len = hd lb in
                bindp (wrap_error (\<lambda>_. NewError ''failed to read domain name'')
                         (io_ReadFull rd (unat (len + 2))))
                  (\<lambda>bf s. case go_slice 0 (unat len) bf of
                     Panic p \<Rightarrow> (Panic p, s)
                   | Ret host \<Rightarrow>
                       let ip = ParseIP (string_of host);
                           a2 = (if ip \<noteq> [] then
                                   a1\<lparr>IP := ip, AddressType :=
                                       (if IP_To4 ip \<noteq> [] then ATYP_IPv4 else ATYP_IPv6)\<rparr>
                                 else a1\<lparr>DomainName := string_of host\<rparr>)
                       in (case go_slice (unat len) (unat (len + 2)) bf of
                             Panic p \<Rightarrow> (Panic p, s)
                           | Ret pb \<Rightarrow>
                               (Ret (1 + 1 + (uint len + 2), a2\<lparr>Port := uint (get_u16 pb)\<rparr>), s)
                           | Raise e \<Rightarrow> (Raise e, s)
                           | Hang \<Rightarrow> (Hang, s))
                   | Raise e \<Rightarrow> (Raise e, s)
                   | Hang \<Rightarrow> (Hang, s)))
           else (\<lambda>s. (Raise (invalid_atyp (hd b)), s)))"

text \<open>\<open>WriteTo\<close>. The result of the write of the length byte is ignored, the others are not.\<close>

definition write_checked :: "'s writer \<Rightarrow> bytes \<Rightarrow> ('s, unit) proc" where
  "write_checked wr bs s =
     (case wr bs s of ((_, None), s') \<Rightarrow> (Ret (), s') | ((_, Some e), s') \<Rightarrow> (Raise e, s'))"

definition write_ignored :: "'s writer \<Rightarrow> bytes \<Rightarrow> ('s, unit) proc" where
  "write_ignored wr bs s = (Ret (), snd (wr bs s))"

definition Address_WriteTo :: "'s writer \<Rightarrow> address \<Rightarrow> ('s, int) proc" where
  "Address_WriteTo wr a =
     bindp (write_checked wr [AddressType a])
       (\<lambda>_. let tail = (\<lambda>addrLen. bindp (write_checked wr (put_u16 (word_of_int (Port a))))
                         (\<lambda>_. retp (1 + addrLen + 2)))
        in if AddressType a = ATYP_DomainName then
             bindp (write_ignored wr [of_nat (length (DomainName a))])
               (\<lambda>_. bindp (write_checked wr (bytes_of (DomainName a)))
                 (\<lambda>_. tail (1 + int (length (DomainName a)))))
           else if AddressType a = ATYP_IPv4 then
             bindp (write_checked wr (IP_To4 (IP a))) (\<lambda>_. tail 4)
           else if AddressType a = ATYP_IPv6 then
             bindp (write_checked wr (IP_To16 (IP a))) (\<lambda>_. tail 16)
           else (\<lambda>s. (Raise (invalid_atyp (AddressType a)), s)))"

section \<open>Metadata\<close>

record metadata =
  Command :: byte
  Address :: address

definition Metadata_ReadFrom :: "'s reader \<Rightarrow> ('s, int \<times> metadata) proc" where
  "Metadata_ReadFrom rd =
     bindp (io_ReadFull rd 1)
       (\<lambda>b. bindp (wrap_error (\<lambda>e. Base (NewError ''failed to marshal address'') (Some e))
                    (Address_ReadFrom rd zero_address))
         (\<lambda>(n, a). retp (1 + n, \<lparr>Command = hd b, Address = a\<rparr>)))"

text \<open>The address is encoded into a local buffer first; only a complete header reaches the
  writer. The call also sets the address's network type to \<open>tcp\<close>.\<close>

definition Metadata_WriteTo ::
  "'s writer \<Rightarrow> metadata \<Rightarrow> 's \<Rightarrow> (nat \<times> go_error option) outcome \<times> metadata \<times> 's" where
  "Metadata_WriteTo wr m s =
     (case Address_WriteTo buffer_write (Address m) [Command m] of
        (Ret _, b) \<Rightarrow>
          (let m' = m\<lparr>Address := (Address m)\<lparr>NetworkType := ''tcp''\<rparr>\<rparr>
           in case wr b s of (r, s') \<Rightarrow> (Ret r, m', s'))
      | (Raise e, _) \<Rightarrow> (Raise e, m, s)
      | (Panic p, _) \<Rightarrow> (Panic p, m, s)
      | (Hang, _) \<Rightarrow> (Hang, m, s))"

section \<open>What a buffer receives\<close>

text \<open>The encoding of an address as one byte list.\<close>

definition encode_address :: "address \<Rightarrow> bytes" where
  "encode_address a =
     AddressType a #
     (if AddressType a = ATYP_DomainName then
        of_nat (length (DomainName a)) # bytes_of (DomainName a)
      else if AddressType a = ATYP_IPv4 then IP_To4 (IP a)
      else IP_To16 (IP a)) @ put_u16 (word_of_int (Port a))"

definition valid_atyp :: "byte \<Rightarrow> bool" where
  "valid_atyp t \<longleftrightarrow> t = ATYP_DomainName \<or> t = ATYP_IPv4 \<or> t = ATYP_IPv6"

lemma write_checked_buffer [simp]: "write_checked buffer_write bs w = (Ret (), w @ bs)"
  by (simp add: write_checked_def buffer_write_def)

lemma write_ignored_buffer [simp]: "write_ignored buffer_write bs w = (Ret (), w @ bs)"
  by (simp add: write_ignored_def buffer_write_def)

lemma Address_WriteTo_buffer:
  "Address_WriteTo buffer_write a w =
     (if valid_atyp (AddressType a) then
        (Ret (if AddressType a = ATYP_DomainName then 1 + (1 + int (length (DomainName a))) + 2
              else if AddressType a = ATYP_IPv4 then 1 + 4 + 2 else 1 + 16 + 2),
         w @ encode_address a)
      else (Raise (invalid_atyp (AddressType a)), w @ [AddressType a]))"
  by (simp add: Address_WriteTo_def encode_address_def valid_atyp_def Let_def atyp_defs)

text \<open>The addresses the wire format can carry: a host name of at most 253 bytes that is not
  itself an IP literal, or a 4- or 16-byte IP, and a 16-bit port.\<close>

definition wire_address :: "address \<Rightarrow> bool" where
  "wire_address a \<longleftrightarrow> 0 \<le> Port a \<and> Port a < 65536 \<and>
     (if AddressType a = ATYP_DomainName then
        length (DomainName a) \<le> 253 \<and> ParseIP (DomainName a) = [] \<and> IP a = []
      else if AddressType a = ATYP_IPv4 then length (IP a) = 4 \<and> DomainName a = []
      else AddressType a = ATYP_IPv6 \<and> length (IP a) = 16 \<and> DomainName a = [])"

lemma wire_address_valid: "wire_address a \<Longrightarrow> valid_atyp (AddressType a)"
  by (auto simp: wire_address_def valid_atyp_def split: if_splits)

lemma port_roundtrip: "0 \<le> p \<Longrightarrow> p < 65536 \<Longrightarrow> uint (word_of_int p :: u16) = p"
  by (simp add: uint_word_of_int)

lemma unat_len_plus2: "n \<le> 253 \<Longrightarrow> unat (of_nat n + 2 :: byte) = n + 2"
  by (simp add: unat_word_ariths unat_of_nat)

lemma unat_len: "n \<le> 255 \<Longrightarrow> unat (of_nat n :: byte) = n"
  by (simp add: unat_of_nat)

lemma unat_plus2:
  "unat (len + 2 :: byte) = (if unat len \<le> 253 then unat len + 2 else unat len - 254)"
proof -
  have lt: "unat len < 256" using unat_byte_less [of len] by simp
  have eq: "unat (len + 2) = (unat len + 2) mod 256"
    by (simp add: unat_word_ariths)
  show ?thesis
  proof (cases "unat len \<le> 253")
    case True
    then show ?thesis using eq by simp
  next
    case False
    with lt have "unat len + 2 = 256 + (unat len - 254)" "unat len - 254 < 256" by linarith+
    then have "(unat len + 2) mod 256 = unat len - 254" by (metis mod_add_self1 mod_less)
    with False eq show ?thesis by simp
  qed
qed

lemma length_encode_address:
  "wire_address a \<Longrightarrow> length (encode_address a) \<le> 257"
  by (auto simp: wire_address_def encode_address_def IP_To4_def IP_To16_def atyp_defs
      split: if_splits)

section \<open>Reading, for every segmentation\<close>

context byte_reader
begin

lemma read_byte:
  assumes "ok n s" "1 \<le> n" "content s = b # rest"
  shows "\<exists>s'. io_ReadFull rd 1 s = (Ret [b], s') \<and> advances (n - 1) s [b] s' \<and> content s' = rest"
  using read_full_append [OF assms(1), of "[b]" rest 1] assms by simp

lemma ReadFrom_IP:
  assumes "ok n s" "(t, w) = (ATYP_IPv4, 4) \<or> (t, w) = (ATYP_IPv6, 16)"
    "content s = t # ip @ put_u16 p @ rest" "length ip = w" "w + 3 \<le> n"
  shows "\<exists>s'. Address_ReadFrom rd a s =
      (Ret (int w + 3, a\<lparr>AddressType := t, IP := ip, Port := uint p\<rparr>), s') \<and>
    advances (n - (w + 3)) s (t # ip @ put_u16 p) s' \<and> content s' = rest"
proof -
  obtain s1 where s1: "io_ReadFull rd 1 s = (Ret [t], s1)" "advances (n - 1) s [t] s1"
      "content s1 = ip @ put_u16 p @ rest"
    using read_byte [OF assms(1) _ assms(3)] assms(5) by auto
  have "ok (n - 1) s1" using s1(2) by (simp add: advances_def)
  moreover have "w + 2 \<le> n - 1" using assms(5) by arith
  ultimately obtain s2 where s2: "io_ReadFull rd (w + 2) s1 = (Ret (ip @ put_u16 p), s2)"
      "advances (n - 1 - (w + 2)) s1 (ip @ put_u16 p) s2" "content s2 = rest"
    using read_full_append [of "n - 1" s1 "ip @ put_u16 p" rest "w + 2"] s1(3) assms(4) by auto
  have "advances (n - 1 - (w + 2)) s ([t] @ ip @ put_u16 p) s2"
    using s1(2) s2(2) by (rule advances_trans)
  then have "advances (n - (w + 3)) s (t # ip @ put_u16 p) s2" by (simp add: numeral_eq_Suc)
  moreover have "get_u16 (put_u16 p) = p" using get_put_u16 [of p "[]"] by simp
  ultimately show ?thesis
    using s1(1) s2(1,3) assms(2,4)
    by (auto simp: Address_ReadFrom_def Let_def atyp_defs)
qed

lemma ReadFrom_domain_bytes:
  assumes "ok n s" "content s = ATYP_DomainName # len # bf @ rest"
    "length bf = unat (len + 2)" "unat (len + 2) + 2 \<le> n"
  shows "\<exists>s2. advances (n - (unat (len + 2) + 2)) s (ATYP_DomainName # len # bf) s2 \<and>
    content s2 = rest \<and>
    Address_ReadFrom rd a s =
      (if unat len \<le> 253 then
         (let host = take (unat len) bf; ip = ParseIP (string_of host);
              a1 = a\<lparr>AddressType := ATYP_DomainName\<rparr>;
              a2 = (if ip \<noteq> [] then
                      a1\<lparr>IP := ip, AddressType :=
                        (if IP_To4 ip \<noteq> [] then ATYP_IPv4 else ATYP_IPv6)\<rparr>
                    else a1\<lparr>DomainName := string_of host\<rparr>)
          in Ret (uint len + 4, a2\<lparr>Port := uint (get_u16 (drop (unat len) bf))\<rparr>))
       else Panic ''slice bounds out of range'', s2)"
proof -
  obtain s0 where s0: "io_ReadFull rd 1 s = (Ret [ATYP_DomainName], s0)"
      "advances (n - 1) s [ATYP_DomainName] s0" "content s0 = len # bf @ rest"
    using read_byte [OF assms(1) _ assms(2)] assms(4) by auto
  have "ok (n - 1) s0" using s0(2) by (simp add: advances_def)
  moreover have "1 \<le> n - 1" using assms(4) by arith
  ultimately obtain s1 where s1: "io_ReadFull rd 1 s0 = (Ret [len], s1)"
      "advances (n - 1 - 1) s0 [len] s1" "content s1 = bf @ rest"
    using read_byte [of "n - 1" s0 len] s0(3) by auto
  have "ok (n - 1 - 1) s1" using s1(2) by (simp add: advances_def)
  moreover have "unat (len + 2) \<le> n - 1 - 1" using assms(4) by arith
  ultimately obtain s2 where s2: "io_ReadFull rd (unat (len + 2)) s1 = (Ret bf, s2)"
      "advances (n - 1 - 1 - unat (len + 2)) s1 bf s2" "content s2 = rest"
    using read_full_append [of "n - 1 - 1" s1 bf rest] s1(3) assms(3) by auto
  have "advances (n - 1 - 1 - unat (len + 2)) s (([ATYP_DomainName] @ [len]) @ bf) s2"
    by (rule advances_trans [OF advances_trans [OF s0(2) s1(2)] s2(2)])
  then have adv: "advances (n - (unat (len + 2) + 2)) s (ATYP_DomainName # len # bf) s2"
    by (simp add: numeral_eq_Suc)
  have wrap: "unat (len + 2) = (if unat len \<le> 253 then unat len + 2 else unat len - 254)"
    by (rule unat_plus2)
  have "Address_ReadFrom rd a s =
      (if unat len \<le> 253 then
         (let host = take (unat len) bf; ip = ParseIP (string_of host);
              a1 = a\<lparr>AddressType := ATYP_DomainName\<rparr>;
              a2 = (if ip \<noteq> [] then
                      a1\<lparr>IP := ip, AddressType :=
                        (if IP_To4 ip \<noteq> [] then ATYP_IPv4 else ATYP_IPv6)\<rparr>
                    else a1\<lparr>DomainName := string_of host\<rparr>)
          in Ret (uint len + 4, a2\<lparr>Port := uint (get_u16 (drop (unat len) bf))\<rparr>))
       else Panic ''slice bounds out of range'', s2)"
  proof (cases "unat len \<le> 253")
    case True
    with wrap assms(3) have "unat (len + 2) = unat len + 2" "length bf = unat len + 2" by simp_all
    with True s0(1) s1(1) s2(1) show ?thesis
      by (simp add: Address_ReadFrom_def Let_def atyp_defs)
  next
    case False
    with wrap assms(3) have "length bf < unat len"
      using unat_byte_less [of len] by simp
    with False s0(1) s1(1) s2(1) show ?thesis
      by (simp add: Address_ReadFrom_def Let_def atyp_defs go_slice_def)
  qed
  with adv s2(3) show ?thesis by blast
qed

lemma ReadFrom_encode:
  assumes "ok n s" "wire_address a" "content s = encode_address a @ rest" "257 \<le> n"
    and that: "DomainName b = []" "IP b = []"
  shows "\<exists>s' m. Address_ReadFrom rd b s = (Ret (int m, a\<lparr>NetworkType := NetworkType b\<rparr>), s') \<and>
    m = length (encode_address a) \<and> advances (n - m) s (encode_address a) s' \<and> content s' = rest"
proof (cases "AddressType a = ATYP_DomainName")
  case True
  let ?len = "of_nat (length (DomainName a)) :: byte"
  let ?bf = "bytes_of (DomainName a) @ put_u16 (word_of_int (Port a))"
  have len: "length (DomainName a) \<le> 253" and noip: "ParseIP (DomainName a) = []" "IP a = []"
    and port: "0 \<le> Port a" "Port a < 65536"
    using assms(2) True by (auto simp: wire_address_def)
  have c: "content s = ATYP_DomainName # ?len # ?bf @ rest"
    using assms(3) True by (simp add: encode_address_def)
  have u: "unat ?len = length (DomainName a)" "unat (?len + 2) = length (DomainName a) + 2"
    using len by (simp_all add: unat_len unat_len_plus2)
  obtain s2 where s2: "advances (n - (unat (?len + 2) + 2)) s (ATYP_DomainName # ?len # ?bf) s2"
     "content s2 = rest"
     "Address_ReadFrom rd b s = (Ret (uint ?len + 4,
        b\<lparr>AddressType := ATYP_DomainName, DomainName := DomainName a, Port := Port a\<rparr>), s2)"
    using ReadFrom_domain_bytes [OF assms(1) c, of b] u len noip port assms(4)
      get_put_u16 [of "word_of_int (Port a)" "[]"]
    by (auto simp: Let_def port_roundtrip)
  have "b\<lparr>AddressType := ATYP_DomainName, DomainName := DomainName a, Port := Port a\<rparr>
      = a\<lparr>NetworkType := NetworkType b\<rparr>"
    using True noip that by (cases a, cases b) simp
  moreover have "uint ?len + 4 = int (length (encode_address a))"
    using True u(1) by (simp add: encode_address_def uint_nat)
  moreover have "ATYP_DomainName # ?len # ?bf = encode_address a"
    using True by (simp add: encode_address_def)
  moreover have "unat (?len + 2) + 2 = length (encode_address a)"
    using True u by (simp add: encode_address_def)
  ultimately show ?thesis using s2 by auto
next
  case False
  define w where "w = (if AddressType a = ATYP_IPv4 then 4 else 16 :: nat)"
  have t: "(AddressType a, w) = (ATYP_IPv4, 4) \<or> (AddressType a, w) = (ATYP_IPv6, 16)"
    and ip: "length (IP a) = w" "DomainName a = []"
    and port: "0 \<le> Port a" "Port a < 65536"
    using assms(2) False by (auto simp: wire_address_def w_def split: if_splits)
  have enc: "encode_address a = AddressType a # IP a @ put_u16 (word_of_int (Port a))"
    using False t ip
    by (auto simp: encode_address_def IP_To4_def IP_To16_def atyp_defs)
  have c: "content s = AddressType a # IP a @ put_u16 (word_of_int (Port a)) @ rest"
    using assms(3) enc by simp
  have wn: "w + 3 \<le> n" using assms(4) by (simp add: w_def)
  obtain s2 where s2: "Address_ReadFrom rd b s = (Ret (int w + 3,
        b\<lparr>AddressType := AddressType a, IP := IP a, Port := Port a\<rparr>), s2)"
     "advances (n - (w + 3)) s (encode_address a) s2" "content s2 = rest"
    using ReadFrom_IP [OF assms(1) t c ip(1) wn, of b] port enc by (auto simp: port_roundtrip)
  have "b\<lparr>AddressType := AddressType a, IP := IP a, Port := Port a\<rparr>
      = a\<lparr>NetworkType := NetworkType b\<rparr>"
    using ip that by (cases a, cases b) simp
  moreover have "w + 3 = length (encode_address a)" using enc ip by simp
  ultimately show ?thesis using s2 by (auto simp: algebra_simps)
qed

lemma Metadata_ReadFrom_encode:
  assumes "ok n s" "wire_address a" "content s = c # encode_address a @ rest" "258 \<le> n"
  shows "\<exists>s' m. Metadata_ReadFrom rd s =
      (Ret (int m, \<lparr>Command = c, Address = a\<lparr>NetworkType := []\<rparr>\<rparr>), s') \<and>
    m = Suc (length (encode_address a)) \<and>
    advances (n - m) s (c # encode_address a) s' \<and> content s' = rest"
proof -
  obtain s1 where s1: "io_ReadFull rd 1 s = (Ret [c], s1)" "advances (n - 1) s [c] s1"
      "content s1 = encode_address a @ rest"
    using read_byte [OF assms(1) _ assms(3)] assms(4) by auto
  have "ok (n - 1) s1" using s1(2) by (simp add: advances_def)
  moreover have "257 \<le> n - 1" using assms(4) by arith
  ultimately obtain s2 where s2: "Address_ReadFrom rd zero_address s1 =
        (Ret (int (length (encode_address a)), a\<lparr>NetworkType := []\<rparr>), s2)"
      "advances (n - 1 - length (encode_address a)) s1 (encode_address a) s2" "content s2 = rest"
    using ReadFrom_encode [of "n - 1" s1 a rest zero_address] assms(2) s1(3)
    by (auto simp: zero_address_def)
  have "advances (n - 1 - length (encode_address a)) s ([c] @ encode_address a) s2"
    using s1(2) s2(2) by (rule advances_trans)
  then show ?thesis using s1(1) s2(1,3) by (simp add: Metadata_ReadFrom_def)
qed

text \<open>On any input, the parsers end and read at most 257 and 258 bytes.\<close>

lemma polite_Address_ReadFrom: "polite 257 (Address_ReadFrom rd a)"
proof -
  have dom: "polite 256 (bindp (wrap_error f (io_ReadFull rd (Suc 0)))
      (\<lambda>lb. bindp (wrap_error g (io_ReadFull rd (unat (hd lb + 2)))) (h lb)))"
    if "\<And>lb bf s. snd (h lb bf s) = s \<and> fst (h lb bf s) \<noteq> Hang" for f g and h :: "_ \<Rightarrow> _ \<Rightarrow> (_, int \<times> address) proc"
  proof -
    have "polite (255 + 0) (bindp (wrap_error g (io_ReadFull rd (unat (hd lb + 2)))) (h lb))" for lb
      using unat_byte_less [of "hd lb + 2"] that
      by (intro polite_bind polite_wrap polite_mono [OF polite_read_full] polite_stay) auto
    then have "polite (1 + 255) (bindp (wrap_error f (io_ReadFull rd (Suc 0)))
        (\<lambda>lb. bindp (wrap_error g (io_ReadFull rd (unat (hd lb + 2)))) (h lb)))"
      by (intro polite_bind polite_wrap polite_mono [OF polite_read_full]) auto
    then show ?thesis by simp
  qed
  have ip: "polite 256 (bindp (wrap_error f (io_ReadFull rd k)) (\<lambda>bf. retp (h bf)))"
    if "k \<le> 18" for f k and h :: "_ \<Rightarrow> int \<times> address"
    using that polite_bind [OF polite_wrap [OF polite_read_full] polite_retp, of k 0 f h]
    by (auto intro: polite_mono)
  have "polite (1 + 256) (Address_ReadFrom rd a)"
    unfolding Address_ReadFrom_def Let_def
    apply (rule polite_bind)
     apply (simp add: polite_wrap polite_read_full)
    apply (simp add: ip polite_raise)
    apply (intro impI dom)
    apply (auto simp: go_slice_def)
    done
  then show ?thesis by simp
qed

lemma polite_Metadata_ReadFrom: "polite 258 (Metadata_ReadFrom rd)"
proof -
  have "polite (1 + (257 + 0)) (Metadata_ReadFrom rd)"
    unfolding Metadata_ReadFrom_def
    by (intro polite_bind polite_read_full polite_wrap polite_Address_ReadFrom)
      (auto simp: polite_retp split: prod.splits)
  then show ?thesis by simp
qed

end

section \<open>Properties\<close>


definition sample_domain :: address where
  "sample_domain = \<lparr>DomainName = ''example.com'', Port = 443, NetworkType = ''tcp'', IP = [],
     AddressType = ATYP_DomainName\<rparr>"

definition sample_domain_wire :: bytes where
  "sample_domain_wire = [3, 11, 101, 120, 97, 109, 112, 108, 101, 46, 99, 111, 109, 1, 187]"

lemma sample_domain_wire_address: "wire_address sample_domain"
  by (simp add: wire_address_def sample_domain_def atyp_defs ParseIP_def parse_ipv4_def
      is_digit_def code_def)

lemma sample_domain_encoded:
  "Address_WriteTo buffer_write sample_domain [] = (Ret 15, sample_domain_wire)"
  by (simp add: Address_WriteTo_buffer sample_domain_def sample_domain_wire_def encode_address_def
      valid_atyp_def atyp_defs bytes_of_def put_u16_def)


text \<open>The length byte of a domain name is added to 2 in eight bits. For the lengths 254 and
  255 the buffer is 0 or 1 bytes long, and slicing the host name out of it panics: any peer that
  can make the process parse an address can crash it, whatever the segmentation.\<close>

theorem address_long_domain_panics:
  assumes "seg_ok 0 s" "seg_content s = [ATYP_DomainName, len] @ bf @ rest" "254 \<le> unat len"
    "length bf = unat (len + 2)"
  shows "fst (Address_ReadFrom seg_read a s) = Panic ''slice bounds out of range''"
proof -
  have "seg_ok 300 s" using assms(1) by (simp add: seg_ok_def)
  moreover have "unat (len + 2) + 2 \<le> 300" using unat_byte_less [of "len + 2"] by simp
  ultimately show ?thesis
    using net.ReadFrom_domain_bytes [of 300 s len bf rest a] assms by auto
qed

theorem address_long_domain_panics_witness:
  "fst (Address_ReadFrom seg_read zero_address \<lparr>segs = [[3, 255], [65, 66]], fin_err = EOF\<rparr>)
     = Panic ''slice bounds out of range''"
  by (rule address_long_domain_panics [where len = 255 and bf = "[65]" and rest = "[66]"])
    (simp_all add: seg_ok_def seg_content_def atyp_defs)

end
