(* ===== verification/Geodata.thy ===== *)
theory Geodata
  imports Go_Net "HOL-Library.AList"
begin

text \<open>
  \<open>common/geodata\<close>: the scanner of \<open>decode.go\<close> that finds one country or site list in a protobuf file
  without decoding the rest, and the cache of \<open>cache.go\<close> above it. The decoder functions of the
  protobuf library (\<open>protowire.ConsumeVarint\<close> and \<open>proto.Unmarshal\<close>) are parameters; the file is its
  content. The scanner's loop runs on fuel: a run that never returns is \<open>Hang\<close> for every amount.
\<close>

section \<open>The scanner\<close>

definition ErrFailedToReadExpectedLenBytes :: go_error where
  "ErrFailedToReadExpectedLenBytes = Opaque ''failed to read expected length of bytes''"

definition ErrInvalidGeodataFile :: go_error where
  "ErrInvalidGeodataFile = Opaque ''invalid geodata file''"

definition ErrInvalidGeodataVarintLength :: go_error where
  "ErrInvalidGeodataVarintLength = Opaque ''invalid geodata varint length''"

definition ErrCodeNotFound :: go_error where
  "ErrCodeNotFound = Opaque ''code not found''"

lemmas geo_errors = ErrFailedToReadExpectedLenBytes_def ErrInvalidGeodataFile_def
  ErrInvalidGeodataVarintLength_def ErrCodeNotFound_def

text \<open>\<open>strings.EqualFold\<close> on ASCII strings, which the codes of these files are.\<close>

definition EqualFold :: "string \<Rightarrow> string \<Rightarrow> bool" where
  "EqualFold s t \<longleftrightarrow> ascii_lower s = ascii_lower t"

record emit_state =
  em_pos :: nat
  em_count :: nat
  em_isInner :: bool
  em_temp :: bytes
  em_advancedN :: u64
  em_geoLen :: u64
  em_codeLen :: u64
  em_lenLen :: u64

text \<open>The largest slice \<open>make\<close> accepts on a 64-bit system.\<close>

definition maxAlloc :: int where
  "maxAlloc = 2 ^ 48"

text \<open>\<open>Seek\<close> from the current position; a negative target is an error the code ignores.\<close>

definition seek :: "int \<Rightarrow> nat \<Rightarrow> nat" where
  "seek offset pos = (if int pos + offset < 0 then pos else nat (int pos + offset))"

definition emit_value :: "string \<Rightarrow> bytes \<Rightarrow> emit_state \<Rightarrow> emit_state" where
  "emit_value want container st =
     (if EqualFold (string_of container) want then
        st\<lparr>em_count := em_count st + 1,
          em_pos := seek (- wrap64 (1 + uint (em_lenLen st) + uint (em_codeLen st))) (em_pos st),
          em_advancedN := em_geoLen st\<rparr>
      else
        st\<lparr>em_count := 1,
          em_pos := seek (wrap64 (uint (em_geoLen st) - uint (em_codeLen st) - uint (em_lenLen st) - 1)) (em_pos st),
          em_advancedN := 1\<rparr>)"

definition emit_length :: "(bytes \<Rightarrow> u64 \<times> int) \<Rightarrow> bytes \<Rightarrow> emit_state \<Rightarrow> bytes outcome + emit_state" where
  "emit_length ConsumeVarint container st =
     (let temp = em_temp st @ container in
      if hd container > 127 then Inr (st\<lparr>em_temp := temp, em_advancedN := 1\<rparr>)
      else
        let (lenVarint, n) = ConsumeVarint temp in
        if n < 0 then Inl (Raise ErrInvalidGeodataVarintLength)
        else if \<not> em_isInner st then
          Inr (st\<lparr>em_temp := [], em_isInner := True, em_geoLen := lenVarint, em_advancedN := 1, em_count := em_count st + 1\<rparr>)
        else
          Inr (st\<lparr>em_temp := [], em_isInner := False, em_codeLen := lenVarint, em_lenLen := word_of_int n,
                 em_advancedN := lenVarint, em_count := em_count st + 1\<rparr>))"

text \<open>One round of the loop: the result, or the state of the next round.\<close>

definition emit_step :: "(bytes \<Rightarrow> u64 \<times> int) \<Rightarrow> bytes \<Rightarrow> string \<Rightarrow> emit_state \<Rightarrow> bytes outcome + emit_state" where
  "emit_step ConsumeVarint f want st =
     (let n = unat (em_advancedN st); container = take n (drop (em_pos st) f) in
      if int n > maxAlloc then Inl (Panic ''makeslice: len out of range'')
      else if n > 0 \<and> em_pos st \<ge> length f then Inl (Raise ErrCodeNotFound)
      else if length container \<noteq> n then Inl (Raise ErrFailedToReadExpectedLenBytes)
      else
        let st1 = st\<lparr>em_pos := em_pos st + n\<rparr> in
        if em_count st = 1 \<or> em_count st = 3 then
          (if hd container \<noteq> 10 then Inl (Raise ErrInvalidGeodataFile)
           else Inr (st1\<lparr>em_advancedN := 1, em_count := em_count st + 1\<rparr>))
        else if em_count st = 2 \<or> em_count st = 4 then emit_length ConsumeVarint container st1
        else if em_count st = 5 then Inr (emit_value want container st1)
        else Inl (Ret container))"

fun emit_run :: "(bytes \<Rightarrow> u64 \<times> int) \<Rightarrow> bytes \<Rightarrow> string \<Rightarrow> nat \<Rightarrow> emit_state \<Rightarrow> bytes outcome" where
  "emit_run cv f want 0 st = Hang"
| "emit_run cv f want (Suc fuel) st =
     (case emit_step cv f want st of Inl r \<Rightarrow> r | Inr st' \<Rightarrow> emit_run cv f want fuel st')"

definition emit_start :: emit_state where
  "emit_start = \<lparr>em_pos = 0, em_count = 1, em_isInner = False, em_temp = [], em_advancedN = 1, em_geoLen = 0,
     em_codeLen = 0, em_lenLen = 0\<rparr>"

definition EmitBytes :: "(bytes \<Rightarrow> u64 \<times> int) \<Rightarrow> nat \<Rightarrow> bytes \<Rightarrow> string \<Rightarrow> bytes outcome" where
  "EmitBytes cv fuel f want = emit_run cv f want fuel emit_start"

definition Decode :: "(bytes \<Rightarrow> u64 \<times> int) \<Rightarrow> nat \<Rightarrow> bytes option \<Rightarrow> string \<Rightarrow> bytes outcome" where
  "Decode cv fuel file want =
     (case file of None \<Rightarrow> Raise (Opaque ''open'') | Some f \<Rightarrow> EmitBytes cv fuel f want)"

section \<open>The cache\<close>

text \<open>The generated decoders of the protobuf library for one list and for a whole file, and its varint decoder.\<close>

record 'a proto =
  pb_varint :: "bytes \<Rightarrow> u64 \<times> int"
  pb_entry :: "bytes \<Rightarrow> 'a option"
  pb_list :: "bytes \<Rightarrow> (string \<times> 'a) list option"

type_synonym 'a geo_cache = "(string \<times> 'a) list"

definition cache_Get :: "string \<Rightarrow> 'a geo_cache \<Rightarrow> 'a option" where
  "cache_Get key c = map_of c key"

definition cache_Set :: "string \<Rightarrow> 'a \<Rightarrow> 'a geo_cache \<Rightarrow> 'a geo_cache" where
  "cache_Set key v c = AList.update key v c"

definition not_found :: "string \<Rightarrow> go_error" where
  "not_found want = NewError (''list '' @ want @ '' not found'')"

text \<open>\<open>geoipCache.Unmarshal\<close> and \<open>geositeCache.Unmarshal\<close>, which differ in the type of the entry. \<open>asset\<close>
  is the location of the file and \<open>read\<close> its content there.\<close>

definition geo_Unmarshal ::
  "'a proto \<Rightarrow> nat \<Rightarrow> (string \<Rightarrow> bytes option) \<Rightarrow> string \<Rightarrow> string \<Rightarrow> 'a geo_cache \<Rightarrow> 'a outcome \<times> 'a geo_cache" where
  "geo_Unmarshal pb fuel read asset want c =
     (let idx = ascii_lower (asset @ '':'' @ want) in
      case cache_Get idx c of
        Some entry \<Rightarrow> (Ret entry, c)
      | None \<Rightarrow>
          (case Decode (pb_varint pb) fuel (read asset) want of
             Ret bs \<Rightarrow>
               (case pb_entry pb bs of
                  None \<Rightarrow> (Raise (Opaque ''proto: cannot parse''), c)
                | Some e \<Rightarrow> (Ret e, cache_Set idx e c))
           | Raise err \<Rightarrow>
               if err = ErrCodeNotFound then (Raise (not_found want), c)
               else if err = ErrFailedToReadExpectedLenBytes \<or> err = ErrInvalidGeodataFile \<or> err = ErrInvalidGeodataVarintLength then
                 (case read asset of
                    None \<Rightarrow> (Raise (Opaque ''open''), c)
                  | Some bs \<Rightarrow>
                      (case pb_list pb bs of
                         None \<Rightarrow> (Raise (Opaque ''proto: cannot parse''), c)
                       | Some es \<Rightarrow>
                           (case find (\<lambda>e. EqualFold want (fst e)) es of
                              Some e \<Rightarrow> (Ret (snd e), cache_Set idx (snd e) c)
                            | None \<Rightarrow> (Raise (not_found want), c))))
               else (Raise err, c)
           | Panic p \<Rightarrow> (Panic p, c)
           | Hang \<Rightarrow> (Hang, c)))"

section \<open>Well-formed files\<close>

text \<open>The wire format: a base-128 varint, and an entry whose first field is its code.\<close>

fun varint :: "nat \<Rightarrow> bytes" where
  "varint n = (if n < 128 then [of_nat n] else of_nat (n mod 128 + 128) # varint (n div 128))"

declare varint.simps [simp del]

record geo_entry =
  ge_code :: string
  ge_rest :: bytes

definition entry_body :: "geo_entry \<Rightarrow> bytes" where
  "entry_body e = 10 # varint (length (ge_code e)) @ bytes_of (ge_code e) @ ge_rest e"

definition geo_file :: "geo_entry list \<Rightarrow> bytes" where
  "geo_file es = concat (map (\<lambda>e. 10 # varint (length (entry_body e)) @ entry_body e) es)"

definition small_file :: "bytes \<Rightarrow> bool" where
  "small_file f \<longleftrightarrow> int (length f) < maxAlloc"

text \<open>What the code relies on of \<open>ConsumeVarint\<close>: it decodes an encoded length and returns the number of
  bytes it took.\<close>

definition varint_decoder :: "(bytes \<Rightarrow> u64 \<times> int) \<Rightarrow> bool" where
  "varint_decoder cv \<longleftrightarrow> (\<forall>n. int n < maxAlloc \<longrightarrow> cv (varint n) = (of_nat n, int (length (varint n))))"

section \<open>Runs of the scanner\<close>

definition settles ::
  "(bytes \<Rightarrow> u64 \<times> int) \<Rightarrow> bytes \<Rightarrow> string \<Rightarrow> emit_state \<Rightarrow> bytes outcome \<Rightarrow> bool" where
  "settles cv f want st r \<longleftrightarrow> (\<exists>N. \<forall>fuel \<ge> N. emit_run cv f want fuel st = r)"

lemma settles_step:
  assumes "emit_step cv f want st = Inr st'" "settles cv f want st' r"
  shows "settles cv f want st r"
proof -
  obtain N where N: "\<forall>fuel \<ge> N. emit_run cv f want fuel st' = r" using assms(2) by (auto simp: settles_def)
  have "emit_run cv f want fuel st = r" if "Suc N \<le> fuel" for fuel
    using that N assms(1) by (cases fuel) auto
  then show ?thesis unfolding settles_def by blast
qed

lemma settles_done:
  assumes "emit_step cv f want st = Inl r"
  shows "settles cv f want st r"
proof -
  have "emit_run cv f want fuel st = r" if "1 \<le> fuel" for fuel
    using that assms by (cases fuel) auto
  then show ?thesis unfolding settles_def by blast
qed

text \<open>A round that reads one byte.\<close>

lemma byte_round:
  assumes "em_advancedN st = 1" "drop (em_pos st) f = b # rest"
  shows "emit_step cv f want st =
    (let st1 = st\<lparr>em_pos := em_pos st + 1\<rparr> in
     if em_count st = 1 \<or> em_count st = 3 then
       (if b \<noteq> 10 then Inl (Raise ErrInvalidGeodataFile)
        else Inr (st1\<lparr>em_advancedN := 1, em_count := em_count st + 1\<rparr>))
     else if em_count st = 2 \<or> em_count st = 4 then emit_length cv [b] st1
     else if em_count st = 5 then Inr (emit_value want [b] st1)
     else Inl (Ret [b]))"
proof -
  have "em_pos st < length f" using assms(2) by (metis drop_all list.distinct(1) not_le_imp_less)
  then show ?thesis using assms by (simp add: emit_step_def Let_def maxAlloc_def)
qed

lemma drop_step: "drop n f = x # rest \<Longrightarrow> drop (Suc n) f = rest"
  by (metis drop_Suc list.sel(3) tl_drop)

lemma settles_length:
  assumes "\<forall>x \<in> set xs. x > 127" "\<not> y > (127 :: byte)"
    "em_advancedN st = 1" "em_count st = 2 \<or> em_count st = 4" "drop (em_pos st) f = xs @ y # rest"
    "emit_length cv [y] (st\<lparr>em_pos := em_pos st + length xs + 1, em_temp := em_temp st @ xs\<rparr>) = Inr st'"
    "settles cv f want st' r"
  shows "settles cv f want st r"
  using assms
proof (induction xs arbitrary: st)
  case Nil
  then have "emit_step cv f want st = Inr st'" by (auto simp: byte_round Let_def)
  then show ?case using Nil.prems(7) by (rule settles_step)
next
  case (Cons x xs)
  let ?st = "st\<lparr>em_pos := em_pos st + 1, em_temp := em_temp st @ [x], em_advancedN := 1\<rparr>"
  have d: "drop (em_pos st) f = x # xs @ y # rest" using Cons.prems(5) by simp
  have "emit_step cv f want st = Inr ?st"
    using Cons.prems(1,3,4) by (auto simp: byte_round [OF _ d] emit_length_def Let_def)
  moreover have "settles cv f want ?st r"
  proof (rule Cons.IH)
    show "\<forall>x \<in> set xs. x > 127" "\<not> y > 127" using Cons.prems(1,2) by simp_all
    show "em_advancedN ?st = 1" "em_count ?st = 2 \<or> em_count ?st = 4" using Cons.prems(4) by simp_all
    show "drop (em_pos ?st) f = xs @ y # rest" using drop_step [OF d] by simp
    show "emit_length cv [y] (?st\<lparr>em_pos := em_pos ?st + length xs + 1, em_temp := em_temp ?st @ xs\<rparr>) = Inr st'"
      using Cons.prems(3,6) by (cases st) simp
    show "settles cv f want st' r" by (rule Cons.prems(7))
  qed
  ultimately show ?case by (rule settles_step)
qed

lemma varint_shape: "\<exists>xs y. varint n = xs @ [y] \<and> (\<forall>x \<in> set xs. x > 127) \<and> \<not> y > 127"
proof (induction n rule: less_induct)
  case (less n)
  show ?case
  proof (cases "n < 128")
    case True
    then have "varint n = [] @ [of_nat n]" by (subst varint.simps) simp
    moreover have "\<not> (of_nat n :: byte) > 127" using True by (simp add: word_less_nat_alt unat_of_nat)
    ultimately show ?thesis by fastforce
  next
    case False
    then have "n div 128 < n" by simp
    from less [OF this] obtain xs y where xy: "varint (n div 128) = xs @ [y]" "\<forall>x \<in> set xs. x > 127" "\<not> y > 127" by blast
    have "n mod 128 + 128 < 256" by (simp add: less_diff_conv [symmetric])
    then have "unat (of_nat (n mod 128 + 128) :: byte) = n mod 128 + 128"
      by (simp only: unat_of_nat) simp
    then have big: "(of_nat (n mod 128 + 128) :: byte) > 127"
      unfolding word_less_nat_alt by (simp only:) simp
    have "varint n = (of_nat (n mod 128 + 128) # xs) @ [y]" using False xy(1) by (subst varint.simps) simp
    moreover have "\<forall>x \<in> set (of_nat (n mod 128 + 128) # xs). x > 127" using big xy(2) by simp
    ultimately show ?thesis using xy(3) by blast
  qed
qed

text \<open>Reading a whole length: the state after it.\<close>

lemma settles_varint:
  assumes "varint_decoder cv" "int n < maxAlloc" "em_temp st = []"
    "em_advancedN st = 1" "em_count st = 2 \<or> em_count st = 4" "drop (em_pos st) f = varint n @ rest"
    "settles cv f want
      (if em_isInner st
       then st\<lparr>em_pos := em_pos st + length (varint n), em_isInner := False, em_codeLen := of_nat n,
              em_lenLen := of_nat (length (varint n)), em_advancedN := of_nat n, em_count := em_count st + 1\<rparr>
       else st\<lparr>em_pos := em_pos st + length (varint n), em_isInner := True, em_geoLen := of_nat n,
              em_advancedN := 1, em_count := em_count st + 1\<rparr>) r"
    (is "settles cv f want ?st' r")
  shows "settles cv f want st r"
proof -
  obtain xs y where v: "varint n = xs @ [y]" "\<forall>x \<in> set xs. x > 127" "\<not> y > 127" using varint_shape by blast
  have cv: "cv (varint n) = (of_nat n, int (length (varint n)))" using assms(1,2) by (simp add: varint_decoder_def)
  have "emit_length cv [y] (st\<lparr>em_pos := em_pos st + length xs + 1, em_temp := em_temp st @ xs\<rparr>) = Inr ?st'"
    using cv assms(3) v by (simp add: emit_length_def Let_def)
  from settles_length [OF v(2,3) assms(4,5) _ this assms(7)] assms(6) v(1) show ?thesis by simp
qed

lemma settles_tag:
  assumes "em_advancedN st = 1" "em_count st = 1 \<or> em_count st = 3" "drop (em_pos st) f = 10 # rest"
    "settles cv f want (st\<lparr>em_pos := em_pos st + 1, em_count := em_count st + 1\<rparr>) r"
  shows "settles cv f want st r"
proof (rule settles_step [OF _ assms(4)])
  show "emit_step cv f want st = Inr (st\<lparr>em_pos := em_pos st + 1, em_count := em_count st + 1\<rparr>)"
    using assms(1,2) by (auto simp: byte_round [OF _ assms(3)] Let_def)
qed

section \<open>Finding an entry\<close>

text \<open>The state at the head of an entry, with what the previous entry left in the lengths.\<close>

definition at_entry :: "nat \<Rightarrow> emit_state \<Rightarrow> bool" where
  "at_entry pos st \<longleftrightarrow> em_pos st = pos \<and> em_count st = 1 \<and> \<not> em_isInner st \<and> em_temp st = [] \<and> em_advancedN st = 1"

definition entry_bytes :: "geo_entry \<Rightarrow> bytes" where
  "entry_bytes e = 10 # varint (length (entry_body e)) @ entry_body e"

lemma wrap64_id: "- (2 ^ 63) \<le> n \<Longrightarrow> n < 2 ^ 63 \<Longrightarrow> wrap64 n = n"
  by (simp add: wrap64_def)

lemma uint_of_nat_small: "int n < maxAlloc \<Longrightarrow> uint (of_nat n :: u64) = int n"
  by (simp add: uint_nat unat_of_nat maxAlloc_def)

lemma unat_of_nat_small: "int n < maxAlloc \<Longrightarrow> unat (of_nat n :: u64) = n"
  by (simp add: unat_of_nat maxAlloc_def)

lemma small_pow: "int n < maxAlloc \<Longrightarrow> int n < 2 ^ 63"
  by (simp add: maxAlloc_def)

lemma value_round:
  assumes "em_count st = 5" "em_advancedN st = of_nat (length bs)" "drop (em_pos st) f = bs @ rest"
    "int (length f) < maxAlloc"
  shows "emit_step cv f want st = Inr (emit_value want bs (st\<lparr>em_pos := em_pos st + length bs\<rparr>))"
proof -
  have "length bs \<le> length f" using arg_cong [OF assms(3), of length] by simp
  then have "int (length bs) < maxAlloc" using assms(4) by linarith
  moreover have "bs = [] \<or> em_pos st < length f"
    using assms(3) by (metis append_is_Nil_conv drop_all not_le_imp_less)
  ultimately show ?thesis using assms by (auto simp: emit_step_def Let_def unat_of_nat_small)
qed

lemma result_round:
  assumes "em_count st = 6" "em_advancedN st = of_nat (length bs)" "drop (em_pos st) f = bs @ rest"
    "int (length f) < maxAlloc"
  shows "emit_step cv f want st = Inl (Ret bs)"
proof -
  have "length bs \<le> length f" using arg_cong [OF assms(3), of length] by simp
  then have "int (length bs) < maxAlloc" using assms(4) by linarith
  moreover have "bs = [] \<or> em_pos st < length f"
    using assms(3) by (metis append_is_Nil_conv drop_all not_le_imp_less)
  ultimately show ?thesis using assms by (auto simp: emit_step_def Let_def unat_of_nat_small)
qed

lemma drop_append_eq: "drop n f = xs @ ys \<Longrightarrow> drop (n + length xs) f = ys"
  by (metis append_eq_conv_conj drop_drop add.commute)

lemma entry_settles:
  assumes cv: "varint_decoder cv" and small: "int (length f) < maxAlloc" and st: "at_entry pos st"
    and f: "drop pos f = entry_bytes e @ tail" and
    hit: "EqualFold (ge_code e) want \<Longrightarrow> r = Ret (entry_body e)" and
    miss: "\<And>st'. \<not> EqualFold (ge_code e) want \<Longrightarrow> at_entry (pos + length (entry_bytes e)) st' \<Longrightarrow> settles cv f want st' r"
  shows "settles cv f want st r"
proof -
  define C L where "C = length (ge_code e)" and "L = length (entry_body e)"
  define vC vL where "vC = length (varint C)" and "vL = length (varint L)"
  have L: "L = 1 + vC + C + length (ge_rest e)" by (simp add: L_def entry_body_def C_def vC_def)
  have len: "pos + (1 + vL + L) + length tail = length f" "pos < length f"
  proof -
    show "pos < length f" using f by (metis append_Cons drop_all entry_bytes_def list.distinct(1) not_le_imp_less)
    then show "pos + (1 + vL + L) + length tail = length f"
      using arg_cong [OF f, of length] by (simp add: entry_bytes_def L_def vL_def)
  qed
  have bounds: "int L < maxAlloc" "int C < maxAlloc" "int vC < maxAlloc" using len(1) small L by linarith+
  have f1: "drop (pos + 1) f = varint L @ entry_body e @ tail"
    using drop_append_eq [of pos f "[10]"] f by (simp add: entry_bytes_def L_def)
  have f2: "drop (pos + 1 + vL) f = entry_body e @ tail" using drop_append_eq [OF f1] by (simp add: vL_def)
  have f3: "drop (pos + 1 + vL + 1) f = varint C @ bytes_of (ge_code e) @ ge_rest e @ tail"
    using drop_append_eq [of "pos + 1 + vL" f "[10]"] f2 by (simp add: entry_body_def C_def)
  have f4: "drop (pos + 1 + vL + 1 + vC) f = bytes_of (ge_code e) @ ge_rest e @ tail"
    using drop_append_eq [OF f3] by (simp add: vC_def)
  define s1 where "s1 = st\<lparr>em_pos := pos + 1, em_count := 2\<rparr>"
  define s2 where "s2 = s1\<lparr>em_pos := pos + 1 + vL, em_isInner := True, em_geoLen := of_nat L, em_advancedN := 1, em_count := 3\<rparr>"
  define s3 where "s3 = s2\<lparr>em_pos := pos + 1 + vL + 1, em_count := 4\<rparr>"
  define s4 where "s4 = s3\<lparr>em_pos := pos + 1 + vL + 1 + vC, em_isInner := False, em_codeLen := of_nat C,
      em_lenLen := of_nat vC, em_advancedN := of_nat C, em_count := 5\<rparr>"
  define s5 where "s5 = emit_value want (bytes_of (ge_code e)) (s4\<lparr>em_pos := pos + 1 + vL + 1 + vC + C\<rparr>)"
  note sdefs = s1_def s2_def s3_def s4_def
  have last: "settles cv f want s5 r"
  proof (cases "EqualFold (ge_code e) want")
    case True
    have "wrap64 (1 + int vC + int C) = 1 + int vC + int C" using small_pow bounds L len(1) small
      by (intro wrap64_id) (simp_all add: maxAlloc_def)
    then have "em_pos s5 = pos + 1 + vL" "em_count s5 = 6" "em_advancedN s5 = of_nat (length (entry_body e))"
      using True bounds by (simp_all add: s5_def emit_value_def sdefs uint_of_nat_small seek_def L_def)
    then have "emit_step cv f want s5 = Inl (Ret (entry_body e))"
      using f2 small by (intro result_round) auto
    then show ?thesis using hit [OF True] settles_done by simp
  next
    case False
    have "wrap64 (int L - int C - int vC - 1) = int (length (ge_rest e))" using small_pow bounds L
      by (subst wrap64_id) (simp_all add: maxAlloc_def)
    then have "em_pos s5 = seek (int (length (ge_rest e))) (pos + 1 + vL + 1 + vC + C)"
      using False bounds by (simp add: s5_def emit_value_def sdefs uint_of_nat_small)
    also have "\<dots> = pos + (1 + vL + L)" unfolding L seek_def by simp
    also have "\<dots> = pos + length (entry_bytes e)" by (simp add: entry_bytes_def L_def vL_def)
    finally have "at_entry (pos + length (entry_bytes e)) s5"
      using False st by (simp add: s5_def emit_value_def sdefs at_entry_def)
    then show ?thesis by (rule miss [OF False])
  qed
  have "emit_step cv f want s4 = Inr s5"
    unfolding s5_def using value_round [of s4 "bytes_of (ge_code e)" f "ge_rest e @ tail" cv want] f4 small
    by (simp add: sdefs C_def)
  then have S4: "settles cv f want s4 r" using last by (rule settles_step)
  have S3: "settles cv f want s3 r"
    by (rule settles_varint [OF cv bounds(2), of _ f "bytes_of (ge_code e) @ ge_rest e @ tail"])
      (use st f3 S4 in \<open>simp_all add: sdefs at_entry_def vC_def\<close>)
  have S2: "settles cv f want s2 r"
    by (rule settles_tag [of _ f "varint C @ bytes_of (ge_code e) @ ge_rest e @ tail"])
      (use f2 S3 in \<open>simp_all add: sdefs entry_body_def C_def\<close>)
  have S1: "settles cv f want s1 r"
    by (rule settles_varint [OF cv bounds(1), of _ f "entry_body e @ tail"])
      (use st f1 S2 in \<open>simp_all add: sdefs at_entry_def vL_def\<close>)
  show ?thesis
    by (rule settles_tag [of _ f "varint L @ entry_body e @ tail"])
      (use st f S1 in \<open>simp_all add: sdefs at_entry_def entry_bytes_def L_def numeral_2_eq_2\<close>)
qed

lemma geo_file_entries: "geo_file es = concat (map entry_bytes es)"
  by (simp add: geo_file_def entry_bytes_def [abs_def])

lemma entries_settle:
  assumes "varint_decoder cv" "int (length f) < maxAlloc" "at_entry pos st" "drop pos f = geo_file es" "pos \<le> length f"
  shows "settles cv f want st
    (case find (\<lambda>e. EqualFold (ge_code e) want) es of Some e \<Rightarrow> Ret (entry_body e) | None \<Rightarrow> Raise ErrCodeNotFound)"
  using assms(3,4,5)
proof (induction es arbitrary: pos st)
  case Nil
  then have "pos = length f" by (simp add: geo_file_def)
  with Nil.prems(1) have "emit_step cv f want st = Inl (Raise ErrCodeNotFound)"
    by (simp add: emit_step_def at_entry_def Let_def maxAlloc_def)
  then show ?case by (simp add: settles_done)
next
  case (Cons e es)
  have d: "drop pos f = entry_bytes e @ geo_file es" using Cons.prems(2) by (simp add: geo_file_entries)
  have nx: "drop (pos + length (entry_bytes e)) f = geo_file es" "pos + length (entry_bytes e) \<le> length f"
    using drop_append_eq [OF d] arg_cong [OF d, of length] Cons.prems(3) by simp_all
  show ?case
  proof (rule entry_settles [OF assms(1,2) Cons.prems(1) d])
    show "(case find (\<lambda>e. EqualFold (ge_code e) want) (e # es) of Some e \<Rightarrow> Ret (entry_body e) | None \<Rightarrow> Raise ErrCodeNotFound) =
      Ret (entry_body e)" if "EqualFold (ge_code e) want" using that by simp
    show "settles cv f want st' (case find (\<lambda>e. EqualFold (ge_code e) want) (e # es) of
        Some e \<Rightarrow> Ret (entry_body e) | None \<Rightarrow> Raise ErrCodeNotFound)"
      if "\<not> EqualFold (ge_code e) want" "at_entry (pos + length (entry_bytes e)) st'" for st'
      using Cons.IH [OF that(2) nx] that(1) by simp
  qed
qed

text \<open>C9. The scanner agrees with decoding the whole file. For every well-formed list of entries, with a
  decoder of varint lengths as the wire format defines them, the scan of the encoded file returns
  after finitely many rounds exactly the message of the first entry whose code equals the
  requested one up to case, and the error that the code is not found when there is none.\<close>

theorem scanner_finds_entry:
  assumes "varint_decoder cv" "small_file (geo_file es)"
  shows "\<exists>N. \<forall>fuel \<ge> N. EmitBytes cv fuel (geo_file es) want =
    (case find (\<lambda>e. EqualFold (ge_code e) want) es of Some e \<Rightarrow> Ret (entry_body e) | None \<Rightarrow> Raise ErrCodeNotFound)"
proof -
  have "at_entry 0 emit_start" by (simp add: at_entry_def emit_start_def)
  from entries_settle [OF assms(1) _ this, of "geo_file es" es want] assms(2) show ?thesis
    by (simp add: small_file_def settles_def EmitBytes_def)
qed

text \<open>A decoder in the style of the library, for the concrete runs.\<close>

fun varint_value :: "bytes \<Rightarrow> nat" where
  "varint_value [] = 0"
| "varint_value (b # bs) = (if unat b < 128 then unat b else unat b - 128 + 128 * varint_value bs)"

definition go_varint :: "bytes \<Rightarrow> u64 \<times> int" where
  "go_varint bs = (of_nat (varint_value bs), int (length bs))"

lemma varint_value_varint: "varint_value (varint n) = n"
proof (induction n rule: less_induct)
  case (less n)
  show ?case
  proof (cases "n < 128")
    case True
    then have "unat (of_nat n :: byte) = n" by (simp add: unat_of_nat)
    with True show ?thesis by (subst varint.simps) simp
  next
    case False
    then have IH: "varint_value (varint (n div 128)) = n div 128" using less by simp
    have "n mod 128 + 128 < 256" by (simp add: less_diff_conv [symmetric])
    then have "unat (of_nat (n mod 128 + 128) :: byte) = n mod 128 + 128" by (simp only: unat_of_nat) simp
    with False IH show ?thesis by (subst varint.simps) (simp del: of_nat_add)
  qed
qed

lemma go_varint_decoder: "varint_decoder go_varint"
  by (simp add: varint_decoder_def go_varint_def varint_value_varint)

definition sample_entries :: "geo_entry list" where
  "sample_entries = [\<lparr>ge_code = ''US'', ge_rest = [1, 2]\<rparr>, \<lparr>ge_code = ''CN'', ge_rest = [3]\<rparr>]"

theorem scanner_finds_entry_witness:
  "\<exists>N. \<forall>fuel \<ge> N. EmitBytes go_varint fuel (geo_file sample_entries) ''cn'' = Ret [10, 2, 67, 78, 3]"
proof -
  have "int (length (geo_file sample_entries)) < maxAlloc" by code_simp
  moreover have "find (\<lambda>e. EqualFold (ge_code e) ''cn'') sample_entries = Some \<lparr>ge_code = ''CN'', ge_rest = [3]\<rparr>"
    by code_simp
  moreover have "entry_body \<lparr>ge_code = ''CN'', ge_rest = [3]\<rparr> = [10, 2, 67, 78, 3]" by code_simp
  ultimately show ?thesis
    using scanner_finds_entry [OF go_varint_decoder, of sample_entries "''cn''"] by (simp add: small_file_def)
qed

section \<open>A file the scanner never finishes\<close>

text \<open>The first length of this file is \<open>2 ^ 64 - 11\<close>, written in ten bytes.\<close>

definition looping_file :: bytes where
  "looping_file = [10, 245, 255, 255, 255, 255, 255, 255, 255, 255, 1, 10, 1, 120]"

fun emit_steps :: "(bytes \<Rightarrow> u64 \<times> int) \<Rightarrow> bytes \<Rightarrow> string \<Rightarrow> nat \<Rightarrow> emit_state \<Rightarrow> emit_state option" where
  "emit_steps cv f want 0 st = Some st"
| "emit_steps cv f want (Suc n) st =
     (case emit_step cv f want st of Inl _ \<Rightarrow> None | Inr st' \<Rightarrow> emit_steps cv f want n st')"

lemma emit_steps_run:
  "emit_steps cv f want n st = Some st' \<Longrightarrow>
     emit_run cv f want fuel st = (if fuel < n then Hang else emit_run cv f want (fuel - n) st')"
proof (induction n arbitrary: st fuel)
  case (Suc n)
  then show ?case by (cases fuel) (auto split: sum.splits)
qed simp

lemma cycle_hangs:
  assumes "emit_steps cv f want (Suc n) st = Some st"
  shows "emit_run cv f want fuel st = Hang"
proof (induction fuel rule: less_induct)
  case (less fuel)
  show ?case
  proof (cases "fuel < Suc n")
    case False
    then have "emit_run cv f want (fuel - Suc n) st = Hang" by (intro less) simp
    with False show ?thesis using emit_steps_run [OF assms, of fuel] by simp
  qed (use emit_steps_run [OF assms, of fuel] in simp)
qed

definition loop_state :: "u64 \<Rightarrow> u64 \<Rightarrow> u64 \<Rightarrow> emit_state" where
  "loop_state g c l = \<lparr>em_pos = 0, em_count = 1, em_isInner = False, em_temp = [], em_advancedN = 1, em_geoLen = g,
     em_codeLen = c, em_lenLen = l\<rparr>"

lemma emit_steps_numeral:
  "emit_steps cv f want (numeral k) st =
     (case emit_step cv f want st of Inl _ \<Rightarrow> None | Inr st' \<Rightarrow> emit_steps cv f want (pred_numeral k) st')"
  by (simp add: numeral_eq_Suc)

lemma string_of_x: "string_of [120] = ''x''"
  by code_simp

lemma loop_round:
  assumes "cv [245, 255, 255, 255, 255, 255, 255, 255, 255, 1] = (- 11, 10)" "cv [1] = (1, 1)"
    "\<not> EqualFold ''x'' want"
  shows "emit_steps cv looping_file want 14 (loop_state g c l) = Some (loop_state (- 11) 1 1)"
  using assms
  by (simp add: emit_steps_numeral looping_file_def loop_state_def emit_step_def emit_length_def emit_value_def
      Let_def maxAlloc_def string_of_x seek_def wrap64_def)

text \<open>A malformed file makes the scanner loop forever. A length close to \<open>2 ^ 64\<close> becomes a negative
  seek offset, so the scan of this fourteen-byte file for any code but its own returns to the
  beginning again and again, whatever the number of rounds.\<close>

theorem scanner_loops_forever:
  assumes "cv [245, 255, 255, 255, 255, 255, 255, 255, 255, 1] = (- 11, 10)" "cv [1] = (1, 1)"
    "\<not> EqualFold ''x'' want"
  shows "EmitBytes cv fuel looping_file want = Hang"
proof -
  have "emit_run cv looping_file want n (loop_state (- 11) 1 1) = Hang" for n
    using cycle_hangs [of cv looping_file want 13] loop_round [OF assms] by simp
  moreover have "emit_start = loop_state 0 0 0" by (simp add: emit_start_def loop_state_def)
  ultimately show ?thesis
    using emit_steps_run [OF loop_round [OF assms], of fuel 0 0 0] by (simp add: EmitBytes_def)
qed

theorem scanner_loops_forever_witness: "EmitBytes go_varint 1000000 looping_file ''cn'' = Hang"
proof (rule scanner_loops_forever)
  show "go_varint [245, 255, 255, 255, 255, 255, 255, 255, 255, 1] = (- 11, 10)" by (simp add: go_varint_def)
  show "go_varint [1] = (1, 1)" by code_simp
  show "\<not> EqualFold ''x'' ''cn''" by code_simp
qed

end
