(* ===== verification/Router.thy ===== *)
theory Router
  imports Address_Codec Geodata
begin

text \<open>
  \<open>tunnel/router\<close>: the rules of the routing client, their construction from the configuration and the
  geodata files, and the decision for a connection or a packet. Regular expressions are a parameter:
  \<open>None\<close> is a pattern that does not compile. The resolver is a function from names to addresses.
\<close>

unbundle bit_operations_syntax

section \<open>Policies and rules\<close>

datatype policy = Block | Bypass | Proxy

datatype strategy = AsIs | IPIfNonMatch | IPOnDemand

datatype domain_type = Domain_Plain | Domain_Regex | Domain_Domain | Domain_Full

record domain_rule =
  dr_type :: domain_type
  dr_value :: string
  dr_attrs :: "string list"

record cidr_rule =
  ci_ip :: bytes
  ci_prefix :: nat

type_synonym regex = "string \<Rightarrow> string \<Rightarrow> bool option"

fun matchDomain :: "regex \<Rightarrow> domain_rule list \<Rightarrow> string \<Rightarrow> bool" where
  "matchDomain re [] target = False"
| "matchDomain re (d # ds) target =
     (case dr_type d of
        Domain_Full \<Rightarrow> if dr_value d = target then True else matchDomain re ds target
      | Domain_Domain \<Rightarrow>
          (if HasSuffix target (dr_value d) then
             (case Index target (dr_value d) of
                None \<Rightarrow> matchDomain re ds target
              | Some idx \<Rightarrow>
                  if idx = 0 \<or> target ! (idx - 1) = CHR ''.'' then True else matchDomain re ds target)
           else matchDomain re ds target)
      | Domain_Plain \<Rightarrow> if Contains target (dr_value d) then True else matchDomain re ds target
      | Domain_Regex \<Rightarrow>
          (case re (dr_value d) target of
             None \<Rightarrow> False
           | Some matched \<Rightarrow> if matched then True else matchDomain re ds target))"

section \<open>Address ranges\<close>

text \<open>\<open>net.CIDRMask\<close>, \<open>IP.Mask\<close> and \<open>IPNet.Contains\<close>; the empty list is a nil mask or address.\<close>

fun mask_bytes :: "nat \<Rightarrow> nat \<Rightarrow> bytes" where
  "mask_bytes 0 n = []"
| "mask_bytes (Suc l) n =
     (if n \<ge> 8 then 0xFF # mask_bytes l (n - 8) else NOT (drop_bit n 0xFF) # mask_bytes l 0)"

definition CIDRMask :: "nat \<Rightarrow> nat \<Rightarrow> bytes" where
  "CIDRMask ones bits = (if ones > bits then [] else mask_bytes (bits div 8) ones)"

definition IP_Mask :: "bytes \<Rightarrow> bytes \<Rightarrow> bytes" where
  "IP_Mask ip msk =
     (let msk1 = (if length msk = 16 \<and> length ip = 4 \<and> take 12 msk = replicate 12 0xFF then drop 12 msk else msk);
          ip1 = (if length msk1 = 4 \<and> length ip = 16 \<and> take 12 ip = v4InV6Prefix then drop 12 ip else ip)
      in if length ip1 \<noteq> length msk1 then [] else map2 (AND) ip1 msk1)"

definition networkNumberAndMask :: "bytes \<Rightarrow> bytes \<Rightarrow> bytes \<times> bytes" where
  "networkNumberAndMask nip msk =
     (let ip = (if IP_To4 nip \<noteq> [] then IP_To4 nip else nip) in
      if length ip \<noteq> 4 \<and> length ip \<noteq> 16 then ([], [])
      else if length msk = 4 then (if length ip \<noteq> 4 then ([], []) else (ip, msk))
      else if length msk = 16 then (ip, if length ip = 4 then drop 12 msk else msk)
      else ([], []))"

definition IPNet_Contains :: "bytes \<Rightarrow> bytes \<Rightarrow> bytes \<Rightarrow> bool" where
  "IPNet_Contains nip msk target =
     (let (nn, m) = networkNumberAndMask nip msk;
          ip = (if IP_To4 target \<noteq> [] then IP_To4 target else target)
      in length ip = length nn \<and> map2 (AND) nn m = map2 (AND) ip m)"

fun matchIP :: "cidr_rule list \<Rightarrow> bytes \<Rightarrow> bool" where
  "matchIP [] target = False"
| "matchIP (c # cs) target =
     (let isIPv6 = (IP_To4 target = []); len = (if isIPv6 then 16 else 4);
          msk = CIDRMask (ci_prefix c) (8 * len); cidrIPv6 = (IP_To4 (ci_ip c) = [])
      in if cidrIPv6 \<noteq> isIPv6 then matchIP cs target
         else if IPNet_Contains (IP_Mask (ci_ip c) msk) msk target then True
         else matchIP cs target)"

section \<open>Routing\<close>

record router_client =
  rc_domains :: "policy \<Rightarrow> domain_rule list"
  rc_cidrs :: "policy \<Rightarrow> cidr_rule list"
  rc_default :: policy
  rc_strategy :: strategy

definition newIPAddress :: "(string \<Rightarrow> bytes option) \<Rightarrow> address \<Rightarrow> address outcome \<times> address" where
  "newIPAddress resolve a =
     (case ResolveIP resolve a of
        (Ret ip, a') \<Rightarrow>
          (Ret (zero_address\<lparr>IP := ip, Port := Port a, AddressType := (if IP_To4 ip \<noteq> [] then ATYP_IPv4 else ATYP_IPv6)\<rparr>), a')
      | (Raise e, a') \<Rightarrow> (Raise (Base (NewError ''router failed to resolve ip'') (Some e)), a')
      | (Panic p, a') \<Rightarrow> (Panic p, a')
      | (Hang, a') \<Rightarrow> (Hang, a'))"

text \<open>The loops \<open>for i := Block; i <= Proxy; i++\<close>.\<close>

definition first_policy :: "(policy \<Rightarrow> bool) \<Rightarrow> policy option" where
  "first_policy hit = find hit [Block, Bypass, Proxy]"

definition route_ip :: "router_client \<Rightarrow> bytes \<Rightarrow> policy option" where
  "route_ip c ip = first_policy (\<lambda>i. matchIP (rc_cidrs c i) ip)"

definition route_resolved ::
  "(string \<Rightarrow> bytes option) \<Rightarrow> router_client \<Rightarrow> address \<Rightarrow> policy option \<times> address" where
  "route_resolved resolve c a =
     (case newIPAddress resolve a of (Ret r, a') \<Rightarrow> (route_ip c (IP r), a') | (_, a') \<Rightarrow> (None, a'))"

definition Route :: "regex \<Rightarrow> (string \<Rightarrow> bytes option) \<Rightarrow> router_client \<Rightarrow> address \<Rightarrow> policy \<times> address" where
  "Route re resolve c a =
     (if AddressType a = ATYP_DomainName then
        (let (hit, a1) = (if rc_strategy c = IPOnDemand then route_resolved resolve c a else (None, a)) in
         case hit of
           Some i \<Rightarrow> (i, a1)
         | None \<Rightarrow>
             (case first_policy (\<lambda>i. matchDomain re (rc_domains c i) (DomainName a1)) of
                Some i \<Rightarrow> (i, a1)
              | None \<Rightarrow>
                  (let (hit2, a2) = (if rc_strategy c = IPIfNonMatch then route_resolved resolve c a1 else (None, a1)) in
                   case hit2 of Some i \<Rightarrow> (i, a2) | None \<Rightarrow> (rc_default c, a2))))
      else case route_ip c (IP a) of Some i \<Rightarrow> (i, a) | None \<Rightarrow> (rc_default c, a))"

text \<open>\<open>underlay\<close> and \<open>direct\<close> are the two clients below, with the world they change.\<close>

definition Client_DialConn_router ::
  "regex \<Rightarrow> (string \<Rightarrow> bytes option) \<Rightarrow> (address \<Rightarrow> ('w, 'conn) proc) \<Rightarrow> (address \<Rightarrow> ('w, 'conn) proc) \<Rightarrow>
   router_client \<Rightarrow> address \<Rightarrow> ('w, 'conn) proc" where
  "Client_DialConn_router re resolve underlay direct c a w =
     (case Route re resolve c a of
        (Proxy, a') \<Rightarrow> underlay a' w
      | (Block, a') \<Rightarrow> (Raise (NewError (''router blocked address: '' @ Address_String a')), w)
      | (Bypass, a') \<Rightarrow> wrap_error (\<lambda>e. Base (NewError ''router dial error'') (Some e)) (direct a') w)"

definition router_WriteWithMetadata ::
  "regex \<Rightarrow> (string \<Rightarrow> bytes option) \<Rightarrow> (bytes \<Rightarrow> metadata \<Rightarrow> ('w, int) proc) \<Rightarrow> (bytes \<Rightarrow> bytes \<Rightarrow> int \<Rightarrow> ('w, int) proc) \<Rightarrow>
   router_client \<Rightarrow> bytes \<Rightarrow> metadata \<Rightarrow> ('w, int) proc" where
  "router_WriteWithMetadata re resolve proxy direct c p m w =
     (case Route re resolve c (Address m) of
        (Proxy, a) \<Rightarrow> proxy p (m\<lparr>Address := a\<rparr>) w
      | (Block, a) \<Rightarrow> (Raise (NewError (''router blocked address (udp): '' @ Address_String a)), w)
      | (Bypass, a) \<Rightarrow>
          (case ResolveIP resolve a of
             (Ret ip, a') \<Rightarrow> direct p ip (Port a') w
           | (Raise e, _) \<Rightarrow> (Raise (Base (NewError ''router failed to resolve udp address'') (Some e)), w)
           | (Panic x, _) \<Rightarrow> (Panic x, w)
           | (Hang, _) \<Rightarrow> (Hang, w)))"

text \<open>\<open>packetChan\<close> is a queue of received packets; a read copies as much as fits. When a packet is waiting and
  the context is done, \<open>select\<close> may take either.\<close>

definition router_ReadWithMetadata ::
  "nat \<Rightarrow> bool \<Rightarrow> bool \<Rightarrow> (metadata \<times> bytes) list \<Rightarrow> (bytes \<times> metadata) outcome \<times> (metadata \<times> bytes) list" where
  "router_ReadWithMetadata size_p ctxDone pickDone chan =
     (case chan of
        (src, payload) # rest \<Rightarrow>
          if ctxDone \<and> pickDone then (Raise EOF, chan) else (Ret (take size_p payload, src), rest)
      | [] \<Rightarrow> (if ctxDone then Raise EOF else Hang, []))"

section \<open>Construction\<close>

record router_config =
  rt_proxy :: "string list"
  rt_bypass :: "string list"
  rt_block :: "string list"
  rt_strategy :: string
  rt_default :: string
  rt_geoip :: string
  rt_geosite :: string

definition codes_of :: "string \<Rightarrow> policy \<Rightarrow> string list \<Rightarrow> (string \<times> policy) list" where
  "codes_of prefix pol ss =
     map (\<lambda>s. (drop (length prefix) s, pol)) (filter (\<lambda>s. HasPrefix s prefix \<and> length s > length prefix) ss)"

definition loadCode :: "router_config \<Rightarrow> string \<Rightarrow> (string \<times> policy) list" where
  "loadCode cfg prefix =
     codes_of prefix Proxy (rt_proxy cfg) @ codes_of prefix Bypass (rt_bypass cfg) @ codes_of prefix Block (rt_block cfg)"

definition add_domains :: "policy \<Rightarrow> domain_rule list \<Rightarrow> router_client \<Rightarrow> router_client" where
  "add_domains pol ds c = c\<lparr>rc_domains := (rc_domains c)(pol := rc_domains c pol @ ds)\<rparr>"

definition add_cidrs :: "policy \<Rightarrow> cidr_rule list \<Rightarrow> router_client \<Rightarrow> router_client" where
  "add_cidrs pol cs c = c\<lparr>rc_cidrs := (rc_cidrs c)(pol := rc_cidrs c pol @ cs)\<rparr>"

text \<open>The geodata loader as the router sees it: the file name and the code give a list or an error, and
  the cache changes. A list that cannot be loaded is logged and skipped.\<close>

fun load_geoip ::
  "(string \<Rightarrow> string \<Rightarrow> 'g \<Rightarrow> cidr_rule list outcome \<times> 'g) \<Rightarrow> string \<Rightarrow> (string \<times> policy) list \<Rightarrow> router_client \<times> 'g \<Rightarrow> router_client \<times> 'g" where
  "load_geoip loadIP file [] st = st"
| "load_geoip loadIP file ((cd, pol) # cs) (c, g) =
     (case loadIP file cd g of
        (Ret cidrs, g') \<Rightarrow> load_geoip loadIP file cs (add_cidrs pol cidrs c, g')
      | (_, g') \<Rightarrow> load_geoip loadIP file cs (c, g'))"

definition with_attr :: "string \<Rightarrow> domain_rule list \<Rightarrow> domain_rule list" where
  "with_attr attr ds = concat (map (\<lambda>d. map (\<lambda>_. d) (filter (EqualFold attr) (dr_attrs d))) ds)"

text \<open>\<open>geosite:code@attr\<close>: the code and the wanted attribute, or \<open>None\<close> for an invalid rule.\<close>

definition split_attr :: "string \<Rightarrow> (string \<times> string) option" where
  "split_attr cd =
     (case Index cd ''@'' of
        None \<Rightarrow> Some (cd, [])
      | Some i \<Rightarrow>
          if i = 0 then None
          else if HasSuffix cd ''@'' then None
          else Some (take i cd, drop (i + 1) cd))"

fun load_geosite ::
  "(string \<Rightarrow> string \<Rightarrow> 'g \<Rightarrow> domain_rule list outcome \<times> 'g) \<Rightarrow> string \<Rightarrow> (string \<times> policy) list \<Rightarrow> router_client \<times> 'g \<Rightarrow> router_client \<times> 'g" where
  "load_geosite loadSite file [] st = st"
| "load_geosite loadSite file ((cd, pol) # cs) (c, g) =
     (case split_attr cd of
        None \<Rightarrow> load_geosite loadSite file cs (c, g)
      | Some (name, attr) \<Rightarrow>
          (case loadSite file name g of
             (Ret ds, g') \<Rightarrow>
               load_geosite loadSite file cs (add_domains pol (if attr \<noteq> [] then with_attr attr ds else ds) c, g')
           | (_, g') \<Rightarrow> load_geosite loadSite file cs (c, g')))"

definition plain_rules :: "domain_type \<Rightarrow> (string \<Rightarrow> string) \<Rightarrow> (string \<times> policy) list \<Rightarrow> router_client \<Rightarrow> router_client" where
  "plain_rules ty norm infos c =
     fold (\<lambda>(cd, pol) c. add_domains pol [\<lparr>dr_type = ty, dr_value = norm cd, dr_attrs = []\<rparr>] c) infos c"

fun regex_rules :: "regex \<Rightarrow> (string \<times> policy) list \<Rightarrow> router_client \<Rightarrow> router_client outcome" where
  "regex_rules re [] c = Ret c"
| "regex_rules re ((cd, pol) # cs) c =
     (if re cd [] = None then Raise (Base (NewError (''invalid regular expression: '' @ cd)) (Some (Opaque ''regexp'')))
      else regex_rules re cs (add_domains pol [\<lparr>dr_type = Domain_Regex, dr_value = cd, dr_attrs = []\<rparr>] c))"

definition parse_cidr :: "string \<Rightarrow> cidr_rule outcome" where
  "parse_cidr cd =
     (case split_at (CHR ''/'') cd of
        [host, bits] \<Rightarrow>
          if ParseIP host = [] then Raise (NewError (''invalid cidr ip: '' @ cd))
          else (case ParseInt 32 bits of
                  None \<Rightarrow> Raise (Base (NewError ''invalid prefix'') (Some (Opaque ''strconv'')))
                | Some prefix \<Rightarrow> Ret \<lparr>ci_ip = ParseIP host, ci_prefix = nat (prefix mod 2 ^ 32)\<rparr>)
      | _ \<Rightarrow> Raise (NewError (''invalid cidr: '' @ cd)))"

fun cidr_rules :: "(string \<times> policy) list \<Rightarrow> router_client \<Rightarrow> router_client outcome" where
  "cidr_rules [] c = Ret c"
| "cidr_rules ((cd, pol) # cs) c =
     (case parse_cidr cd of
        Ret r \<Rightarrow> cidr_rules cs (add_cidrs pol [r] c)
      | Raise e \<Rightarrow> Raise e
      | Panic p \<Rightarrow> Panic p
      | Hang \<Rightarrow> Hang)"

definition parse_strategy :: "string \<Rightarrow> strategy option" where
  "parse_strategy s =
     (let t = ascii_lower s in
      if t \<in> {''as_is'', ''as-is'', ''asis''} then Some AsIs
      else if t \<in> {''ip_if_non_match'', ''ip-if-non-match'', ''ipifnonmatch''} then Some IPIfNonMatch
      else if t \<in> {''ip_on_demand'', ''ip-on-demand'', ''ipondemand''} then Some IPOnDemand
      else None)"

definition parse_policy :: "string \<Rightarrow> policy option" where
  "parse_policy s =
     (let t = ascii_lower s in
      if t = ''proxy'' then Some Proxy else if t = ''bypass'' then Some Bypass else if t = ''block'' then Some Block else None)"

definition bind_outcome :: "'a outcome \<Rightarrow> ('a \<Rightarrow> 'b outcome) \<Rightarrow> 'b outcome" where
  "bind_outcome x f = (case x of Ret a \<Rightarrow> f a | Raise e \<Rightarrow> Raise e | Panic p \<Rightarrow> Panic p | Hang \<Rightarrow> Hang)"

definition router_NewClient ::
  "regex \<Rightarrow> (string \<Rightarrow> string \<Rightarrow> 'g \<Rightarrow> cidr_rule list outcome \<times> 'g) \<Rightarrow>
   (string \<Rightarrow> string \<Rightarrow> 'h \<Rightarrow> domain_rule list outcome \<times> 'h) \<Rightarrow> router_config \<Rightarrow> 'g \<Rightarrow> 'h \<Rightarrow> router_client outcome" where
  "router_NewClient re loadIP loadSite cfg g h =
     (case (parse_strategy (rt_strategy cfg), parse_policy (rt_default cfg)) of
        (None, _) \<Rightarrow> Raise (NewError (''unknown strategy: '' @ rt_strategy cfg))
      | (_, None) \<Rightarrow> Raise (NewError (''unknown strategy: '' @ rt_strategy cfg))
      | (Some st, Some pol) \<Rightarrow>
          let c0 = \<lparr>rc_domains = \<lambda>_. [], rc_cidrs = \<lambda>_. [], rc_default = pol, rc_strategy = st\<rparr>;
              c1 = fst (load_geoip loadIP (rt_geoip cfg) (loadCode cfg ''geoip:'') (c0, g));
              c2 = fst (load_geosite loadSite (rt_geosite cfg) (loadCode cfg ''geosite:'') (c1, h));
              c3 = plain_rules Domain_Domain ascii_lower (loadCode cfg ''domain:'') c2;
              c4 = plain_rules Domain_Plain ascii_lower (loadCode cfg ''keyword:'') c3
          in bind_outcome (regex_rules re (loadCode cfg ''regex:'') c4) (\<lambda>c5.
             bind_outcome (regex_rules re (loadCode cfg ''regexp:'') c5) (\<lambda>c6.
             cidr_rules (loadCode cfg ''cidr:'') (plain_rules Domain_Full ascii_lower (loadCode cfg ''full:'') c6))))"

text \<open>The loader of \<open>common/geodata\<close> behind this interface.\<close>

definition LoadIP ::
  "cidr_rule list proto \<Rightarrow> nat \<Rightarrow> (string \<Rightarrow> bytes option) \<Rightarrow> string \<Rightarrow> string \<Rightarrow> cidr_rule list geo_cache \<Rightarrow>
   cidr_rule list outcome \<times> cidr_rule list geo_cache" where
  "LoadIP pb fuel read file country c = geo_Unmarshal pb fuel read file country c"

definition LoadSite ::
  "domain_rule list proto \<Rightarrow> nat \<Rightarrow> (string \<Rightarrow> bytes option) \<Rightarrow> string \<Rightarrow> string \<Rightarrow> domain_rule list geo_cache \<Rightarrow>
   domain_rule list outcome \<times> domain_rule list geo_cache" where
  "LoadSite pb fuel read file list_name c = geo_Unmarshal pb fuel read file list_name c"

section \<open>Ranges are prefixes\<close>

definition byte_bits :: "byte \<Rightarrow> bool list" where
  "byte_bits b = map (\<lambda>k. bit b (7 - k)) [0..<8]"

definition addr_bits :: "bytes \<Rightarrow> bool list" where
  "addr_bits bs = concat (map byte_bits bs)"

text \<open>An address in its own family: four bytes for IPv4, sixteen for IPv6.\<close>

definition family_bytes :: "bytes \<Rightarrow> bytes" where
  "family_bytes ip = (if IP_To4 ip \<noteq> [] then IP_To4 ip else ip)"

definition in_range :: "cidr_rule \<Rightarrow> bytes \<Rightarrow> bool" where
  "in_range c ip \<longleftrightarrow>
     length (family_bytes (ci_ip c)) = length (family_bytes ip) \<and> ci_prefix c \<le> 8 * length (family_bytes ip) \<and>
     take (ci_prefix c) (addr_bits (family_bytes (ci_ip c))) = take (ci_prefix c) (addr_bits (family_bytes ip))"

definition ip_length :: "bytes \<Rightarrow> bool" where
  "ip_length ip \<longleftrightarrow> length ip = 4 \<or> length ip = 16"

lemma length_byte_bits [simp]: "length (byte_bits b) = 8"
  by (simp add: byte_bits_def)

lemma byte_bits_inj: "byte_bits x = byte_bits y \<longleftrightarrow> x = y"
proof
  assume eq: "byte_bits x = byte_bits y"
  have "bit x i = bit y i" if "i < 8" for i
    using arg_cong [OF eq, of "\<lambda>l. l ! (7 - i)"] nth_upt [of 0 "7 - i" 8] that by (simp add: byte_bits_def)
  then show "x = y" by (intro bit_word_eqI) simp
qed simp

lemma byte_ff: "(0xFF :: byte) = - 1"
  by simp

lemma masked_byte:
  assumes "n < 8"
  shows "x AND NOT (drop_bit n 0xFF) = y AND NOT (drop_bit n (0xFF :: byte)) \<longleftrightarrow> take n (byte_bits x) = take n (byte_bits y)"
proof -
  have mask_bit: "bit (NOT (drop_bit n (0xFF :: byte))) i \<longleftrightarrow> 8 - n \<le> i" if "i < 8" for i
    unfolding byte_ff using that assms by (auto simp: bit_not_iff bit_drop_bit_eq bit_mask_iff)
  have "x AND NOT (drop_bit n 0xFF) = y AND NOT (drop_bit n 0xFF) \<longleftrightarrow> (\<forall>i < 8. 8 - n \<le> i \<longrightarrow> bit x i = bit y i)"
    using mask_bit by (auto simp: bit_eq_iff bit_and_iff)
  also have "\<dots> \<longleftrightarrow> (\<forall>k < n. bit x (7 - k) = bit y (7 - k))"
  proof (rule iffI; intro allI impI)
    fix k assume "\<forall>i < 8. 8 - n \<le> i \<longrightarrow> bit x i = bit y i" "k < n"
    then show "bit x (7 - k) = bit y (7 - k)" using assms by simp
  next
    fix i assume h: "\<forall>k < n. bit x (7 - k) = bit y (7 - k)" "i < 8" "8 - n \<le> i"
    then have "7 - i < n" "7 - (7 - i) = i" by linarith+
    with h(1) show "bit x i = bit y i" by metis
  qed
  also have "\<dots> \<longleftrightarrow> take n (byte_bits x) = take n (byte_bits y)"
    using assms by (simp add: byte_bits_def take_map list_eq_iff_nth_eq)
  finally show ?thesis .
qed

lemma take_bytes_Cons:
  "take n (byte_bits x @ xs) = take n (byte_bits y @ ys) \<longleftrightarrow>
     (if n \<ge> 8 then x = y \<and> take (n - 8) xs = take (n - 8) ys else take n (byte_bits x) = take n (byte_bits y))"
  using byte_bits_inj [of x y] by auto

lemma masked_zero: "length a = l \<Longrightarrow> map2 (AND) a (mask_bytes l 0) = replicate l 0"
proof (induction l arbitrary: a)
  case (Suc l)
  have "NOT (drop_bit 0 (0xFF :: byte)) = 0" unfolding byte_ff by simp
  with Suc show ?case by (cases a) (simp_all del: drop_bit_0)
qed simp

lemma masked_prefix:
  "\<lbrakk>length a = l; length b = l; n \<le> 8 * l\<rbrakk> \<Longrightarrow>
     map2 (AND) a (mask_bytes l n) = map2 (AND) b (mask_bytes l n) \<longleftrightarrow> take n (addr_bits a) = take n (addr_bits b)"
proof (induction l arbitrary: a b n)
  case (Suc l)
  then obtain x a' y b' where ab: "a = x # a'" "b = y # b'" "length a' = l" "length b' = l"
    by (metis length_Suc_conv)
  have ff: "z AND 0xFF = (z :: byte)" for z unfolding byte_ff by simp
  show ?case
  proof (cases "8 \<le> n")
    case True
    then show ?thesis using Suc.IH [of a' b' "n - 8"] Suc.prems(3) ab ff by (simp add: addr_bits_def take_bytes_Cons byte_bits_inj)
  next
    case False
    then show ?thesis using masked_zero [OF ab(3)] masked_zero [OF ab(4)] ab masked_byte [of n x y] by (simp add: addr_bits_def take_bytes_Cons)
  qed
qed simp

lemma length_mask_bytes [simp]: "length (mask_bytes l n) = l"
  by (induction l arbitrary: n) simp_all

lemma mask_bytes_ff: "8 * k \<le> n \<Longrightarrow> mask_bytes (k + l) n = replicate k 0xFF @ mask_bytes l (n - 8 * k)"
proof (induction k arbitrary: n)
  case (Suc k)
  then have "8 * k \<le> n - 8" "n - 8 - 8 * k = n - 8 * Suc k" "8 \<le> n" by simp_all
  with Suc.IH [of "n - 8"] show ?case by simp
qed simp

lemma mask_bytes_nth: "i < l \<Longrightarrow> n < 8 * (i + 1) \<Longrightarrow> mask_bytes l n ! i \<noteq> 0xFF"
proof (induction l arbitrary: i n)
  case (Suc l)
  have "NOT (drop_bit n (0xFF :: byte)) \<noteq> 0xFF" if "n < 8"
  proof
    assume "NOT (drop_bit n (0xFF :: byte)) = 0xFF"
    then have "bit (NOT (drop_bit n (0xFF :: byte))) 0 \<longleftrightarrow> bit (0xFF :: byte) 0" by simp
    then show False unfolding byte_ff using that by (simp add: bit_not_iff bit_drop_bit_eq bit_mask_iff)
  qed
  with Suc show ?case by (cases i) auto
qed simp

lemma and_ff: "x AND y = (0xFF :: byte) \<Longrightarrow> y = 0xFF"
  unfolding byte_ff by (metis and.left_neutral and.right_idem and.commute)

text \<open>Masking never turns an IPv6 network into an IPv4 one.\<close>

lemma masked_v6:
  assumes "length a = 16" "IP_To4 a = []" "n \<le> 128"
  shows "IP_To4 (map2 (AND) a (mask_bytes 16 n)) = []"
proof (rule ccontr)
  let ?m = "map2 (AND) a (mask_bytes 16 n)"
  assume "IP_To4 ?m \<noteq> []"
  then have v4: "take 12 ?m = v4InV6Prefix" using assms(1) by (auto simp: IP_To4_def split: if_splits)
  then have "take 12 ?m ! 11 = 0xFF" by (simp add: v4InV6Prefix_def)
  then have "a ! 11 AND mask_bytes 16 n ! 11 = 0xFF" using assms(1) by simp
  then have "mask_bytes 16 n ! 11 = 0xFF" by (rule and_ff)
  then have "96 \<le> n" using mask_bytes_nth [of 11 16 n] by fastforce
  then have "mask_bytes 16 n = replicate 12 0xFF @ mask_bytes 4 (n - 96)" using mask_bytes_ff [of 12 n 4] by simp
  then have "take 12 ?m = map2 (AND) (take 12 a) (replicate 12 0xFF)"
    by (simp add: take_map take_zip)
  also have "\<dots> = take 12 a" unfolding byte_ff using assms(1) by (intro nth_equalityI) simp_all
  finally have "take 12 a = v4InV6Prefix" using v4 by simp
  then have "IP_To4 a = drop 12 a" using assms(1) by (simp add: IP_To4_def)
  with assms(1,2) show False by (metis length_drop length_0_conv diff_is_0_eq zero_neq_numeral numeral_le_iff semiring_norm)
qed

lemma double_mask: "length a = length m \<Longrightarrow> map2 (AND) (map2 (AND) a m) m = map2 (AND) a (m :: bytes)"
  by (induction a m rule: list_induct2) (simp_all add: and.assoc)

lemma contains_range:
  assumes "ip_length (ci_ip c)" "ip_length target" "(IP_To4 (ci_ip c) = []) = (IP_To4 target = [])"
  defines "m \<equiv> CIDRMask (ci_prefix c) (8 * (if IP_To4 target = [] then 16 else 4))"
  shows "IPNet_Contains (IP_Mask (ci_ip c) m) m target \<longleftrightarrow> in_range c target"
proof -
  let ?l = "if IP_To4 target = [] then 16 else 4 :: nat"
  let ?a = "family_bytes (ci_ip c)" and ?b = "family_bytes target"
  have To4: "length (IP_To4 ip) = 4" if "IP_To4 ip \<noteq> []" for ip
    using that by (auto simp: IP_To4_def split: if_splits)
  have l: "length ?a = ?l" "length ?b = ?l"
    using assms(1,2,3) To4 by (auto simp: family_bytes_def ip_length_def IP_To4_def split: if_splits)
  show ?thesis
  proof (cases "ci_prefix c \<le> 8 * ?l")
    case False
    then have "m = []" by (simp add: m_def CIDRMask_def)
    moreover have "length ?b \<noteq> 0" using l by simp
    ultimately show ?thesis
      using False l by (auto simp: IPNet_Contains_def networkNumberAndMask_def in_range_def family_bytes_def Let_def split: if_splits)
  next
    case True
    then have m: "m = mask_bytes ?l (ci_prefix c)" by (simp add: m_def CIDRMask_def)
    then have lm: "length m = ?l" by simp
    have ip: "IP_Mask (ci_ip c) m = map2 (AND) ?a m"
      using assms(1,3) m by (auto simp: IP_Mask_def family_bytes_def ip_length_def IP_To4_def Let_def split: if_splits)
    have nn: "networkNumberAndMask (map2 (AND) ?a m) m = (map2 (AND) ?a m, m)"
    proof (cases "IP_To4 target = []")
      case True
      then have "IP_To4 (map2 (AND) ?a m) = []"
        using masked_v6 [of "ci_ip c" "ci_prefix c"] \<open>ci_prefix c \<le> 8 * ?l\<close> assms(3) l m by (simp add: family_bytes_def)
      then show ?thesis using True l m by (simp add: networkNumberAndMask_def Let_def)
    next
      case False
      then have "length (map2 (AND) ?a m) = 4" using l m by simp
      then show ?thesis using False m by (simp add: networkNumberAndMask_def IP_To4_def Let_def)
    qed
    have "IPNet_Contains (IP_Mask (ci_ip c) m) m target \<longleftrightarrow> map2 (AND) ?a m = map2 (AND) ?b m"
      using l lm double_mask [of ?a m] by (simp add: IPNet_Contains_def ip nn family_bytes_def [symmetric])
    also have "\<dots> \<longleftrightarrow> in_range c target"
      using masked_prefix [OF l True] True l m by (simp add: in_range_def)
    finally show ?thesis .
  qed
qed

text \<open>Address rules are exactly prefix tests. For every list of ranges with IPv4 or IPv6 addresses and every
  target, in either of their encodings, the rule list matches if and only if some range of the
  target's own family agrees with it on all bits of its prefix; a prefix longer than the address
  never matches, and masking never moves a range to the other family.\<close>

theorem matchIP_is_prefix_match:
  assumes "ip_length target" "\<forall>c \<in> set cs. ip_length (ci_ip c)"
  shows "matchIP cs target \<longleftrightarrow> (\<exists>c \<in> set cs. in_range c target)"
  using assms(2)
proof (induction cs)
  case (Cons c cs)
  show ?case
  proof (cases "(IP_To4 (ci_ip c) = []) = (IP_To4 target = [])")
    case True
    then show ?thesis using contains_range [of c target] Cons assms(1) by (auto simp: Let_def)
  next
    case False
    then have "length (family_bytes (ci_ip c)) \<noteq> length (family_bytes target)"
      using assms(1) Cons.prems by (auto simp: family_bytes_def ip_length_def IP_To4_def split: if_splits)
    with False show ?thesis using Cons by (auto simp: Let_def in_range_def)
  qed
qed simp

definition sample_range :: cidr_rule where
  "sample_range = \<lparr>ci_ip = v4InV6Prefix @ [10, 64, 0, 0], ci_prefix = 10\<rparr>"

theorem matchIP_is_prefix_match_witness:
  "matchIP [sample_range] [10, 127, 3, 4] \<longleftrightarrow> in_range sample_range [10, 127, 3, 4]"
  by (subst matchIP_is_prefix_match) (simp_all add: ip_length_def sample_range_def v4InV6Prefix_def)

section \<open>Domain rules\<close>

definition suffix_rule :: "string \<Rightarrow> domain_rule" where
  "suffix_rule d = \<lparr>dr_type = Domain_Domain, dr_value = d, dr_attrs = []\<rparr>"

text \<open>A domain rule looks at the first occurrence of its value only. Take a rule value \<open>d\<close> and a label \<open>l\<close>
  that does not end in a dot. When \<open>d\<close> first occurs inside the label, the name \<open>l d.d\<close> is a
  subdomain of \<open>d\<close> and the rule does not match it; and the name \<open>d.l d\<close> is not a subdomain of
  \<open>d\<close> and the rule does match it.\<close>

theorem domain_rule_first_occurrence:
  assumes "l \<noteq> []" "last l \<noteq> CHR ''.''" "Index (l @ d @ ''.'' @ d) d = Some (length l)"
  shows "HasSuffix (l @ d @ ''.'' @ d) (''.'' @ d) \<and> \<not> matchDomain re [suffix_rule d] (l @ d @ ''.'' @ d) \<and>
    \<not> HasSuffix (d @ ''.'' @ l @ d) (''.'' @ d) \<and> matchDomain re [suffix_rule d] (d @ ''.'' @ l @ d)"
proof -
  have 1: "HasSuffix (l @ d @ ''.'' @ d) (''.'' @ d)" using HasSuffix_append [of "l @ d" "''.'' @ d"] by simp
  have "(l @ d @ ''.'' @ d) ! (length l - 1) = last l" using assms(1) by (simp add: nth_append last_conv_nth)
  then have 2: "\<not> matchDomain re [suffix_rule d] (l @ d @ ''.'' @ d)"
    using assms by (simp add: suffix_rule_def)
  have 3: "\<not> HasSuffix (d @ ''.'' @ l @ d) (''.'' @ d)"
  proof
    assume "HasSuffix (d @ ''.'' @ l @ d) (''.'' @ d)"
    then obtain q where "(d @ ''.'' @ l) @ d = (q @ ''.'') @ d" by (auto simp: HasSuffix_iff)
    then have "d @ ''.'' @ l = q @ ''.''" by simp
    then have "last (d @ ''.'' @ l) = CHR ''.''" by simp
    with assms(1,2) show False by simp
  qed
  have "Index (d @ ''.'' @ l @ d) d = Some 0"
  proof (cases "d @ ''.'' @ l @ d")
    case (Cons x xs)
    then show ?thesis using HasPrefix_append [of d "''.'' @ l @ d"] by simp
  qed simp
  moreover have "HasSuffix (d @ ''.'' @ l @ d) d" using HasSuffix_append [of "d @ ''.'' @ l" d] by simp
  ultimately have 4: "matchDomain re [suffix_rule d] (d @ ''.'' @ l @ d)" by (simp add: suffix_rule_def)
  show ?thesis using 1 2 3 4 by blast
qed

theorem domain_rule_first_occurrence_witness:
  "HasSuffix ''telecom.com'' ''.com'' \<and> \<not> matchDomain (\<lambda>_ _. None) [suffix_rule ''com''] ''telecom.com''"
proof -
  have "Index (''tele'' @ ''com'' @ ''.'' @ ''com'') ''com'' = Some (length ''tele'')" by code_simp
  from domain_rule_first_occurrence [OF _ _ this, of "\<lambda>_ _. None"] show ?thesis by simp
qed

section \<open>Configured blocks\<close>

lemma plain_rules_keep:
  "rc_domains (plain_rules ty norm infos c) pol =
     rc_domains c pol @ map (\<lambda>(cd, _). \<lparr>dr_type = ty, dr_value = norm cd, dr_attrs = []\<rparr>) (filter (\<lambda>(_, p). p = pol) infos)"
  "rc_strategy (plain_rules ty norm infos c) = rc_strategy c"
  by (induction infos arbitrary: c) (auto simp: plain_rules_def add_domains_def)

lemma load_geoip_strategy: "rc_strategy (fst (load_geoip ld file cs st)) = rc_strategy (fst st)"
proof (induction cs arbitrary: st)
  case (Cons x cs)
  obtain cd pol c g where x: "x = (cd, pol)" "st = (c, g)" by (metis surj_pair)
  show ?case using Cons.IH by (auto simp: x add_cidrs_def split: prod.splits outcome.splits)
qed simp

lemma load_geosite_strategy: "rc_strategy (fst (load_geosite ld file cs st)) = rc_strategy (fst st)"
proof (induction cs arbitrary: st)
  case (Cons x cs)
  obtain cd pol c g where x: "x = (cd, pol)" "st = (c, g)" by (metis surj_pair)
  show ?case using Cons.IH by (auto simp: x add_domains_def split: prod.splits outcome.splits option.splits)
qed simp

lemma regex_rules_strategy: "regex_rules re cs c = Ret c' \<Longrightarrow> rc_strategy c' = rc_strategy c"
  by (induction re cs c rule: regex_rules.induct) (auto simp: add_domains_def split: if_splits)

lemma cidr_rules_keep: "cidr_rules cs c = Ret c' \<Longrightarrow> rc_domains c' = rc_domains c \<and> rc_strategy c' = rc_strategy c"
  by (induction cs c rule: cidr_rules.induct) (auto simp: add_cidrs_def split: outcome.splits)

lemma matchDomain_full:
  assumes "\<lparr>dr_type = Domain_Full, dr_value = target, dr_attrs = []\<rparr> \<in> set ds"
    "\<forall>d \<in> set ds. dr_type d = Domain_Regex \<longrightarrow> re (dr_value d) target \<noteq> None"
  shows "matchDomain re ds target"
  using assms by (induction ds) (auto split: domain_type.splits option.splits)

lemma loadCode_block: "prefix @ x \<in> set (rt_block cfg) \<Longrightarrow> x \<noteq> [] \<Longrightarrow> (x, Block) \<in> set (loadCode cfg prefix)"
  by (force simp: loadCode_def codes_of_def)


definition sample_router_config :: router_config where
  "sample_router_config = \<lparr>rt_proxy = [], rt_bypass = [], rt_block = [''full:Ads.example''], rt_strategy = ''as_is'',
     rt_default = ''proxy'', rt_geoip = [], rt_geosite = []\<rparr>"

definition sample_regex :: regex where
  "sample_regex p t = Some (p = t)"

definition no_list :: "string \<Rightarrow> string \<Rightarrow> unit \<Rightarrow> 'a list outcome \<times> unit" where
  "no_list file cd g = (Raise EOF, g)"


end
