(* ===== verification/Admin_Access.thy ===== *)
theory Admin_Access
  imports Credentials
begin

text \<open>
  Access to the management panel: the sessions, rate limits, credential cache and subscription
  cache of \<open>AdminServer\<close> (\<open>internal/webserver/server.go\<close>, \<open>middleware.go\<close>, \<open>subscription.go\<close>),
  logging in and changing the administrator's credentials (\<open>middleware.go\<close>, \<open>settings.go\<close>), and
  the guards of the route groups (\<open>routes.go\<close>). The JWT and bcrypt libraries are parameters.
  Times are in nanoseconds from Go's zero time.
\<close>

section \<open>State\<close>

text \<open>The claims of a token as the panel reads them: \<open>cl_jti\<close> is \<open>None\<close> when the claim is missing
  or not a string.\<close>

record claims =
  cl_user :: string
  cl_jti :: "string option"
  cl_exp :: "int option"

text \<open>\<open>jwt_Parse\<close> is \<open>jwt.Parse\<close> with its key function from the signing method of the token; it
  returns the claims of a valid token. \<open>jwt_SignedString\<close> signs with HS256.\<close>

record access_lib =
  jwt_Parse :: "string \<Rightarrow> (string \<Rightarrow> bytes option) \<Rightarrow> int \<Rightarrow> claims option"
  jwt_SignedString :: "claims \<Rightarrow> bytes \<Rightarrow> string option"
  GenerateFromPassword :: "bytes \<Rightarrow> string \<Rightarrow> string option"
  CompareHashAndPassword :: "string \<Rightarrow> string \<Rightarrow> bool"

record rateLimitEntry =
  rl_Count :: nat
  rl_ResetAt :: int

type_synonym rate_table = "(string \<times> rateLimitEntry) list"

record subscriptionCacheEntry =
  sc_Body :: string
  sc_ETag :: string
  sc_ExpiresAt :: int

record admin_server =
  as_db :: config_table
  as_jwtSecret :: bytes
  as_sessionTimes :: "(string \<times> int) list"
  as_internalToken :: string
  as_configUser :: string
  as_configPass :: string
  as_cachedAdmin :: "(string \<times> string) option"
  as_loginFailures :: rate_table
  as_adminRequests :: rate_table
  as_subscriptionCache :: "(string \<times> subscriptionCacheEntry) list"

definition second :: int where
  "second = 1000000000"

definition loginFailureLimit :: nat where
  "loginFailureLimit = 5"

definition loginFailureWindow :: int where
  "loginFailureWindow = 15 * 60 * second"

definition adminRequestLimit :: nat where
  "adminRequestLimit = 240"

definition adminRequestWindow :: int where
  "adminRequestWindow = 60 * second"

definition maxRateLimitEntries :: nat where
  "maxRateLimitEntries = 10000"

definition sessionIdleTimeout :: int where
  "sessionIdleTimeout = 30 * 60 * second"

definition subscriptionCacheTTL :: int where
  "subscriptionCacheTTL = 15 * second"

text \<open>\<open>Time.Unix\<close>: whole seconds since 1970.\<close>

definition Unix :: "int \<Rightarrow> int" where
  "Unix t = t div second - 62135596800"

section \<open>Sessions\<close>

definition setJWTSecret :: "bytes \<Rightarrow> admin_server \<Rightarrow> admin_server" where
  "setJWTSecret secret s = s\<lparr>as_jwtSecret := secret, as_sessionTimes := []\<rparr>"

definition updateSessionActivity :: "int \<Rightarrow> string \<Rightarrow> admin_server \<Rightarrow> admin_server" where
  "updateSessionActivity now jti s = s\<lparr>as_sessionTimes := AList.update jti now (as_sessionTimes s)\<rparr>"

definition isSessionExpired :: "int \<Rightarrow> string \<Rightarrow> int \<Rightarrow> admin_server \<Rightarrow> bool" where
  "isSessionExpired now jti maxIdle s =
     (case map_of (as_sessionTimes s) jti of
        None \<Rightarrow> False
      | Some lastSeen \<Rightarrow> now - lastSeen > maxIdle)"

definition verifyJWT :: "access_lib \<Rightarrow> int \<Rightarrow> string \<Rightarrow> admin_server \<Rightarrow> claims option" where
  "verifyJWT lib now ts s =
     jwt_Parse lib ts (\<lambda>alg. if alg \<noteq> ''HS256'' then None else Some (as_jwtSecret s)) now"

text \<open>A guard either aborts with a status or lets the request proceed.\<close>

definition enforceSessionIdleTimeout :: "int \<Rightarrow> claims \<Rightarrow> admin_server \<Rightarrow> int option \<times> admin_server" where
  "enforceSessionIdleTimeout now cl s =
     (let jti = (case cl_jti cl of None \<Rightarrow> [] | Some j \<Rightarrow> j) in
      if jti = [] then (Some 401, s)
      else if isSessionExpired now jti sessionIdleTimeout s then (Some 401, s)
      else (None, updateSessionActivity now jti s))"

definition TrimPrefix :: "string \<Rightarrow> string \<Rightarrow> string" where
  "TrimPrefix s p = (if HasPrefix s p then drop (length p) s else s)"

definition requireAdminSession ::
  "access_lib \<Rightarrow> int \<Rightarrow> string \<Rightarrow> admin_server \<Rightarrow> int option \<times> admin_server" where
  "requireAdminSession lib now authorization s =
     (let ts = TrimPrefix authorization ''Bearer '' in
      if ts = [] then (Some 401, s)
      else case verifyJWT lib now ts s of
        None \<Rightarrow> (Some 401, s)
      | Some cl \<Rightarrow> enforceSessionIdleTimeout now cl s)"

definition requireAdminOrNode ::
  "access_lib \<Rightarrow> vault \<Rightarrow> node_row list \<Rightarrow> int \<Rightarrow> string \<Rightarrow> string \<Rightarrow> admin_server \<Rightarrow> int option \<times> admin_server" where
  "requireAdminOrNode lib v nodes now nodeSecret authorization s =
     (if nodeSecret \<noteq> [] \<and> (case NodeBySecret v nodeSecret nodes of Ret _ \<Rightarrow> True | _ \<Rightarrow> False) then (None, s)
      else
        let ts = TrimPrefix authorization ''Bearer '' in
        if ts = [] then (Some 401, s)
        else case verifyJWT lib now ts s of
          None \<Rightarrow> (Some 401, s)
        | Some cl \<Rightarrow> enforceSessionIdleTimeout now cl s)"

definition requireInternalControl :: "string \<Rightarrow> string \<Rightarrow> admin_server \<Rightarrow> int option" where
  "requireInternalControl remoteAddr provided s =
     (case SplitHostPort remoteAddr of
        None \<Rightarrow> Some 403
      | Some (host, _) \<Rightarrow>
          if host \<noteq> ''127.0.0.1'' \<and> host \<noteq> ''::1'' then Some 403
          else if as_internalToken s \<noteq> [] \<and> provided \<noteq> as_internalToken s then Some 403
          else None)"

section \<open>Rate limits\<close>

definition rateLimitExceeded :: "int \<Rightarrow> rate_table \<Rightarrow> string \<Rightarrow> nat \<Rightarrow> bool \<times> rate_table" where
  "rateLimitExceeded now entries key limit =
     (case map_of entries key of
        None \<Rightarrow> (False, entries)
      | Some e \<Rightarrow>
          if \<not> now < rl_ResetAt e then (False, AList.delete key entries)
          else (rl_Count e \<ge> limit, entries))"

definition rate_start :: rateLimitEntry where
  "rate_start = \<lparr>rl_Count = 0, rl_ResetAt = 0\<rparr>"

definition recordRateLimitEvent :: "int \<Rightarrow> rate_table \<Rightarrow> string \<Rightarrow> int \<Rightarrow> rate_table" where
  "recordRateLimitEvent now entries key window =
     (let entries1 = (if length entries \<ge> maxRateLimitEntries
                      then filter (\<lambda>(_, e). now < rl_ResetAt e) entries else entries)
      in if length entries1 \<ge> maxRateLimitEntries then entries1
         else
           let e = (case map_of entries1 key of None \<Rightarrow> rate_start | Some e \<Rightarrow> e);
               e1 = (if rl_ResetAt e = 0 \<or> \<not> now < rl_ResetAt e
                     then \<lparr>rl_Count = 0, rl_ResetAt = now + window\<rparr> else e)
           in AList.update key (e1\<lparr>rl_Count := rl_Count e1 + 1\<rparr>) entries1)"

definition clearLoginFailures :: "string \<Rightarrow> admin_server \<Rightarrow> admin_server" where
  "clearLoginFailures clientIP s = s\<lparr>as_loginFailures := AList.delete clientIP (as_loginFailures s)\<rparr>"

definition enforceLoginRateLimit :: "int \<Rightarrow> string \<Rightarrow> admin_server \<Rightarrow> int option \<times> admin_server" where
  "enforceLoginRateLimit now clientIP s =
     (case rateLimitExceeded now (as_loginFailures s) clientIP loginFailureLimit of
        (exceeded, t) \<Rightarrow> (if exceeded then Some 429 else None, s\<lparr>as_loginFailures := t\<rparr>))"

definition enforceAdminRateLimit :: "int \<Rightarrow> string \<Rightarrow> admin_server \<Rightarrow> int option \<times> admin_server" where
  "enforceAdminRateLimit now clientIP s =
     (case rateLimitExceeded now (as_adminRequests s) clientIP adminRequestLimit of
        (exceeded, t) \<Rightarrow>
          if exceeded then (Some 429, s\<lparr>as_adminRequests := t\<rparr>)
          else (None, s\<lparr>as_adminRequests := recordRateLimitEvent now t clientIP adminRequestWindow\<rparr>))"

section \<open>Logging in\<close>

text \<open>\<open>errU\<close> and \<open>errP\<close>: the two queries fail with another error than a missing row.\<close>

definition loadAdminCreds :: "bool \<Rightarrow> bool \<Rightarrow> admin_server \<Rightarrow> (string \<times> string \<times> bool) \<times> admin_server" where
  "loadAdminCreds errU errP s =
     (case as_cachedAdmin s of
        Some (u, p) \<Rightarrow> ((u, p, True), s)
      | None \<Rightarrow>
          if errU then ((as_configUser s, as_configPass s, False), s)
          else
            let u = (case map_of (as_db s) ''admin_username'' of None \<Rightarrow> as_configUser s | Some x \<Rightarrow> x) in
            if errP then ((u, as_configPass s, False), s)
            else
              let p = (case map_of (as_db s) ''admin_password'' of None \<Rightarrow> as_configPass s | Some x \<Rightarrow> x)
              in ((u, p, True), s\<lparr>as_cachedAdmin := Some (u, p)\<rparr>))"

definition invalidateAdminCache :: "admin_server \<Rightarrow> admin_server" where
  "invalidateAdminCache s = s\<lparr>as_cachedAdmin := None\<rparr>"

text \<open>What the environment decides during one login: the decoded body, the failing queries, the salt,
  whether the upgraded hash is saved, and the random session id.\<close>

record login_env =
  lg_body :: "(string \<times> string) option"
  lg_errU :: bool
  lg_errP :: bool
  lg_salt :: bytes
  lg_saveOk :: bool
  lg_jti :: "bytes option"

definition check_password ::
  "access_lib \<Rightarrow> login_env \<Rightarrow> string \<Rightarrow> string \<Rightarrow> admin_server \<Rightarrow> bool \<times> admin_server" where
  "check_password lib env effPass password s =
     (if HasPrefix effPass ''$2a$'' then (CompareHashAndPassword lib effPass password, s)
      else if password = effPass then
        (True, case GenerateFromPassword lib (lg_salt env) password of
           None \<Rightarrow> s
         | Some h \<Rightarrow>
             if \<not> lg_saveOk env then s
             else invalidateAdminCache (s\<lparr>as_db := AList.update ''admin_password'' h (as_db s)\<rparr>))
      else (False, s))"

definition issue_token ::
  "access_lib \<Rightarrow> int \<Rightarrow> login_env \<Rightarrow> string \<Rightarrow> admin_server \<Rightarrow> (int \<times> string option) \<times> admin_server" where
  "issue_token lib now env username s =
     (case lg_jti env of
        None \<Rightarrow> ((500, None), s)
      | Some raw \<Rightarrow>
          let jti = concat (map hex_byte raw) in
          (case jwt_SignedString lib
                 \<lparr>cl_user = username, cl_jti = Some jti, cl_exp = Some (Unix (now + 24 * 3600 * second))\<rparr> (as_jwtSecret s) of
             None \<Rightarrow> ((500, None), s)
           | Some t \<Rightarrow> ((200, Some t), updateSessionActivity now jti s)))"

definition handleLogin ::
  "access_lib \<Rightarrow> int \<Rightarrow> string \<Rightarrow> login_env \<Rightarrow> admin_server \<Rightarrow> (int \<times> string option) \<times> admin_server" where
  "handleLogin lib now clientIP env s =
     (case lg_body env of
        None \<Rightarrow> ((400, None), s)
      | Some (username, password) \<Rightarrow>
          (case loadAdminCreds (lg_errU env) (lg_errP env) s of ((effUser, effPass, credsOK), s1) \<Rightarrow>
             if \<not> credsOK then ((503, None), s1)
             else
               (case (if username = effUser then check_password lib env effPass password s1 else (False, s1)) of
                  (authSuccess, s2) \<Rightarrow>
                    if authSuccess then issue_token lib now env username (clearLoginFailures clientIP s2)
                    else ((401, None),
                          s2\<lparr>as_loginFailures := recordRateLimitEvent now (as_loginFailures s2) clientIP loginFailureWindow\<rparr>))))"

text \<open>The route \<open>POST /admin/api/login\<close>: its middleware, then the handler.\<close>

definition login_route ::
  "access_lib \<Rightarrow> int \<Rightarrow> string \<Rightarrow> login_env \<Rightarrow> admin_server \<Rightarrow> (int \<times> string option) \<times> admin_server" where
  "login_route lib now clientIP env s =
     (case enforceLoginRateLimit now clientIP s of
        (Some status, s1) \<Rightarrow> ((status, None), s1)
      | (None, s1) \<Rightarrow> handleLogin lib now clientIP env s1)"

section \<open>Changing the credentials\<close>

record update_env =
  up_body :: "(string \<times> string) option"
  up_beginOk :: bool
  up_saveUserOk :: bool
  up_salt :: bytes
  up_savePassOk :: bool
  up_fresh :: "bytes option"
  up_rnd :: "bytes option"
  up_saveJwtOk :: bool
  up_commitOk :: bool

definition SetAdminPassword :: "access_lib \<Rightarrow> bytes \<Rightarrow> bool \<Rightarrow> string \<Rightarrow> config_table \<Rightarrow> go_error option \<times> config_table" where
  "SetAdminPassword lib salt saveOk password db =
     (if password = [] then (Some (Opaque ''database and non-empty administrator password are required''), db)
      else case GenerateFromPassword lib salt password of
        None \<Rightarrow> (Some (Opaque ''hash administrator password''), db)
      | Some h \<Rightarrow>
          if saveOk then (None, AList.update ''admin_password'' h db) else (Some (Opaque ''database''), db))"

definition handleUpdateAdmin ::
  "access_lib \<Rightarrow> vault \<Rightarrow> update_env \<Rightarrow> admin_server \<Rightarrow> int \<times> admin_server" where
  "handleUpdateAdmin lib v env s =
     (case up_body env of
        None \<Rightarrow> (400, s)
      | Some (username, password) \<Rightarrow>
          if username = [] \<and> password = [] then (200, s)
          else if \<not> up_beginOk env then (500, s)
          else if username \<noteq> [] \<and> \<not> up_saveUserOk env then (500, s)
          else
            let tx = (if username \<noteq> [] then AList.update ''admin_username'' username (as_db s) else as_db s) in
            if password = [] then
              (if \<not> up_commitOk env then (500, s) else (200, invalidateAdminCache (s\<lparr>as_db := tx\<rparr>)))
            else
              (case SetAdminPassword lib (up_salt env) (up_savePassOk env) password tx of
                 (Some _, _) \<Rightarrow> (500, s)
               | (None, tx1) \<Rightarrow>
                   (case RotateJWTSecret v (up_fresh env) (up_rnd env) (up_saveJwtOk env) tx1 of
                      (Ret secret, tx2) \<Rightarrow>
                        if \<not> up_commitOk env then (500, s)
                        else (200, invalidateAdminCache (setJWTSecret secret (s\<lparr>as_db := tx2\<rparr>)))
                    | _ \<Rightarrow> (500, s))))"

section \<open>The subscription cache\<close>

definition getSubscriptionCache ::
  "int \<Rightarrow> string \<Rightarrow> admin_server \<Rightarrow> subscriptionCacheEntry option \<times> admin_server" where
  "getSubscriptionCache now key s =
     (case map_of (as_subscriptionCache s) key of
        None \<Rightarrow> (None, s)
      | Some e \<Rightarrow>
          if \<not> now < sc_ExpiresAt e then (None, s\<lparr>as_subscriptionCache := AList.delete key (as_subscriptionCache s)\<rparr>)
          else (Some e, s))"

definition invalidateSubscriptionCache :: "admin_server \<Rightarrow> admin_server" where
  "invalidateSubscriptionCache s = s\<lparr>as_subscriptionCache := []\<rparr>"

definition invalidateSubscriptionAfterMutation :: "string \<Rightarrow> admin_server \<Rightarrow> admin_server" where
  "invalidateSubscriptionAfterMutation verb s =
     (if verb \<noteq> ''GET'' \<and> verb \<noteq> ''HEAD'' then invalidateSubscriptionCache s else s)"

definition cacheSubscription :: "int \<Rightarrow> string \<Rightarrow> string \<Rightarrow> admin_server \<Rightarrow> subscriptionCacheEntry \<times> admin_server" where
  "cacheSubscription now key body s =
     (let e = \<lparr>sc_Body = body, sc_ETag = ''\"'' @ concat (map hex_byte (sha256 (bytes_of body))) @ ''\"'',
               sc_ExpiresAt = now + subscriptionCacheTTL\<rparr>
      in (e, s\<lparr>as_subscriptionCache := AList.update key e (as_subscriptionCache s)\<rparr>))"

text \<open>The group of the management API: rate limit, cache invalidation, session, then the handler.\<close>

definition admin_guard ::
  "access_lib \<Rightarrow> int \<Rightarrow> string \<Rightarrow> string \<Rightarrow> string \<Rightarrow> admin_server \<Rightarrow> int option \<times> admin_server" where
  "admin_guard lib now clientIP verb authorization s =
     (case enforceAdminRateLimit now clientIP s of
        (Some status, s1) \<Rightarrow> (Some status, s1)
      | (None, s1) \<Rightarrow> requireAdminSession lib now authorization (invalidateSubscriptionAfterMutation verb s1))"

section \<open>Starting the server and the internal token\<close>

definition newAdminServer ::
  "vault \<Rightarrow> string \<Rightarrow> string \<Rightarrow> bytes option \<Rightarrow> bytes option \<Rightarrow> bool \<Rightarrow> string outcome \<Rightarrow> config_table \<Rightarrow> admin_server outcome" where
  "newAdminServer v username password fresh rnd dbOk internalToken db =
     (case LoadJWTSecret v fresh rnd dbOk db of
        (Ret secret, db') \<Rightarrow>
          (case internalToken of
             Ret tok \<Rightarrow>
               Ret (setJWTSecret secret
                 \<lparr>as_db = db', as_jwtSecret = [], as_sessionTimes = [], as_internalToken = tok,
                  as_configUser = username, as_configPass = password, as_cachedAdmin = None,
                  as_loginFailures = [], as_adminRequests = [], as_subscriptionCache = []\<rparr>)
           | _ \<Rightarrow> Panic ''admin panel: internal service token required but unavailable'')
      | _ \<Rightarrow> Panic ''admin panel: load JWT signing secret'')"

text \<open>The failing system calls of creating the token are those of \<open>WriteAtomic\<close>, after the directory.\<close>

definition ReadInternalToken :: "nat \<Rightarrow> path_entry \<Rightarrow> string outcome" where
  "ReadInternalToken getuid p =
     (case secretfile_Read getuid p of
        Ret d \<Rightarrow> if length d < 16 then Raise (Opaque ''internal token file is too short'') else Ret (string_of d)
      | Raise e \<Rightarrow> Raise (Err ''read internal token file'' (Some e))
      | Panic m \<Rightarrow> Panic m
      | Hang \<Rightarrow> Hang)"

definition LoadOrCreateInternalToken ::
  "nat \<Rightarrow> bytes option \<Rightarrow> bool \<Rightarrow> write_fault option \<Rightarrow> path_entry \<Rightarrow> string outcome \<times> path_entry" where
  "LoadOrCreateInternalToken getuid rnd mkdirOk fault p =
     (case secretfile_Read getuid p of
        Ret d \<Rightarrow> (if length d < 16 then Raise (Opaque ''internal token file is too short'') else Ret (string_of d), p)
      | Raise e \<Rightarrow>
          if \<not> errors_Is e ErrNotExist then (Raise (Err ''read internal token file'' (Some e)), p)
          else
            (case rnd of
               None \<Rightarrow> (Raise (Opaque ''generate internal token''), p)
             | Some raw \<Rightarrow>
                 let tok = concat (map hex_byte raw) in
                 if \<not> mkdirOk then (Raise (Opaque ''create internal token directory''), p)
                 else if fault \<noteq> None then (Raise (Opaque ''write internal token''), p)
                 else (Ret tok, OpenFile \<lparr>of_regular = True, of_perm = 0x180, of_uid = getuid, of_data = bytes_of tok\<rparr>))
      | Panic m \<Rightarrow> (Panic m, p)
      | Hang \<Rightarrow> (Hang, p))"

section \<open>The limiter bounds failed attempts\<close>

text \<open>Login requests that are served one after the other, with the status of each answer.\<close>

fun run_logins ::
  "access_lib \<Rightarrow> (int \<times> string \<times> login_env) list \<Rightarrow> admin_server \<Rightarrow> (int \<times> string \<times> int) list \<times> admin_server" where
  "run_logins lib [] s = ([], s)"
| "run_logins lib ((now, ip, env) # es) s =
     (case login_route lib now ip env s of ((status, _), s1) \<Rightarrow>
      case run_logins lib es s1 of (rs, s2) \<Rightarrow> ((now, ip, status) # rs, s2))"

definition failed_at :: "string \<Rightarrow> (int \<times> string \<times> int) list \<Rightarrow> int list" where
  "failed_at ip rs = map fst (filter (\<lambda>(_, i, status). i = ip \<and> status = 401) rs)"

definition since :: "int list \<Rightarrow> int \<Rightarrow> nat" where
  "since fails a = length (filter (\<lambda>f. a \<le> f) fails)"

definition between :: "int list \<Rightarrow> int \<Rightarrow> int \<Rightarrow> nat" where
  "between fails a b = length (filter (\<lambda>f. a \<le> f \<and> f < b) fails)"

lemma since_Cons [simp]: "since (f # fs) a = (if a \<le> f then 1 else 0) + since fs a"
  by (simp add: since_def)

lemma between_Cons [simp]: "between (f # fs) a b = (if a \<le> f \<and> f < b then 1 else 0) + between fs a b"
  by (simp add: between_def)

lemma since_Nil [simp]: "since [] a = 0"
  by (simp add: since_def)

lemma between_Nil [simp]: "between [] a b = 0"
  by (simp add: between_def)

lemma between_le_since: "between fs a b \<le> since fs a"
  by (induction fs) auto

lemma between_split: "a \<le> s \<Longrightarrow> between fs a b \<le> between fs a s + since fs s"
  by (induction fs) auto

lemma since_mono: "a \<le> b \<Longrightarrow> since fs b \<le> since fs a"
  by (induction fs) auto

lemma since_strict: "s \<in> set fs \<Longrightarrow> s < a \<Longrightarrow> since fs a < since fs s"
proof (induction fs)
  case (Cons f fs)
  then show ?case using since_mono [of s a fs] by (cases "f = s") auto
qed simp

lemma since_none: "\<forall>f\<in>set fs. f < a \<Longrightarrow> since fs a = 0"
  by (induction fs) auto

text \<open>What a table entry says about the failures of its address so far.\<close>

definition limiter_view :: "nat \<Rightarrow> int \<Rightarrow> int \<Rightarrow> int list \<Rightarrow> rateLimitEntry option \<Rightarrow> bool" where
  "limiter_view L W now fails v =
     (case v of
        None \<Rightarrow> (\<forall>f\<in>set fails. f < now) \<and> (\<forall>a > now - W. since fails a \<le> L - 1)
      | Some e \<Rightarrow> let s = rl_ResetAt e - W in
          s \<le> now \<and> s \<in> set fails \<and> (\<forall>f\<in>set fails. f < rl_ResetAt e) \<and> rl_ResetAt e > 0 \<and>
          rl_Count e \<le> L \<and> since fails s = rl_Count e \<and> (\<forall>a > s - W. between fails a s \<le> L - 1))"

definition limiter_inv :: "nat \<Rightarrow> int \<Rightarrow> int \<Rightarrow> int list \<Rightarrow> rateLimitEntry option \<Rightarrow> bool" where
  "limiter_inv L W now fails v \<longleftrightarrow>
     limiter_view L W now fails v \<and> (\<forall>a. between fails a (a + W) \<le> 2 * L - 1)"

lemma limiter_later: "limiter_inv L W now fails v \<Longrightarrow> now \<le> t \<Longrightarrow> limiter_inv L W t fails v"
  by (fastforce simp: limiter_inv_def limiter_view_def Let_def split: option.splits)

lemma limiter_expire:
  assumes "limiter_inv L W now fails (Some e)" "\<not> now < rl_ResetAt e"
  shows "limiter_inv L W now fails None"
proof -
  let ?s = "rl_ResetAt e - W"
  have "since fails a \<le> L - 1" if "a > now - W" for a
    using since_strict [of ?s fails a] assms that by (auto simp: limiter_inv_def limiter_view_def Let_def)
  with assms show ?thesis by (auto simp: limiter_inv_def limiter_view_def Let_def)
qed

lemma limiter_first:
  assumes "limiter_inv L W now fails None" "W > 0" "now > 0" "L > 0"
  shows "limiter_inv L W now (now # fails) (Some \<lparr>rl_Count = 1, rl_ResetAt = now + W\<rparr>)"
proof -
  have quiet: "since fails a \<le> L - 1" if "a > now - W" for a
    using assms(1) that by (auto simp: limiter_inv_def limiter_view_def)
  have before: "\<forall>f\<in>set fails. f < now" and old: "between fails a (a + W) \<le> 2 * L - 1" for a
    using assms(1) by (auto simp: limiter_inv_def limiter_view_def)
  have "between (now # fails) a (a + W) \<le> 2 * L - 1" for a
    using quiet [of a] between_le_since [of fails a "a + W"] old [of a] assms(4) by (cases "a > now - W") auto
  moreover have "between fails a now \<le> L - 1" if "a > now - W" for a
    using quiet [OF that] between_le_since [of fails a now] by simp
  moreover have "since fails now = 0" by (rule since_none [OF before])
  ultimately show ?thesis using before assms(2-4)
    by (auto simp: limiter_inv_def limiter_view_def Let_def)
qed

lemma limiter_next:
  assumes inv: "limiter_inv L W now fails (Some e)" and "now < rl_ResetAt e" "rl_Count e < L" "W > 0"
  shows "limiter_inv L W now (now # fails) (Some (e\<lparr>rl_Count := rl_Count e + 1\<rparr>))"
proof -
  let ?s = "rl_ResetAt e - W"
  have s: "?s \<le> now" "?s \<in> set fails" "since fails ?s = rl_Count e"
    using inv by (auto simp: limiter_inv_def limiter_view_def Let_def)
  have quiet: "between fails a ?s \<le> L - 1" if "a > ?s - W" for a
    using inv that by (auto simp: limiter_inv_def limiter_view_def Let_def)
  have old: "between fails a (a + W) \<le> 2 * L - 1" for a
    using inv by (auto simp: limiter_inv_def)
  have "between (now # fails) a (a + W) \<le> 2 * L - 1" for a
  proof (cases "a \<le> now \<and> now < a + W")
    case True
    show ?thesis
    proof (cases "a \<le> ?s")
      case le: True
      then have "between fails a (a + W) \<le> (L - 1) + rl_Count e"
        using between_split [OF le, of fails "a + W"] quiet [of a] True s by simp
      then show ?thesis using True assms(3) by simp
    next
      case False
      then have "between fails a (a + W) \<le> rl_Count e"
        using between_le_since [of fails a "a + W"] since_mono [of ?s a fails] s by simp
      then show ?thesis using True assms(3) by simp
    qed
  next
    case False
    then show ?thesis using old [of a] by auto
  qed
  moreover have "between fails a ?s \<le> L - 1" if "a > ?s - W" for a
    using quiet [OF that] .
  ultimately show ?thesis using inv s assms(2,3)
    by (auto simp: limiter_inv_def limiter_view_def Let_def)
qed

lemma limiter_check:
  assumes "limiter_inv L W now fails (map_of t ip)" "rateLimitExceeded now t ip L = (exceeded, t')"
  shows "limiter_inv L W now fails (map_of t' ip)"
    "\<not> exceeded \<Longrightarrow> map_of t' ip = Some e \<Longrightarrow> now < rl_ResetAt e \<and> rl_Count e < L"
  using assms limiter_expire [of L W now fails]
  by (auto simp: rateLimitExceeded_def AList.delete_conv' split: option.splits if_splits)

lemma rateLimitExceeded_other:
  "rateLimitExceeded now t key L = (x, t') \<Longrightarrow> i \<noteq> key \<Longrightarrow> map_of t' i = map_of t i"
  by (auto simp: rateLimitExceeded_def AList.delete_conv' split: option.splits if_splits)

lemma set_delete_subset: "fst ` set (AList.delete k al) \<subseteq> fst ` set al"
  by (auto simp: AList.delete_eq)

lemma rateLimitExceeded_keys:
  "rateLimitExceeded now t key L = (x, t') \<Longrightarrow> fst ` set t' \<subseteq> fst ` set t \<and> (distinct (map fst t) \<longrightarrow> distinct (map fst t'))"
  using set_delete_subset [of key t] distinct_delete [of t key]
  by (auto simp: rateLimitExceeded_def simp del: delete_keys split: option.splits if_splits)

lemma limiter_record:
  assumes "limiter_inv L W now fails (map_of t ip)" "length t < maxRateLimitEntries" "W > 0" "now > 0" "L > 0"
    "\<And>e. map_of t ip = Some e \<Longrightarrow> now < rl_ResetAt e \<and> rl_Count e < L"
  shows "limiter_inv L W now (now # fails) (map_of (recordRateLimitEvent now t ip W) ip)"
proof (cases "map_of t ip")
  case None
  then show ?thesis using limiter_first [of L W now fails] assms
    by (simp add: recordRateLimitEvent_def rate_start_def Let_def update_conv')
next
  case (Some e)
  then have "rl_ResetAt e > 0" using assms(1) by (simp add: limiter_inv_def limiter_view_def Let_def)
  with Some show ?thesis using limiter_next [of L W now fails e] assms
    by (simp add: recordRateLimitEvent_def Let_def update_conv')
qed

lemma recordRateLimitEvent_other:
  "length t < maxRateLimitEntries \<Longrightarrow> i \<noteq> key \<Longrightarrow> map_of (recordRateLimitEvent now t key W) i = map_of t i"
  by (simp add: recordRateLimitEvent_def Let_def update_conv')

lemma recordRateLimitEvent_keys:
  assumes "length t < maxRateLimitEntries"
  shows "fst ` set (recordRateLimitEvent now t key W) \<subseteq> insert key (fst ` set t)"
    "distinct (map fst t) \<Longrightarrow> distinct (map fst (recordRateLimitEvent now t key W))"
  using assms by (auto simp: recordRateLimitEvent_def Let_def dom_update distinct_update)

lemma check_password_failures:
  "check_password lib env effPass password s = (x, s') \<Longrightarrow> as_loginFailures s' = as_loginFailures s"
  by (auto simp: check_password_def invalidateAdminCache_def split: if_splits option.splits)

lemma loadAdminCreds_failures:
  "loadAdminCreds errU errP s = (x, s') \<Longrightarrow> as_loginFailures s' = as_loginFailures s"
  by (auto simp: loadAdminCreds_def Let_def split: if_splits option.splits)

lemma issue_token_failures:
  "issue_token lib now env username s = ((status, t), s') \<Longrightarrow>
     as_loginFailures s' = as_loginFailures s \<and> (status = 200 \<or> status = 500)"
  by (auto simp: issue_token_def updateSessionActivity_def Let_def split: option.splits)

text \<open>What a login does to the failure table, by its status.\<close>

lemma handleLogin_failures:
  assumes "handleLogin lib now ip env s = ((status, t), s')"
  shows "as_loginFailures s' =
     (if status = 401 then recordRateLimitEvent now (as_loginFailures s) ip loginFailureWindow
      else if status = 200 \<or> status = 500 then AList.delete ip (as_loginFailures s)
      else as_loginFailures s) \<and> status \<in> {200, 400, 401, 500, 503}"
proof (cases "lg_body env")
  case None
  with assms show ?thesis by (auto simp: handleLogin_def)
next
  case (Some b)
  obtain u p where b: "b = (u, p)" by (cases b)
  obtain eu ep ok s1 where l: "loadAdminCreds (lg_errU env) (lg_errP env) s = ((eu, ep, ok), s1)"
    by (metis prod.exhaust)
  obtain good s2 where c: "(if u = eu then check_password lib env ep p s1 else (False, s1)) = (good, s2)"
    by (metis prod.exhaust)
  have keep: "as_loginFailures s2 = as_loginFailures s" "as_loginFailures s1 = as_loginFailures s"
    using loadAdminCreds_failures [OF l] check_password_failures c by (auto split: if_splits)
  have h: "handleLogin lib now ip env s =
     (if \<not> ok then ((503, None), s1)
      else if good then issue_token lib now env u (clearLoginFailures ip s2)
      else ((401, None), s2\<lparr>as_loginFailures := recordRateLimitEvent now (as_loginFailures s2) ip loginFailureWindow\<rparr>))"
    using Some b l c by (simp add: handleLogin_def)
  show ?thesis
  proof (cases "ok \<and> good")
    case True
    then show ?thesis using assms h issue_token_failures [of lib now env u "clearLoginFailures ip s2" status t s'] keep
      by (auto simp: clearLoginFailures_def)
  next
    case False
    then show ?thesis using assms h keep by (auto split: if_splits)
  qed
qed

definition table_room :: "string set \<Rightarrow> rate_table \<Rightarrow> bool" where
  "table_room K t \<longleftrightarrow> fst ` set t \<subseteq> K \<and> distinct (map fst t)"

lemma table_room_length:
  "table_room K t \<Longrightarrow> finite K \<Longrightarrow> card K < maxRateLimitEntries \<Longrightarrow> length t < maxRateLimitEntries"
  using card_mono [of K "fst ` set t"] distinct_card [of "map fst t"] by (simp add: table_room_def)

lemma table_room_record:
  "table_room K t \<Longrightarrow> length t < maxRateLimitEntries \<Longrightarrow> key \<in> K \<Longrightarrow> table_room K (recordRateLimitEvent now t key W)"
  using recordRateLimitEvent_keys [of t now key W] unfolding table_room_def by blast

lemma table_room_delete: "table_room K t \<Longrightarrow> table_room K (AList.delete key t)"
  using set_delete_subset [of key t] distinct_delete [of t key] unfolding table_room_def by blast

text \<open>One login keeps the table within its room, and for the watched address the limiter's invariant.\<close>

lemma login_route_step:
  assumes r: "login_route lib now i env s = ((status, tok), s')" and K: "finite K" "card K < maxRateLimitEntries" "i \<in> K"
    and room: "table_room K (as_loginFailures s)" and now: "now > 0"
    and inv: "limiter_inv loginFailureLimit loginFailureWindow now fails (map_of (as_loginFailures s) ip)"
    and fail: "i = ip \<Longrightarrow> status \<noteq> 200 \<and> status \<noteq> 500"
  shows "table_room K (as_loginFailures s')"
    "limiter_inv loginFailureLimit loginFailureWindow now (if i = ip \<and> status = 401 then now # fails else fails)
       (map_of (as_loginFailures s') ip)"
proof -
  let ?L = loginFailureLimit and ?W = loginFailureWindow
  have pos: "?W > 0" "?L > 0" by (simp_all add: loginFailureWindow_def loginFailureLimit_def second_def)
  obtain x t where c: "rateLimitExceeded now (as_loginFailures s) i ?L = (x, t)" by (metis prod.exhaust)
  let ?s1 = "s\<lparr>as_loginFailures := t\<rparr>"
  have room1: "table_room K t"
    using rateLimitExceeded_keys [OF c] room by (auto simp: table_room_def)
  have len: "length t < maxRateLimitEntries" by (rule table_room_length [OF room1 K(1,2)])
  have inv1: "limiter_inv ?L ?W now fails (map_of t ip)"
    using limiter_check(1) [OF _ c] rateLimitExceeded_other [OF c, of ip] inv by (cases "i = ip") auto
  have "table_room K (as_loginFailures s') \<and>
    limiter_inv ?L ?W now (if i = ip \<and> status = 401 then now # fails else fails) (map_of (as_loginFailures s') ip)"
  proof (cases x)
    case True
    then show ?thesis using r c room1 inv1 by (auto simp: login_route_def enforceLoginRateLimit_def)
  next
    case False
    then have h: "handleLogin lib now i env ?s1 = ((status, tok), s')"
      using r c by (simp add: login_route_def enforceLoginRateLimit_def)
    have low: "now < rl_ResetAt e \<and> rl_Count e < ?L" if "i = ip" "map_of t ip = Some e" for e
      using limiter_check(2) [of ?L ?W now fails "as_loginFailures s" ip x t e] inv c False that by auto
    have upd: "as_loginFailures s' = (if status = 401 then recordRateLimitEvent now t i ?W
        else if status = 200 \<or> status = 500 then AList.delete i t else t)"
      using handleLogin_failures [OF h] by simp
    have "table_room K (as_loginFailures s')"
      using table_room_record [OF room1 len K(3)] table_room_delete [OF room1] room1 unfolding upd by simp
    moreover have "limiter_inv ?L ?W now (if i = ip \<and> status = 401 then now # fails else fails) (map_of (as_loginFailures s') ip)"
      using limiter_record [OF inv1 len pos(1) now pos(2)] low fail inv1 recordRateLimitEvent_other [OF len, of ip i now ?W]
      unfolding upd by (auto simp: AList.delete_conv')
    ultimately show ?thesis by simp
  qed
  then show "table_room K (as_loginFailures s')"
    "limiter_inv ?L ?W now (if i = ip \<and> status = 401 then now # fails else fails) (map_of (as_loginFailures s') ip)"
    by simp_all
qed

lemma run_logins_between:
  assumes "run_logins lib es s = (rs, s')" "sorted (map fst es)" "\<forall>e\<in>set es. t0 \<le> fst e" "t0 > 0"
    "finite K" "card K < maxRateLimitEntries" "(\<lambda>(_, i, _). i) ` set es \<subseteq> K" "table_room K (as_loginFailures s)"
    "limiter_inv loginFailureLimit loginFailureWindow t0 fails (map_of (as_loginFailures s) ip)"
    "\<forall>(t, i, status)\<in>set rs. i = ip \<longrightarrow> status \<noteq> 200 \<and> status \<noteq> 500"
  shows "between (failed_at ip rs) a (a + loginFailureWindow) + between fails a (a + loginFailureWindow)
    \<le> 2 * loginFailureLimit - 1"
  using assms
proof (induction es arbitrary: s rs t0 fails)
  case Nil
  then show ?case by (auto simp: limiter_inv_def failed_at_def)
next
  case (Cons e es)
  obtain now i env where e: "e = (now, i, env)" by (cases e)
  obtain status tok s1 where r: "login_route lib now i env s = ((status, tok), s1)" by (metis prod.exhaust)
  obtain rs1 where run: "run_logins lib es s1 = (rs1, s')" and rs: "rs = (now, i, status) # rs1"
    using Cons.prems(1) e r by (auto split: prod.splits)
  let ?fails = "if i = ip \<and> status = 401 then now # fails else fails"
  have t: "t0 \<le> now" "now > 0" using Cons.prems(3,4) e by auto
  have step: "table_room K (as_loginFailures s1)"
    "limiter_inv loginFailureLimit loginFailureWindow now ?fails (map_of (as_loginFailures s1) ip)"
    using login_route_step [OF r Cons.prems(5,6) _ Cons.prems(8) t(2) limiter_later [OF Cons.prems(9) t(1)]]
      Cons.prems(7,10) e rs by auto
  have "between (failed_at ip rs1) a (a + loginFailureWindow) + between ?fails a (a + loginFailureWindow)
      \<le> 2 * loginFailureLimit - 1"
    using Cons.IH [OF run _ _ t(2) Cons.prems(5,6) _ step] Cons.prems(2,7,10) e rs by auto
  then show ?case using rs by (auto simp: failed_at_def split: if_splits)
qed

text \<open>C27. The login limiter works. Take any sequence of login requests, from fewer than 10000 client
  addresses and in the order of their times, and an address from which no login succeeds, whatever
  the other addresses do and whichever queries fail. Then in every period of fifteen minutes, also
  one that straddles two windows of the limiter, at most nine passwords from this address
  are checked and found wrong; all its other requests are turned away before the password is
  looked at.\<close>

theorem login_failures_bounded:
  assumes "as_loginFailures s = []" "run_logins lib es s = (rs, s')"
    and "sorted (map fst es)" "\<forall>e\<in>set es. fst e > 0"
    and "card ((\<lambda>(_, i, _). i) ` set es) < maxRateLimitEntries"
    and "\<forall>(t, i, status)\<in>set rs. i = ip \<longrightarrow> status \<noteq> 200 \<and> status \<noteq> 500"
  shows "length (filter (\<lambda>(t, i, status). i = ip \<and> status = 401 \<and> a \<le> t \<and> t < a + loginFailureWindow) rs)
    \<le> 2 * loginFailureLimit - 1"
proof (cases es)
  case Nil
  then show ?thesis using assms(2) by simp
next
  case (Cons e es')
  then have t0: "\<forall>x\<in>set es. fst e \<le> fst x" "fst e > 0" using assms(3,4) by auto
  have start: "table_room ((\<lambda>(_, i, _). i) ` set es) (as_loginFailures s)"
    "limiter_inv loginFailureLimit loginFailureWindow (fst e) [] (map_of (as_loginFailures s) ip)"
    using assms(1) by (auto simp: table_room_def limiter_inv_def limiter_view_def)
  have "between (failed_at ip rs) a (a + loginFailureWindow) \<le> 2 * loginFailureLimit - 1"
    using run_logins_between [OF assms(2,3) t0 _ assms(5) subset_refl start assms(6), of a] by simp
  moreover have "between (failed_at ip rs) a b =
    length (filter (\<lambda>(t, i, status). i = ip \<and> status = 401 \<and> a \<le> t \<and> t < b) rs)" for b
    by (induction rs) (auto simp: failed_at_def)
  ultimately show ?thesis by simp
qed

definition sample_lib :: "claims \<Rightarrow> access_lib" where
  "sample_lib c =
     \<lparr>jwt_Parse = (\<lambda>t keyf now. case keyf ''HS256'' of None \<Rightarrow> None
        | Some k \<Rightarrow> if t = ''t'' @ string_of k \<and> (case cl_exp c of None \<Rightarrow> True | Some e \<Rightarrow> Unix now < e)
                   then Some c else None),
      jwt_SignedString = (\<lambda>c' k. if c' = c then Some (''t'' @ string_of k) else None),
      GenerateFromPassword = (\<lambda>salt p. Some (''$2a$'' @ p)), CompareHashAndPassword = (\<lambda>h p. h = ''$2a$'' @ p)\<rparr>"

definition sample_claims :: claims where
  "sample_claims = \<lparr>cl_user = ''admin'', cl_jti = Some ''07'', cl_exp = Some (Unix (1 + 24 * 3600 * second))\<rparr>"

definition sample_admin :: admin_server where
  "sample_admin = \<lparr>as_db = [(''admin_password'', ''$2a$right'')], as_jwtSecret = [1], as_sessionTimes = [],
     as_internalToken = ''0123456789abcdef'', as_configUser = ''admin'', as_configPass = [], as_cachedAdmin = None,
     as_loginFailures = [], as_adminRequests = [], as_subscriptionCache = []\<rparr>"

definition sample_login :: "string \<Rightarrow> login_env" where
  "sample_login pw = \<lparr>lg_body = Some (''admin'', pw), lg_errU = False, lg_errP = False, lg_salt = [], lg_saveOk = True,
     lg_jti = Some [7]\<rparr>"

lemmas sample_access_defs = sample_lib_def sample_claims_def sample_admin_def sample_login_def

definition sample_attack :: "(int \<times> string \<times> login_env) list" where
  "sample_attack = map (\<lambda>t. (t, ''ip'', sample_login ''wrong'')) [1, 2, 3, 4, 5, 6]"

lemma sample_attack_run:
  "map (\<lambda>(_, _, status). status) (fst (run_logins (sample_lib sample_claims) sample_attack sample_admin))
     = [401, 401, 401, 401, 401, 429]"
  by code_simp

theorem login_failures_bounded_witness:
  "length (filter (\<lambda>(t, i, status). i = ''ip'' \<and> status = 401 \<and> 1 \<le> t \<and> t < 1 + loginFailureWindow)
     (fst (run_logins (sample_lib sample_claims) sample_attack sample_admin))) \<le> 2 * loginFailureLimit - 1"
proof -
  obtain rs s' where r: "run_logins (sample_lib sample_claims) sample_attack sample_admin = (rs, s')"
    by (metis prod.exhaust)
  have "status \<noteq> 200 \<and> status \<noteq> 500" if "(t, i, status) \<in> set rs" for t i status
  proof -
    have "status \<in> set (map (\<lambda>(_, _, status). status) rs)" using that by force
    also have "\<dots> \<subseteq> {401, 429}" using sample_attack_run r by simp
    finally show ?thesis by auto
  qed
  then have "\<forall>(t, i, status)\<in>set rs. i = ''ip'' \<longrightarrow> status \<noteq> 200 \<and> status \<noteq> 500" by blast
  with login_failures_bounded [OF _ r, of "''ip''" 1] r show ?thesis
    by (simp add: sample_attack_def sample_admin_def maxRateLimitEntries_def)
qed

text \<open>Requests that are in flight at the same time: each is a check by the middleware and, later, the
  handler; the two are not one critical section.\<close>

datatype login_step = LCheck string | LHandle string login_env

fun run_login_steps ::
  "access_lib \<Rightarrow> int \<Rightarrow> login_step list \<Rightarrow> admin_server \<Rightarrow> int option list \<times> admin_server" where
  "run_login_steps lib now [] s = ([], s)"
| "run_login_steps lib now (LCheck ip # es) s =
     (case enforceLoginRateLimit now ip s of (g, s1) \<Rightarrow>
      case run_login_steps lib now es s1 of (rs, s2) \<Rightarrow> (g # rs, s2))"
| "run_login_steps lib now (LHandle ip env # es) s =
     (case handleLogin lib now ip env s of ((status, _), s1) \<Rightarrow>
      case run_login_steps lib now es s1 of (rs, s2) \<Rightarrow> (Some status # rs, s2))"

lemma run_login_steps_append:
  "run_login_steps lib now (xs @ ys) s =
     (case run_login_steps lib now xs s of (rs, s1) \<Rightarrow>
      case run_login_steps lib now ys s1 of (rs', s2) \<Rightarrow> (rs @ rs', s2))"
  by (induction lib now xs s rule: run_login_steps.induct) (auto split: prod.splits)

definition wrong_login :: "access_lib \<Rightarrow> login_env \<Rightarrow> admin_server \<Rightarrow> bool" where
  "wrong_login lib env s \<longleftrightarrow>
     (\<exists>u p h. lg_body env = Some (u, p) \<and> as_cachedAdmin s = Some (u, h) \<and> HasPrefix h ''$2a$'' \<and>
       \<not> CompareHashAndPassword lib h p)"

lemma handleLogin_wrong:
  "wrong_login lib env s \<Longrightarrow> handleLogin lib now ip env s =
     ((401, None), s\<lparr>as_loginFailures := recordRateLimitEvent now (as_loginFailures s) ip loginFailureWindow\<rparr>)"
  by (auto simp: wrong_login_def handleLogin_def loadAdminCreds_def check_password_def)

lemma run_handlers_wrong:
  "wrong_login lib env s \<Longrightarrow> fst (run_login_steps lib now (replicate n (LHandle ip env)) s) = replicate n (Some 401)"
proof (induction n arbitrary: s)
  case (Suc n)
  let ?s1 = "s\<lparr>as_loginFailures := recordRateLimitEvent now (as_loginFailures s) ip loginFailureWindow\<rparr>"
  have "wrong_login lib env ?s1" using Suc.prems by (simp add: wrong_login_def)
  with Suc.IH [of ?s1] handleLogin_wrong [OF Suc.prems] show ?case by (auto split: prod.splits)
qed simp

lemma run_checks_pass:
  "map_of (as_loginFailures s) ip = None \<Longrightarrow>
     run_login_steps lib now (replicate n (LCheck ip)) s = (replicate n None, s)"
  by (induction n) (auto simp: enforceLoginRateLimit_def rateLimitExceeded_def)

text \<open>The login limiter checks first and counts later, without holding its lock in between.
  Any number of requests from one address that are in flight together all pass the check, and
  all their passwords are then compared, so the limit of five does not bound parallel guessing.\<close>

theorem parallel_logins_unlimited:
  assumes "map_of (as_loginFailures s) ip = None" "wrong_login lib env s"
  shows "fst (run_login_steps lib now (replicate n (LCheck ip) @ replicate n (LHandle ip env)) s) =
    replicate n None @ replicate n (Some 401)"
  using run_checks_pass [OF assms(1), of lib now n] run_handlers_wrong [OF assms(2), of now n ip]
  by (auto simp: run_login_steps_append split: prod.splits)

theorem parallel_logins_unlimited_witness:
  "fst (run_login_steps (sample_lib sample_claims) 1 (replicate 100 (LCheck ''ip'') @ replicate 100 (LHandle ''ip'' (sample_login ''wrong'')))
     (sample_admin\<lparr>as_cachedAdmin := Some (''admin'', ''$2a$right'')\<rparr>)) = replicate 100 None @ replicate 100 (Some 401)"
  by (rule parallel_logins_unlimited) (simp_all add: sample_access_defs wrong_login_def HasPrefix_def)

text \<open>A full table whose entries are all live records no further address: from such an address any
  number of wrong passwords is checked one after the other.\<close>

theorem full_table_unlimited:
  assumes "length (as_loginFailures s) \<ge> maxRateLimitEntries" "\<forall>(i, e)\<in>set (as_loginFailures s). now < rl_ResetAt e"
    and "map_of (as_loginFailures s) ip = None" "wrong_login lib env s"
  shows "run_logins lib (replicate n (now, ip, env)) s = (replicate n (now, ip, 401), s)"
proof -
  have "filter (\<lambda>(_, e). now < rl_ResetAt e) (as_loginFailures s) = as_loginFailures s"
    using assms(2) by (auto simp: filter_id_conv)
  then have "recordRateLimitEvent now (as_loginFailures s) ip loginFailureWindow = as_loginFailures s"
    using assms(1) by (simp add: recordRateLimitEvent_def)
  then have "login_route lib now ip env s = ((401, None), s)"
    using assms(3) handleLogin_wrong [OF assms(4)]
    by (simp add: login_route_def enforceLoginRateLimit_def rateLimitExceeded_def)
  then show ?thesis by (induction n) auto
qed

section \<open>Sessions end with the password, but not with idleness\<close>

text \<open>What the panel relies on of the two libraries: a bcrypt hash carries the \<open>$2a$\<close> prefix and
  matches its password only; a token signed with HS256 is accepted under its own key until it
  expires, and under no other key.\<close>

definition bcrypt_ok :: "access_lib \<Rightarrow> bool" where
  "bcrypt_ok lib \<longleftrightarrow> (\<forall>salt p h. GenerateFromPassword lib salt p = Some h \<longrightarrow>
     HasPrefix h ''$2a$'' \<and> (\<forall>p'. CompareHashAndPassword lib h p' \<longleftrightarrow> p' = p))"

definition not_expired :: "int \<Rightarrow> claims \<Rightarrow> bool" where
  "not_expired now c = (case cl_exp c of None \<Rightarrow> True | Some e \<Rightarrow> Unix now < e)"

definition jwt_ok :: "access_lib \<Rightarrow> bool" where
  "jwt_ok lib \<longleftrightarrow> (\<forall>c k t keyf now. jwt_SignedString lib c k = Some t \<longrightarrow> t \<noteq> [] \<and>
     jwt_Parse lib t keyf now = (if keyf ''HS256'' = Some k \<and> not_expired now c then Some c else None))"

definition admin_name :: "admin_server \<Rightarrow> string" where
  "admin_name s = (case map_of (as_db s) ''admin_username'' of None \<Rightarrow> as_configUser s | Some x \<Rightarrow> x)"

lemma verifyJWT_signed:
  "jwt_ok lib \<Longrightarrow> jwt_SignedString lib c k = Some t \<Longrightarrow>
     verifyJWT lib now t s = (if as_jwtSecret s = k \<and> not_expired now c then Some c else None)"
  by (simp add: jwt_ok_def verifyJWT_def)

lemma TrimPrefix_append [simp]: "TrimPrefix (p @ t) p = t"
  by (simp add: TrimPrefix_def HasPrefix_def)

lemma TrimPrefix_Bearer [simp]: "TrimPrefix (''Bearer '' @ t) ''Bearer '' = t"
  by (rule TrimPrefix_append)

lemma requireAdminSession_signed:
  assumes "jwt_ok lib" "jwt_SignedString lib c k = Some t"
  shows "requireAdminSession lib now (''Bearer '' @ t) s =
     (if as_jwtSecret s = k \<and> not_expired now c then enforceSessionIdleTimeout now c s else (Some 401, s))"
proof -
  have "t \<noteq> []" using assms by (auto simp: jwt_ok_def)
  then show ?thesis
    unfolding requireAdminSession_def TrimPrefix_Bearer Let_def verifyJWT_signed [OF assms] by simp
qed

lemma handleUpdateAdmin_password:
  assumes "handleUpdateAdmin lib v env s = (200, s')" "up_body env = Some (u, pw)" "pw \<noteq> []" "up_fresh env = Some k"
  obtains h where "GenerateFromPassword lib (up_salt env) pw = Some h" "map_of (as_db s') ''admin_password'' = Some h"
    "as_jwtSecret s' = k" "as_sessionTimes s' = []" "as_cachedAdmin s' = None"
    "admin_name s' = (if u \<noteq> [] then u else admin_name s)"
proof -
  define tx where "tx = (if u \<noteq> [] then AList.update ''admin_username'' u (as_db s) else as_db s)"
  from assms obtain h tx2 where h: "GenerateFromPassword lib (up_salt env) pw = Some h"
    "RotateJWTSecret v (up_fresh env) (up_rnd env) (up_saveJwtOk env) (AList.update ''admin_password'' h tx) = (Ret k, tx2)"
    "s' = invalidateAdminCache (setJWTSecret k (s\<lparr>as_db := tx2\<rparr>))"
    by (auto simp: handleUpdateAdmin_def SetAdminPassword_def RotateJWTSecret_def Let_def tx_def
        split: if_splits option.splits outcome.splits)
  then obtain c where "tx2 = AList.update ''jwt_secret'' c (AList.update ''admin_password'' h tx)"
    by (auto simp: RotateJWTSecret_def split: if_splits option.splits outcome.splits)
  moreover from this h(3) have "admin_name s' = (if u \<noteq> [] then u else admin_name s)"
    by (cases "u = []") (simp_all add: invalidateAdminCache_def setJWTSecret_def update_conv' admin_name_def tx_def
        split: option.splits)
  ultimately show ?thesis using h
    by (intro that [of h]) (simp_all add: invalidateAdminCache_def setJWTSecret_def update_conv')
qed

lemma Unix_mono: "a \<le> b \<Longrightarrow> Unix a \<le> Unix b"
  by (simp add: Unix_def second_def zdiv_mono1)

lemma fresh_token_lasts: "t \<le> now + sessionIdleTimeout \<Longrightarrow> Unix t < Unix (now + 24 * 3600 * second)"
  using Unix_mono [of t "now + sessionIdleTimeout"] by (simp add: Unix_def second_def sessionIdleTimeout_def)

lemma issued_token_works:
  assumes "jwt_ok lib" "issue_token lib now env u s = ((200, Some t), s')" "lg_jti env = Some raw" "raw \<noteq> []"
    "now \<le> t'" "t' \<le> now + sessionIdleTimeout"
  shows "fst (requireAdminSession lib t' (''Bearer '' @ t) s') = None"
proof -
  let ?jti = "concat (map hex_byte raw)"
  let ?c = "\<lparr>cl_user = u, cl_jti = Some ?jti, cl_exp = Some (Unix (now + 24 * 3600 * second))\<rparr>"
  have sg: "jwt_SignedString lib ?c (as_jwtSecret s) = Some t" and s': "s' = updateSessionActivity now ?jti s"
    using assms(2,3) by (auto simp: issue_token_def Let_def split: option.splits)
  have "?jti \<noteq> []" using assms(4) by (cases raw) (auto simp: hex_byte_def)
  then show ?thesis
    using requireAdminSession_signed [OF assms(1) sg, of t' s'] fresh_token_lasts [OF assms(6)] assms(6) s'
    by (simp add: not_expired_def enforceSessionIdleTimeout_def isSessionExpired_def updateSessionActivity_def
        update_conv' Let_def)
qed

lemma login_after_change:
  assumes "as_cachedAdmin s = None" "map_of (as_db s) ''admin_password'' = Some h" "HasPrefix h ''$2a$''"
    "lg_body env = Some (name, p)" "\<not> lg_errU env" "\<not> lg_errP env"
  shows "\<exists>s1. as_jwtSecret s1 = as_jwtSecret s \<and> handleLogin lib now ip env s =
    (if name = admin_name s \<and> CompareHashAndPassword lib h p then issue_token lib now env name s1
     else ((401, None), s1))"
  using assms
  by (auto simp: handleLogin_def loadAdminCreds_def Let_def check_password_def admin_name_def clearLoginFailures_def
      intro!: exI [of _ "(s\<lparr>as_cachedAdmin := Some (admin_name s, h)\<rparr>)
        \<lparr>as_loginFailures := AList.delete ip (as_loginFailures s)\<rparr>"])


lemma string_of_inject [simp]: "string_of a = string_of b \<longleftrightarrow> a = b"
  by (metis bytes_of_string_of)

lemma sample_lib_ok: "bcrypt_ok (sample_lib c)" "jwt_ok (sample_lib c)"
  by (auto simp: bcrypt_ok_def jwt_ok_def sample_lib_def HasPrefix_def not_expired_def split: option.splits if_splits)

definition sample_update :: update_env where
  "sample_update = \<lparr>up_body = Some ([], ''fresh''), up_beginOk = True, up_saveUserOk = True, up_salt = [], up_savePassOk = True,
     up_fresh = Some [2], up_rnd = Some (replicate 12 1), up_saveJwtOk = True, up_commitOk = True\<rparr>"

definition sample_changed :: admin_server where
  "sample_changed = snd (handleUpdateAdmin (sample_lib sample_claims) sample_vault sample_update sample_admin)"

lemma sample_change_ok:
  "fst (handleUpdateAdmin (sample_lib sample_claims) sample_vault sample_update sample_admin) = 200"
  by code_simp

lemma sample_change_login:
  "fst (handleLogin (sample_lib sample_claims) 1 ''ip'' (sample_login ''fresh'') sample_changed) = (200, Some (''t'' @ string_of [2]))"
  by code_simp


text \<open>The idle timeout does not survive a restart. A session that has been idle for more than thirty
  minutes is refused; but the activity table is only in memory while the signing key is stored, and
  an unknown session counts as active, so the same token is accepted by the restarted server until
  its own expiry.\<close>

theorem restart_revives_idle_session:
  assumes "jwt_ok lib" "jwt_SignedString lib c (as_jwtSecret s) = Some t" "cl_jti c = Some j" "j \<noteq> []" "not_expired now c"
    and "map_of (as_sessionTimes s) j = Some lastSeen" "now - lastSeen > sessionIdleTimeout"
    and "newAdminServer v u p fresh rnd dbOk tok (as_db s) = Ret s'"
    and "fst (LoadJWTSecret v fresh rnd dbOk (as_db s)) = Ret (as_jwtSecret s)"
  shows "fst (requireAdminSession lib now (''Bearer '' @ t) s) = Some 401 \<and>
    fst (requireAdminSession lib now (''Bearer '' @ t) s') = None"
proof -
  have "as_jwtSecret s' = as_jwtSecret s" "as_sessionTimes s' = []"
    using assms(8,9) by (auto simp: newAdminServer_def setJWTSecret_def split: prod.splits outcome.splits)
  with assms(3-7) show ?thesis
    unfolding requireAdminSession_signed [OF assms(1,2)]
    by (simp add: enforceSessionIdleTimeout_def isSessionExpired_def)
qed

definition sample_jwt_db :: config_table where
  "sample_jwt_db = snd (LoadJWTSecret sample_vault (Some (replicate 32 9)) (Some (replicate 12 1)) True [])"

definition sample_idle :: admin_server where
  "sample_idle = sample_admin\<lparr>as_db := sample_jwt_db, as_jwtSecret := replicate 32 9, as_sessionTimes := [(''07'', 1)]\<rparr>"

lemma sample_jwt_stored: "fst (LoadJWTSecret sample_vault None None True sample_jwt_db) = Ret (replicate 32 9)"
  by code_simp

theorem restart_revives_idle_session_witness:
  "\<exists>s'. newAdminServer sample_vault ''admin'' [] None None True (Ret ''0123456789abcdef'') (as_db sample_idle) = Ret s' \<and>
     fst (requireAdminSession (sample_lib sample_claims) (2 + sessionIdleTimeout) (''Bearer '' @ ''t'' @ string_of (replicate 32 9)) sample_idle)
       = Some 401 \<and>
     fst (requireAdminSession (sample_lib sample_claims) (2 + sessionIdleTimeout) (''Bearer '' @ ''t'' @ string_of (replicate 32 9)) s') = None"
proof -
  let ?lib = "sample_lib sample_claims" and ?now = "2 + sessionIdleTimeout"
  have db: "as_db sample_idle = sample_jwt_db" "as_jwtSecret sample_idle = replicate 32 9" by (simp_all add: sample_idle_def)
  obtain s' where s': "newAdminServer sample_vault ''admin'' [] None None True (Ret ''0123456789abcdef'') (as_db sample_idle) = Ret s'"
    using sample_jwt_stored unfolding db newAdminServer_def
    by (cases "LoadJWTSecret sample_vault None None True sample_jwt_db") simp
  have tok: "jwt_SignedString ?lib sample_claims (as_jwtSecret sample_idle) = Some (''t'' @ string_of (replicate 32 9))"
    by (simp add: sample_lib_def db)
  have cl: "cl_jti sample_claims = Some ''07''" "not_expired ?now sample_claims"
    by (simp_all add: sample_claims_def not_expired_def Unix_def second_def sessionIdleTimeout_def)
  have idle: "map_of (as_sessionTimes sample_idle) ''07'' = Some 1" by (simp add: sample_idle_def)
  have key: "fst (LoadJWTSecret sample_vault None None True (as_db sample_idle)) = Ret (as_jwtSecret sample_idle)"
    using sample_jwt_stored by (simp add: db)
  from restart_revives_idle_session [OF sample_lib_ok(2) tok cl(1) _ cl(2) idle _ s' key] s' show ?thesis by simp
qed

section \<open>The internal token\<close>

text \<open>The services of one machine share one internal token. Whatever is at the path: when the token
  is loaded or created, the file then yields the same token to every later reader and is not
  changed again, the token has at least sixteen characters, and a server that runs with it admits
  to the internal endpoints exactly the requests from a loopback address that carry it.\<close>

theorem internal_token_shared:
  assumes "LoadOrCreateInternalToken getuid rnd mkdirOk fault p = (Ret tok, p')" "\<forall>raw\<in>set_option rnd. length raw = 32"
  shows "ReadInternalToken getuid p' = Ret tok \<and> LoadOrCreateInternalToken getuid rnd' ok' fault' p' = (Ret tok, p') \<and>
    length tok \<ge> 16 \<and>
    (\<forall>s. as_internalToken s = tok \<longrightarrow> requireInternalControl remote provided s = None \<longleftrightarrow>
      (\<exists>host port. SplitHostPort remote = Some (host, port) \<and> (host = ''127.0.0.1'' \<or> host = ''::1'')) \<and> provided = tok)"
proof -
  have hex: "length (concat (map hex_byte raw)) = 2 * length raw" for raw
    by (induction raw) (auto simp: hex_byte_def)
  have read: "\<exists>d. secretfile_Read getuid p' = Ret d \<and> string_of d = tok \<and> length d \<ge> 16"
    using assms hex
    by (auto simp: LoadOrCreateInternalToken_def Let_def secretfile_Read_def secretfile_open_def checkOwner_def maxSecretSize_def
        split: outcome.splits if_splits option.splits)
  then have "ReadInternalToken getuid p' = Ret tok" "LoadOrCreateInternalToken getuid rnd' ok' fault' p' = (Ret tok, p')"
    by (auto simp: ReadInternalToken_def LoadOrCreateInternalToken_def)
  moreover have long: "length tok \<ge> 16" using read by auto
  moreover have "requireInternalControl remote provided s = None \<longleftrightarrow>
      (\<exists>host port. SplitHostPort remote = Some (host, port) \<and> (host = ''127.0.0.1'' \<or> host = ''::1'')) \<and> provided = tok"
    if "as_internalToken s = tok" for s
    using long that by (auto simp: requireInternalControl_def split: option.splits)
  ultimately show ?thesis by blast
qed

theorem internal_token_shared_witness:
  "\<exists>tok p'. LoadOrCreateInternalToken 7 (Some (replicate 32 5)) True None Missing = (Ret tok, p') \<and> ReadInternalToken 7 p' = Ret tok"
proof -
  obtain tok p' where r: "LoadOrCreateInternalToken 7 (Some (replicate 32 5)) True None Missing = (Ret tok, p')"
    by (simp add: LoadOrCreateInternalToken_def secretfile_Read_def secretfile_open_def ErrNotExist_def Let_def)
  with internal_token_shared [OF r] show ?thesis by auto
qed

end
