(* ===== verification/Mux_Tunnel.thy ===== *)
theory Mux_Tunnel
  imports Address_Codec "HOL-Library.AList"
begin

text \<open>
  \<open>tunnel/mux\<close>: the connection that delays the control frames of the multiplexer until the next data
  (\<open>conn.go\<close>) and the pool of multiplexed sessions of the client (\<open>client.go\<close>). The
  multiplexer itself (smux) is not part of the repository: its frames are what is written to the
  connection, and a session is its number of streams and whether it is closed.
\<close>

section \<open>Sticky control frames\<close>

record 's sticky_conn =
  sk_conn :: 's
  synQueue :: "bytes list"
  finQueue :: "bytes list"

definition sticky_queue_cap :: nat where
  "sticky_queue_cap = 128"

definition newStickyConn :: "'s \<Rightarrow> 's sticky_conn" where
  "newStickyConn conn = \<lparr>sk_conn = conn, synQueue = [], finQueue = []\<rparr>"

definition stickToPayload :: "bytes \<Rightarrow> 's sticky_conn \<Rightarrow> bytes \<times> 's sticky_conn" where
  "stickToPayload p c = (concat (synQueue c) @ p @ concat (finQueue c), c\<lparr>synQueue := [], finQueue := []\<rparr>)"

definition is_header :: "byte \<Rightarrow> bytes \<Rightarrow> bool" where
  "is_header cmd p \<longleftrightarrow> length p = 8 \<and> (p ! 0 = 1 \<or> p ! 0 = 2) \<and> p ! 1 = cmd"

text \<open>A send to a full channel blocks; nothing but a later \<open>Write\<close> takes frames off the queues, and
  the multiplexer writes from one goroutine, so the call never returns.\<close>

definition stickyConn_Write :: "'s writer \<Rightarrow> bytes \<Rightarrow> ('s sticky_conn, nat \<times> go_error option) proc" where
  "stickyConn_Write wr p c =
     (if is_header 0 p then
        (if length (synQueue c) < sticky_queue_cap then (Ret (8, None), c\<lparr>synQueue := synQueue c @ [p]\<rparr>) else (Hang, c))
      else if is_header 1 p then
        (if length (finQueue c) < sticky_queue_cap then (Ret (8, None), c\<lparr>finQueue := finQueue c @ [p]\<rparr>) else (Hang, c))
      else
        (case stickToPayload p c of (b, c1) \<Rightarrow>
         case wr b (sk_conn c1) of ((_, err), k) \<Rightarrow> (Ret (length p, err), c1\<lparr>sk_conn := k\<rparr>)))"

definition close_padding :: bytes where
  "close_padding = [65, 66, 67, 68, 69, 70] @ replicate 514 0"

text \<open>\<open>n\<close> is the random padding length below 512; the result of the write is ignored.\<close>

definition stickyConn_Close :: "'s writer \<Rightarrow> ('s \<Rightarrow> 's) \<Rightarrow> nat \<Rightarrow> ('s sticky_conn, unit) proc" where
  "stickyConn_Close wr close n c =
     (case stickToPayload [] c of (b, c1) \<Rightarrow>
      case stickyConn_Write wr (b @ take n close_padding) c1 of
        (Hang, c2) \<Rightarrow> (Hang, c2)
      | (_, c2) \<Rightarrow> (Ret (), c2\<lparr>sk_conn := close (sk_conn c2)\<rparr>))"

section \<open>The session pool\<close>

type_synonym muxID = "32 word"

record mux_session =
  mx_closed :: bool
  mx_streams :: nat
  mx_lastActive :: int
  mx_underClosed :: bool

type_synonym mux_pool = "(muxID \<times> mux_session) list"

text \<open>What a call of \<open>DialConn\<close> meets: the time, whether opening a stream and creating a session fail,
  the random id, and the result of dialling the tunnel below.\<close>

record mux_env =
  me_now :: int
  me_openFails :: bool
  me_id :: muxID
  me_dial :: "unit outcome"
  me_smuxFails :: bool

definition createNewConn :: "mux_env \<Rightarrow> muxID \<Rightarrow> mux_session \<Rightarrow> mux_pool \<Rightarrow> muxID outcome \<times> mux_pool" where
  "createNewConn env i ses pool =
     (if me_openFails env then
        (Raise (Err ''mux failed to open stream from client'' (Some (Opaque ''smux''))), AList.delete i pool)
      else (Ret i, AList.update i (ses\<lparr>mx_streams := mx_streams ses + 1, mx_lastActive := me_now env\<rparr>) pool))"

definition newMuxClient :: "mux_env \<Rightarrow> mux_pool \<Rightarrow> (muxID \<times> mux_session) outcome \<times> mux_pool" where
  "newMuxClient env pool =
     (if map_of pool (me_id env) \<noteq> None then (Raise (NewError ''duplicated id''), pool)
      else case me_dial env of
        Ret _ \<Rightarrow>
          if me_smuxFails env then (Raise (Err ''mux failed to create smux client'' (Some (Opaque ''smux''))), pool)
          else
            let ses = \<lparr>mx_closed = False, mx_streams = 0, mx_lastActive = me_now env, mx_underClosed = False\<rparr>
            in (Ret (me_id env, ses), AList.update (me_id env) ses pool)
      | Raise e \<Rightarrow> (Raise (Err ''mux failed to dial'' (Some e)), pool)
      | Panic m \<Rightarrow> (Panic m, pool)
      | Hang \<Rightarrow> (Hang, pool))"

text \<open>Go visits the entries of a map in any order; \<open>ids\<close> is the order of this call.\<close>

fun dial_loop :: "int \<Rightarrow> muxID list \<Rightarrow> mux_pool \<Rightarrow> (muxID \<times> mux_session) option \<times> mux_pool" where
  "dial_loop concurrency [] pool = (None, pool)"
| "dial_loop concurrency (i # ids) pool =
     (case map_of pool i of
        None \<Rightarrow> dial_loop concurrency ids pool
      | Some ses \<Rightarrow>
          if mx_closed ses then dial_loop concurrency ids (AList.delete i pool)
          else if int (mx_streams ses) < concurrency \<or> concurrency \<le> 0 then (Some (i, ses), pool)
          else dial_loop concurrency ids pool)"

definition mux_DialConn :: "int \<Rightarrow> muxID list \<Rightarrow> mux_env \<Rightarrow> mux_pool \<Rightarrow> muxID outcome \<times> mux_pool" where
  "mux_DialConn concurrency ids env pool =
     (case dial_loop concurrency ids pool of
        (Some (i, ses), pool1) \<Rightarrow> createNewConn env i ses pool1
      | (None, pool1) \<Rightarrow>
          (case newMuxClient env pool1 of
             (Ret (i, ses), pool2) \<Rightarrow> createNewConn env i ses pool2
           | (Raise e, pool2) \<Rightarrow> (Raise (Err ''no available mux client found'' (Some e)), pool2)
           | (Panic m, pool2) \<Rightarrow> (Panic m, pool2)
           | (Hang, pool2) \<Rightarrow> (Hang, pool2)))"

text \<open>One tick of \<open>cleanLoop\<close>.\<close>

definition clean_tick :: "int \<Rightarrow> int \<Rightarrow> mux_pool \<Rightarrow> mux_pool" where
  "clean_tick now timeout pool =
     filter (\<lambda>(i, ses). \<not> (mx_closed ses \<or> (mx_streams ses = 0 \<and> now - mx_lastActive ses > timeout))) pool"

section \<open>Delaying keeps every stream in order\<close>

fun run_writes :: "'s writer \<Rightarrow> bytes list \<Rightarrow> ('s sticky_conn, unit) proc" where
  "run_writes wr [] c = (Ret (), c)"
| "run_writes wr (p # ps) c =
     (case stickyConn_Write wr p c of
        (Ret _, c1) \<Rightarrow> run_writes wr ps c1
      | (Raise e, c1) \<Rightarrow> (Raise e, c1)
      | (Panic m, c1) \<Rightarrow> (Panic m, c1)
      | (Hang, c1) \<Rightarrow> (Hang, c1))"

definition stream_of :: "bytes \<Rightarrow> bytes" where
  "stream_of p = take 4 (drop 4 p)"

definition delayed :: "bytes \<Rightarrow> bool" where
  "delayed p \<longleftrightarrow> is_header 0 p \<or> is_header 1 p"

text \<open>On each stream the opening frame comes first and nothing follows the closing frame.\<close>

definition disciplined :: "bytes list \<Rightarrow> bool" where
  "disciplined ps \<longleftrightarrow> sorted_wrt (\<lambda>p q. stream_of p = stream_of q \<longrightarrow> \<not> is_header 1 p \<and> \<not> is_header 0 q) ps"

text \<open>No stretch of delayed frames is longer than the queues.\<close>

definition queues_suffice :: "bytes list \<Rightarrow> bool" where
  "queues_suffice ps \<longleftrightarrow> (\<forall>us vs ws. ps = us @ vs @ ws \<and> (\<forall>p\<in>set vs. delayed p) \<longrightarrow>
     length (filter (is_header 0) vs) \<le> sticky_queue_cap \<and> length (filter (is_header 1) vs) \<le> sticky_queue_cap)"

lemma is_header_excl: "\<not> (is_header 0 p \<and> is_header 1 p)"
  by (auto simp: is_header_def)

lemma sticky_write_cases:
  "stickyConn_Write buffer_write p c =
     (if is_header 0 p then
        (if length (synQueue c) < sticky_queue_cap then (Ret (8, None), c\<lparr>synQueue := synQueue c @ [p]\<rparr>) else (Hang, c))
      else if is_header 1 p then
        (if length (finQueue c) < sticky_queue_cap then (Ret (8, None), c\<lparr>finQueue := finQueue c @ [p]\<rparr>) else (Hang, c))
      else (Ret (length p, None),
            c\<lparr>sk_conn := sk_conn c @ concat (synQueue c @ [p] @ finQueue c), synQueue := [], finQueue := []\<rparr>))"
  by (simp add: stickyConn_Write_def stickToPayload_def buffer_write_def)

text \<open>The frames that have left and the two queues hold, stream by stream, what was written.\<close>

definition in_order :: "bytes list \<Rightarrow> bytes list \<Rightarrow> bytes sticky_conn \<Rightarrow> bool" where
  "in_order written sent c \<longleftrightarrow> sk_conn c = concat sent \<and>
     (\<forall>p\<in>set (synQueue c). is_header 0 p) \<and> (\<forall>p\<in>set (finQueue c). is_header 1 p) \<and>
     set (sent @ synQueue c @ finQueue c) = set written \<and>
     (\<forall>x. filter (\<lambda>p. stream_of p = x) (sent @ synQueue c @ finQueue c) = filter (\<lambda>p. stream_of p = x) written)"

lemma filter_empty_stream:
  assumes "disciplined (written @ [p])" "is_header 0 p"
  shows "filter (\<lambda>q. stream_of q = stream_of p) written = []"
  using assms by (auto simp: disciplined_def sorted_wrt_append filter_empty_conv)

lemma filter_no_fin:
  assumes "disciplined (written @ [p])" "\<forall>q\<in>set qs. is_header 1 q" "set qs \<subseteq> set written"
  shows "filter (\<lambda>q. stream_of q = stream_of p) qs = []"
  using assms by (auto simp: disciplined_def sorted_wrt_append filter_empty_conv)

lemma in_order_step:
  assumes inv: "in_order written sent c" and d: "disciplined (written @ [p])"
    and w: "stickyConn_Write buffer_write p c = (Ret r, c')"
  shows "\<exists>sent'. in_order (written @ [p]) sent' c'"
proof -
  let ?f = "\<lambda>x ps. filter (\<lambda>p. stream_of p = x) ps"
  have split: "?f x (sent @ synQueue c @ finQueue c) = ?f x written" for x
    using inv by (simp add: in_order_def)
  have members: "set (sent @ synQueue c @ finQueue c) = set written" using inv by (simp add: in_order_def)
  consider (syn) "is_header 0 p" | (fin) "is_header 1 p" | (data) "\<not> is_header 0 p" "\<not> is_header 1 p" by blast
  then show ?thesis
  proof cases
    case syn
    then have c': "c' = c\<lparr>synQueue := synQueue c @ [p]\<rparr>" using w by (simp add: sticky_write_cases split: if_splits)
    have "?f x (sent @ (synQueue c @ [p]) @ finQueue c) = ?f x (written @ [p])" for x
    proof (cases "x = stream_of p")
      case True
      then have "?f x (sent @ synQueue c @ finQueue c) = []" using split filter_empty_stream [OF d syn] by simp
      then show ?thesis using True filter_empty_stream [OF d syn] by auto
    qed (use split [of x] in auto)
    then have "in_order (written @ [p]) sent c'"
      using inv syn members unfolding c' in_order_def by auto
    then show ?thesis ..
  next
    case fin
    then have c': "c' = c\<lparr>finQueue := finQueue c @ [p]\<rparr>"
      using w is_header_excl [of p] by (simp add: sticky_write_cases split: if_splits)
    have "?f x (sent @ synQueue c @ finQueue c @ [p]) = ?f x (written @ [p])" for x
      using split [of x] by (simp only: append_assoc [symmetric] filter_append)
    then have "in_order (written @ [p]) sent c'"
      using inv fin members unfolding c' in_order_def by auto
    then show ?thesis ..
  next
    case data
    let ?sent = "sent @ synQueue c @ [p] @ finQueue c"
    have c': "c' = c\<lparr>sk_conn := sk_conn c @ concat (synQueue c @ [p] @ finQueue c), synQueue := [], finQueue := []\<rparr>"
      using w data by (simp add: sticky_write_cases)
    have "?f x ?sent = ?f x (written @ [p])" for x
    proof (cases "x = stream_of p")
      case True
      have "?f x (finQueue c) = []"
        using filter_no_fin [OF d, of "finQueue c"] inv members True by (auto simp: in_order_def)
      then show ?thesis using split [of x] True by simp
    qed (use split [of x] in auto)
    then have "in_order (written @ [p]) ?sent c'"
      using inv members unfolding c' in_order_def by auto
    then show ?thesis ..
  qed
qed

lemma block_bound:
  assumes "queues_suffice (us @ vs @ p # ps)" "\<forall>q\<in>set vs. delayed q" "delayed p"
  shows "is_header 0 p \<Longrightarrow> length (filter (is_header 0) vs) < sticky_queue_cap"
    "is_header 1 p \<Longrightarrow> length (filter (is_header 1) vs) < sticky_queue_cap"
proof -
  have "length (filter (is_header 0) (vs @ [p])) \<le> sticky_queue_cap \<and> length (filter (is_header 1) (vs @ [p])) \<le> sticky_queue_cap"
    using assms unfolding queues_suffice_def
    by (elim allE [of _ us] allE [of _ "vs @ [p]"] allE [of _ ps]) auto
  then show "is_header 0 p \<Longrightarrow> length (filter (is_header 0) vs) < sticky_queue_cap"
    "is_header 1 p \<Longrightarrow> length (filter (is_header 1) vs) < sticky_queue_cap" by auto
qed

lemma run_writes_complete:
  assumes "\<forall>q\<in>set vs. delayed q" "synQueue c = filter (is_header 0) vs" "finQueue c = filter (is_header 1) vs"
    "queues_suffice (us @ vs @ ps)" "disciplined (us @ vs @ ps)" "in_order (us @ vs) sent c"
  shows "\<exists>c' sent'. run_writes buffer_write ps c = (Ret (), c') \<and> in_order (us @ vs @ ps) sent' c' \<and>
    (ps \<noteq> [] \<and> \<not> delayed (last ps) \<longrightarrow> synQueue c' = [] \<and> finQueue c' = [])"
  using assms
proof (induction ps arbitrary: us vs c sent)
  case Nil
  then show ?case by auto
next
  case (Cons p ps)
  have "\<exists>r. fst (stickyConn_Write buffer_write p c) = Ret r"
    using block_bound [OF Cons.prems(4,1)] Cons.prems(2,3) by (auto simp: sticky_write_cases delayed_def)
  then obtain r c1 where w: "stickyConn_Write buffer_write p c = (Ret r, c1)" by (metis prod.collapse)
  have d: "disciplined ((us @ vs) @ [p])" using Cons.prems(5) by (auto simp: disciplined_def sorted_wrt_append)
  obtain sent1 where inv: "in_order ((us @ vs) @ [p]) sent1 c1" using in_order_step [OF Cons.prems(6) d w] ..
  show ?case
  proof (cases "delayed p")
    case True
    have "synQueue c1 = filter (is_header 0) (vs @ [p])" "finQueue c1 = filter (is_header 1) (vs @ [p])"
      using w True Cons.prems(2,3) is_header_excl [of p] by (auto simp: sticky_write_cases delayed_def split: if_splits)
    with Cons.IH [of "vs @ [p]" c1 us sent1] Cons.prems inv w True show ?thesis by auto
  next
    case False
    have "synQueue c1 = []" "finQueue c1 = []"
      using w False by (auto simp: sticky_write_cases delayed_def)
    with Cons.IH [of "[]" c1 "us @ vs @ [p]" sent1] Cons.prems inv w False show ?thesis by auto
  qed
qed

text \<open>Delaying the control frames is invisible to the streams. Whatever the multiplexer writes, as
  long as each stream opens with its opening frame, ends with its closing frame, and no stretch of
  control frames exceeds the queues: every write returns, what reached the connection is a sequence
  of whole frames, and for every stream the frames that were sent followed by the delayed ones
  are exactly the frames that were written, in their order. After a write that is not
  a control frame nothing is delayed any more.\<close>

theorem sticky_stream_order:
  assumes "disciplined ps" "queues_suffice ps"
  shows "\<exists>c sent. run_writes buffer_write ps (newStickyConn []) = (Ret (), c) \<and> sk_conn c = concat sent \<and>
    (\<forall>x. filter (\<lambda>p. stream_of p = x) (sent @ synQueue c @ finQueue c) = filter (\<lambda>p. stream_of p = x) ps) \<and>
    (ps \<noteq> [] \<and> \<not> delayed (last ps) \<longrightarrow> synQueue c = [] \<and> finQueue c = [])"
proof -
  have "in_order ([] @ []) [] (newStickyConn [])" by (simp add: in_order_def newStickyConn_def)
  with run_writes_complete [of "[]" "newStickyConn []" "[]" ps "[]"] assms
  obtain c sent where "run_writes buffer_write ps (newStickyConn []) = (Ret (), c)" "in_order ps sent c"
    "ps \<noteq> [] \<and> \<not> delayed (last ps) \<longrightarrow> synQueue c = [] \<and> finQueue c = []"
    by (auto simp: newStickyConn_def)
  then show ?thesis by (intro exI [of _ c] exI [of _ sent]) (auto simp: in_order_def)
qed

definition sample_frames :: "bytes list" where
  "sample_frames = [[2, 0, 0, 0, 1, 0, 0, 0], [2, 2, 1, 0, 1, 0, 0, 0, 42], [2, 1, 0, 0, 1, 0, 0, 0], [2, 3, 0, 0, 0, 0, 0, 0]]"

theorem sticky_stream_order_witness:
  "\<exists>c sent. run_writes buffer_write sample_frames (newStickyConn []) = (Ret (), c) \<and> sk_conn c = concat sent \<and>
     filter (\<lambda>p. stream_of p = [1, 0, 0, 0]) sent = take 3 sample_frames"
proof -
  have d: "disciplined sample_frames"
    by (simp add: disciplined_def sample_frames_def stream_of_def is_header_def)
  have "length vs \<le> length ps" if "ps = us @ vs @ ws" for us vs ws ps :: "bytes list" using that by simp
  then have q: "queues_suffice sample_frames"
    unfolding queues_suffice_def sticky_queue_cap_def
    by (auto simp: sample_frames_def intro!: order_trans [OF length_filter_le] dest!: arg_cong [of _ _ length])
  have "\<not> delayed (last sample_frames)" "sample_frames \<noteq> []"
    by (simp_all add: sample_frames_def delayed_def is_header_def)
  with sticky_stream_order [OF d q] obtain c sent where
    "run_writes buffer_write sample_frames (newStickyConn []) = (Ret (), c)" "sk_conn c = concat sent"
    "filter (\<lambda>p. stream_of p = [1, 0, 0, 0]) sent = filter (\<lambda>p. stream_of p = [1, 0, 0, 0]) sample_frames"
    by fastforce
  moreover have "filter (\<lambda>p. stream_of p = [1, 0, 0, 0]) sample_frames = take 3 sample_frames"
    by (simp add: sample_frames_def stream_of_def)
  ultimately show ?thesis by auto
qed

text \<open>More opening frames than a queue holds, with no data in between, block the writer for ever.\<close>

lemma syn_burst_blocks:
  "\<forall>p\<in>set ps. is_header 0 p \<Longrightarrow> length (synQueue c) + length ps > sticky_queue_cap \<Longrightarrow> length (synQueue c) \<le> sticky_queue_cap \<Longrightarrow>
     fst (run_writes wr ps c) = Hang"
  by (induction ps arbitrary: c) (auto simp: stickyConn_Write_def)

theorem syn_burst_hangs:
  "\<forall>p\<in>set ps. is_header 0 p \<Longrightarrow> length ps > sticky_queue_cap \<Longrightarrow> fst (run_writes wr ps (newStickyConn k)) = Hang"
  using syn_burst_blocks [of ps "newStickyConn k" wr] by (simp add: newStickyConn_def)

text \<open>A close without padding that finds a single delayed frame delays it again: the frame is lost.\<close>

theorem close_drops_frame:
  assumes "is_header 1 p"
  shows "stickyConn_Close wr close 0 \<lparr>sk_conn = k, synQueue = [], finQueue = [p]\<rparr> =
    (Ret (), \<lparr>sk_conn = close k, synQueue = [], finQueue = [p]\<rparr>)"
  using assms is_header_excl [of p]
  by (auto simp: stickyConn_Close_def stickToPayload_def stickyConn_Write_def sticky_queue_cap_def)

section \<open>The pool\<close>

inductive mux_step :: "int \<Rightarrow> mux_pool \<Rightarrow> mux_pool \<Rightarrow> bool" for concurrency :: int where
  mux_dial: "set ids = fst ` set pool \<Longrightarrow> mux_step concurrency pool (snd (mux_DialConn concurrency ids env pool))"
| mux_stream_ends: "map_of pool i = Some s \<Longrightarrow> mux_step concurrency pool (AList.update i (s\<lparr>mx_streams := mx_streams s - 1\<rparr>) pool)"
| mux_session_dies: "map_of pool i = Some s \<Longrightarrow> mux_step concurrency pool (AList.update i (s\<lparr>mx_closed := True\<rparr>) pool)"
| mux_clean: "mux_step concurrency pool (clean_tick now timeout pool)"

definition mux_reach :: "int \<Rightarrow> mux_pool \<Rightarrow> bool" where
  "mux_reach concurrency pool \<longleftrightarrow> (mux_step concurrency)\<^sup>*\<^sup>* [] pool"

definition within_limit :: "int \<Rightarrow> mux_pool \<Rightarrow> bool" where
  "within_limit concurrency pool \<longleftrightarrow> distinct (map fst pool) \<and> (\<forall>(i, s)\<in>set pool. int (mx_streams s) \<le> concurrency)"

lemma set_update_subset: "set (AList.update k v al) \<subseteq> insert (k, v) (set al)"
  by (induction al) auto

lemma within_limit_update:
  "within_limit n pool \<Longrightarrow> int (mx_streams s) \<le> n \<Longrightarrow> within_limit n (AList.update i s pool)"
  using set_update_subset [of i s pool] by (fastforce simp: within_limit_def distinct_update)

lemma within_limit_filter: "within_limit n pool \<Longrightarrow> within_limit n (filter P pool)"
  by (auto simp: within_limit_def distinct_map_filter)

lemma within_limit_delete: "within_limit n pool \<Longrightarrow> within_limit n (AList.delete i pool)"
  unfolding AList.delete_eq by (rule within_limit_filter)

lemma within_limit_lookup: "within_limit n pool \<Longrightarrow> map_of pool i = Some s \<Longrightarrow> int (mx_streams s) \<le> n"
  by (auto simp: within_limit_def dest: map_of_SomeD)

lemma dial_loop_spec:
  assumes "dial_loop n ids pool = (x, pool')" "within_limit n pool" "n > 0"
  shows "within_limit n pool' \<and> (case x of
      Some (i, s) \<Rightarrow> map_of pool' i = Some s \<and> \<not> mx_closed s \<and> int (mx_streams s) < n
    | None \<Rightarrow> \<forall>i\<in>set ids. \<forall>s. map_of pool i = Some s \<longrightarrow> mx_closed s \<or> int (mx_streams s) \<ge> n)"
  using assms
proof (induction n ids pool rule: dial_loop.induct)
  case (2 n i ids pool)
  show ?case
  proof (cases "map_of pool i")
    case (Some s)
    show ?thesis
    proof (cases "mx_closed s")
      case True
      with Some "2.prems" "2.IH"(2) [OF Some True _ within_limit_delete] show ?thesis
        by (fastforce simp: AList.delete_conv' split: option.splits if_splits)
    next
      case False
      with Some "2.prems" "2.IH"(3) [OF Some False] show ?thesis
        by (auto split: if_splits option.splits)
    qed
  qed (use 2 in \<open>auto split: option.splits\<close>)
qed simp

lemma createNewConn_spec:
  assumes "createNewConn env i s pool = (r, pool')" "within_limit n pool" "int (mx_streams s) < n"
  shows "within_limit n pool' \<and> (\<forall>j. r = Ret j \<longrightarrow> map_of pool' j = Some (s\<lparr>mx_streams := mx_streams s + 1, mx_lastActive := me_now env\<rparr>))"
  using assms within_limit_delete [of n pool i] within_limit_update [of n pool _ i]
  by (auto simp: createNewConn_def update_conv' split: if_splits)

lemma newMuxClient_spec:
  assumes "newMuxClient env pool = (r, pool')" "within_limit n pool" "n > 0"
  shows "within_limit n pool' \<and> (\<forall>i s. r = Ret (i, s) \<longrightarrow> mx_streams s = 0 \<and> \<not> mx_closed s)"
  using assms within_limit_update [of n pool _ "me_id env"]
  by (auto simp: newMuxClient_def Let_def split: if_splits outcome.splits)

lemma mux_DialConn_spec:
  assumes "mux_DialConn n ids env pool = (r, pool')" "within_limit n pool" "n > 0"
  shows "within_limit n pool' \<and> (\<forall>i. r = Ret i \<longrightarrow> (\<exists>s. map_of pool' i = Some s \<and> \<not> mx_closed s \<and> 0 < mx_streams s))"
proof -
  obtain x pool1 where l: "dial_loop n ids pool = (x, pool1)" by (metis prod.exhaust)
  note L = dial_loop_spec [OF l assms(2,3)]
  show ?thesis
  proof (cases x)
    case (Some a)
    then obtain i s where x: "x = Some (i, s)" by (cases a) auto
    then have "createNewConn env i s pool1 = (r, pool')" using assms(1) l by (simp add: mux_DialConn_def)
    with createNewConn_spec [of env i s pool1 r pool' n] L x show ?thesis by auto
  next
    case None
    obtain y pool2 where m: "newMuxClient env pool1 = (y, pool2)" by (metis prod.exhaust)
    note M = newMuxClient_spec [OF m conjunct1 [OF L] assms(3)]
    show ?thesis
    proof (cases y)
      case (Ret a)
      then obtain i s where y: "y = Ret (i, s)" by (cases a) auto
      then have "createNewConn env i s pool2 = (r, pool')" using assms(1) l m None by (simp add: mux_DialConn_def)
      with createNewConn_spec [of env i s pool2 r pool' n] M y assms(3) show ?thesis by auto
    qed (use assms(1) l m None M in \<open>auto simp: mux_DialConn_def\<close>)
  qed
qed

lemma mux_reach_within:
  assumes "mux_reach n pool" "n > 0"
  shows "within_limit n pool"
  using assms(1) unfolding mux_reach_def
proof (induction rule: rtranclp_induct)
  case base
  then show ?case by (simp add: within_limit_def)
next
  case (step pool pool')
  from step.hyps(2) step.IH show ?case
  proof cases
    case (mux_dial ids env)
    then show ?thesis using mux_DialConn_spec [of n ids env pool] step.IH assms(2) by (metis prod.collapse)
  next
    case (mux_stream_ends i s)
    then show ?thesis using within_limit_lookup [OF step.IH] within_limit_update [OF step.IH] by fastforce
  next
    case (mux_session_dies i s)
    then show ?thesis using within_limit_lookup [OF step.IH] within_limit_update [OF step.IH] by fastforce
  qed (use step.IH in \<open>simp add: clean_tick_def within_limit_filter\<close>)
qed

text \<open>The pool shares sessions up to the limit. In every state that dialling, ending streams,
  dying sessions and the cleaner can reach, dialling never puts more than \<open>concurrency\<close> streams on
  a session; a connection it returns is a stream of a session that is open and in the pool; and as long as
  some open session has room the tunnel below is not dialled, whatever order the map is visited in.\<close>

theorem mux_dial_sound:
  assumes "mux_reach n pool" "n > 0" "set ids = fst ` set pool" "mux_DialConn n ids env pool = (r, pool')"
  shows "(\<forall>(i, s)\<in>set pool'. int (mx_streams s) \<le> n) \<and>
    (\<forall>i. r = Ret i \<longrightarrow> (\<exists>s. map_of pool' i = Some s \<and> \<not> mx_closed s \<and> 0 < mx_streams s)) \<and>
    ((\<exists>i s. map_of pool i = Some s \<and> \<not> mx_closed s \<and> int (mx_streams s) < n) \<longrightarrow>
       (\<forall>d. mux_DialConn n ids (env\<lparr>me_dial := d\<rparr>) pool = (r, pool')))"
proof (intro conjI impI allI)
  note W = mux_reach_within [OF assms(1,2)]
  note S = mux_DialConn_spec [OF assms(4) W assms(2)]
  show "\<forall>(i, s)\<in>set pool'. int (mx_streams s) \<le> n" using S by (simp add: within_limit_def)
  show "\<exists>s. map_of pool' i = Some s \<and> \<not> mx_closed s \<and> 0 < mx_streams s" if "r = Ret i" for i using S that by blast
  fix d
  assume room: "\<exists>i s. map_of pool i = Some s \<and> \<not> mx_closed s \<and> int (mx_streams s) < n"
  obtain x pool1 where l: "dial_loop n ids pool = (x, pool1)" by (metis prod.exhaust)
  have "x \<noteq> None"
  proof
    assume "x = None"
    with dial_loop_spec [OF l W assms(2)] have full: "\<forall>i\<in>set ids. \<forall>s. map_of pool i = Some s \<longrightarrow> mx_closed s \<or> int (mx_streams s) \<ge> n"
      by simp
    from room obtain i s where "map_of pool i = Some s" "\<not> mx_closed s" "int (mx_streams s) < n" by blast
    moreover from this(1) have "i \<in> set ids" using assms(3) by (force dest: map_of_SomeD)
    ultimately show False using full by fastforce
  qed
  then show "mux_DialConn n ids (env\<lparr>me_dial := d\<rparr>) pool = (r, pool')"
    using assms(4) l by (auto simp: mux_DialConn_def createNewConn_def)
qed

definition sample_mux_env :: mux_env where
  "sample_mux_env = \<lparr>me_now = 5, me_openFails = False, me_id = 7, me_dial = Ret (), me_smuxFails = False\<rparr>"

definition sample_pool :: mux_pool where
  "sample_pool = [(7, \<lparr>mx_closed = False, mx_streams = 1, mx_lastActive = 5, mx_underClosed = False\<rparr>)]"

lemma sample_pool_reached: "mux_reach 8 sample_pool"
proof -
  have "snd (mux_DialConn 8 [] sample_mux_env []) = sample_pool"
    by (simp add: mux_DialConn_def newMuxClient_def createNewConn_def sample_mux_env_def sample_pool_def Let_def)
  with mux_dial [of "[]" "[]" 8 sample_mux_env] show ?thesis
    by (auto simp: mux_reach_def)
qed

theorem mux_dial_sound_witness:
  "\<exists>pool'. mux_DialConn 8 [7] (sample_mux_env\<lparr>me_dial := Raise EOF\<rparr>) sample_pool = (Ret 7, pool') \<and>
     (\<forall>(i, s)\<in>set pool'. int (mx_streams s) \<le> 8)"
proof -
  obtain r pool' where d: "mux_DialConn 8 [7] sample_mux_env sample_pool = (r, pool')" by (metis prod.exhaust)
  have "r = Ret 7" using d by (simp add: mux_DialConn_def createNewConn_def sample_pool_def sample_mux_env_def)
  with mux_dial_sound [OF sample_pool_reached _ _ d] show ?thesis by (auto simp: sample_pool_def)
qed

end
