(* ===== verification/Trojan_Packet.thy ===== *)
theory Trojan_Packet
  imports Address_Codec
begin

text \<open>
  \<open>tunnel/trojan/packet.go\<close>: UDP packets over a trojan stream. A packet is an address, a 16-bit
  length, CRLF and the payload. The lemmas in the context of \<open>byte_reader\<close> show what one
  \<open>ReadWithMetadata\<close> does with one frame for every way the stream is cut; the property
  lifts this to streams of packets, some of which are too large for the reader.
\<close>

definition MaxPacketSize :: nat where
  "MaxPacketSize = 1024 * 8"

definition crlf :: bytes where
  "crlf = [0x0d, 0x0a]"

text \<open>The result of encoding the address is ignored, as is the length of the write.\<close>

definition PacketConn_WriteWithMetadata ::
  "'s writer \<Rightarrow> bytes \<Rightarrow> metadata \<Rightarrow> 's \<Rightarrow> (nat \<times> go_error option) \<times> 's" where
  "PacketConn_WriteWithMetadata wr payload m s =
     (let w = snd (Address_WriteTo buffer_write (Address m) []) @
              put_u16 (of_nat (length payload)) @ crlf @ payload
      in case wr w s of ((_, err), s') \<Rightarrow> ((length payload, err), s'))"

definition PacketConn_WriteTo ::
  "'s writer \<Rightarrow> bytes \<Rightarrow> string \<Rightarrow> 's \<Rightarrow> (nat \<times> go_error option) outcome \<times> 's" where
  "PacketConn_WriteTo wr payload addr s =
     (case NewAddressFromAddr ''udp'' addr of
        Ret address \<Rightarrow>
          (case PacketConn_WriteWithMetadata wr payload \<lparr>Command = 0, Address = address\<rparr> s of
             (r, s') \<Rightarrow> (Ret r, s'))
      | Raise e \<Rightarrow> (Raise e, s)
      | Panic p \<Rightarrow> (Panic p, s)
      | Hang \<Rightarrow> (Hang, s))"

definition udp_address :: address where
  "udp_address = zero_address\<lparr>NetworkType := ''udp''\<rparr>"

definition drain_packet :: "'s reader \<Rightarrow> nat \<Rightarrow> ('s, 'a) proc" where
  "drain_packet rd len s =
     (case io_CopyN_Discard rd len s of
        (Hang, s') \<Rightarrow> (Hang, s')
      | (_, s') \<Rightarrow> (Raise (NewError ''incoming packet size is too large''), s'))"

text \<open>\<open>room\<close> is the length of the caller's buffer. The returned bytes are its first part.\<close>

definition PacketConn_ReadWithMetadata ::
  "'s reader \<Rightarrow> nat \<Rightarrow> ('s, bytes \<times> metadata) proc" where
  "PacketConn_ReadWithMetadata rd room =
     bindp (wrap_error (\<lambda>e. Base (NewError ''failed to parse udp packet addr'') (Some e))
              (Address_ReadFrom rd udp_address))
       (\<lambda>(_, addr).
        bindp (wrap_error (\<lambda>_. NewError ''failed to read length'') (io_ReadFull rd 2))
         (\<lambda>lengthBuf. let len = unat (get_u16 lengthBuf) in
          bindp (wrap_error (\<lambda>_. NewError ''failed to read crlf'') (io_ReadFull rd 2))
           (\<lambda>_. if room < len \<or> MaxPacketSize < len then drain_packet rd len
                else bindp (wrap_error (\<lambda>_. NewError ''failed to read payload'') (io_ReadFull rd len))
                  (\<lambda>payload. retp (payload, \<lparr>Command = 0, Address = addr\<rparr>)))))"

definition PacketConn_ReadFrom :: "'s reader \<Rightarrow> nat \<Rightarrow> ('s, bytes \<times> metadata) proc" where
  "PacketConn_ReadFrom rd room = PacketConn_ReadWithMetadata rd room"

section \<open>One frame\<close>

definition frame :: "address \<Rightarrow> bytes \<Rightarrow> bytes" where
  "frame a payload = encode_address a @ put_u16 (of_nat (length payload)) @ crlf @ payload"

definition frame_result :: "nat \<Rightarrow> address \<Rightarrow> bytes \<Rightarrow> (bytes \<times> metadata) outcome" where
  "frame_result room a payload =
     (if room < length payload \<or> MaxPacketSize < length payload
      then Raise (NewError ''incoming packet size is too large'')
      else Ret (payload, \<lparr>Command = 0, Address = a\<lparr>NetworkType := ''udp''\<rparr>\<rparr>))"

lemma length_crlf [simp]: "length crlf = 2"
  by (simp add: crlf_def)

lemma write_frame:
  assumes "wire_address (Address m)"
  shows "PacketConn_WriteWithMetadata buffer_write payload m w =
    ((length payload, None), w @ frame (Address m) payload)"
  using wire_address_valid [OF assms]
  by (simp add: PacketConn_WriteWithMetadata_def Address_WriteTo_buffer buffer_write_def frame_def)

lemma length_field:
  "n < 65536 \<Longrightarrow> unat (get_u16 (put_u16 (of_nat n))) = n"
  using get_put_u16 [of "of_nat n" "[]"] by (simp add: unat_of_nat)

context byte_reader
begin

lemma read_frame:
  assumes "ok n s" "wire_address a" "content s = frame a payload @ rest"
    "length payload < 65536" "65800 \<le> n"
  shows "\<exists>s'. PacketConn_ReadWithMetadata rd room s = (frame_result room a payload, s') \<and>
    content s' = rest \<and> advances (n - length (frame a payload)) s (frame a payload) s'"
proof -
  let ?L = "length (encode_address a)" and ?p = "length payload"
  let ?field = "put_u16 (of_nat ?p)"
  have L: "?L \<le> 257" by (rule length_encode_address [OF assms(2)])
  obtain s1 where s1: "Address_ReadFrom rd udp_address s =
        (Ret (int ?L, a\<lparr>NetworkType := ''udp''\<rparr>), s1)"
      "advances (n - ?L) s (encode_address a) s1" "content s1 = ?field @ crlf @ payload @ rest"
    using ReadFrom_encode [OF assms(1,2), of "?field @ crlf @ payload @ rest" udp_address] assms
    by (auto simp: frame_def udp_address_def zero_address_def)
  have "ok (n - ?L) s1" "2 \<le> n - ?L" using s1(2) L assms(5) by (auto simp: advances_def)
  then obtain s2 where s2: "io_ReadFull rd 2 s1 = (Ret ?field, s2)"
      "advances (n - ?L - 2) s1 ?field s2" "content s2 = crlf @ payload @ rest"
    using read_full_append [OF _ s1(3) length_put_u16] by blast
  have "ok (n - ?L - 2) s2" "2 \<le> n - ?L - 2" using s2(2) L assms(5) by (auto simp: advances_def)
  then obtain s3 where s3: "io_ReadFull rd 2 s2 = (Ret crlf, s3)"
      "advances (n - ?L - 2 - 2) s2 crlf s3" "content s3 = payload @ rest"
    using read_full_append [OF _ s2(3) length_crlf] by blast
  have ok3: "ok (n - ?L - 2 - 2) s3" using s3(2) by (auto simp: advances_def)
  have room3: "?p \<le> n - ?L - 2 - 2" using L assms(4,5) by linarith
  obtain s4 where s4: "io_ReadFull rd ?p s3 = (Ret payload, s4)"
      "advances (n - ?L - 2 - 2 - ?p) s3 payload s4" "content s4 = rest"
    using read_full_append [OF ok3 s3(3) refl room3] by auto
  obtain s5 where s5: "io_CopyN_Discard rd ?p s3 = (Ret (), s5)"
      "advances (n - ?L - 2 - 2 - ?p) s3 payload s5" "content s5 = rest"
    using copyN_discard_append [OF ok3 s3(3) refl room3] by auto
  have n: "n - ?L - 2 - 2 - ?p = n - length (frame a payload)" by (simp add: frame_def)
  have whole: "advances (n - length (frame a payload)) s (frame a payload) t"
    if "advances (n - ?L - 2 - 2 - ?p) s3 payload t" for t
    using advances_trans [OF advances_trans [OF advances_trans [OF s1(2) s2(2)] s3(2)] that] n
    by (simp add: frame_def)
  have "PacketConn_ReadWithMetadata rd room s =
      (frame_result room a payload,
       if room < ?p \<or> MaxPacketSize < ?p then s5 else s4)"
    using s1(1) s2(1) s3(1) s4(1) s5(1) assms(4)
    by (simp add: PacketConn_ReadWithMetadata_def length_field Let_def drain_packet_def
        frame_result_def)
  with s4 s5 whole show ?thesis by auto
qed

end

section \<open>Streams of packets\<close>

fun write_packets :: "(address \<times> bytes) list \<Rightarrow> bytes \<Rightarrow> bytes" where
  "write_packets [] w = w"
| "write_packets ((a, p) # ps) w =
     write_packets ps (snd (PacketConn_WriteWithMetadata buffer_write p \<lparr>Command = 0, Address = a\<rparr> w))"

fun read_packets :: "nat \<Rightarrow> 's reader \<Rightarrow> nat \<Rightarrow> 's \<Rightarrow> (bytes \<times> metadata) outcome list \<times> 's" where
  "read_packets 0 rd room s = ([], s)"
| "read_packets (Suc n) rd room s =
     (case PacketConn_ReadWithMetadata rd room s of
        (r, s') \<Rightarrow> (case read_packets n rd room s' of (rs, s'') \<Rightarrow> (r # rs, s'')))"

definition sendable :: "address \<times> bytes \<Rightarrow> bool" where
  "sendable ap \<longleftrightarrow> wire_address (fst ap) \<and> length (snd ap) < 65536"

lemma write_packets_frames:
  "list_all sendable ps \<Longrightarrow> write_packets ps w = w @ concat (map (\<lambda>(a, p). frame a p) ps)"
  by (induction ps w rule: write_packets.induct) (simp_all add: sendable_def write_frame)

lemma read_packets_frames:
  "\<lbrakk>list_all sendable ps; seg_ok 0 s;
    seg_content s = concat (map (\<lambda>(a, p). frame a p) ps) @ rest\<rbrakk> \<Longrightarrow>
   \<exists>s'. read_packets (length ps) seg_read room s = (map (\<lambda>(a, p). frame_result room a p) ps, s') \<and>
     seg_content s' = rest"
proof (induction ps arbitrary: s)
  case Nil
  then show ?case by simp
next
  case (Cons ap ps)
  obtain a p where ap: "ap = (a, p)" by fastforce
  have "seg_ok 65800 s" using Cons.prems(2) seg_ok_any by blast
  then obtain s1 where s1: "PacketConn_ReadWithMetadata seg_read room s = (frame_result room a p, s1)"
      "seg_content s1 = concat (map (\<lambda>(a, p). frame a p) ps) @ rest" "seg_ok 0 s1"
    using net.read_frame [of 65800 s a p "concat (map (\<lambda>(a, p). frame a p) ps) @ rest" room]
      Cons.prems ap seg_ok_any by (auto simp: sendable_def net.advances_def)
  with Cons.IH [of s1] Cons.prems(1) ap show ?case by auto
qed

section \<open>Properties\<close>

text \<open>C14. UDP over a trojan stream keeps packet boundaries. For any list of packets with
  encodable addresses and at most 65535 bytes each, written one after the other, and for every
  way the network cuts the stream, the reader gets the packets in order, each with its payload
  and address. A packet larger than 8192 bytes or than the reader's buffer is reported as an error
  and drained, so that the packets after it are still read correctly.\<close>

theorem packet_stream_roundtrip:
  assumes "list_all sendable ps" "seg_ok 0 s" "seg_content s = write_packets ps [] @ rest"
  shows "\<exists>s'. read_packets (length ps) seg_read room s =
      (map (\<lambda>(a, p). frame_result room a p) ps, s') \<and> seg_content s' = rest"
  using read_packets_frames [OF assms(1,2)] assms(3) write_packets_frames [OF assms(1)] by simp

definition sample_packets :: "(address \<times> bytes) list" where
  "sample_packets = [(sample_domain, [1, 2, 3]), (sample_domain, [4])]"

theorem packet_stream_roundtrip_witness:
  "\<exists>s'. read_packets 2 seg_read 2 \<lparr>segs = [write_packets sample_packets [], [9]], fin_err = EOF\<rparr> =
     ([Raise (NewError ''incoming packet size is too large''),
       Ret ([4], \<lparr>Command = 0, Address = sample_domain\<lparr>NetworkType := ''udp''\<rparr>\<rparr>)], s') \<and>
     seg_content s' = [9]"
proof -
  have all: "list_all sendable sample_packets"
    using sample_domain_wire_address by (simp add: sample_packets_def sendable_def)
  have "write_packets sample_packets [] \<noteq> []"
    unfolding write_packets_frames [OF all] by (simp add: sample_packets_def frame_def crlf_def)
  then show ?thesis
    using packet_stream_roundtrip [OF all, of "\<lparr>segs = [write_packets sample_packets [], [9]],
        fin_err = EOF\<rparr>" "[9]" 2]
    by (simp add: seg_ok_def seg_content_def sample_packets_def frame_result_def MaxPacketSize_def
        eval_nat_numeral)
qed

end
