(* ===== verification/Trojan_Client.thy ===== *)
theory Trojan_Client
  imports Trojan_Packet Memory_Stat
begin

text \<open>
  \<open>tunnel/trojan/client.go\<close>: the outbound connection with its lazily written header. The
  connection below is any reader and writer over a state \<open>'s\<close>; the user meter is the one of
  \<open>Memory_Stat\<close>. \<open>sync.Once\<close> is a flag that is set before its function runs; the flush
  timer is one more event that may come between any two writes.
\<close>

definition Cmd_Connect :: byte where "Cmd_Connect = 1"
definition Cmd_Associate :: byte where "Cmd_Associate = 3"
definition Cmd_Mux :: byte where "Cmd_Mux = 0x7f"

lemmas cmd_defs = Cmd_Connect_def Cmd_Associate_def Cmd_Mux_def

record 's outbound_conn =
  oc_sent :: u64
  oc_recv :: u64
  oc_metadata :: metadata
  oc_user :: mem_user
  headerWrittenOnce :: bool
  headerSent :: bool
  oc_conn :: 's

definition header_bytes :: "string \<Rightarrow> metadata \<Rightarrow> bytes" where
  "header_bytes h m = snd (snd (Metadata_WriteTo buffer_write m (bytes_of h @ crlf))) @ crlf"

definition OutboundConn_WriteHeader ::
  "'s writer \<Rightarrow> bytes option \<Rightarrow> 's outbound_conn \<Rightarrow> (bool \<times> go_error option) \<times> 's outbound_conn" where
  "OutboundConn_WriteHeader wr payload c =
     (if headerWrittenOnce c then ((False, None), c)
      else
        let c1 = c\<lparr>headerWrittenOnce := True\<rparr>;
            m = oc_metadata c1;
            b = header_bytes (hash (oc_user c1)) m @ (case payload of None \<Rightarrow> [] | Some p \<Rightarrow> p);
            c2 = c1\<lparr>oc_metadata := fst (snd (Metadata_WriteTo buffer_write m []))\<rparr>
        in case wr b (oc_conn c2) of
             ((_, None), k) \<Rightarrow> ((True, None), c2\<lparr>oc_conn := k, headerSent := True\<rparr>)
           | ((_, Some e), k) \<Rightarrow> ((False, Some e), c2\<lparr>oc_conn := k\<rparr>))"

definition OutboundConn_Write :: "'s writer \<Rightarrow> 's outbound_conn writer" where
  "OutboundConn_Write wr p c =
     (case OutboundConn_WriteHeader wr (Some p) c of ((written, err), c1) \<Rightarrow>
        (case err of
           Some e \<Rightarrow>
             ((0, Some (Base (NewError ''trojan failed to flush header with payload'') (Some e))), c1)
         | None \<Rightarrow>
             (if written then ((length p, None), c1)
              else case wr p (oc_conn c1) of ((n, err'), k) \<Rightarrow>
                ((n, err'), c1\<lparr>oc_conn := k, oc_user := AddTraffic (int n) 0 (oc_user c1),
                               oc_sent := oc_sent c1 + of_nat n\<rparr>))))"

definition OutboundConn_Read :: "'s reader \<Rightarrow> 's outbound_conn reader" where
  "OutboundConn_Read rd k c =
     (case rd k (oc_conn c) of ((bs, err), conn') \<Rightarrow>
        ((bs, err), c\<lparr>oc_conn := conn', oc_user := AddTraffic 0 (int (length bs)) (oc_user c),
                      oc_recv := oc_recv c + of_nat (length bs)\<rparr>))"

definition new_outbound :: "mem_user \<Rightarrow> metadata \<Rightarrow> 's \<Rightarrow> 's outbound_conn" where
  "new_outbound u m conn =
     \<lparr>oc_sent = 0, oc_recv = 0, oc_metadata = m, oc_user = u, headerWrittenOnce = False,
      headerSent = False, oc_conn = conn\<rparr>"

text \<open>\<open>dial\<close> is the client below. \<open>flush_timer\<close> is the goroutine that \<open>DialConn\<close> starts.\<close>

definition Client_DialConn ::
  "(address \<Rightarrow> 's outcome) \<Rightarrow> mem_user \<Rightarrow> address \<Rightarrow> bool \<Rightarrow> 's outbound_conn outcome" where
  "Client_DialConn dial u addr overlay_mux =
     (case dial addr of
        Ret conn \<Rightarrow>
          Ret (new_outbound u
                 \<lparr>Command = (if overlay_mux then Cmd_Mux else Cmd_Connect), Address = addr\<rparr> conn)
      | Raise e \<Rightarrow> Raise e
      | Panic p \<Rightarrow> Panic p
      | Hang \<Rightarrow> Hang)"

definition flush_timer :: "'s writer \<Rightarrow> int \<Rightarrow> 's outbound_conn \<Rightarrow> 's outbound_conn" where
  "flush_timer wr flushTimeout c =
     (if flushTimeout \<le> 0 then c
      else if headerSent c then c
      else snd (OutboundConn_WriteHeader wr None c))"

definition udp_fake_address :: address where
  "udp_fake_address = zero_address\<lparr>DomainName := ''UDP_CONN'', AddressType := ATYP_DomainName\<rparr>"

definition Client_DialPacket ::
  "(address \<Rightarrow> 's outcome) \<Rightarrow> mem_user \<Rightarrow> 's outbound_conn outcome" where
  "Client_DialPacket dial u =
     (case dial udp_fake_address of
        Ret conn \<Rightarrow>
          Ret (new_outbound u \<lparr>Command = Cmd_Associate, Address = udp_fake_address\<rparr> conn)
      | Raise e \<Rightarrow> Raise e
      | Panic p \<Rightarrow> Panic p
      | Hang \<Rightarrow> Hang)"

text \<open>\<open>NewClient\<close> takes the first user the authenticator lists.\<close>

definition trojan_NewClient :: "mem_auth outcome \<Rightarrow> nat outcome" where
  "trojan_NewClient r =
     (case r of
        Ret a \<Rightarrow> (case ListUsers a of [] \<Rightarrow> Raise (NewError ''no valid user found'') | p # _ \<Rightarrow> Ret p)
      | Raise e \<Rightarrow> Raise e
      | Panic p \<Rightarrow> Panic p
      | Hang \<Rightarrow> Hang)"

section \<open>The header\<close>

lemma Metadata_WriteTo_buffer:
  assumes "wire_address (Address m)"
  shows "Metadata_WriteTo buffer_write m w =
    (Ret (Suc (length (encode_address (Address m))), None),
     m\<lparr>Address := (Address m)\<lparr>NetworkType := ''tcp''\<rparr>\<rparr>, w @ Command m # encode_address (Address m))"
  using wire_address_valid [OF assms]
  by (simp add: Metadata_WriteTo_def Address_WriteTo_buffer buffer_write_def)

lemma header_bytes_wire:
  assumes "wire_address (Address m)"
  shows "header_bytes h m = bytes_of h @ crlf @ Command m # encode_address (Address m) @ crlf"
  by (simp add: header_bytes_def Metadata_WriteTo_buffer [OF assms])

section \<open>Interleavings of writes and the flush timer\<close>

datatype client_ev = CWrite bytes | CFlush int

fun client_step :: "'s writer \<Rightarrow> client_ev \<Rightarrow> 's outbound_conn \<Rightarrow> 's outbound_conn" where
  "client_step wr (CWrite p) c = snd (OutboundConn_Write wr p c)"
| "client_step wr (CFlush t) c = flush_timer wr t c"

fun fires :: "client_ev \<Rightarrow> bool" where
  "fires (CWrite p) = True"
| "fires (CFlush t) = (0 < t)"

fun ev_payload :: "client_ev \<Rightarrow> bytes" where
  "ev_payload (CWrite p) = p"
| "ev_payload (CFlush t) = []"

text \<open>The bytes the meter sees: the payload that travels with the header is not among them.\<close>

fun counted :: "bool \<Rightarrow> client_ev list \<Rightarrow> nat" where
  "counted hdr [] = 0"
| "counted hdr (e # es) = (if hdr then length (ev_payload e) else 0) + counted (hdr \<or> fires e) es"

definition sent_ok :: "'s outbound_conn \<Rightarrow> bool" where
  "sent_ok c \<longleftrightarrow> headerSent c = headerWrittenOnce c"

lemma AddTraffic_nat:
  "sent (AddTraffic (int n) 0 u) = sent u + of_nat n" "hash (AddTraffic k j u) = hash u"
  by (simp_all add: AddTraffic_def AddTraffic64_def)

lemma WriteHeader_buffer:
  "OutboundConn_WriteHeader buffer_write payload c =
     (if headerWrittenOnce c then ((False, None), c)
      else ((True, None),
        c\<lparr>headerWrittenOnce := True, headerSent := True,
          oc_metadata := fst (snd (Metadata_WriteTo buffer_write (oc_metadata c) [])),
          oc_conn := oc_conn c @ header_bytes (hash (oc_user c)) (oc_metadata c) @
            (case payload of None \<Rightarrow> [] | Some p \<Rightarrow> p)\<rparr>))"
  by (simp add: OutboundConn_WriteHeader_def Let_def buffer_write_def)

lemma client_step_written:
  assumes "sent_ok c" "headerWrittenOnce c"
  shows "client_step buffer_write e c =
    c\<lparr>oc_conn := oc_conn c @ ev_payload e,
      oc_user := (case e of CWrite p \<Rightarrow> AddTraffic (int (length p)) 0 (oc_user c) | _ \<Rightarrow> oc_user c),
      oc_sent := oc_sent c + of_nat (length (ev_payload e))\<rparr>"
  using assms
  by (cases e) (simp_all add: OutboundConn_Write_def WriteHeader_buffer flush_timer_def
      buffer_write_def sent_ok_def)

lemma client_step_idle:
  "\<not> fires e \<Longrightarrow> client_step buffer_write e c = c"
  by (cases e) (simp_all add: flush_timer_def)

lemma client_step_first:
  assumes "sent_ok c" "\<not> headerWrittenOnce c" "fires e"
  shows "client_step buffer_write e c =
    c\<lparr>headerWrittenOnce := True, headerSent := True,
      oc_metadata := fst (snd (Metadata_WriteTo buffer_write (oc_metadata c) [])),
      oc_conn := oc_conn c @ header_bytes (hash (oc_user c)) (oc_metadata c) @ ev_payload e\<rparr>"
  using assms
  by (cases e) (simp_all add: OutboundConn_Write_def WriteHeader_buffer flush_timer_def sent_ok_def)

lemma client_steps_buffer:
  "sent_ok c \<Longrightarrow>
   oc_conn (fold (client_step buffer_write) es c) = oc_conn c @
     (if headerWrittenOnce c \<or> \<not> list_ex fires es then []
      else header_bytes (hash (oc_user c)) (oc_metadata c)) @ concat (map ev_payload es) \<and>
   sent (oc_user (fold (client_step buffer_write) es c)) =
     sent (oc_user c) + of_nat (counted (headerWrittenOnce c) es)"
proof (induction es arbitrary: c)
  case Nil
  then show ?case by simp
next
  case (Cons e es)
  have ok: "sent_ok (client_step buffer_write e c)"
    and user: "sent (oc_user (client_step buffer_write e c)) = sent (oc_user c) +
        of_nat (if headerWrittenOnce c then length (ev_payload e) else 0)"
    using Cons.prems client_step_written [of c e] client_step_idle [of e c] client_step_first [of c e]
    by (cases "headerWrittenOnce c"; cases "fires e"; cases e; simp add: sent_ok_def AddTraffic_nat)+
  have "\<not> fires e \<Longrightarrow> ev_payload e = []" by (cases e) simp_all
  then show ?case
    using Cons.IH [OF ok] user Cons.prems client_step_written [of c e] client_step_idle [of e c]
      client_step_first [of c e]
    by (cases "headerWrittenOnce c"; cases "fires e") simp_all
qed

section \<open>Properties\<close>

text \<open>However the application's writes and the flush timer interleave on a connection that
  accepts every write, the wire carries the header exactly once, in front of everything else,
  followed by all payloads in order; nothing is sent before the first write or the first timer
  that is armed. The meter, however, misses the payload of the write that carries the header:
  it counts only what is written after it.\<close>

theorem client_stream:
  fixes es :: "client_ev list" and u :: mem_user and m :: metadata
  defines "c \<equiv> fold (client_step buffer_write) es (new_outbound u m [])"
  shows "oc_conn c = (if list_ex fires es then header_bytes (hash u) m else []) @
      concat (map ev_payload es) \<and>
    sent (oc_user c) = sent u + of_nat (counted False es)"
  using client_steps_buffer [of "new_outbound u m []" es]
  by (simp add: c_def new_outbound_def sent_ok_def)

text \<open>A failed header write is never repeated. When the first write of a connection fails, the
  error is reported once, and a later write that the connection accepts goes out without any
  header, so the server cannot read it as a trojan request.\<close>

theorem header_lost_after_failed_write:
  assumes "wr (header_bytes (hash u) m @ p) k0 = ((n, Some e), k1)"
    "wr q k1 = ((length q, None), k2)"
  shows "let (r1, c1) = OutboundConn_Write wr p (new_outbound u m k0);
             (r2, c2) = OutboundConn_Write wr q c1
         in snd r1 \<noteq> None \<and> r2 = (length q, None) \<and> oc_conn c2 = k2 \<and> \<not> headerSent c2"
  using assms
  by (simp add: OutboundConn_Write_def OutboundConn_WriteHeader_def new_outbound_def Let_def)

text \<open>A connection whose first write times out and whose second succeeds.\<close>

definition fails_once :: "(bool \<times> bytes) writer" where
  "fails_once bs k = (if fst k then ((length bs, None), (True, snd k @ bs))
                      else ((0, Some (Opaque ''timeout'')), (True, snd k)))"

theorem header_lost_after_failed_write_witness:
  "\<exists>c1 c2. snd (OutboundConn_Write fails_once [1] (new_outbound (new_user ''u'')
       \<lparr>Command = 1, Address = sample_domain\<rparr> (False, []))) = c1 \<and>
     snd (OutboundConn_Write fails_once [2] c1) = c2 \<and> snd (oc_conn c2) = [2]"
proof -
  let ?m = "\<lparr>Command = 1, Address = sample_domain\<rparr>"
  have "fails_once (header_bytes (hash (new_user ''u'')) ?m @ [1]) (False, []) =
      ((0, Some (Opaque ''timeout'')), (True, []))"
    and "fails_once [2] (True, []) = ((length [2 :: byte], None), (True, [2]))"
    by (simp_all add: fails_once_def)
  from header_lost_after_failed_write [OF this] show ?thesis
    by (auto simp: Let_def split: prod.splits)
qed

end
