(* ===== verification/Trojan_Server.thy ===== *)
theory Trojan_Server
  imports Trojan_Client
begin

text \<open>
  \<open>tunnel/trojan/server.go\<close> and \<open>redirector/redirector.go\<close>: authentication of an inbound
  connection, its dispatch to one of the three accept queues, the fallback of everything else,
  and the accounting of accepted connections. Each accepted connection runs \<open>handle_inbound\<close>,
  the body of the goroutine of \<open>acceptLoop\<close>; the buffered Go channels are lists with their
  capacity, and a \<open>select\<close> with two ready branches is resolved by the parameter \<open>sel\<close>.
\<close>

section \<open>InboundConn\<close>

record 's inbound_conn =
  ib_sent :: u64
  ib_recv :: u64
  ib_conn :: 's
  ib_user :: "nat option"
  ib_hash :: string
  ib_metadata :: "metadata option"
  ib_ip :: string

definition new_inbound :: "'s \<Rightarrow> 's inbound_conn" where
  "new_inbound conn =
     \<lparr>ib_sent = 0, ib_recv = 0, ib_conn = conn, ib_user = None, ib_hash = [], ib_metadata = None,
      ib_ip = []\<rparr>"

type_synonym 's auth_state = "'s inbound_conn \<times> mem_auth"

text \<open>A read from the connection inside \<open>Auth\<close>.\<close>

definition on_conn :: "('s, 'a) proc \<Rightarrow> ('s auth_state, 'a) proc" where
  "on_conn m st = (case m (ib_conn (fst st)) of (r, k) \<Rightarrow> (r, ((fst st)\<lparr>ib_conn := k\<rparr>, snd st)))"

definition put_metadata :: "metadata \<Rightarrow> ('s auth_state, unit) proc" where
  "put_metadata m st = (Ret (), ((fst st)\<lparr>ib_metadata := Some m\<rparr>, snd st))"

text \<open>\<open>Auth\<close> after the address check: CRLF, metadata, CRLF. The bytes of the CRLF fields are not
  looked at. When reading fails, the connection object is dropped together with its partly
  filled metadata, which is therefore not kept here.\<close>

definition Auth_request :: "'s reader \<Rightarrow> ('s auth_state, unit) proc" where
  "Auth_request rd =
     bindp (on_conn (io_ReadFull rd 2))
       (\<lambda>_. bindp (on_conn (Metadata_ReadFrom rd))
         (\<lambda>(_, m). bindp (put_metadata m)
           (\<lambda>_. bindp (on_conn (io_ReadFull rd 2)) (\<lambda>_. retp ()))))"

definition Auth :: "'s reader \<Rightarrow> string \<Rightarrow> ('s auth_state, unit) proc" where
  "Auth rd remoteAddr st =
     (case st of (c, a) \<Rightarrow>
      case rd 56 (ib_conn c) of ((bs, err), k) \<Rightarrow>
      let c1 = c\<lparr>ib_conn := k\<rparr> in
      if err \<noteq> None \<or> length bs \<noteq> 56 then
        (Raise (Base (NewError ''failed to read hash'') err), (c1, a))
      else case AuthUser (string_of bs) a of
        None \<Rightarrow> (Raise (NewError (''invalid hash:'' @ string_of bs)), (c1, a))
      | Some p \<Rightarrow>
          let c2 = c1\<lparr>ib_hash := string_of bs, ib_user := Some p\<rparr> in
          (case SplitHostPort remoteAddr of
             None \<Rightarrow> (Raise (Base (NewError (''failed to parse host:'' @ remoteAddr))
                        (Some (Opaque ''SplitHostPort''))), (c2, a))
           | Some (ip, _) \<Rightarrow>
               let c3 = c2\<lparr>ib_ip := ip\<rparr>;
                   (admitted, u) = AddIP ip (heap a ! p);
                   a' = on_user p (\<lambda>_. u) a
               in if \<not> admitted then (Raise (NewError ''ip limit reached''), (c3, a'))
                  else Auth_request rd (c3, a')))"

text \<open>Traffic on an authenticated connection. A connection without a user has no meter to call.\<close>

definition InboundConn_Write ::
  "'s writer \<Rightarrow> bytes \<Rightarrow> ('s auth_state, nat \<times> go_error option) proc" where
  "InboundConn_Write wr p st =
     (case st of (c, a) \<Rightarrow>
      case wr p (ib_conn c) of ((n, err), k) \<Rightarrow>
        (let c1 = c\<lparr>ib_conn := k, ib_sent := ib_sent c + of_nat n\<rparr> in
         case ib_user c of
           None \<Rightarrow> (Panic ''nil pointer dereference'', (c1, a))
         | Some u \<Rightarrow> (Ret (n, err), (c1, on_user u (AddTraffic (int n) 0) a))))"

definition InboundConn_Read ::
  "'s reader \<Rightarrow> nat \<Rightarrow> ('s auth_state, bytes \<times> go_error option) proc" where
  "InboundConn_Read rd k st =
     (case st of (c, a) \<Rightarrow>
      case rd k (ib_conn c) of ((bs, err), conn) \<Rightarrow>
        (let c1 = c\<lparr>ib_conn := conn, ib_recv := ib_recv c + of_nat (length bs)\<rparr> in
         case ib_user c of
           None \<Rightarrow> (Panic ''nil pointer dereference'', (c1, a))
         | Some u \<Rightarrow> (Ret (bs, err), (c1, on_user u (AddTraffic 0 (int (length bs))) a))))"

text \<open>\<open>Close\<close> logs with the metadata and takes the address off the user's table.\<close>

definition InboundConn_Close :: "'s inbound_conn \<Rightarrow> mem_auth \<Rightarrow> unit outcome \<times> mem_auth" where
  "InboundConn_Close c a =
     (case (ib_metadata c, ib_user c) of
        (Some _, Some u) \<Rightarrow> (Ret (), on_user u (\<lambda>v. snd (DelIP (ib_ip c) v)) a)
      | _ \<Rightarrow> (Panic ''nil pointer dereference'', a))"

section \<open>The server\<close>

record 's trojan_server =
  ts_auth :: mem_auth
  redirAddr :: address
  connChan :: "'s rewind_reader inbound_conn list"
  muxChan :: "'s rewind_reader inbound_conn list"
  packetChan :: "'s rewind_reader inbound_conn list"
  redirectionChan :: "(address \<times> 's rewind_reader) list"
  ts_done :: bool

datatype handled = Queued | Redirected | Dropped

text \<open>\<open>select { case ch <- x: ... case <-ctx.Done(): ... }\<close> on a channel of the given capacity.
  \<open>Ret None\<close> is the second branch.\<close>

definition select_send ::
  "bool \<Rightarrow> bool \<Rightarrow> nat \<Rightarrow> 'a \<Rightarrow> 'a list \<Rightarrow> 'a list option outcome" where
  "select_send sel done cap x ch =
     (if length ch < cap \<and> (\<not> done \<or> sel) then Ret (Some (ch @ [x]))
      else if done then Ret None else Hang)"

definition Redirect ::
  "bool \<Rightarrow> 's rewind_reader \<Rightarrow> 's trojan_server \<Rightarrow> handled outcome \<times> 's trojan_server" where
  "Redirect sel conn srv =
     (case select_send sel (ts_done srv) 64 (redirAddr srv, conn) (redirectionChan srv) of
        Ret (Some q) \<Rightarrow> (Ret Redirected, srv\<lparr>redirectionChan := q\<rparr>)
      | Ret None \<Rightarrow> (Ret Dropped, srv)
      | _ \<Rightarrow> (Hang, srv))"

definition close_inbound ::
  "'s rewind_reader inbound_conn \<Rightarrow> 's trojan_server \<Rightarrow> handled outcome \<times> 's trojan_server" where
  "close_inbound c srv =
     (case InboundConn_Close c (ts_auth srv) of
        (Panic p, _) \<Rightarrow> (Panic p, srv)
      | (_, a) \<Rightarrow> (Ret Dropped, srv\<lparr>ts_auth := a\<rparr>))"

definition dispatch ::
  "bool \<Rightarrow> 's rewind_reader inbound_conn \<Rightarrow> metadata \<Rightarrow> 's trojan_server \<Rightarrow>
   handled outcome \<times> 's trojan_server" where
  "dispatch sel c m srv =
     (if Command m = Cmd_Connect \<and> DomainName (Address m) \<noteq> ''MUX_CONN'' then
        (case select_send sel (ts_done srv) 32 c (connChan srv) of
           Ret (Some q) \<Rightarrow> (Ret Queued, srv\<lparr>connChan := q\<rparr>)
         | Ret None \<Rightarrow> close_inbound c srv
         | _ \<Rightarrow> (Hang, srv))
      else if Command m = Cmd_Connect \<or> Command m = Cmd_Mux then
        (case select_send sel (ts_done srv) 32 c (muxChan srv) of
           Ret (Some q) \<Rightarrow> (Ret Queued, srv\<lparr>muxChan := q\<rparr>)
         | Ret None \<Rightarrow> close_inbound c srv
         | _ \<Rightarrow> (Hang, srv))
      else if Command m = Cmd_Associate then
        (case select_send sel (ts_done srv) 32 c (packetChan srv) of
           Ret (Some q) \<Rightarrow> (Ret Queued, srv\<lparr>packetChan := q\<rparr>)
         | Ret None \<Rightarrow> close_inbound c srv
         | _ \<Rightarrow> (Hang, srv))
      else close_inbound c srv)"

definition handle_inbound ::
  "'s reader \<Rightarrow> string \<Rightarrow> bool \<Rightarrow> 's \<Rightarrow> 's trojan_server \<Rightarrow> handled outcome \<times> 's trojan_server" where
  "handle_inbound rd remoteAddr sel conn srv =
     (case SetBufferSize 128 (NewRewindConn conn) of
        Ret r1 \<Rightarrow>
          (case Auth (RewindReader_Read rd) remoteAddr (new_inbound r1, ts_auth srv) of
             (Raise e, (c, a)) \<Rightarrow>
               (let srv1 = srv\<lparr>ts_auth := a\<rparr> in
                case Rewind (ib_conn c) of
                  Ret r2 \<Rightarrow>
                    (if Port (redirAddr srv) \<noteq> 0 then Redirect sel (StopBuffering r2) srv1
                     else (Ret Dropped, srv1))
                | _ \<Rightarrow> (Panic ''no buffer'', srv1))
           | (Ret _, (c, a)) \<Rightarrow>
               (let c1 = c\<lparr>ib_conn := StopBuffering (ib_conn c)\<rparr>; srv1 = srv\<lparr>ts_auth := a\<rparr> in
                case ib_metadata c1 of
                  Some m \<Rightarrow> dispatch sel c1 m srv1
                | None \<Rightarrow> (Panic ''nil pointer dereference'', srv1))
           | (Panic p, (c, a)) \<Rightarrow> (Panic p, srv\<lparr>ts_auth := a\<rparr>)
           | (Hang, (c, a)) \<Rightarrow> (Hang, srv\<lparr>ts_auth := a\<rparr>))
      | _ \<Rightarrow> (Panic ''reader is buffering'', srv))"

definition select_recv :: "bool \<Rightarrow> bool \<Rightarrow> 'a list \<Rightarrow> ('a \<times> 'a list) outcome" where
  "select_recv sel done ch =
     (case ch of
        x # q \<Rightarrow> if done \<and> \<not> sel then Raise (NewError ''trojan client closed'') else Ret (x, q)
      | [] \<Rightarrow> if done then Raise (NewError ''trojan client closed'') else Hang)"

definition Server_AcceptConn ::
  "bool \<Rightarrow> bool \<Rightarrow> ('s trojan_server, 's rewind_reader inbound_conn) proc" where
  "Server_AcceptConn sel next_is_mux srv =
     (case select_recv sel (ts_done srv) (if next_is_mux then muxChan srv else connChan srv) of
        Ret (x, q) \<Rightarrow> (Ret x, if next_is_mux then srv\<lparr>muxChan := q\<rparr> else srv\<lparr>connChan := q\<rparr>)
      | Raise e \<Rightarrow> (Raise e, srv)
      | Panic p \<Rightarrow> (Panic p, srv)
      | Hang \<Rightarrow> (Hang, srv))"

definition Server_AcceptPacket ::
  "bool \<Rightarrow> ('s trojan_server, 's rewind_reader inbound_conn) proc" where
  "Server_AcceptPacket sel srv =
     (case select_recv sel (ts_done srv) (packetChan srv) of
        Ret (x, q) \<Rightarrow> (Ret x, srv\<lparr>packetChan := q\<rparr>)
      | Raise e \<Rightarrow> (Raise e, srv)
      | Panic p \<Rightarrow> (Panic p, srv)
      | Hang \<Rightarrow> (Hang, srv))"

text \<open>The failure branch of the accept loop.\<close>

definition accept_again :: "bool \<Rightarrow> go_error \<Rightarrow> bool" where
  "accept_again done e \<longleftrightarrow> \<not> done \<and> \<not> errors_Is e ErrClosed"

text \<open>The layers below the trojan server that \<open>syncAdminAuth\<close> walks through.\<close>

datatype underlay_layer = UL (ul_admin: "nat option") (ul_below: "underlay_layer option")

fun syncAdminAuth :: "underlay_layer \<Rightarrow> nat option" where
  "syncAdminAuth (UL (Some admin) _) = Some admin"
| "syncAdminAuth (UL None (Some below)) = syncAdminAuth below"
| "syncAdminAuth (UL None None) = None"

section \<open>Authentication on any input\<close>

text \<open>What \<open>Auth_request\<close> does to the connection.\<close>

definition request_proc :: "'s reader \<Rightarrow> ('s, metadata) proc" where
  "request_proc rd =
     bindp (io_ReadFull rd 2)
       (\<lambda>_. bindp (Metadata_ReadFrom rd) (\<lambda>r. bindp (io_ReadFull rd 2) (\<lambda>_. retp (snd r))))"

lemma Auth_request_conn:
  "case request_proc rd (ib_conn c) of
     (Ret m, k) \<Rightarrow> Auth_request rd (c, a) = (Ret (), (c\<lparr>ib_conn := k, ib_metadata := Some m\<rparr>, a))
   | (Raise e, k) \<Rightarrow> \<exists>md. Auth_request rd (c, a) = (Raise e, (c\<lparr>ib_conn := k, ib_metadata := md\<rparr>, a))
   | (Panic e, k) \<Rightarrow> \<exists>md. Auth_request rd (c, a) = (Panic e, (c\<lparr>ib_conn := k, ib_metadata := md\<rparr>, a))
   | (Hang, k) \<Rightarrow> \<exists>md. Auth_request rd (c, a) = (Hang, (c\<lparr>ib_conn := k, ib_metadata := md\<rparr>, a))"
proof -
  obtain r1 k1 where 1: "io_ReadFull rd 2 (ib_conn c) = (r1, k1)" by fastforce
  obtain r2 k2 where 2: "Metadata_ReadFrom rd k1 = (r2, k2)" by fastforce
  obtain r3 k3 where 3: "io_ReadFull rd 2 k2 = (r3, k3)" by fastforce
  obtain s v k u h m i where c: "c = \<lparr>ib_sent = s, ib_recv = v, ib_conn = k, ib_user = u, ib_hash = h,
      ib_metadata = m, ib_ip = i\<rparr>" by (cases c)
  note defs = request_proc_def Auth_request_def on_conn_def put_metadata_def
  show ?thesis
  proof (cases r1)
    case r1: (Ret b)
    then show ?thesis
    proof (cases r2)
      case (Ret nm)
      with 1 2 3 c r1 show ?thesis by (cases nm; cases r3) (simp_all add: defs)
    qed (use 1 2 c r1 in \<open>simp_all add: defs\<close>)
  qed (use 1 c in \<open>simp_all add: defs\<close>)
qed

lemma Auth_request_fields:
  assumes "Auth_request rd (c, a) = (r, (c', a'))"
  shows "a' = a" "ib_conn c' = snd (request_proc rd (ib_conn c))"
    "ib_user c' = ib_user c" "ib_hash c' = ib_hash c" "ib_ip c' = ib_ip c"
    "r = Hang \<longleftrightarrow> fst (request_proc rd (ib_conn c)) = Hang"
    "r = Ret () \<Longrightarrow> \<exists>m. ib_metadata c' = Some m \<and> fst (request_proc rd (ib_conn c)) = Ret m"
proof -
  obtain r0 k where "request_proc rd (ib_conn c) = (r0, k)" by fastforce
  then show "a' = a" "ib_conn c' = snd (request_proc rd (ib_conn c))"
    "ib_user c' = ib_user c" "ib_hash c' = ib_hash c" "ib_ip c' = ib_ip c"
    "r = Hang \<longleftrightarrow> fst (request_proc rd (ib_conn c)) = Hang"
    "r = Ret () \<Longrightarrow> \<exists>m. ib_metadata c' = Some m \<and> fst (request_proc rd (ib_conn c)) = Ret m"
    using Auth_request_conn [of rd c a] assms by (cases r0; auto)+
qed

text \<open>What has happened when \<open>Auth\<close> succeeds, in terms of the single first read.\<close>

lemma Auth_RetD:
  assumes "Auth rd ra (c, a) = (Ret (), (c', a'))"
  obtains bs k p ip port m where "rd 56 (ib_conn c) = ((bs, None), k)" "length bs = 56"
    "AuthUser (string_of bs) a = Some p" "SplitHostPort ra = Some (ip, port)"
    "fst (AddIP ip (heap a ! p))" "a' = on_user p (\<lambda>u. snd (AddIP ip u)) a"
    "ib_hash c' = string_of bs" "ib_user c' = Some p" "ib_ip c' = ip" "ib_metadata c' = Some m"
    "request_proc rd k = (Ret m, ib_conn c')"
proof -
  obtain bs err k where r: "rd 56 (ib_conn c) = ((bs, err), k)" by (metis prod.exhaust)
  have 1: "err = None" "length bs = 56"
    using assms r by (auto simp: Auth_def Let_def split: if_splits)
  obtain p where 2: "AuthUser (string_of bs) a = Some p"
    using assms r 1 by (cases "AuthUser (string_of bs) a") (auto simp: Auth_def Let_def)
  obtain ip port where 3: "SplitHostPort ra = Some (ip, port)"
    using assms r 1 2 by (cases "SplitHostPort ra") (auto simp: Auth_def Let_def)
  have 4: "fst (AddIP ip (heap a ! p))"
    and req: "Auth_request rd (c\<lparr>ib_conn := k, ib_hash := string_of bs, ib_user := Some p, ib_ip := ip\<rparr>,
        on_user p (\<lambda>_. snd (AddIP ip (heap a ! p))) a) = (Ret (), (c', a'))"
    using assms r 1 2 3 by (auto simp: Auth_def Let_def split: prod.splits if_splits)
  from Auth_request_fields [OF req] obtain m where
    "ib_metadata c' = Some m" "request_proc rd k = (Ret m, ib_conn c')"
    by (auto simp: prod_eq_iff)
  with r 1 2 3 4 Auth_request_fields [OF req] show thesis
    by (intro that) (simp_all add: on_user_def)
qed

lemma Auth_accepts:
  assumes "rd 56 (ib_conn c) = ((bytes_of h, None), k)" "length h = 56" "AuthUser h a = Some p"
    "SplitHostPort ra = Some (ip, port)" "fst (AddIP ip (heap a ! p))"
    "request_proc rd k = (Ret m, k')"
  shows "Auth rd ra (c, a) = (Ret (), (c\<lparr>ib_conn := k', ib_hash := h, ib_user := Some p, ib_ip := ip,
     ib_metadata := Some m\<rparr>, on_user p (\<lambda>u. snd (AddIP ip u)) a))"
proof -
  let ?c = "c\<lparr>ib_conn := k, ib_hash := h, ib_user := Some p, ib_ip := ip\<rparr>"
  have "Auth rd ra (c, a) = Auth_request rd (?c, on_user p (\<lambda>_. snd (AddIP ip (heap a ! p))) a)"
    using assms(1-5) by (auto simp: Auth_def Let_def split: prod.splits)
  also have "\<dots> = (Ret (), (?c\<lparr>ib_conn := k', ib_metadata := Some m\<rparr>,
      on_user p (\<lambda>_. snd (AddIP ip (heap a ! p))) a))"
    using Auth_request_conn [of rd ?c "on_user p (\<lambda>_. snd (AddIP ip (heap a ! p))) a"] assms(6)
    by simp
  finally show ?thesis by (simp add: on_user_def)
qed

lemma Auth_shape:
  assumes "rd 56 (ib_conn c) = ((bs, err), k)"
  obtains (refused) e c3 a3 where "Auth rd ra (c, a) = (Raise e, (c3, a3))" "ib_conn c3 = k"
  | (request) c3 a3 where "Auth rd ra (c, a) = Auth_request rd (c3, a3)" "ib_conn c3 = k"
proof (cases "err \<noteq> None \<or> length bs \<noteq> 56")
  case True
  with assms show thesis by (intro refused) (auto simp: Auth_def Let_def)
next
  case 1: False
  show thesis
  proof (cases "AuthUser (string_of bs) a")
    case None
    with assms 1 show thesis by (intro refused) (auto simp: Auth_def Let_def)
  next
    case 2: (Some p)
    show thesis
    proof (cases "SplitHostPort ra")
      case None
      with assms 1 2 show thesis by (intro refused) (auto simp: Auth_def Let_def)
    next
      case (Some hp)
      obtain ip port where "hp = (ip, port)" by fastforce
      moreover obtain b u where "AddIP ip (heap a ! p) = (b, u)" by fastforce
      moreover have "ib_conn (c\<lparr>ib_conn := k, ib_hash := string_of bs, ib_user := Some p, ib_ip := ip\<rparr>) = k"
        by simp
      ultimately show thesis using assms 1 2 Some request refused
        by (cases b) (simp_all add: Auth_def Let_def)
    qed
  qed
qed

context byte_reader
begin

lemma polite_request: "polite 262 (request_proc rd)"
proof -
  have "polite (2 + (258 + (2 + 0))) (request_proc rd)"
    unfolding request_proc_def
    by (intro polite_bind polite_read_full polite_Metadata_ReadFrom polite_retp)
  then show ?thesis by simp
qed

lemma Auth_polite:
  assumes "ok n (ib_conn c)" "318 \<le> n"
  shows "fst (Auth rd ra (c, a)) \<noteq> Hang \<and>
    (\<exists>bs. advances (n - 318) (ib_conn c) bs (ib_conn (fst (snd (Auth rd ra (c, a))))))"
proof -
  obtain bs err k where r: "rd 56 (ib_conn c) = ((bs, err), k)" by (metis prod.exhaust)
  have "\<exists>bs'. advances (n - 56) (ib_conn c) bs' k"
  proof (cases "content (ib_conn c) = []")
    case True
    then show ?thesis using rd_end [OF assms(1), of 56] assms(2) r
      by (auto simp: advances_def intro!: exI [of _ "[]"] intro: ok_mono)
  next
    case False
    then obtain cs s' where "rd 56 (ib_conn c) = ((cs, None), s')" "length cs \<le> 56"
        "advances (n - length cs) (ib_conn c) cs s'"
      using rd_some [OF assms(1), of 56] assms(2) by (auto simp: advances_def)
    then have "advances (n - 56) (ib_conn c) cs s'" "k = s'"
      using r advances_le [of "n - length cs" _ cs s' "n - 56"] by (simp_all add: diff_le_mono2)
    then show ?thesis by blast
  qed
  then obtain b1 where b1: "advances (n - 56) (ib_conn c) b1 k" ..
  then have ok1: "ok (n - 56) k" "262 \<le> n - 56" using assms(2) by (auto simp: advances_def)
  have low: "advances (n - 318) (ib_conn c) b1 k"
    by (rule advances_le [OF b1]) simp
  note req = politeD [OF polite_request ok1]
  then obtain b2 where "advances (n - 56 - 262) k b2 (snd (request_proc rd k))" by blast
  then have all: "advances (n - 318) (ib_conn c) (b1 @ b2) (snd (request_proc rd k))"
    using advances_trans [OF b1] by (simp add: diff_diff_left)
  from r show ?thesis
  proof (cases rule: Auth_shape [where rd = rd and c = c and ra = ra and a = a])
    case (request c3 a3)
    obtain r' c' a' where "Auth_request rd (c3, a3) = (r', (c', a'))" by (metis prod.exhaust)
    with Auth_request_fields [OF this] request req(1) all show ?thesis by auto
  next
    case (refused e c3 a3)
    with low show ?thesis by auto
  qed
qed

lemma request_encode:
  assumes "ok n s" "wire_address a" "content s = crlf @ cmd # encode_address a @ crlf @ rest" "262 \<le> n"
  shows "\<exists>s'. request_proc rd s = (Ret \<lparr>Command = cmd, Address = a\<lparr>NetworkType := []\<rparr>\<rparr>, s') \<and>
    content s' = rest"
proof -
  have n2: "2 \<le> n" using assms(4) by simp
  obtain s1 where s1: "io_ReadFull rd 2 s = (Ret crlf, s1)" "advances (n - 2) s crlf s1"
      "content s1 = cmd # encode_address a @ crlf @ rest"
    using read_full_append [OF assms(1,3) length_crlf n2] by blast
  have ok1: "ok (n - 2) s1" "258 \<le> n - 2" using s1(2) assms(4) by (auto simp: advances_def)
  obtain s2 m where s2: "Metadata_ReadFrom rd s1 =
        (Ret (int m, \<lparr>Command = cmd, Address = a\<lparr>NetworkType := []\<rparr>\<rparr>), s2)"
      "m = Suc (length (encode_address a))"
      "advances (n - 2 - m) s1 (cmd # encode_address a) s2" "content s2 = crlf @ rest"
    using Metadata_ReadFrom_encode [OF ok1(1) assms(2) s1(3) ok1(2)] by blast
  have "ok (n - 2 - m) s2" using s2(3) by (simp add: advances_def)
  moreover have "2 \<le> n - 2 - m"
    using length_encode_address [OF assms(2)] s2(2) assms(4) by linarith
  ultimately obtain s3 where "io_ReadFull rd 2 s2 = (Ret crlf, s3)" "content s3 = rest"
    using read_full_append [OF _ s2(4) length_crlf] by blast
  with s1(1) s2(1) show ?thesis by (simp add: request_proc_def)
qed

end

section \<open>The handler over the network\<close>

definition fresh_rewind :: "net_in \<Rightarrow> net_in rewind_reader" where
  "fresh_rewind conn =
     \<lparr>rawReader = conn, buf = [], bufReadIdx = 0, rewound = False, buffering = True,
      bufferSize = 128\<rparr>"

lemma SetBufferSize_fresh: "SetBufferSize 128 (NewRewindConn conn) = Ret (fresh_rewind conn)"
  by (simp add: SetBufferSize_def NewRewindConn_def fresh_rewind_def)

lemma fresh_rewind_simps:
  "rewind_content seg_content (fresh_rewind conn) = seg_content conn"
  "rewind_origin seg_content (fresh_rewind conn) = seg_content conn"
  "seg_ok 0 conn \<Longrightarrow> n \<le> 1048576 \<Longrightarrow> rewind_ok seg_ok n (fresh_rewind conn)"
  by (simp_all add: fresh_rewind_def rewind_content_def rewind_origin_def rewind_ok_def seg_ok_def
      max_rewind_buffer_def)

abbreviation net_rd :: "net_in rewind_reader reader" where
  "net_rd \<equiv> RewindReader_Read seg_read"

text \<open>Fields of the rewinding reader that reading never touches.\<close>

lemma Read_keeps:
  "buffering (snd (RewindReader_Read rd k r)) = buffering r \<and>
   bufferSize (snd (RewindReader_Read rd k r)) = bufferSize r"
  by (simp add: RewindReader_Read_def Let_def split: prod.splits)

lemma read_more_keeps:
  "buffering (snd (read_more fuel (RewindReader_Read rd) need acc r)) = buffering r \<and>
   bufferSize (snd (read_more fuel (RewindReader_Read rd) need acc r)) = bufferSize r"
proof (induction fuel arbitrary: need acc r)
  case 0
  then show ?case by simp
next
  case (Suc fuel)
  obtain bs err r' where "RewindReader_Read rd need r = ((bs, err), r')" by (metis prod.exhaust)
  with Suc.IH [of "need - length bs" "acc @ bs" r'] Read_keeps [of rd need r] show ?case
    by (auto split: option.splits)
qed

definition keeps :: "('s rewind_reader, 'a) proc \<Rightarrow> bool" where
  "keeps m \<longleftrightarrow> (\<forall>r. buffering (snd (m r)) = buffering r \<and> bufferSize (snd (m r)) = bufferSize r)"

lemma keeps_bind:
  assumes "keeps m" "\<And>x. keeps (f x)"
  shows "keeps (bindp m f)"
  unfolding keeps_def
proof
  fix r
  obtain q r' where q: "m r = (q, r')" by fastforce
  have "buffering r' = buffering r \<and> bufferSize r' = bufferSize r"
    using assms(1) q unfolding keeps_def by (metis snd_conv)
  with q assms(2) show "buffering (snd (bindp m f r)) = buffering r \<and>
      bufferSize (snd (bindp m f r)) = bufferSize r"
    by (cases q) (simp_all add: keeps_def)
qed

lemma keeps_wrap: "keeps m \<Longrightarrow> keeps (wrap_error f m)"
  by (simp add: keeps_def wrap_error_def case_prod_beta)

lemma keeps_stay: "(\<And>r. snd (m r) = r) \<Longrightarrow> keeps m"
  by (simp add: keeps_def)

lemma keeps_read_full: "keeps (io_ReadFull (RewindReader_Read rd) k)"
  unfolding keeps_def io_ReadFull_def using read_more_keeps by blast

lemma keeps_if: "keeps m \<Longrightarrow> keeps m' \<Longrightarrow> keeps (if b then m else m')"
  by simp

lemmas keeps_intros = keeps_if keeps_bind keeps_wrap keeps_read_full

lemma keeps_Address: "keeps (Address_ReadFrom (RewindReader_Read rd) a)"
  unfolding Address_ReadFrom_def Let_def
  by (intro keeps_intros; rule keeps_stay) (simp_all split: outcome.splits)

lemma keeps_request: "keeps (request_proc (RewindReader_Read rd))"
  unfolding request_proc_def Metadata_ReadFrom_def
  by (intro keeps_intros keeps_Address; rule keeps_stay) (simp_all split: prod.splits)

lemma Auth_keeps:
  assumes "Auth (RewindReader_Read rd) ra (c, a) = (q, (c', b))"
  shows "buffering (ib_conn c') = buffering (ib_conn c) \<and> bufferSize (ib_conn c') = bufferSize (ib_conn c)"
proof -
  obtain bs err k where r: "RewindReader_Read rd 56 (ib_conn c) = ((bs, err), k)"
    by (metis prod.exhaust)
  then have k: "buffering k = buffering (ib_conn c) \<and> bufferSize k = bufferSize (ib_conn c)"
    using Read_keeps [of rd 56 "ib_conn c"] by simp
  from r show ?thesis
  proof (cases rule: Auth_shape [where rd = "RewindReader_Read rd" and c = c and ra = ra and a = a])
    case (request c3 a3)
    obtain r' d a' where "Auth_request (RewindReader_Read rd) (c3, a3) = (r', (d, a'))"
      by (metis prod.exhaust)
    with Auth_request_fields [OF this] request k keeps_request [of rd] assms show ?thesis
      by (simp add: keeps_def)
  next
    case (refused e c3 a3)
    with k assms show ?thesis by simp
  qed
qed

text \<open>What is known after \<open>Auth\<close> has run on a fresh connection, however it ended.\<close>

lemma Auth_fresh:
  assumes "seg_ok 0 conn" "Auth net_rd ra (new_inbound (fresh_rewind conn), a) = (q, (c, b))"
  shows "q \<noteq> Hang" "buffering (ib_conn c)" "bufferSize (ib_conn c) = 128"
    "buf (ib_conn c) @ seg_content (rawReader (ib_conn c)) = seg_content conn"
    "seg_ok 0 (rawReader (ib_conn c))" "length (buf (ib_conn c)) \<le> 1048576"
proof -
  let ?c = "new_inbound (fresh_rewind conn)"
  have "rewind_ok seg_ok 318 (ib_conn ?c)"
    using fresh_rewind_simps(3) [OF assms(1)] by (simp add: new_inbound_def)
  from net_rw.rw.Auth_polite [OF this, of ra a] assms(2) obtain bs where
    q: "q \<noteq> Hang" and adv: "net_rw.rw.advances 0 (ib_conn ?c) bs (ib_conn c)"
    by auto
  show "q \<noteq> Hang" by (rule q)
  have k: "buffering (ib_conn c)" "bufferSize (ib_conn c) = 128"
    using Auth_keeps [OF assms(2)] by (simp_all add: new_inbound_def fresh_rewind_def)
  then show "buffering (ib_conn c)" "bufferSize (ib_conn c) = 128" by simp_all
  from adv have "rewind_origin seg_content (ib_conn c) = seg_content conn"
    and ok: "rewind_ok seg_ok 0 (ib_conn c)"
    by (simp_all add: net_rw.rw.advances_def new_inbound_def fresh_rewind_simps)
  then show "buf (ib_conn c) @ seg_content (rawReader (ib_conn c)) = seg_content conn"
    using k by (simp add: rewind_origin_def)
  show "seg_ok 0 (rawReader (ib_conn c))" "length (buf (ib_conn c)) \<le> 1048576"
    using ok k by (simp_all add: rewind_ok_def max_rewind_buffer_def)
qed

lemma replay_content:
  assumes "Rewind r = Ret r2"
  shows "rewind_content content (StopBuffering r2) = buf r @ content (rawReader r)"
    "\<not> buffering (StopBuffering r2)" "rawReader (StopBuffering r2) = rawReader r"
  using assms by (auto simp: Rewind_def StopBuffering_def rewind_content_def split: if_splits)

text \<open>Reading a connection that does not buffer delivers its content.\<close>

lemma plain_read_full:
  assumes "\<not> buffering r" "seg_ok 0 (rawReader r)" "k \<le> length (rewind_content seg_content r)"
  shows "fst (io_ReadFull net_rd k r) = Ret (take k (rewind_content seg_content r))"
proof -
  have "rewind_ok seg_ok k r" using assms(1,2) by (simp add: rewind_ok_def seg_ok_def)
  from net_rw.rw.read_full_some [OF this order_refl assms(3)] show ?thesis by auto
qed

lemma handle_cases:
  assumes "seg_ok 0 conn"
  obtains (accepted) c a m where
      "Auth net_rd ra (new_inbound (fresh_rewind conn), ts_auth srv) = (Ret (), (c, a))"
      "ib_metadata c = Some m"
      "handle_inbound seg_read ra sel conn srv =
         dispatch sel (c\<lparr>ib_conn := StopBuffering (ib_conn c)\<rparr>) m (srv\<lparr>ts_auth := a\<rparr>)"
  | (failed) e c a r2 where
      "Auth net_rd ra (new_inbound (fresh_rewind conn), ts_auth srv) = (Raise e, (c, a))"
      "Rewind (ib_conn c) = Ret r2"
      "handle_inbound seg_read ra sel conn srv =
         (if Port (redirAddr srv) \<noteq> 0 then Redirect sel (StopBuffering r2) (srv\<lparr>ts_auth := a\<rparr>)
          else (Ret Dropped, srv\<lparr>ts_auth := a\<rparr>))"
  | (crashed) p c a where
      "Auth net_rd ra (new_inbound (fresh_rewind conn), ts_auth srv) = (Panic p, (c, a))"
      "handle_inbound seg_read ra sel conn srv = (Panic p, srv\<lparr>ts_auth := a\<rparr>)"
proof -
  obtain q c a where A: "Auth net_rd ra (new_inbound (fresh_rewind conn), ts_auth srv) = (q, (c, a))"
    by (metis prod.exhaust)
  note F = Auth_fresh [OF assms A]
  note H = handle_inbound_def SetBufferSize_fresh A Let_def
  show thesis
  proof (cases q)
    case (Ret u)
    then have "Auth net_rd ra (new_inbound (fresh_rewind conn), ts_auth srv) = (Ret (), (c, a))"
      using A by simp
    moreover from Auth_RetD [OF this] obtain m where "ib_metadata c = Some m" by metis
    ultimately show thesis using Ret by (intro accepted) (simp_all add: H)
  next
    case (Raise e)
    obtain r2 where "Rewind (ib_conn c) = Ret r2" using F(3) by (simp add: Rewind_def)
    with Raise A show thesis by (intro failed) (simp_all add: H)
  next
    case (Panic p)
    with A show thesis by (intro crashed) (simp_all add: H)
  next
    case Hang
    with F(1) show thesis by simp
  qed
qed

section \<open>Properties\<close>

text \<open>C2. The fallback is transparent. Whatever bytes a peer sends and however they are cut into
  segments: when the connection is handed to the fallback site, nothing was put into an accept
  queue, and a reader of the handed-over connection gets the peer's stream from its very first
  byte, complete and unchanged.\<close>

theorem fallback_replays_stream:
  assumes "seg_ok 0 conn" "handle_inbound seg_read ra sel conn srv = (Ret Redirected, srv')"
  shows "\<exists>r. redirectionChan srv' = redirectionChan srv @ [(redirAddr srv, r)] \<and>
      connChan srv' = connChan srv \<and> muxChan srv' = muxChan srv \<and> packetChan srv' = packetChan srv \<and>
      rewind_content seg_content r = seg_content conn \<and>
      (\<forall>k. k \<le> length (seg_content conn) \<longrightarrow>
         fst (io_ReadFull net_rd k r) = Ret (take k (seg_content conn)))"
  using assms(1)
proof (cases rule: handle_cases [where ra = ra and sel = sel and srv = srv])
  case (accepted c a m)
  with assms(2) show ?thesis
    by (auto simp: dispatch_def close_inbound_def select_send_def split: if_splits prod.splits outcome.splits)
next
  case (failed e c a r2)
  let ?r = "StopBuffering r2"
  note F = Auth_fresh [OF assms(1) failed(1)] and R = replay_content [OF failed(2)]
  have cont: "rewind_content seg_content ?r = seg_content conn" using R(1) F(4) by simp
  have full: "fst (io_ReadFull net_rd k ?r) = Ret (take k (seg_content conn))"
    if "k \<le> length (seg_content conn)" for k
    using plain_read_full [OF R(2), of k, unfolded cont R(3)] F(5) that by blast
  have "srv' = srv\<lparr>ts_auth := a, redirectionChan := redirectionChan srv @ [(redirAddr srv, ?r)]\<rparr>"
    using assms(2) failed(3)
    by (auto simp: Redirect_def select_send_def split: if_splits)
  with cont full show ?thesis by (intro exI [of _ ?r]) simp
next
  case (crashed p c a)
  with assms(2) show ?thesis by simp
qed

text \<open>The connection \<open>c\<close> was appended to the queue its command asks for.\<close>

definition queued_by :: "'s trojan_server \<Rightarrow> 's rewind_reader inbound_conn \<Rightarrow> 's trojan_server \<Rightarrow> bool" where
  "queued_by srv c srv' \<longleftrightarrow> (case ib_metadata c of None \<Rightarrow> False | Some m \<Rightarrow>
     (connChan srv' = connChan srv @ [c] \<and> Command m = Cmd_Connect \<and>
        DomainName (Address m) \<noteq> ''MUX_CONN'' \<and>
        muxChan srv' = muxChan srv \<and> packetChan srv' = packetChan srv) \<or>
     (muxChan srv' = muxChan srv @ [c] \<and>
        (Command m = Cmd_Mux \<or> Command m = Cmd_Connect \<and> DomainName (Address m) = ''MUX_CONN'') \<and>
        connChan srv' = connChan srv \<and> packetChan srv' = packetChan srv) \<or>
     (packetChan srv' = packetChan srv @ [c] \<and> Command m = Cmd_Associate \<and>
        connChan srv' = connChan srv \<and> muxChan srv' = muxChan srv))"

lemma queued_by_auth: "queued_by (srv\<lparr>ts_auth := a\<rparr>) c srv' = queued_by srv c srv'"
  by (simp add: queued_by_def split: option.splits)

lemma dispatch_queued:
  assumes "dispatch sel c m srv = (Ret Queued, srv')" "ib_metadata c = Some m"
  shows "queued_by srv c srv'" "ts_auth srv' = ts_auth srv"
    "redirectionChan srv' = redirectionChan srv"
  using assms
  by (auto simp: queued_by_def dispatch_def close_inbound_def select_send_def cmd_defs
      split: if_splits prod.splits outcome.splits)

lemma first_read:
  assumes "seg_ok 0 conn" "net_rd 56 (fresh_rewind conn) = ((bs, err), k)"
  shows "\<exists>rest. seg_content conn = bs @ rest"
proof -
  have ok: "rewind_ok seg_ok 56 (fresh_rewind conn)"
    by (rule fresh_rewind_simps(3) [OF assms(1)]) simp
  show ?thesis
  proof (cases "seg_content conn = []")
    case True
    then show ?thesis
      using net_rw.rw.rd_end [OF ok, of 56] assms(2) by (auto simp: fresh_rewind_simps)
  next
    case False
    then show ?thesis
      using net_rw.rw.rd_some [OF ok, of 56] assms(2) by (auto simp: fresh_rewind_simps)
  qed
qed

text \<open>C3. Nobody reaches an accept queue without authenticating. When a connection is queued, its
  stream begins with the 56 bytes of a hash the authenticator knows, the connection carries that
  hash and that user, the peer's address is admitted for the user, and the queue matches the
  command: CONNECT (but for the reserved name) to the proxy, UDP to the packet queue, everything
  else to the multiplexer.\<close>

theorem queued_implies_authenticated:
  assumes "seg_ok 0 conn" "handle_inbound seg_read ra sel conn srv = (Ret Queued, srv')"
  shows "\<exists>c p port. queued_by srv c srv' \<and> redirectionChan srv' = redirectionChan srv \<and>
      AuthUser (ib_hash c) (ts_auth srv) = Some p \<and> ib_user c = Some p \<and>
      take 56 (seg_content conn) = bytes_of (ib_hash c) \<and> length (ib_hash c) = 56 \<and>
      SplitHostPort ra = Some (ib_ip c, port) \<and>
      fst (AddIP (ib_ip c) (heap (ts_auth srv) ! p)) \<and>
      ts_auth srv' = on_user p (\<lambda>u. snd (AddIP (ib_ip c) u)) (ts_auth srv)"
  using assms(1)
proof (cases rule: handle_cases [where ra = ra and sel = sel and srv = srv])
  case (accepted c a m)
  let ?c = "c\<lparr>ib_conn := StopBuffering (ib_conn c)\<rparr>"
  have d: "dispatch sel ?c m (srv\<lparr>ts_auth := a\<rparr>) = (Ret Queued, srv')"
    using assms(2) accepted(3) by simp
  have q: "queued_by srv ?c srv'" "ts_auth srv' = a" "redirectionChan srv' = redirectionChan srv"
    using dispatch_queued [OF d] accepted(2) by (simp_all add: queued_by_auth)
  obtain bs k p ip port where A: "net_rd 56 (fresh_rewind conn) = ((bs, None), k)" "length bs = 56"
    "AuthUser (string_of bs) (ts_auth srv) = Some p" "SplitHostPort ra = Some (ip, port)"
    "fst (AddIP ip (heap (ts_auth srv) ! p))" "a = on_user p (\<lambda>u. snd (AddIP ip u)) (ts_auth srv)"
    "ib_hash c = string_of bs" "ib_user c = Some p" "ib_ip c = ip"
    using Auth_RetD [OF accepted(1)] by (metis inbound_conn.select_convs(3) new_inbound_def)
  have "take 56 (seg_content conn) = bs"
    using first_read [OF assms(1) A(1)] A(2) by auto
  then show ?thesis
    using q A by (intro exI [of _ ?c] exI [of _ p] exI [of _ port]) simp
next
  case (failed e c a r2)
  with assms(2) show ?thesis
    by (auto simp: Redirect_def select_send_def split: if_splits)
next
  case (crashed p c a)
  with assms(2) show ?thesis by simp
qed

lemma first_segment:
  assumes "segs conn = g # gs"
  shows "net_rd 56 (fresh_rewind conn) = ((take 56 g, None), (fresh_rewind conn)
    \<lparr>rawReader := conn\<lparr>segs := (if length g \<le> 56 then gs else drop 56 g # gs)\<rparr>, buf := take 56 g\<rparr>)"
  using assms
  by (simp add: RewindReader_Read_def fresh_rewind_def seg_read_def Let_def max_rewind_buffer_def)

text \<open>The hash is read with a single \<open>Read\<close>, not with \<open>io.ReadFull\<close>. When the first segment
  that arrives is shorter than 56 bytes, the connection is never queued, also when the stream is
  a well-formed request of a known user.\<close>

theorem short_first_segment_refused:
  assumes "seg_ok 0 conn" "segs conn = g # gs" "length g < 56"
  shows "\<forall>srv'. handle_inbound seg_read ra sel conn srv \<noteq> (Ret Queued, srv')"
proof -
  have "net_rd 56 (fresh_rewind conn) = ((g, None), snd (net_rd 56 (fresh_rewind conn)))"
    using first_segment [OF assms(2)] assms(3) by simp
  then have "\<nexists>st. Auth net_rd ra (new_inbound (fresh_rewind conn), ts_auth srv) = (Ret (), st)"
    using assms(3) by (auto elim!: Auth_RetD simp: new_inbound_def)
  then show ?thesis
    by (cases rule: handle_cases [OF assms(1), where ra = ra and sel = sel and srv = srv])
      (auto simp: Redirect_def select_send_def split: if_splits)
qed

text \<open>The state after the first read of 56 bytes.\<close>

lemma after_hash:
  assumes "seg_ok 0 conn" "segs conn = g # gs" "seg_content conn = bytes_of h @ rest"
    "length h = 56" "56 \<le> length g"
  obtains k where "net_rd 56 (fresh_rewind conn) = ((bytes_of h, None), k)"
    "rewind_content seg_content k = rest" "rewind_ok seg_ok 262 k" "rewind_fin fin_err k = fin_err conn"
proof -
  have "take 56 g = take 56 (seg_content conn)"
    using assms(2,5) by (simp add: seg_content_def)
  then have g: "take 56 g = bytes_of h" using assms(3,4) by simp
  have "rewind_ok seg_ok 318 (fresh_rewind conn)"
    by (rule fresh_rewind_simps(3) [OF assms(1)]) simp
  moreover have "seg_content conn \<noteq> []" using assms(3,4) by (cases h) (auto simp: bytes_of_def)
  ultimately obtain bs k where
    k: "net_rd 56 (fresh_rewind conn) = ((bs, None), k)" "length bs \<le> 56"
       "seg_content conn = bs @ rewind_content seg_content k" "rewind_ok seg_ok (318 - length bs) k"
       "rewind_fin fin_err k = rewind_fin fin_err (fresh_rewind conn)"
    using net_rw.rw.rd_some [of 318 "fresh_rewind conn" 56] by (auto simp: fresh_rewind_simps)
  have bs: "bs = bytes_of h" using k(1) first_segment [OF assms(2)] g by simp
  then have "rewind_content seg_content k = rest" "rewind_ok seg_ok 262 k"
    using k assms(3,4) by simp_all
  with k bs show thesis by (intro that [of k]) (simp_all add: rewind_fin_def fresh_rewind_def)
qed

definition has_room :: "'s trojan_server \<Rightarrow> bool" where
  "has_room srv \<longleftrightarrow> \<not> ts_done srv \<and> length (connChan srv) < 32 \<and> length (muxChan srv) < 32 \<and>
     length (packetChan srv) < 32"

lemma dispatch_room:
  assumes "has_room srv" "ib_metadata c = Some m"
    "Command m = Cmd_Connect \<or> Command m = Cmd_Associate \<or> Command m = Cmd_Mux"
  shows "\<exists>srv'. dispatch sel c m srv = (Ret Queued, srv') \<and> queued_by srv c srv'"
proof -
  obtain srv' where "dispatch sel c m srv = (Ret Queued, srv')"
    using assms(1,3) unfolding has_room_def dispatch_def select_send_def cmd_defs
    by (cases "DomainName (Address m) = ''MUX_CONN''") auto
  with dispatch_queued [OF this assms(2)] show ?thesis by blast
qed

text \<open>A well-formed request of a known user is queued.\<close>

lemma handle_request:
  assumes "seg_ok 0 conn" "segs conn = g # gs" "56 \<le> length g"
    "seg_content conn = bytes_of h @ crlf @ Command m # encode_address (Address m) @ crlf @ pay"
    "wire_address (Address m)" "length h = 56" "AuthUser h (ts_auth srv) = Some p"
    "SplitHostPort ra = Some (ip, port)" "fst (AddIP ip (heap (ts_auth srv) ! p))" "has_room srv"
    "Command m = Cmd_Connect \<or> Command m = Cmd_Associate \<or> Command m = Cmd_Mux"
  shows "\<exists>c srv'. handle_inbound seg_read ra sel conn srv = (Ret Queued, srv') \<and>
    queued_by srv c srv' \<and> ib_hash c = h \<and> ib_user c = Some p \<and> ib_ip c = ip \<and>
    ib_metadata c = Some (m\<lparr>Address := (Address m)\<lparr>NetworkType := []\<rparr>\<rparr>) \<and>
    rewind_content seg_content (ib_conn c) = pay"
proof -
  let ?m = "m\<lparr>Address := (Address m)\<lparr>NetworkType := []\<rparr>\<rparr>"
  obtain k where k: "net_rd 56 (fresh_rewind conn) = ((bytes_of h, None), k)"
      "rewind_content seg_content k = crlf @ Command m # encode_address (Address m) @ crlf @ pay"
      "rewind_ok seg_ok 262 k"
    by (rule after_hash [OF assms(1,2,4,6,3)])
  obtain k' where k': "request_proc net_rd k = (Ret ?m, k')" "rewind_content seg_content k' = pay"
    using net_rw.rw.request_encode [OF k(3) assms(5) k(2)] by (cases m) auto
  define c where "c = (new_inbound (fresh_rewind conn))\<lparr>ib_conn := k', ib_hash := h,
    ib_user := Some p, ib_ip := ip, ib_metadata := Some ?m\<rparr>"
  let ?a = "on_user p (\<lambda>u. snd (AddIP ip u)) (ts_auth srv)"
  let ?c = "c\<lparr>ib_conn := StopBuffering k'\<rparr>"
  have A: "Auth net_rd ra (new_inbound (fresh_rewind conn), ts_auth srv) = (Ret (), (c, ?a))"
    using Auth_accepts [OF _ assms(6-9) k'(1), of "new_inbound (fresh_rewind conn)"] k(1)
    by (simp add: new_inbound_def c_def)
  have cm: "ib_metadata ?c = Some ?m" "ib_conn c = k'" by (simp_all add: c_def)
  have room: "has_room (srv\<lparr>ts_auth := ?a\<rparr>)" using assms(10) by (simp add: has_room_def)
  have "Command ?m = Cmd_Connect \<or> Command ?m = Cmd_Associate \<or> Command ?m = Cmd_Mux"
    using assms(11) by simp
  from dispatch_room [OF room cm(1) this, of sel] obtain srv' where
    d: "dispatch sel ?c ?m (srv\<lparr>ts_auth := ?a\<rparr>) = (Ret Queued, srv')" "queued_by srv ?c srv'"
    unfolding queued_by_auth by blast
  have "handle_inbound seg_read ra sel conn srv = (Ret Queued, srv')"
    using A d(1) cm by (simp add: handle_inbound_def SetBufferSize_fresh Let_def)
  moreover have "rewind_content seg_content (ib_conn ?c) = pay"
    using k'(2) by (simp add: rewind_content_def StopBuffering_def split: if_splits)
  moreover have "ib_hash ?c = h" "ib_user ?c = Some p" "ib_ip ?c = ip" by (simp_all add: c_def)
  ultimately show ?thesis using cm(1) d(2) by blast
qed

lemma client_stream_bytes:
  assumes "list_ex fires es" "wire_address (Address m)"
  shows "oc_conn (fold (client_step buffer_write) es (new_outbound u m [])) =
    bytes_of (hash u) @ crlf @ Command m # encode_address (Address m) @ crlf @ concat (map ev_payload es)"
  using client_steps_buffer [of "new_outbound u m []" es] assms
  by (simp add: new_outbound_def sent_ok_def header_bytes_wire)

text \<open>C4. A well-behaved client gets through. For every interleaving of a client's writes with its
  flush timer, every cut of the resulting stream whose first segment holds the hash, every user
  the server knows and whose address limit has room: the server queues the connection by its
  command, with the client's hash, command and target address, and the proxied stream that
  remains to be read is exactly what the application wrote.\<close>

theorem client_reaches_server:
  assumes "c0 = fold (client_step buffer_write) es (new_outbound u m [])" "list_ex fires es"
    "wire_address (Address m)" "length (hash u) = 56"
    "seg_ok 0 conn" "seg_content conn = oc_conn c0" "segs conn = g # gs" "56 \<le> length g"
    "AuthUser (hash u) (ts_auth srv) = Some p" "SplitHostPort ra = Some (ip, port)"
    "fst (AddIP ip (heap (ts_auth srv) ! p))" "has_room srv"
    "Command m = Cmd_Connect \<or> Command m = Cmd_Associate \<or> Command m = Cmd_Mux"
  shows "\<exists>c srv'. handle_inbound seg_read ra sel conn srv = (Ret Queued, srv') \<and>
    queued_by srv c srv' \<and> ib_hash c = hash u \<and> ib_user c = Some p \<and> ib_ip c = ip \<and>
    ib_metadata c = Some (m\<lparr>Address := (Address m)\<lparr>NetworkType := []\<rparr>\<rparr>) \<and>
    rewind_content seg_content (ib_conn c) = concat (map ev_payload es)"
proof -
  have "seg_content conn = bytes_of (hash u) @ crlf @
      Command m # encode_address (Address m) @ crlf @ concat (map ev_payload es)"
    using client_stream_bytes [OF assms(2,3)] assms(1,6) by simp
  from handle_request [OF assms(5,7,8) this assms(3,4,9-13)] show ?thesis .
qed

text \<open>A connection that is refused after its hash was accepted keeps a slot of the user's
  address table: when the stream ends right after the hash, the handler gives the connection to
  the fallback or drops it, and the peer's address stays in the table although no connection is
  open.\<close>

theorem refused_request_keeps_ip_slot:
  assumes "segs conn = [bytes_of h]" "length h = 56" "AuthUser h (ts_auth srv) = Some p"
    "SplitHostPort ra = Some (ip, port)" "p < length (heap (ts_auth srv))"
    "0 < maxIPNum (heap (ts_auth srv) ! p)" "fst (AddIP ip (heap (ts_auth srv) ! p))"
  shows "fst (handle_inbound seg_read ra sel conn srv) \<noteq> Ret Queued \<and>
    ip \<in> set (ipTable (heap (ts_auth (snd (handle_inbound seg_read ra sel conn srv))) ! p))"
proof -
  let ?a = "ts_auth srv"
  have "bytes_of h \<noteq> []" using assms(2) by (cases h) (auto simp: bytes_of_def)
  then have ok: "seg_ok 0 conn" and cont: "seg_content conn = bytes_of h @ []"
    using assms(1) by (simp_all add: seg_ok_def seg_content_def)
  obtain k where k: "net_rd 56 (fresh_rewind conn) = ((bytes_of h, None), k)"
      "rewind_content seg_content k = []" "rewind_ok seg_ok 262 k"
    by (rule after_hash [OF ok assms(1) cont assms(2)]) (simp_all add: assms(2))
  obtain e k' where "io_ReadFull net_rd 2 k = (Raise e, k')"
    using net_rw.rw.read_full_short [OF k(3), of 2] k(2) by auto
  then have req: "request_proc net_rd k = (Raise e, k')" by (simp add: request_proc_def)
  let ?c = "(new_inbound (fresh_rewind conn))\<lparr>ib_conn := k, ib_hash := h, ib_user := Some p, ib_ip := ip\<rparr>"
  let ?b = "on_user p (\<lambda>_. snd (AddIP ip (heap ?a ! p))) ?a"
  have "Auth net_rd ra (new_inbound (fresh_rewind conn), ?a) = Auth_request net_rd (?c, ?b)"
    using k(1) assms by (auto simp: Auth_def new_inbound_def Let_def split: prod.splits)
  moreover obtain md where "Auth_request net_rd (?c, ?b) =
      (Raise e, (?c\<lparr>ib_conn := k', ib_metadata := md\<rparr>, ?b))"
    using Auth_request_conn [of net_rd ?c ?b] req by auto
  ultimately have A: "Auth net_rd ra (new_inbound (fresh_rewind conn), ?a) =
      (Raise e, (?c\<lparr>ib_conn := k', ib_metadata := md\<rparr>, ?b))" by simp
  have in_table: "ip \<in> set (ipTable (heap ?b ! p))"
    using assms(5-7) by (auto simp: on_user_def AddIP_def split: if_splits)
  from ok show ?thesis
  proof (cases rule: handle_cases [where ra = ra and sel = sel and srv = srv])
    case (failed e' c' a' r2)
    then have "a' = ?b" using A by simp
    with failed(3) in_table show ?thesis
      by (auto simp: Redirect_def select_send_def)
  qed (use A in simp_all)
qed

text \<open>The address limit counts addresses, not connections. When two connections of a user come
  from the same address, closing one of them takes the address off the table, so that at the
  limit a further address is admitted while the other connection is still open.\<close>

theorem closing_one_of_two_frees_slot:
  assumes "ib_user c1 = Some p" "ib_metadata c1 = Some m" "p < length (heap a)"
    "int (length (ipTable (heap a ! p))) = maxIPNum (heap a ! p)"
    "ib_ip c1 \<in> set (ipTable (heap a ! p))" "ip' \<notin> set (ipTable (heap a ! p))"
    "ib_user c2 = Some p" "ib_ip c2 = ib_ip c1"
  shows "\<not> fst (AddIP ip' (heap a ! p)) \<and>
    (let a' = snd (InboundConn_Close c1 a) in
       ib_ip c2 \<notin> set (ipTable (heap a' ! p)) \<and> fst (AddIP ip' (heap a' ! p)))"
proof -
  let ?u = "heap a ! p" and ?ip = "ib_ip c1"
  have pos: "0 < maxIPNum ?u" using assms(4,5) by (cases "ipTable ?u") auto
  have "length (removeAll ?ip (ipTable ?u)) < length (ipTable ?u)"
    using assms(5) by (rule length_removeAll_less)
  then have "int (length (removeAll ?ip (ipTable ?u))) < maxIPNum ?u" using assms(4) by linarith
  moreover have "heap (snd (InboundConn_Close c1 a)) ! p = ?u\<lparr>ipTable := removeAll ?ip (ipTable ?u)\<rparr>"
    using assms(1-3,5) pos by (simp add: InboundConn_Close_def on_user_def DelIP_def)
  ultimately show ?thesis using assms(4,6,8) pos by (simp add: AddIP_def)
qed

section \<open>Witnesses\<close>

definition sample_hash :: string where
  "sample_hash = replicate 56 (CHR ''a'')"

definition sample_user :: mem_user where
  "sample_user = SetIPLimit 1 (new_user sample_hash)"

definition sample_server :: "net_in trojan_server" where
  "sample_server =
     \<lparr>ts_auth = \<lparr>users = [(sample_hash, 0)], heap = [sample_user]\<rparr>,
      redirAddr = NewAddressFromHostPort ''tcp'' ''127.0.0.1'' 80,
      connChan = [], muxChan = [], packetChan = [], redirectionChan = [], ts_done = False\<rparr>"

definition sample_remote :: string where
  "sample_remote = ''1.2.3.4:5''"

lemma sample_remote_split: "SplitHostPort sample_remote = Some (''1.2.3.4'', ''5'')"
  by (simp add: sample_remote_def) code_simp

lemma sample_facts:
  "length sample_hash = 56" "AuthUser sample_hash (ts_auth sample_server) = Some 0"
  "heap (ts_auth sample_server) ! 0 = sample_user" "heap (ts_auth sample_server) = [sample_user]"
  "fst (AddIP ip sample_user)" "maxIPNum sample_user = 1" "ipTable sample_user = []"
  "has_room sample_server"
  by (simp_all add: sample_hash_def sample_server_def AuthUser_def sample_user_def SetIPLimit_def
      new_user_def AddIP_def has_room_def)

theorem fallback_replays_stream_witness:
  "\<exists>r. redirectionChan (snd (handle_inbound seg_read sample_remote True
       \<lparr>segs = [[71, 69], [84]], fin_err = EOF\<rparr> sample_server)) = [(redirAddr sample_server, r)] \<and>
     rewind_content seg_content r = [71, 69, 84]"
proof -
  let ?conn = "\<lparr>segs = [[71, 69], [84]], fin_err = EOF\<rparr>"
  have port: "Port (redirAddr sample_server) \<noteq> 0"
    by (simp add: sample_server_def NewAddressFromHostPort_def Let_def)
  obtain srv' where H:
    "handle_inbound seg_read sample_remote True ?conn sample_server = (Ret Redirected, srv')"
    using first_segment [of ?conn "[71, 69]" "[[84]]"] port
    by (simp add: handle_inbound_def SetBufferSize_fresh Auth_def new_inbound_def Let_def
        Rewind_def fresh_rewind_def Redirect_def select_send_def sample_server_def)
  have "seg_ok 0 ?conn" by (simp add: seg_ok_def)
  from fallback_replays_stream [OF this H] H show ?thesis
    by (auto simp: seg_content_def sample_server_def)
qed

definition sample_conn :: net_in where
  "sample_conn = \<lparr>segs = [bytes_of sample_hash @ crlf @ Cmd_Connect # encode_address sample_domain,
     crlf @ [1, 2]], fin_err = EOF\<rparr>"

lemma sample_conn_facts:
  "seg_ok 0 sample_conn" "seg_content sample_conn =
     bytes_of sample_hash @ crlf @ Cmd_Connect # encode_address sample_domain @ crlf @ [1, 2]"
  by (simp_all add: sample_conn_def seg_ok_def seg_content_def crlf_def)

theorem queued_implies_authenticated_witness:
  "\<exists>c srv'. handle_inbound seg_read sample_remote True sample_conn sample_server = (Ret Queued, srv') \<and>
     queued_by sample_server c srv' \<and> ib_hash c = sample_hash"
proof -
  let ?m = "\<lparr>Command = Cmd_Connect, Address = sample_domain\<rparr>"
  obtain srv' where H: "handle_inbound seg_read sample_remote True sample_conn sample_server =
      (Ret Queued, srv')"
    using handle_request [OF sample_conn_facts(1) _ _ _ _ _ sample_facts(2) sample_remote_split,
        of _ _ ?m "[1, 2]" True] sample_conn_facts(2) sample_domain_wire_address sample_facts
    by (auto simp: sample_conn_def)
  from queued_implies_authenticated [OF sample_conn_facts(1) H] sample_conn_facts(2)
  show ?thesis using H sample_facts(1)
    by (metis append_eq_conv_conj length_bytes_of string_of_bytes_of)
qed

theorem client_reaches_server_witness:
  "\<exists>c srv'. handle_inbound seg_read sample_remote True sample_conn sample_server = (Ret Queued, srv') \<and>
     queued_by sample_server c srv' \<and> rewind_content seg_content (ib_conn c) = [1, 2]"
proof -
  let ?m = "\<lparr>Command = Cmd_Connect, Address = sample_domain\<rparr>"
  let ?es = "[CFlush 5, CWrite [1], CWrite [2 :: byte]]"
  have bytes: "seg_content sample_conn =
      oc_conn (fold (client_step buffer_write) ?es (new_outbound sample_user ?m []))"
    unfolding sample_conn_facts(2)
    by (subst client_stream_bytes)
      (simp_all add: sample_domain_wire_address sample_user_def SetIPLimit_def new_user_def)
  have hash: "hash sample_user = sample_hash" by (simp add: sample_user_def SetIPLimit_def new_user_def)
  have segs: "segs sample_conn = (bytes_of sample_hash @ crlf @ Cmd_Connect # encode_address sample_domain) #
      [crlf @ [1, 2]]" by (simp add: sample_conn_def)
  have pay: "concat (map ev_payload ?es) = [1, 2]" and ex: "list_ex fires ?es" by simp_all
  from client_reaches_server [OF refl ex _ _ sample_conn_facts(1) bytes segs _ _
      sample_remote_split, of sample_server 0 True] hash sample_facts sample_domain_wire_address
  show ?thesis unfolding pay by (simp del: ex_simps) blast
qed

theorem short_first_segment_refused_witness:
  "\<forall>srv'. handle_inbound seg_read sample_remote True
      \<lparr>segs = [take 20 (seg_content sample_conn), drop 20 (seg_content sample_conn)], fin_err = EOF\<rparr>
      sample_server \<noteq> (Ret Queued, srv')"
proof -
  have "length (seg_content sample_conn) > 20"
    using sample_facts(1) by (simp add: sample_conn_facts(2))
  then show ?thesis
    by (intro short_first_segment_refused) (auto simp: seg_ok_def)
qed

theorem refused_request_keeps_ip_slot_witness:
  "''1.2.3.4'' \<in> set (ipTable (heap (ts_auth (snd (handle_inbound seg_read sample_remote True
     \<lparr>segs = [bytes_of sample_hash], fin_err = EOF\<rparr> sample_server))) ! 0))"
  using refused_request_keeps_ip_slot [of "\<lparr>segs = [bytes_of sample_hash], fin_err = EOF\<rparr>" sample_hash
      sample_server 0, OF _ _ _ sample_remote_split, of True] sample_facts
  by simp

theorem closing_one_of_two_frees_slot_witness:
  "let u = sample_user\<lparr>ipTable := [''a'']\<rparr>; a = \<lparr>users = [(sample_hash, 0)], heap = [u]\<rparr>;
       c = (new_inbound ())\<lparr>ib_user := Some 0, ib_ip := ''a'',
             ib_metadata := Some \<lparr>Command = 1, Address = sample_domain\<rparr>\<rparr>
   in \<not> fst (AddIP ''b'' u) \<and> fst (AddIP ''b'' (heap (snd (InboundConn_Close c a)) ! 0))"
  using closing_one_of_two_frees_slot [of "(new_inbound ())\<lparr>ib_user := Some 0, ib_ip := ''a'',
      ib_metadata := Some \<lparr>Command = 1, Address = sample_domain\<rparr>\<rparr>" 0
      "\<lparr>Command = 1, Address = sample_domain\<rparr>"
      "\<lparr>users = [(sample_hash, 0)], heap = [sample_user\<lparr>ipTable := [''a'']\<rparr>]\<rparr>" "''b''"
      "(new_inbound ())\<lparr>ib_user := Some 0, ib_ip := ''a'',
      ib_metadata := Some \<lparr>Command = 1, Address = sample_domain\<rparr>\<rparr>"] sample_facts(6)
  by (simp add: Let_def new_inbound_def)

end
