(* ===== verification/Simple_Socks.thy ===== *)
theory Simple_Socks
  imports Trojan_Server
begin

text \<open>
  \<open>tunnel/simplesocks\<close>: the protocol on the streams of the multiplexer. A stream starts with the
  request metadata, written together with the first payload; the server reads it inside its accept
  loop and puts the stream into the queue of its command.
\<close>

record 's ss_conn =
  ss_conn :: 's
  ss_metadata :: metadata
  ss_isOutbound :: bool
  ss_headerWritten :: bool

text \<open>The result of encoding the header into the buffer is ignored; only the write of the buffer counts.\<close>

definition ss_Write :: "'s writer \<Rightarrow> 's ss_conn writer" where
  "ss_Write wr payload c =
     (if ss_isOutbound c \<and> \<not> ss_headerWritten c then
        (case Metadata_WriteTo buffer_write (ss_metadata c) [] of (_, m, b) \<Rightarrow>
         case wr (b @ payload) (ss_conn c) of
           ((_, Some e), k) \<Rightarrow>
             ((0, Some (Base (NewError ''failed to write simplesocks header'') (Some e))), c\<lparr>ss_metadata := m, ss_conn := k\<rparr>)
         | ((_, None), k) \<Rightarrow> ((length payload, None), c\<lparr>ss_metadata := m, ss_conn := k, ss_headerWritten := True\<rparr>))
      else case wr payload (ss_conn c) of (r, k) \<Rightarrow> (r, c\<lparr>ss_conn := k\<rparr>))"

definition ss_DialConn :: "'s outcome \<Rightarrow> address \<Rightarrow> 's ss_conn outcome" where
  "ss_DialConn dialled addr =
     (case dialled of
        Ret conn \<Rightarrow> Ret \<lparr>ss_conn = conn, ss_metadata = \<lparr>Command = Cmd_Connect, Address = addr\<rparr>,
                        ss_isOutbound = True, ss_headerWritten = False\<rparr>
      | Raise e \<Rightarrow> Raise (Base (NewError ''simplesocks failed to dial using underlying tunnel'') (Some e))
      | Panic m \<Rightarrow> Panic m
      | Hang \<Rightarrow> Hang)"

text \<open>The packet connection writes its header at once.\<close>

definition ss_DialPacket :: "'s writer \<Rightarrow> 's outcome \<Rightarrow> 's outcome" where
  "ss_DialPacket wr dialled =
     (case dialled of
        Ret conn \<Rightarrow>
          (case Metadata_WriteTo wr \<lparr>Command = Cmd_Associate, Address = udp_fake_address\<rparr> conn of
             (Ret (_, None), _, k) \<Rightarrow> Ret k
           | (Ret (_, Some e), _, k) \<Rightarrow> Raise (Base (NewError ''simplesocks failed to write udp associate'') (Some e))
           | (Raise e, _, k) \<Rightarrow> Raise (Base (NewError ''simplesocks failed to write udp associate'') (Some e))
           | (Panic m, _, k) \<Rightarrow> Panic m
           | (Hang, _, k) \<Rightarrow> Hang)
      | Raise e \<Rightarrow> Raise (Base (NewError ''simplesocks failed to dial using underlying tunnel'') (Some e))
      | Panic m \<Rightarrow> Panic m
      | Hang \<Rightarrow> Hang)"

record 's ss_server =
  ss_connChan :: "'s ss_conn list"
  ss_packetChan :: "'s list"
  ss_done :: bool

text \<open>One round of \<open>acceptLoop\<close> with the stream it got.\<close>

definition ss_accept :: "'s reader \<Rightarrow> bool \<Rightarrow> 's \<Rightarrow> 's ss_server \<Rightarrow> handled outcome \<times> 's ss_server" where
  "ss_accept rd sel conn srv =
     (case Metadata_ReadFrom rd conn of
        (Raise e, _) \<Rightarrow> (Ret Dropped, srv)
      | (Ret (_, m), k) \<Rightarrow>
          if Command m = Cmd_Connect then
            (case select_send sel (ss_done srv) 32
                   \<lparr>ss_conn = k, ss_metadata = m, ss_isOutbound = False, ss_headerWritten = False\<rparr> (ss_connChan srv) of
               Ret (Some q) \<Rightarrow> (Ret Queued, srv\<lparr>ss_connChan := q\<rparr>)
             | Ret None \<Rightarrow> (Ret Dropped, srv)
             | _ \<Rightarrow> (Hang, srv))
          else if Command m = Cmd_Associate then
            (case select_send sel (ss_done srv) 32 k (ss_packetChan srv) of
               Ret (Some q) \<Rightarrow> (Ret Queued, srv\<lparr>ss_packetChan := q\<rparr>)
             | Ret None \<Rightarrow> (Ret Dropped, srv)
             | _ \<Rightarrow> (Hang, srv))
          else (Ret Dropped, srv)
      | (Panic p, _) \<Rightarrow> (Panic p, srv)
      | (Hang, _) \<Rightarrow> (Hang, srv))"

section \<open>A stream reaches the server\<close>

definition ss_writes :: "bytes list \<Rightarrow> bytes ss_conn \<Rightarrow> bytes ss_conn" where
  "ss_writes ps c = fold (\<lambda>p c. snd (ss_Write buffer_write p c)) ps c"

lemma ss_writes_later:
  "ss_headerWritten c \<Longrightarrow> ss_conn (ss_writes ps c) = ss_conn c @ concat ps"
  by (induction ps arbitrary: c) (simp_all add: ss_writes_def ss_Write_def buffer_write_def)

lemma ss_writes_first:
  assumes "ss_DialConn (Ret []) a = Ret c" "wire_address a" "ps \<noteq> []"
  shows "ss_conn (ss_writes ps c) = Cmd_Connect # encode_address a @ concat ps"
proof -
  have c: "c = \<lparr>ss_conn = [], ss_metadata = \<lparr>Command = Cmd_Connect, Address = a\<rparr>, ss_isOutbound = True, ss_headerWritten = False\<rparr>"
    using assms(1) by (simp add: ss_DialConn_def)
  obtain p qs where ps: "ps = p # qs" using assms(3) by (cases ps) auto
  let ?c1 = "snd (ss_Write buffer_write p c)"
  have "ss_headerWritten ?c1" "ss_conn ?c1 = Cmd_Connect # encode_address a @ p"
    using Metadata_WriteTo_buffer [of "ss_metadata c" "[]"] assms(2) c by (simp_all add: ss_Write_def buffer_write_def)
  with ss_writes_later [of ?c1 qs] ps show ?thesis by (simp add: ss_writes_def)
qed

text \<open>A multiplexed connection reaches its target. Whatever an application writes to a dialled
  simplesocks connection, in however many pieces, and however the stream is cut on the way: the
  server reads the request, queues the stream for the proxy with the dialled address, and what
  remains to be read from the queued stream is exactly what the application wrote.\<close>

theorem simplesocks_roundtrip:
  assumes "ss_DialConn (Ret []) a = Ret c" "wire_address a" "ps \<noteq> []"
    and "seg_content s = ss_conn (ss_writes ps c)" "seg_ok 0 s"
    and "length (ss_connChan srv) < 32" "\<not> ss_done srv"
  shows "\<exists>k. ss_accept seg_read sel s srv =
      (Ret Queued, srv\<lparr>ss_connChan := ss_connChan srv @
         [\<lparr>ss_conn = k, ss_metadata = \<lparr>Command = Cmd_Connect, Address = a\<lparr>NetworkType := []\<rparr>\<rparr>,
           ss_isOutbound = False, ss_headerWritten = False\<rparr>]\<rparr>) \<and>
    seg_content k = concat ps \<and> fin_err k = fin_err s"
proof -
  have ok: "seg_ok 258 s" using assms(5) by (simp add: seg_ok_def)
  have "seg_content s = Cmd_Connect # encode_address a @ concat ps"
    using assms(4) ss_writes_first [OF assms(1-3)] by simp
  from net.Metadata_ReadFrom_encode [OF ok assms(2) this] obtain k n where
    "Metadata_ReadFrom seg_read s = (Ret (n, \<lparr>Command = Cmd_Connect, Address = a\<lparr>NetworkType := []\<rparr>\<rparr>), k)"
    "seg_content k = concat ps" "fin_err k = fin_err s"
    by (auto simp: net.advances_def)
  with assms(6,7) show ?thesis by (auto simp: ss_accept_def select_send_def)
qed

definition sample_ss_server :: "net_in ss_server" where
  "sample_ss_server = \<lparr>ss_connChan = [], ss_packetChan = [], ss_done = False\<rparr>"

theorem simplesocks_roundtrip_witness:
  "\<exists>c k. ss_DialConn (Ret []) sample_domain = Ret c \<and>
     fst (ss_accept seg_read True \<lparr>segs = map (\<lambda>b. [b]) (ss_conn (ss_writes [[1, 2], [3]] c)), fin_err = EOF\<rparr> sample_ss_server) = Ret Queued \<and>
     map ss_conn (ss_connChan (snd (ss_accept seg_read True
       \<lparr>segs = map (\<lambda>b. [b]) (ss_conn (ss_writes [[1, 2], [3]] c)), fin_err = EOF\<rparr> sample_ss_server))) = [k] \<and>
     seg_content k = [1, 2, 3]"
proof -
  obtain c :: "bytes ss_conn" where c: "ss_DialConn (Ret []) sample_domain = Ret c" by (simp add: ss_DialConn_def)
  let ?s = "\<lparr>segs = map (\<lambda>b. [b]) (ss_conn (ss_writes [[1, 2], [3]] c)), fin_err = EOF\<rparr>"
  have s: "seg_content ?s = ss_conn (ss_writes [[1, 2], [3]] c)" "seg_ok 0 ?s" by (auto simp: seg_content_def seg_ok_def)
  from simplesocks_roundtrip [OF c sample_domain_wire_address _ s, of sample_ss_server True] c show ?thesis
    by (auto simp: sample_ss_server_def)
qed

end
