(* ===== verification/Socks_Server.thy ===== *)
theory Socks_Server
  imports Trojan_Server "HOL-Library.AList"
begin

text \<open>
  The local entrance of the client: \<open>tunnel/adapter/server.go\<close>, which tells SOCKS5 from HTTP by the
  first byte, and \<open>tunnel/socks\<close>: the SOCKS5 handshake, the accepted connections, and the UDP
  sessions with their dispatch loop and one writer goroutine each. A UDP session is created by the
  first datagram of a source and is known to the dispatcher by the source's address.
\<close>

section \<open>Detecting the protocol\<close>

datatype detected = ToSocks | ToHttp | Unread

text \<open>One round of \<open>acceptConnLoop\<close> up to the queue it chooses; a connection whose first read fails
  is left as it is.\<close>

definition adapter_detect ::
  "'s reader \<Rightarrow> bool \<Rightarrow> 's \<Rightarrow> (detected \<times> 's rewind_reader) outcome" where
  "adapter_detect rd nextSocks conn =
     (case SetBufferSize 16 (NewRewindConn conn) of
        Ret r1 \<Rightarrow>
          (case RewindReader_Read rd 3 r1 of ((bs, err), r2) \<Rightarrow>
             (case Rewind r2 of
                Ret r3 \<Rightarrow>
                  (let r4 = StopBuffering r3; b = (case bs of [] \<Rightarrow> 0 | x # _ \<Rightarrow> x) in
                   if err \<noteq> None then Ret (Unread, r4)
                   else if b = 5 \<and> nextSocks then Ret (ToSocks, r4) else Ret (ToHttp, r4))
              | _ \<Rightarrow> Panic ''no buffer''))
      | _ \<Rightarrow> Panic ''reader is buffering'')"

section \<open>The handshake\<close>

definition first_byte :: "bytes \<Rightarrow> byte" where
  "first_byte bs = (case bs of [] \<Rightarrow> 0 | b # _ \<Rightarrow> b)"

text \<open>The three bytes of the request are fetched with one \<open>Read\<close>; what does not arrive stays zero.\<close>

definition handshake :: "'s reader \<Rightarrow> 's writer \<Rightarrow> ('s, metadata) proc" where
  "handshake rd wr s =
     (case rd 1 s of
        ((b1, Some e), s1) \<Rightarrow> (Raise (Base (NewError ''failed to read socks version'') (Some e)), s1)
      | ((b1, None), s1) \<Rightarrow>
          if first_byte b1 \<noteq> 5 then (Raise (NewError (''invalid socks version '' @ dec_string (uint (first_byte b1)))), s1)
          else
            (case rd 1 s1 of
               ((b2, Some e), s2) \<Rightarrow> (Raise (NewError ''failed to read NMETHODS''), s2)
             | ((b2, None), s2) \<Rightarrow>
                 bindp (wrap_error (\<lambda>e. Base (NewError ''socks failed to read methods'') (Some e))
                          (io_CopyN_Discard rd (unat (first_byte b2))))
                   (\<lambda>_. bindp (wrap_error (\<lambda>e. Base (NewError ''failed to respond auth'') (Some e)) (write_checked wr [5, 0]))
                     (\<lambda>_ s3. case rd 3 s3 of
                        ((b3, Some e), s4) \<Rightarrow> (Raise (NewError ''failed to read command''), s4)
                      | ((b3, None), s4) \<Rightarrow>
                          bindp (Address_ReadFrom rd zero_address)
                            (\<lambda>(_, a). retp \<lparr>Command = (b3 @ [0, 0, 0]) ! 1, Address = a\<rparr>) s4)) s2))"

section \<open>The server\<close>

record socks_session =
  se_src :: string
  se_input :: "(address \<times> bytes) list"
  se_output :: "(address \<times> bytes) list"
  se_done :: bool
  se_writer :: bool

text \<open>A queued connection is its state with the metadata of the request; a queued packet connection
  is the number of its session. \<open>so_sent\<close> records the datagrams that were sent.\<close>

record 's socks_server =
  so_localHost :: string
  so_localPort :: int
  so_connChan :: "('s \<times> metadata) list"
  so_packetChan :: "nat list"
  so_mapping :: "(string \<times> nat) list"
  so_sessions :: "socks_session list"
  so_sent :: "(string \<times> bytes) list"
  so_done :: bool

definition connect_reply :: bytes where
  "connect_reply = [5, 0, 0, 1, 0, 0, 0, 0, 0, 0]"

definition associate_reply :: "address \<Rightarrow> bytes outcome" where
  "associate_reply addr =
     (case Must (fst (Address_WriteTo buffer_write addr [5, 0, 0])) of
        Ret _ \<Rightarrow> Ret (snd (Address_WriteTo buffer_write addr [5, 0, 0]))
      | Raise e \<Rightarrow> Raise e
      | Panic m \<Rightarrow> Panic m
      | Hang \<Rightarrow> Hang)"

text \<open>The goroutine of one accepted connection. A failed handshake leaves the connection open.\<close>

definition socks_accept ::
  "'s reader \<Rightarrow> 's writer \<Rightarrow> bool \<Rightarrow> 's \<Rightarrow> 's socks_server \<Rightarrow> handled outcome \<times> 's socks_server" where
  "socks_accept rd wr sel conn srv =
     (case handshake rd wr conn of
        (Raise e, _) \<Rightarrow> (Ret Dropped, srv)
      | (Ret m, k) \<Rightarrow>
          if Command m = Cmd_Connect then
            (case wr connect_reply k of
               ((_, Some e), _) \<Rightarrow> (Ret Dropped, srv)
             | ((_, None), k1) \<Rightarrow>
                 (case select_send sel (so_done srv) 32 (k1, m) (so_connChan srv) of
                    Ret (Some q) \<Rightarrow> (Ret Queued, srv\<lparr>so_connChan := q\<rparr>)
                  | Ret None \<Rightarrow> (Ret Dropped, srv)
                  | _ \<Rightarrow> (Hang, srv)))
          else if Command m = Cmd_Associate then
            (case associate_reply (NewAddressFromHostPort ''udp'' (so_localHost srv) (so_localPort srv)) of
               Panic p \<Rightarrow> (Panic p, srv)
             | _ \<Rightarrow> (Ret Dropped, srv))
          else (Ret Dropped, srv)
      | (Panic p, _) \<Rightarrow> (Panic p, srv)
      | (Hang, _) \<Rightarrow> (Hang, srv))"

section \<open>UDP sessions\<close>

definition socks_queue_cap :: nat where
  "socks_queue_cap = 128"

definition new_session :: "string \<Rightarrow> socks_session" where
  "new_session src = \<lparr>se_src = src, se_input = [], se_output = [], se_done = False, se_writer = True\<rparr>"

definition set_session :: "nat \<Rightarrow> socks_session \<Rightarrow> 's socks_server \<Rightarrow> 's socks_server" where
  "set_session i s srv = srv\<lparr>so_sessions := (so_sessions srv)[i := s]\<rparr>"

text \<open>\<open>bytes.NewBuffer(b)\<close> as a source of bytes.\<close>

definition buffer_of :: "bytes \<Rightarrow> net_in" where
  "buffer_of b = \<lparr>segs = (if b = [] then [] else [b]), fin_err = EOF\<rparr>"

definition open_session ::
  "bool \<Rightarrow> string \<Rightarrow> 's socks_server \<Rightarrow> nat option outcome \<times> 's socks_server" where
  "open_session sel src srv =
     (case map_of (so_mapping srv) src of
        Some i \<Rightarrow> (Ret (Some i), srv)
      | None \<Rightarrow>
          let i = length (so_sessions srv);
              srv1 = srv\<lparr>so_sessions := so_sessions srv @ [new_session src], so_mapping := AList.update src i (so_mapping srv)\<rparr>
          in (case select_send sel (so_done srv1) 32 i (so_packetChan srv1) of
                Ret (Some q) \<Rightarrow> (Ret (Some i), srv1\<lparr>so_packetChan := q\<rparr>)
              | Ret None \<Rightarrow> (Ret None, set_session i ((new_session src)\<lparr>se_done := True\<rparr>) srv1)
              | _ \<Rightarrow> (Hang, srv1)))"

text \<open>One datagram in \<open>packetDispatchLoop\<close>. The buffer of 8192 bytes is read into before \<open>buf[3:n]\<close> is
  taken.\<close>

definition handle_datagram ::
  "bool \<Rightarrow> string \<Rightarrow> bytes \<Rightarrow> 's socks_server \<Rightarrow> unit outcome \<times> 's socks_server" where
  "handle_datagram sel src datagram srv =
     (let data = take MaxPacketSize datagram in
      case open_session sel src srv of
        (Ret (Some i), srv1) \<Rightarrow>
          if length data < 3 then (Panic ''slice bounds out of range'', srv1)
          else
            (case Address_ReadFrom seg_read zero_address (buffer_of (drop 3 data)) of
               (Ret (_, a), r) \<Rightarrow>
                 (let s = so_sessions srv1 ! i in
                  if length (se_input s) < socks_queue_cap
                  then (Ret (), set_session i (s\<lparr>se_input := se_input s @ [(a, take MaxPacketSize (seg_content r))]\<rparr>) srv1)
                  else (Ret (), srv1))
             | (Raise e, _) \<Rightarrow> (Ret (), srv1)
             | (Panic p, _) \<Rightarrow> (Panic p, srv1)
             | (Hang, _) \<Rightarrow> (Hang, srv1))
      | (Ret None, srv1) \<Rightarrow> (Ret (), srv1)
      | (Raise e, srv1) \<Rightarrow> (Raise e, srv1)
      | (Panic p, srv1) \<Rightarrow> (Panic p, srv1)
      | (Hang, srv1) \<Rightarrow> (Hang, srv1))"

text \<open>The three branches of a session's writer. Sending one reply may fail; then the goroutine ends and
  closes the session.\<close>

definition writer_output :: "bool \<Rightarrow> nat \<Rightarrow> 's socks_server \<Rightarrow> unit outcome \<times> 's socks_server" where
  "writer_output fails i srv =
     (let s = so_sessions srv ! i in
      case se_output s of
        [] \<Rightarrow> (Ret (), srv)
      | (a, payload) # rest \<Rightarrow>
          (case Must (fst (Address_WriteTo buffer_write a [0, 0, 0])) of
             Ret _ \<Rightarrow>
               if fails then (Ret (), set_session i (s\<lparr>se_output := rest, se_done := True, se_writer := False\<rparr>) srv)
               else (Ret (), (set_session i (s\<lparr>se_output := rest\<rparr>) srv)
                       \<lparr>so_sent := so_sent srv @ [(se_src s, snd (Address_WriteTo buffer_write a [0, 0, 0]) @ payload)]\<rparr>)
           | Raise e \<Rightarrow> (Raise e, srv)
           | Panic m \<Rightarrow> (Panic m, srv)
           | Hang \<Rightarrow> (Hang, srv)))"

definition writer_timeout :: "nat \<Rightarrow> 's socks_server \<Rightarrow> 's socks_server" where
  "writer_timeout i srv =
     (let s = so_sessions srv ! i in
      (set_session i (s\<lparr>se_done := True, se_writer := False\<rparr>) srv)\<lparr>so_mapping := AList.delete (se_src s) (so_mapping srv)\<rparr>)"

definition writer_done :: "nat \<Rightarrow> 's socks_server \<Rightarrow> 's socks_server" where
  "writer_done i srv = set_session i ((so_sessions srv ! i)\<lparr>se_writer := False\<rparr>) srv"

text \<open>What the relay does with a session: \<open>ReadWithMetadata\<close>, \<open>WriteWithMetadata\<close> and \<open>Close\<close>. \<open>sel\<close>
  resolves a select with both branches ready.\<close>

definition session_read :: "bool \<Rightarrow> nat \<Rightarrow> 's socks_server \<Rightarrow> (address \<times> bytes) outcome \<times> 's socks_server" where
  "session_read sel i srv =
     (let s = so_sessions srv ! i in
      case se_input s of
        p # rest \<Rightarrow>
          if se_done s \<and> \<not> sel then (Raise (NewError ''socks packet conn closed''), srv)
          else (Ret p, set_session i (s\<lparr>se_input := rest\<rparr>) srv)
      | [] \<Rightarrow> if se_done s then (Raise (NewError ''socks packet conn closed''), srv) else (Hang, srv))"

definition session_write :: "bool \<Rightarrow> nat \<Rightarrow> address \<times> bytes \<Rightarrow> 's socks_server \<Rightarrow> nat outcome \<times> 's socks_server" where
  "session_write sel i p srv =
     (let s = so_sessions srv ! i in
      if length (se_output s) < socks_queue_cap \<and> (\<not> se_done s \<or> sel)
      then (Ret (length (snd p)), set_session i (s\<lparr>se_output := se_output s @ [p]\<rparr>) srv)
      else if se_done s then (Raise (NewError ''socks packet conn closed''), srv) else (Hang, srv))"

definition session_close :: "nat \<Rightarrow> 's socks_server \<Rightarrow> 's socks_server" where
  "session_close i srv = set_session i ((so_sessions srv ! i)\<lparr>se_done := True\<rparr>) srv"

text \<open>Everything that can happen to the sessions, in any order.\<close>

inductive socks_step :: "'s socks_server \<Rightarrow> 's socks_server \<Rightarrow> bool" where
  st_datagram: "socks_step srv (snd (handle_datagram sel src data srv))"
| st_output: "i < length (so_sessions srv) \<Longrightarrow> se_writer (so_sessions srv ! i) \<Longrightarrow> socks_step srv (snd (writer_output fails i srv))"
| st_timeout: "i < length (so_sessions srv) \<Longrightarrow> se_writer (so_sessions srv ! i) \<Longrightarrow> socks_step srv (writer_timeout i srv)"
| st_done: "i < length (so_sessions srv) \<Longrightarrow> se_writer (so_sessions srv ! i) \<Longrightarrow> se_done (so_sessions srv ! i) \<Longrightarrow>
    socks_step srv (writer_done i srv)"
| st_read: "i < length (so_sessions srv) \<Longrightarrow> socks_step srv (snd (session_read sel i srv))"
| st_write: "i < length (so_sessions srv) \<Longrightarrow> socks_step srv (snd (session_write sel i p srv))"
| st_close: "i < length (so_sessions srv) \<Longrightarrow> socks_step srv (session_close i srv)"
| st_packet_accept: "so_packetChan srv = i # q \<Longrightarrow> socks_step srv (srv\<lparr>so_packetChan := q\<rparr>)"
| st_shutdown: "socks_step srv (srv\<lparr>so_done := True\<rparr>)"

definition socks_start :: "string \<Rightarrow> int \<Rightarrow> 's socks_server" where
  "socks_start host port =
     \<lparr>so_localHost = host, so_localPort = port, so_connChan = [], so_packetChan = [], so_mapping = [],
      so_sessions = [], so_sent = [], so_done = False\<rparr>"

definition socks_reach :: "'s socks_server \<Rightarrow> bool" where
  "socks_reach srv \<longleftrightarrow> (\<exists>host port. socks_step\<^sup>*\<^sup>* (socks_start host port) srv)"

section \<open>Sessions and the mapping\<close>

text \<open>The mapping leads to sessions of the right source, and a session whose writer runs is the one the
  mapping leads to.\<close>

definition owned :: "'s socks_server \<Rightarrow> bool" where
  "owned srv \<longleftrightarrow>
     (\<forall>src i. map_of (so_mapping srv) src = Some i \<longrightarrow> i < length (so_sessions srv) \<and> se_src (so_sessions srv ! i) = src) \<and>
     (\<forall>j < length (so_sessions srv). se_writer (so_sessions srv ! j) \<longrightarrow> map_of (so_mapping srv) (se_src (so_sessions srv ! j)) = Some j)"

lemma ownedD:
  "owned srv \<Longrightarrow> map_of (so_mapping srv) src = Some i \<Longrightarrow> i < length (so_sessions srv) \<and> se_src (so_sessions srv ! i) = src"
  "owned srv \<Longrightarrow> j < length (so_sessions srv) \<Longrightarrow> se_writer (so_sessions srv ! j) \<Longrightarrow>
     map_of (so_mapping srv) (se_src (so_sessions srv ! j)) = Some j"
  by (simp_all add: owned_def)

text \<open>The session of \<open>src\<close> is closed, its writer has ended, and the mapping still leads to it.\<close>

definition dead :: "string \<Rightarrow> nat \<Rightarrow> 's socks_server \<Rightarrow> bool" where
  "dead src i srv \<longleftrightarrow> map_of (so_mapping srv) src = Some i \<and> i < length (so_sessions srv) \<and>
     se_done (so_sessions srv ! i) \<and> \<not> se_writer (so_sessions srv ! i)"

definition sessions_of :: "string \<Rightarrow> 's socks_server \<Rightarrow> nat list" where
  "sessions_of src srv = filter (\<lambda>j. se_src (so_sessions srv ! j) = src) [0..<length (so_sessions srv)]"

text \<open>A change of one session that keeps its source and never restarts its writer or reopens it.\<close>

definition tame :: "nat \<Rightarrow> socks_session \<Rightarrow> 's socks_server \<Rightarrow> bool" where
  "tame i s srv \<longleftrightarrow> i < length (so_sessions srv) \<and> se_src s = se_src (so_sessions srv ! i) \<and>
     (se_writer s \<longrightarrow> se_writer (so_sessions srv ! i)) \<and> (se_done (so_sessions srv ! i) \<longrightarrow> se_done s)"

lemma set_session_simps [simp]:
  "so_mapping (set_session i s srv) = so_mapping srv" "length (so_sessions (set_session i s srv)) = length (so_sessions srv)"
  "so_sessions (set_session i s srv) = (so_sessions srv)[i := s]" "so_packetChan (set_session i s srv) = so_packetChan srv"
  by (simp_all add: set_session_def)

lemma tame_owned: "tame i s srv \<Longrightarrow> owned srv \<Longrightarrow> owned (set_session i s srv)"
  by (fastforce simp: tame_def owned_def nth_list_update)

lemma tame_dead: "tame j s srv \<Longrightarrow> dead src i srv \<Longrightarrow> dead src i (set_session j s srv)"
  by (auto simp: tame_def dead_def nth_list_update)

lemma tame_sessions_of: "tame j s srv \<Longrightarrow> sessions_of src (set_session j s srv) = sessions_of src srv"
  unfolding sessions_of_def by (rule filter_cong) (auto simp: tame_def nth_list_update)

text \<open>The three facts are kept together; each operation is a tame change, or handled apart.\<close>

definition kept :: "string \<Rightarrow> nat \<Rightarrow> 's socks_server \<Rightarrow> 's socks_server \<Rightarrow> bool" where
  "kept src i srv srv' \<longleftrightarrow> (owned srv \<longrightarrow> owned srv' \<and> (dead src i srv \<longrightarrow> dead src i srv' \<and> sessions_of src srv' = sessions_of src srv))"

lemma kept_refl: "kept src i srv srv"
  by (simp add: kept_def)

lemma kept_trans: "kept src i a b \<Longrightarrow> kept src i b c \<Longrightarrow> kept src i a c"
  by (simp add: kept_def)

lemma kept_tame: "tame j s srv \<Longrightarrow> kept src i srv (set_session j s srv)"
  by (simp add: kept_def tame_owned tame_dead tame_sessions_of)

lemma kept_outer:
  "so_mapping srv' = so_mapping srv \<Longrightarrow> so_sessions srv' = so_sessions srv \<Longrightarrow> kept src i srv srv'"
  by (simp add: kept_def owned_def dead_def sessions_of_def)

lemma kept_new:
  assumes "map_of (so_mapping srv) s = None"
  shows "kept src i srv (srv\<lparr>so_sessions := so_sessions srv @ [new_session s],
    so_mapping := AList.update s (length (so_sessions srv)) (so_mapping srv)\<rparr>)"
proof -
  let ?srv = "srv\<lparr>so_sessions := so_sessions srv @ [new_session s],
    so_mapping := AList.update s (length (so_sessions srv)) (so_mapping srv)\<rparr>"
  have "owned ?srv" if o: "owned srv"
    unfolding owned_def
  proof (intro conjI allI impI)
    fix src' i'
    assume "map_of (so_mapping ?srv) src' = Some i'"
    then show "i' < length (so_sessions ?srv)" "se_src (so_sessions ?srv ! i') = src'"
      using ownedD(1) [OF o, of src' i'] by (auto simp: update_conv' nth_append new_session_def split: if_splits)
  next
    fix j
    assume "j < length (so_sessions ?srv)" "se_writer (so_sessions ?srv ! j)"
    then show "map_of (so_mapping ?srv) (se_src (so_sessions ?srv ! j)) = Some j"
      using ownedD(2) [OF o, of j] assms
      by (cases "j < length (so_sessions srv)") (auto simp: update_conv' nth_append new_session_def)
  qed
  moreover have "dead src i ?srv \<and> sessions_of src ?srv = sessions_of src srv" if d: "dead src i srv"
  proof -
    have "src \<noteq> s" using d assms by (auto simp: dead_def)
    moreover from this have "sessions_of src ?srv = sessions_of src srv"
      by (auto simp: sessions_of_def nth_append new_session_def intro!: filter_cong)
    ultimately show ?thesis using d by (auto simp: dead_def update_conv' nth_append)
  qed
  ultimately show ?thesis by (simp add: kept_def)
qed

lemma kept_open: "kept src i srv (snd (open_session sel s srv))"
proof (cases "map_of (so_mapping srv) s")
  case None
  let ?srv = "srv\<lparr>so_sessions := so_sessions srv @ [new_session s],
    so_mapping := AList.update s (length (so_sessions srv)) (so_mapping srv)\<rparr>"
  let ?i = "length (so_sessions srv)"
  have "tame ?i ((new_session s)\<lparr>se_done := True\<rparr>) ?srv" by (simp add: tame_def new_session_def)
  then have "kept src i ?srv (snd (open_session sel s srv))"
    using None kept_refl [of src i ?srv] kept_tame [of ?i "(new_session s)\<lparr>se_done := True\<rparr>" ?srv src i]
    by (auto simp: open_session_def Let_def intro!: kept_outer split: outcome.splits option.splits)
  with kept_new [OF None, of src i] show ?thesis by (rule kept_trans)
qed (simp add: open_session_def kept_refl)

lemma open_session_known:
  assumes "open_session sel s srv = (Ret (Some j), srv')" "owned srv"
  shows "j < length (so_sessions srv')"
  using assms by (auto simp: open_session_def owned_def select_send_def Let_def split: option.splits outcome.splits if_splits)

lemma kept_datagram: "kept src i srv (snd (handle_datagram sel s d srv))"
proof (cases "owned srv")
  case True
  obtain r srv1 where o: "open_session sel s srv = (r, srv1)" by (metis prod.exhaust)
  have k: "kept src i srv srv1" using kept_open [of src i srv sel s] o by simp
  have "kept src i srv1 (snd (handle_datagram sel s d srv))"
  proof (cases r)
    case (Ret x)
    show ?thesis
    proof (cases x)
      case (Some j)
      then have "j < length (so_sessions srv1)" using open_session_known [of sel s srv j srv1] o Ret True by simp
      then have "kept src i srv1 (set_session j ((so_sessions srv1 ! j)\<lparr>se_input := q\<rparr>) srv1)" for q
        by (intro kept_tame) (simp add: tame_def)
      with o Ret Some kept_refl [of src i srv1] show ?thesis
        by (simp add: handle_datagram_def Let_def split: outcome.splits prod.splits)
    qed (use o Ret kept_refl [of src i srv1] in \<open>simp add: handle_datagram_def Let_def\<close>)
  qed (use o kept_refl [of src i srv1] in \<open>simp_all add: handle_datagram_def Let_def\<close>)
  with k show ?thesis by (rule kept_trans)
qed (simp add: kept_def)

lemma kept_timeout:
  assumes "j < length (so_sessions srv)" "se_writer (so_sessions srv ! j)"
  shows "kept src i srv (writer_timeout j srv)"
proof -
  let ?s = "so_sessions srv ! j"
  have "owned (writer_timeout j srv)" if o: "owned srv"
    unfolding owned_def
  proof (intro conjI allI impI)
    fix src' i'
    assume "map_of (so_mapping (writer_timeout j srv)) src' = Some i'"
    then have "map_of (so_mapping srv) src' = Some i'"
      by (auto simp: writer_timeout_def Let_def AList.delete_conv' split: if_splits)
    from ownedD(1) [OF o this]
    show "i' < length (so_sessions (writer_timeout j srv))" "se_src (so_sessions (writer_timeout j srv) ! i') = src'"
      using assms(1) by (auto simp: writer_timeout_def Let_def nth_list_update)
  next
    fix m
    assume m: "m < length (so_sessions (writer_timeout j srv))" "se_writer (so_sessions (writer_timeout j srv) ! m)"
    then have "m \<noteq> j" "m < length (so_sessions srv)" "se_writer (so_sessions srv ! m)"
      using assms(1) by (auto simp: writer_timeout_def Let_def nth_list_update split: if_splits)
    moreover from this have "se_src (so_sessions srv ! m) \<noteq> se_src ?s"
      using ownedD(2) [OF o, of m] ownedD(2) [OF o assms] by auto
    ultimately show "map_of (so_mapping (writer_timeout j srv)) (se_src (so_sessions (writer_timeout j srv) ! m)) = Some m"
      using ownedD(2) [OF o, of m] by (auto simp: writer_timeout_def Let_def AList.delete_conv')
  qed
  moreover have "dead src i (writer_timeout j srv) \<and> sessions_of src (writer_timeout j srv) = sessions_of src srv"
    if o: "owned srv" and d: "dead src i srv"
  proof -
    have "i \<noteq> j" using d assms(2) by (auto simp: dead_def)
    then have "se_src ?s \<noteq> src" using ownedD(2) [OF o assms] d by (auto simp: dead_def)
    with d \<open>i \<noteq> j\<close> have "dead src i (writer_timeout j srv)"
      by (auto simp: dead_def writer_timeout_def Let_def AList.delete_conv')
    moreover have "sessions_of src (writer_timeout j srv) = sessions_of src srv"
      using tame_sessions_of [of j "?s\<lparr>se_done := True, se_writer := False\<rparr>" srv src] assms(1)
      by (simp add: sessions_of_def writer_timeout_def Let_def tame_def)
    ultimately show ?thesis ..
  qed
  ultimately show ?thesis by (simp add: kept_def)
qed

lemma kept_step:
  assumes "socks_step srv srv'"
  shows "kept src i srv srv'"
  using assms
proof (cases rule: socks_step.cases)
  case (st_datagram sel s d)
  then show ?thesis by (simp add: kept_datagram)
next
  case (st_output j fails)
  have t: "tame j s srv \<Longrightarrow> kept src i srv ((set_session j s srv)\<lparr>so_sent := x\<rparr>)" for s x
    by (rule kept_trans [OF kept_tame kept_outer]) simp_all
  from st_output show ?thesis
    by (auto simp: writer_output_def Let_def tame_def intro!: kept_refl kept_tame t split: list.splits outcome.splits)
next
  case (st_timeout j)
  then show ?thesis by (simp add: kept_timeout)
qed (auto simp: writer_done_def session_read_def session_write_def session_close_def Let_def tame_def
      intro!: kept_refl kept_tame kept_outer split: list.splits)

lemma kept_steps: "socks_step\<^sup>*\<^sup>* srv srv' \<Longrightarrow> kept src i srv srv'"
  by (induction rule: rtranclp_induct) (auto intro: kept_refl kept_trans kept_step)

lemma reach_owned: "socks_reach srv \<Longrightarrow> owned srv"
proof -
  assume "socks_reach srv"
  then obtain host port where "socks_step\<^sup>*\<^sup>* (socks_start host port) srv" by (auto simp: socks_reach_def)
  from kept_steps [OF this, of "[]" 0] show ?thesis by (simp add: kept_def owned_def socks_start_def)
qed

text \<open>A closed UDP session silences its source. Once the relay has closed a session and the session's
  writer has noticed, the mapping still leads to the dead session; in whatever happens afterwards,
  for ever, the source gets no new session, so none of its datagrams reaches a relay again.
  (The mapping is only cleared by a writer that times out.)\<close>

theorem closed_session_silences_source:
  assumes "socks_reach srv" "map_of (so_mapping srv) src = Some i" "se_writer (so_sessions srv ! i)"
    and "socks_step\<^sup>*\<^sup>* (writer_done i (session_close i srv)) srv'"
  shows "map_of (so_mapping srv') src = Some i \<and> se_done (so_sessions srv' ! i) \<and> \<not> se_writer (so_sessions srv' ! i) \<and>
    sessions_of src srv' = sessions_of src srv"
proof -
  have o: "owned srv" by (rule reach_owned [OF assms(1)])
  then have i: "i < length (so_sessions srv)" using assms(2) by (auto simp: owned_def)
  have steps: "socks_step\<^sup>*\<^sup>* srv (writer_done i (session_close i srv))"
    using st_close [OF i] st_done [of i "session_close i srv"] i assms(3)
    by (auto simp: session_close_def intro: rtranclp.intros)
  let ?d = "writer_done i (session_close i srv)"
  have d: "dead src i ?d" using i assms(2) by (simp add: dead_def writer_done_def session_close_def)
  have "owned ?d" using kept_steps [OF steps, of src i] o by (simp add: kept_def)
  with d kept_steps [OF assms(4), of src i] have "dead src i srv'" "sessions_of src srv' = sessions_of src ?d"
    by (auto simp: kept_def)
  moreover have "sessions_of src ?d = sessions_of src srv"
    using i by (simp add: writer_done_def session_close_def tame_sessions_of tame_def)
  ultimately show ?thesis by (simp add: dead_def)
qed

lemma buffer_of_content: "seg_content (buffer_of b) = b" "seg_ok n (buffer_of b)"
  by (simp_all add: buffer_of_def seg_content_def seg_ok_def)

lemma parse_datagram:
  assumes "wire_address a"
  shows "\<exists>r. Address_ReadFrom seg_read zero_address (buffer_of (encode_address a @ payload)) =
    (Ret (int (length (encode_address a)), a\<lparr>NetworkType := []\<rparr>), r) \<and> seg_content r = payload"
  using net.ReadFrom_encode [OF buffer_of_content(2) assms buffer_of_content(1), of 257 zero_address payload]
  by (auto simp: zero_address_def)

lemma sample_domain_encode: "encode_address sample_domain = sample_domain_wire"
  using sample_domain_encoded wire_address_valid [OF sample_domain_wire_address]
  by (simp add: Address_WriteTo_buffer)

definition sample_datagram :: bytes where
  "sample_datagram = [0, 0, 0] @ sample_domain_wire @ [9]"

definition sample_socks :: "unit socks_server" where
  "sample_socks = snd (handle_datagram True ''peer'' sample_datagram (socks_start ''127.0.0.1'' 1080))"

lemma sample_socks_session:
  "sample_socks = (socks_start ''127.0.0.1'' 1080)\<lparr>so_mapping := [(''peer'', 0)], so_packetChan := [0],
     so_sessions := [(new_session ''peer'')\<lparr>se_input := [(sample_domain\<lparr>NetworkType := []\<rparr>, [9])]\<rparr>]\<rparr>"
proof -
  obtain r where "Address_ReadFrom seg_read zero_address (buffer_of (encode_address sample_domain @ [9])) =
      (Ret (int (length (encode_address sample_domain)), sample_domain\<lparr>NetworkType := []\<rparr>), r)" "seg_content r = [9]"
    using parse_datagram [OF sample_domain_wire_address] by blast
  moreover have "take MaxPacketSize sample_datagram = [0, 0, 0] @ encode_address sample_domain @ [9]"
    by (simp add: sample_datagram_def sample_domain_encode) (simp add: sample_domain_wire_def MaxPacketSize_def)
  ultimately show ?thesis
    by (simp add: sample_socks_def handle_datagram_def open_session_def select_send_def socks_start_def new_session_def
        socks_queue_cap_def set_session_def MaxPacketSize_def Let_def)
qed

lemma sample_socks_reach: "socks_reach sample_socks"
  unfolding socks_reach_def sample_socks_def using st_datagram by blast

theorem closed_session_silences_source_witness:
  "map_of (so_mapping (snd (handle_datagram True ''peer'' sample_datagram (writer_done 0 (session_close 0 sample_socks))))) ''peer'' = Some 0 \<and>
   sessions_of ''peer'' (snd (handle_datagram True ''peer'' sample_datagram (writer_done 0 (session_close 0 sample_socks)))) =
     sessions_of ''peer'' sample_socks"
proof -
  let ?d = "writer_done 0 (session_close 0 sample_socks)"
  have "socks_step\<^sup>*\<^sup>* ?d (snd (handle_datagram True ''peer'' sample_datagram ?d))" using st_datagram by blast
  moreover have "map_of (so_mapping sample_socks) ''peer'' = Some 0" "se_writer (so_sessions sample_socks ! 0)"
    by (simp_all add: sample_socks_session new_session_def)
  ultimately show ?thesis using closed_session_silences_source [OF sample_socks_reach] by blast
qed

section \<open>Datagrams reach their session\<close>

lemma open_session_spec:
  assumes "owned srv" "\<not> so_done srv" "length (so_packetChan srv) < 32"
  shows "\<exists>i srv1. open_session sel src srv = (Ret (Some i), srv1) \<and> map_of (so_mapping srv1) src = Some i \<and>
    i < length (so_sessions srv1) \<and> so_sessions srv1 = so_sessions srv @ (if map_of (so_mapping srv) src = None then [new_session src] else []) \<and>
    so_packetChan srv1 = so_packetChan srv @ (if map_of (so_mapping srv) src = None then [i] else []) \<and>
    (map_of (so_mapping srv) src = None \<longrightarrow> i = length (so_sessions srv))"
proof (cases "map_of (so_mapping srv) src")
  case None
  then show ?thesis using assms by (auto simp: open_session_def select_send_def Let_def update_conv')
next
  case (Some i)
  then show ?thesis using ownedD(1) [OF assms(1) Some] by (auto simp: open_session_def)
qed

text \<open>The session a datagram of this source goes to.\<close>

definition session_for :: "string \<Rightarrow> 's socks_server \<Rightarrow> socks_session" where
  "session_for src srv = (case map_of (so_mapping srv) src of None \<Rightarrow> new_session src | Some i \<Rightarrow> so_sessions srv ! i)"

text \<open>C28. A UDP datagram reaches the session of its source. For every reachable server with room in its
  queues and every well-formed datagram that fits the receive buffer: the datagram is not lost and
  does not crash the dispatcher; the session that the mapping holds for the source gets its target
  address and payload behind what it already had; no other session changes; and the relay is
  told of the session exactly when it is new.\<close>

theorem datagram_delivered:
  assumes "socks_reach srv" "\<not> so_done srv" "length (so_packetChan srv) < 32" "wire_address a"
    and "length datagram \<le> MaxPacketSize" "datagram = [x, y, z] @ encode_address a @ payload"
    and "length (se_input (session_for src srv)) < socks_queue_cap"
  shows "\<exists>i srv'. handle_datagram sel src datagram srv = (Ret (), srv') \<and> map_of (so_mapping srv') src = Some i \<and>
    so_sessions srv' ! i = (session_for src srv)\<lparr>se_input := se_input (session_for src srv) @ [(a\<lparr>NetworkType := []\<rparr>, payload)]\<rparr> \<and>
    (\<forall>j < length (so_sessions srv). j \<noteq> i \<longrightarrow> so_sessions srv' ! j = so_sessions srv ! j) \<and>
    so_packetChan srv' = so_packetChan srv @ (if map_of (so_mapping srv) src = None then [i] else [])"
proof -
  have o: "owned srv" by (rule reach_owned [OF assms(1)])
  from open_session_spec [OF o assms(2,3), of sel src] obtain i srv1 where
    s1: "open_session sel src srv = (Ret (Some i), srv1)" "map_of (so_mapping srv1) src = Some i" "i < length (so_sessions srv1)"
      "so_sessions srv1 = so_sessions srv @ (if map_of (so_mapping srv) src = None then [new_session src] else [])"
      "so_packetChan srv1 = so_packetChan srv @ (if map_of (so_mapping srv) src = None then [i] else [])"
      "map_of (so_mapping srv) src = None \<longrightarrow> i = length (so_sessions srv)" by (elim exE conjE) (rule that)
  have cur: "so_sessions srv1 ! i = session_for src srv"
  proof (cases "map_of (so_mapping srv) src")
    case (Some k)
    then have "k = i" using s1(1) by (simp add: open_session_def)
    with Some s1(4) show ?thesis by (simp add: session_for_def)
  qed (use s1 in \<open>simp add: session_for_def\<close>)
  obtain r where r: "Address_ReadFrom seg_read zero_address (buffer_of (encode_address a @ payload)) =
      (Ret (int (length (encode_address a)), a\<lparr>NetworkType := []\<rparr>), r)" "seg_content r = payload"
    using parse_datagram [OF assms(4)] by blast
  have fits: "take MaxPacketSize datagram = datagram" "length datagram \<ge> 3" "drop 3 datagram = encode_address a @ payload"
    "take MaxPacketSize payload = payload"
    using assms(5,6) by simp_all
  let ?s = "so_sessions srv1 ! i"
  have h: "handle_datagram sel src datagram srv = (Ret (), set_session i (?s\<lparr>se_input := se_input ?s @ [(a\<lparr>NetworkType := []\<rparr>, payload)]\<rparr>) srv1)"
    using s1(1) r fits assms(7) cur by (simp add: handle_datagram_def Let_def)
  have "so_sessions srv1 ! j = so_sessions srv ! j" if "j < length (so_sessions srv)" for j
    using s1(4) that by (simp add: nth_append)
  with h s1 cur show ?thesis by (intro exI [of _ i]) auto
qed

theorem datagram_delivered_witness:
  "\<exists>i srv'. handle_datagram True ''other'' sample_datagram sample_socks = (Ret (), srv') \<and> map_of (so_mapping srv') ''other'' = Some i \<and>
     so_sessions srv' ! i = (new_session ''other'')\<lparr>se_input := [(sample_domain\<lparr>NetworkType := []\<rparr>, [9])]\<rparr>"
proof -
  have f: "map_of (so_mapping sample_socks) ''other'' = None \<and> \<not> so_done sample_socks \<and> length (so_packetChan sample_socks) < 32"
    by (simp add: sample_socks_session socks_start_def)
  have d: "sample_datagram = [0, 0, 0] @ encode_address sample_domain @ [9]" "length sample_datagram \<le> MaxPacketSize"
    by (simp_all add: sample_datagram_def sample_domain_encode, simp add: sample_domain_wire_def MaxPacketSize_def)
  from datagram_delivered [OF sample_socks_reach _ _ sample_domain_wire_address d(2,1), of "''other''" True] f show ?thesis
    by (auto simp: session_for_def new_session_def socks_queue_cap_def)
qed

text \<open>A datagram of fewer than three bytes crashes the client: the dispatcher slices it without
  looking at its length, and a panic in a goroutine ends the process. Any program that can send
  UDP to the local port can do this.\<close>

theorem short_datagram_panics:
  assumes "socks_reach srv" "\<not> so_done srv" "length (so_packetChan srv) < 32" "length datagram < 3"
  shows "fst (handle_datagram sel src datagram srv) = Panic ''slice bounds out of range''"
  using open_session_spec [OF reach_owned [OF assms(1)] assms(2,3), of sel src] assms(4)
  by (auto simp: handle_datagram_def Let_def)

theorem short_datagram_panics_witness:
  "fst (handle_datagram True ''peer'' [0] sample_socks) = Panic ''slice bounds out of range''"
  by (rule short_datagram_panics [OF sample_socks_reach]) (simp_all add: sample_socks_session socks_start_def)

section \<open>Connecting\<close>

text \<open>A connection with both of its directions.\<close>

record duplex =
  dx_in :: net_in
  dx_out :: bytes

definition dx_read :: "duplex reader" where
  "dx_read k d = (case seg_read k (dx_in d) of (r, i) \<Rightarrow> (r, d\<lparr>dx_in := i\<rparr>))"

definition dx_write :: "duplex writer" where
  "dx_write bs d = ((length bs, None), d\<lparr>dx_out := dx_out d @ bs\<rparr>)"

interpretation duplex: byte_reader dx_read "\<lambda>d. seg_content (dx_in d)" "\<lambda>d. fin_err (dx_in d)" "dx_out" "\<lambda>n d. seg_ok n (dx_in d)"
proof unfold_locales
  fix n k and d :: duplex
  assume "seg_ok n (dx_in d)" "0 < k" "k \<le> n" "seg_content (dx_in d) \<noteq> []"
  from net.rd_some [OF this] show "\<exists>bs s'. dx_read k d = ((bs, None), s') \<and> bs \<noteq> [] \<and> length bs \<le> k \<and>
      seg_content (dx_in d) = bs @ seg_content (dx_in s') \<and> fin_err (dx_in s') = fin_err (dx_in d) \<and> dx_out s' = dx_out d \<and>
      seg_ok (n - length bs) (dx_in s')"
    by (fastforce simp: dx_read_def)
next
  fix n k and d :: duplex
  assume "seg_ok n (dx_in d)" "0 < k" "k \<le> n" "seg_content (dx_in d) = []"
  from net.rd_end [OF this] show "\<exists>s'. dx_read k d = (([], Some (fin_err (dx_in d))), s') \<and> seg_content (dx_in s') = [] \<and>
      fin_err (dx_in s') = fin_err (dx_in d) \<and> dx_out s' = dx_out d \<and> seg_ok n (dx_in s')"
    by (fastforce simp: dx_read_def)
next
  fix n m and d :: duplex
  assume "seg_ok n (dx_in d)" "m \<le> n"
  then show "seg_ok m (dx_in d)" by (simp add: seg_ok_def)
qed

text \<open>Reading no further than a boundary between segments leaves the boundary where it is.\<close>

definition before :: "bytes list \<Rightarrow> bytes \<Rightarrow> duplex \<Rightarrow> bool" where
  "before rs bs d \<longleftrightarrow> (\<exists>gs. segs (dx_in d) = gs @ rs \<and> concat gs = bs \<and> (\<forall>g\<in>set gs. g \<noteq> []))"

lemma read_before:
  assumes "before rs (b # bs) d" "0 < k" "k \<le> length (b # bs)"
  shows "\<exists>cs d'. dx_read k d = ((cs, None), d') \<and> cs \<noteq> [] \<and> length cs \<le> k \<and> b # bs = cs @ drop (length cs) (b # bs) \<and>
    before rs (drop (length cs) (b # bs)) d' \<and> dx_out d' = dx_out d \<and> fin_err (dx_in d') = fin_err (dx_in d)"
proof -
  obtain gs where gs: "segs (dx_in d) = gs @ rs" "concat gs = b # bs" "\<forall>g\<in>set gs. g \<noteq> []"
    using assms(1) by (auto simp: before_def)
  then obtain g gs' where g: "gs = g # gs'" "g \<noteq> []" by (cases gs) auto
  have whole: "b # bs = g @ concat gs'" using gs(2) g by simp
  let ?d = "d\<lparr>dx_in := (dx_in d)\<lparr>segs := (if length g \<le> k then gs' @ rs else drop k g # gs' @ rs)\<rparr>\<rparr>"
  have r: "dx_read k d = ((take k g, None), ?d)"
    using gs(1) g assms(2) by (simp add: dx_read_def seg_read_def)
  have "before rs (drop (length (take k g)) (b # bs)) ?d"
  proof (cases "length g \<le> k")
    case True
    then show ?thesis using gs(3) g whole by (auto simp: before_def intro!: exI [of _ gs'])
  next
    case False
    then show ?thesis using gs(3) g whole by (auto simp: before_def intro!: exI [of _ "drop k g # gs'"])
  qed
  moreover have "b # bs = take k g @ drop (length (take k g)) (b # bs)"
    using whole by (cases "length g \<le> k") auto
  ultimately show ?thesis using r g(2) assms(2)
    by (intro exI [of _ "take k g"] exI [of _ ?d]) auto
qed

lemma read_one_before:
  assumes "before rs (b # bs) d"
  shows "\<exists>d'. dx_read 1 d = (([b], None), d') \<and> before rs bs d' \<and> dx_out d' = dx_out d \<and> fin_err (dx_in d') = fin_err (dx_in d)"
proof -
  from read_before [OF assms, of 1] obtain cs d' where
    c: "dx_read 1 d = ((cs, None), d')" "cs \<noteq> []" "length cs \<le> 1" "b # bs = cs @ drop (length cs) (b # bs)"
      "before rs (drop (length cs) (b # bs)) d'" "dx_out d' = dx_out d" "fin_err (dx_in d') = fin_err (dx_in d)" by auto
  then have "cs = [b]" by (cases cs) auto
  with c show ?thesis by auto
qed

lemma discard_before:
  "before rs bs d \<Longrightarrow> length bs < fuel \<Longrightarrow>
     \<exists>d'. discard_more fuel dx_read (length bs) d = (Ret (), d') \<and> before rs [] d' \<and> dx_out d' = dx_out d \<and> fin_err (dx_in d') = fin_err (dx_in d)"
proof (induction fuel arbitrary: bs d)
  case (Suc fuel)
  show ?case
  proof (cases bs)
    case Nil
    then show ?thesis using Suc.prems by simp
  next
    case (Cons b bs')
    have "before rs (b # bs') d" using Suc.prems(1) Cons by simp
    from read_before [OF this, of "min (length bs) 8192"] Cons obtain cs d1 where
      c: "dx_read (min (length bs) 8192) d = ((cs, None), d1)" "cs \<noteq> []" "length cs \<le> length bs"
        "before rs (drop (length cs) bs) d1" "dx_out d1 = dx_out d" "fin_err (dx_in d1) = fin_err (dx_in d)" by auto
    have "length (drop (length cs) bs) < fuel" using Suc.prems(2) c(2,3) by (cases cs) auto
    from Suc.IH [OF c(4) this] c Cons show ?thesis by auto
  qed
qed simp

lemma before_end: "before rs [] d \<Longrightarrow> segs (dx_in d) = rs"
  by (auto simp: before_def)

lemma duplex_address:
  assumes "wire_address a" "seg_content (dx_in d) = encode_address a @ rest" "\<forall>g\<in>set (segs (dx_in d)). g \<noteq> []"
  shows "\<exists>n d'. Address_ReadFrom dx_read zero_address d = (Ret (n, a\<lparr>NetworkType := []\<rparr>), d') \<and>
    seg_content (dx_in d') = rest \<and> dx_out d' = dx_out d"
proof -
  have "seg_ok 257 (dx_in d)" using assms(3) by (simp add: seg_ok_def)
  from duplex.ReadFrom_encode [OF this assms(1,2), of zero_address] show ?thesis
    unfolding duplex.advances_def by (auto simp: zero_address_def)
qed

text \<open>A SOCKS5 client gets its connection. A client that offers any methods, waits for the answer and
  then asks to connect to an address, with its request's first three bytes in one segment and all
  other bytes cut anywhere, is answered \<open>05 00\<close> and the success reply, its connection is queued
  with the requested address, and what remains to be read is exactly what follows the request.\<close>

theorem socks_connect:
  assumes "concat gs = 5 # of_nat (length ms) # ms" "length ms \<le> 255" "\<forall>g\<in>set (gs @ r # rs). g \<noteq> []"
    and "concat (r # rs) = [5, Cmd_Connect, 0] @ encode_address a @ rest" "length r \<ge> 3" "wire_address a"
    and "length (so_connChan srv) < 32" "\<not> so_done srv"
  shows "\<exists>k. socks_accept dx_read dx_write sel \<lparr>dx_in = \<lparr>segs = gs @ r # rs, fin_err = e\<rparr>, dx_out = []\<rparr> srv =
      (Ret Queued, srv\<lparr>so_connChan := so_connChan srv @ [(k, \<lparr>Command = Cmd_Connect, Address = a\<lparr>NetworkType := []\<rparr>\<rparr>)]\<rparr>) \<and>
    seg_content (dx_in k) = rest \<and> dx_out k = [5, 0] @ connect_reply"
proof -
  let ?d = "\<lparr>dx_in = \<lparr>segs = gs @ r # rs, fin_err = e\<rparr>, dx_out = []\<rparr>"
  have d0: "before (r # rs) (5 # of_nat (length ms) # ms) ?d" using assms(1,3) by (auto simp: before_def)
  obtain d1 where d1: "dx_read 1 ?d = (([5], None), d1)" "before (r # rs) (of_nat (length ms) # ms) d1" "dx_out d1 = []"
    using read_one_before [OF d0] by auto
  obtain d2 where d2: "dx_read 1 d1 = (([of_nat (length ms)], None), d2)" "before (r # rs) ms d2" "dx_out d2 = []"
    using read_one_before [OF d1(2)] d1(3) by auto
  obtain d3 where d3: "io_CopyN_Discard dx_read (length ms) d2 = (Ret (), d3)" "before (r # rs) [] d3" "dx_out d3 = []"
    using discard_before [OF d2(2), of "Suc (length ms)"] d2(3) by (auto simp: io_CopyN_Discard_def)
  let ?d4 = "d3\<lparr>dx_out := [5, 0]\<rparr>"
  have w: "write_checked dx_write [5, 0] d3 = (Ret (), ?d4)" using d3(3) by (simp add: write_checked_def dx_write_def)
  have segs3: "segs (dx_in d3) = r # rs" by (rule before_end [OF d3(2)])
  let ?rest = "if length r \<le> 3 then rs else drop 3 r # rs"
  let ?d5 = "?d4\<lparr>dx_in := (dx_in d3)\<lparr>segs := ?rest\<rparr>\<rparr>"
  have r3: "take 3 r = [5, Cmd_Connect, 0]"
  proof -
    have "take 3 (concat (r # rs)) = take 3 r" using assms(5) by simp
    then show ?thesis unfolding assms(4) by simp
  qed
  have d5: "dx_read 3 ?d4 = (([5, Cmd_Connect, 0], None), ?d5)"
    using segs3 r3 by (simp add: dx_read_def seg_read_def)
  have "concat (r # rs) = take 3 r @ concat ?rest" by simp
  with assms(4) r3 have c5: "seg_content (dx_in ?d5) = encode_address a @ rest" by (simp add: seg_content_def)
  have ok5: "\<forall>g\<in>set (segs (dx_in ?d5)). g \<noteq> []" using assms(3) by auto
  obtain n d6 where d6: "Address_ReadFrom dx_read zero_address ?d5 = (Ret (n, a\<lparr>NetworkType := []\<rparr>), d6)"
      "seg_content (dx_in d6) = rest" "dx_out d6 = [5, 0]"
    using duplex_address [OF assms(6) c5 ok5] by auto
  have len: "unat (of_nat (length ms) :: byte) = length ms" by (rule unat_len [OF assms(2)])
  have "handshake dx_read dx_write ?d = (Ret \<lparr>Command = Cmd_Connect, Address = a\<lparr>NetworkType := []\<rparr>\<rparr>, d6)"
    using d1(1) d2(1) d3(1) w d5 d6(1) len by (simp add: handshake_def first_byte_def)
  with d6(2,3) assms(7,8) show ?thesis
    by (auto simp: socks_accept_def dx_write_def select_send_def)
qed

theorem socks_connect_witness:
  "\<exists>k. socks_accept dx_read dx_write True
       \<lparr>dx_in = \<lparr>segs = [[5], [1, 0]] @ [5, Cmd_Connect, 0] # [sample_domain_wire, [7]], fin_err = EOF\<rparr>, dx_out = []\<rparr> (socks_start [] 0) =
     (Ret Queued, (socks_start [] 0)\<lparr>so_connChan := [(k, \<lparr>Command = Cmd_Connect, Address = sample_domain\<lparr>NetworkType := []\<rparr>\<rparr>)]\<rparr>) \<and>
     seg_content (dx_in k) = [7]"
  using socks_connect [of "[[5], [1, 0]]" "[0]" "[5, Cmd_Connect, 0]" "[sample_domain_wire, [7]]" sample_domain "[7]" "socks_start [] 0" True EOF]
    sample_domain_encode sample_domain_wire_address
  by (auto simp: sample_domain_wire_def socks_start_def)

text \<open>The same request with a cut after its first byte is refused: the command byte is taken for the type of
  the address.\<close>

lemma split_request_refused:
  "fst (socks_accept dx_read dx_write True
     \<lparr>dx_in = \<lparr>segs = [[5, 1, 0], [5], [1, 0] @ sample_domain_wire], fin_err = EOF\<rparr>, dx_out = []\<rparr> (socks_start [] 0)) = Ret Dropped"
  by code_simp

section \<open>The adapter hands over the whole stream\<close>

lemma adapter_detect_spec:
  assumes "\<forall>g\<in>set (segs s). g \<noteq> []" "segs s \<noteq> []"
  shows "\<exists>r. adapter_detect seg_read nextSocks s =
      Ret (if hd (seg_content s) = 5 \<and> nextSocks then ToSocks else ToHttp, r) \<and>
    rewind_content seg_content r = seg_content s \<and> \<not> buffering r"
proof -
  obtain g gs where g: "segs s = g # gs" "g \<noteq> []" using assms by (cases "segs s") auto
  then have "hd (seg_content s) = hd g" "take 3 g \<noteq> []" "hd (take 3 g) = hd g" "length (take 3 g) \<le> 3"
    by (cases g; simp add: seg_content_def)+
  moreover have "(case take 3 g of [] \<Rightarrow> 0 | x # _ \<Rightarrow> x) = hd g" using g(2) by (cases g) auto
  ultimately show ?thesis using g
    by (auto simp: adapter_detect_def SetBufferSize_def NewRewindConn_def RewindReader_Read_def seg_read_def Rewind_def
        StopBuffering_def rewind_content_def seg_content_def max_rewind_buffer_def Let_def)
qed

end
