(* ===== verification/Proxy_Relay.thy ===== *)
theory Proxy_Relay
  imports Address_Codec "HOL-Library.Sublist"
begin

text \<open>
  \<open>proxy/proxy.go\<close>: relaying a connection and a packet connection between the accepting tunnel and
  the dialling one, and \<open>proxy/stack.go\<close> with \<open>proxy/server/server.go\<close>: building the stack of
  tunnels. The two copies of a relay run concurrently; the first that ends closes both sides.
\<close>

section \<open>Relaying a connection\<close>

text \<open>One \<open>copyConn\<close>: what its source will still deliver, the error after that (\<open>None\<close> is an
  orderly end), what its destination got, and how it ended.\<close>

record copy_dir =
  cd_src :: bytes
  cd_srcErr :: "go_error option"
  cd_dst :: bytes
  cd_end :: "go_error option option"

record relay =
  re_up :: copy_dir
  re_down :: copy_dir
  re_closed :: bool
  re_cancelled :: bool

definition relay_buffer :: nat where
  "relay_buffer = 64 * 1024"

definition copy_start :: "bytes \<Rightarrow> go_error option \<Rightarrow> copy_dir" where
  "copy_start src err = \<lparr>cd_src = src, cd_srcErr = err, cd_dst = [], cd_end = None\<rparr>"

definition relay_start :: "bytes \<Rightarrow> go_error option \<Rightarrow> bytes \<Rightarrow> go_error option \<Rightarrow> relay" where
  "relay_start up upErr down downErr =
     \<lparr>re_up = copy_start up upErr, re_down = copy_start down downErr, re_closed = False, re_cancelled = False\<rparr>"

text \<open>The steps of one copy. The flag says whether the two connections are closed. A write that fails
  may have delivered a part of the chunk.\<close>

inductive copy_step :: "bool \<Rightarrow> copy_dir \<Rightarrow> copy_dir \<Rightarrow> bool" where
  cp_chunk: "cd_end d = None \<Longrightarrow> 0 < n \<Longrightarrow> n \<le> relay_buffer \<Longrightarrow> cd_src d \<noteq> [] \<Longrightarrow>
    copy_step False d (d\<lparr>cd_src := drop n (cd_src d), cd_dst := cd_dst d @ take n (cd_src d)\<rparr>)"
| cp_write_fails: "cd_end d = None \<Longrightarrow> n \<le> relay_buffer \<Longrightarrow> m \<le> n \<Longrightarrow> cd_src d \<noteq> [] \<Longrightarrow>
    copy_step closed d (d\<lparr>cd_src := drop n (cd_src d), cd_dst := cd_dst d @ take m (cd_src d), cd_end := Some (Some e)\<rparr>)"
| cp_source_ends: "cd_end d = None \<Longrightarrow> cd_src d = [] \<Longrightarrow> copy_step False d (d\<lparr>cd_end := Some (cd_srcErr d)\<rparr>)"
| cp_closed: "cd_end d = None \<Longrightarrow> copy_step True d (d\<lparr>cd_end := Some (Some ErrClosed)\<rparr>)"

text \<open>The relay: either copy makes a step, the proxy is shut down, or the waiting goroutine closes both
  connections because a copy has ended or the proxy was shut down.\<close>

inductive relay_step :: "relay \<Rightarrow> relay \<Rightarrow> bool" where
  rl_up: "copy_step (re_closed r) (re_up r) d \<Longrightarrow> relay_step r (r\<lparr>re_up := d\<rparr>)"
| rl_down: "copy_step (re_closed r) (re_down r) d \<Longrightarrow> relay_step r (r\<lparr>re_down := d\<rparr>)"
| rl_cancel: "relay_step r (r\<lparr>re_cancelled := True\<rparr>)"
| rl_close: "cd_end (re_up r) \<noteq> None \<or> cd_end (re_down r) \<noteq> None \<or> re_cancelled r \<Longrightarrow> relay_step r (r\<lparr>re_closed := True\<rparr>)"

text \<open>A copy has delivered a prefix of its source; what it has not read yet is the source's tail; and if
  it ended without an error, or has not ended, nothing is missing in between.\<close>

definition copy_ok :: "bytes \<Rightarrow> go_error option \<Rightarrow> copy_dir \<Rightarrow> bool" where
  "copy_ok src err d \<longleftrightarrow> cd_srcErr d = err \<and> prefix (cd_dst d) src \<and>
     (cd_end d = None \<longrightarrow> src = cd_dst d @ cd_src d) \<and> (cd_end d = Some None \<longrightarrow> cd_dst d = src \<and> err = None)"

lemma copy_ok_step: "copy_step closed d d' \<Longrightarrow> copy_ok src err d \<Longrightarrow> copy_ok src err d'"
proof (induction rule: copy_step.induct)
  case (cp_write_fails d n m closed e)
  have "prefix (cd_dst d @ take m (cd_src d)) (cd_dst d @ cd_src d)"
    by (simp add: take_is_prefix)
  with cp_write_fails show ?case by (simp add: copy_ok_def)
qed (auto simp: copy_ok_def take_is_prefix)

lemma relay_ok_step:
  assumes "relay_step r r'" "copy_ok up e (re_up r) \<and> copy_ok down e' (re_down r)"
  shows "copy_ok up e (re_up r') \<and> copy_ok down e' (re_down r')"
  using assms by (induction rule: relay_step.induct) (auto intro: copy_ok_step)

lemma relay_ok:
  "relay_step\<^sup>*\<^sup>* (relay_start up e down e') r \<Longrightarrow> copy_ok up e (re_up r) \<and> copy_ok down e' (re_down r)"
proof (induction rule: rtranclp_induct)
  case base
  then show ?case by (simp add: relay_start_def copy_start_def copy_ok_def)
next
  case (step r r')
  show ?case by (rule relay_ok_step [OF step.hyps(2) step.IH])
qed

text \<open>Once something has ended the relay, it can always be wound up.\<close>

definition relay_over :: "relay \<Rightarrow> bool" where
  "relay_over r \<longleftrightarrow> re_closed r \<and> cd_end (re_up r) \<noteq> None \<and> cd_end (re_down r) \<noteq> None"

lemma end_copy:
  assumes "re_closed r"
  shows "\<exists>r'. relay_step\<^sup>*\<^sup>* r r' \<and> re_closed r' \<and> re_down r' = re_down r \<and> cd_end (re_up r') \<noteq> None \<and>
    (cd_end (re_up r) \<noteq> None \<longrightarrow> re_up r' = re_up r)"
proof (cases "cd_end (re_up r)")
  case None
  then have "relay_step r (r\<lparr>re_up := (re_up r)\<lparr>cd_end := Some (Some ErrClosed)\<rparr>\<rparr>)"
    using cp_closed [OF None] rl_up [of r] assms by simp
  with None assms show ?thesis by (intro exI [of _ "r\<lparr>re_up := (re_up r)\<lparr>cd_end := Some (Some ErrClosed)\<rparr>\<rparr>"]) auto
qed (use assms in auto)

lemma end_copy_down:
  assumes "re_closed r"
  shows "\<exists>r'. relay_step\<^sup>*\<^sup>* r r' \<and> re_closed r' \<and> re_up r' = re_up r \<and> cd_end (re_down r') \<noteq> None \<and>
    (cd_end (re_down r) \<noteq> None \<longrightarrow> re_down r' = re_down r)"
proof (cases "cd_end (re_down r)")
  case None
  then have "relay_step r (r\<lparr>re_down := (re_down r)\<lparr>cd_end := Some (Some ErrClosed)\<rparr>\<rparr>)"
    using cp_closed [OF None] rl_down [of r] assms by simp
  with None assms show ?thesis by (intro exI [of _ "r\<lparr>re_down := (re_down r)\<lparr>cd_end := Some (Some ErrClosed)\<rparr>\<rparr>"]) auto
qed (use assms in auto)

lemma wind_up:
  assumes "cd_end (re_up r) \<noteq> None \<or> cd_end (re_down r) \<noteq> None \<or> re_cancelled r"
  shows "\<exists>r'. relay_step\<^sup>*\<^sup>* r r' \<and> relay_over r' \<and> (cd_end (re_up r) \<noteq> None \<longrightarrow> re_up r' = re_up r)"
proof -
  let ?c = "r\<lparr>re_closed := True\<rparr>"
  have c: "relay_step\<^sup>*\<^sup>* r ?c" using rl_close [OF assms] by blast
  obtain r1 where r1: "relay_step\<^sup>*\<^sup>* ?c r1" "re_closed r1" "cd_end (re_up r1) \<noteq> None"
      "cd_end (re_up r) \<noteq> None \<longrightarrow> re_up r1 = re_up r"
    using end_copy [of ?c] by auto
  obtain r2 where "relay_step\<^sup>*\<^sup>* r1 r2" "re_closed r2" "re_up r2 = re_up r1" "cd_end (re_down r2) \<noteq> None"
    using end_copy_down [OF r1(2)] by auto
  with r1 c show ?thesis by (intro exI [of _ r2]) (auto simp: relay_over_def)
qed



text \<open>Half-closing a connection cuts off the answer. Whatever a client sends before it closes its
  sending side, the relay has a run in which the target gets all of it and the answer of the target
  is lost completely, because the first copy that ends closes both connections.\<close>

theorem half_close_truncates:
  "\<exists>r. relay_step\<^sup>*\<^sup>* (relay_start up None down downErr) r \<and> relay_over r \<and> cd_dst (re_up r) = up \<and> cd_dst (re_down r) = []"
proof -
  have chunks: "\<exists>r. relay_step\<^sup>*\<^sup>* (relay_start (ps @ qs) None down downErr) r \<and> re_up r = (copy_start qs None)\<lparr>cd_dst := ps\<rparr> \<and>
      re_down r = copy_start down downErr \<and> \<not> re_closed r" for ps qs
  proof (induction ps arbitrary: qs rule: rev_induct)
    case Nil
    then show ?case by (intro exI [of _ "relay_start qs None down downErr"]) (simp add: relay_start_def copy_start_def)
  next
    case (snoc p ps)
    obtain r where r: "relay_step\<^sup>*\<^sup>* (relay_start (ps @ p # qs) None down downErr) r" "re_up r = (copy_start (p # qs) None)\<lparr>cd_dst := ps\<rparr>"
        "re_down r = copy_start down downErr" "\<not> re_closed r" using snoc.IH by blast
    let ?d = "(copy_start qs None)\<lparr>cd_dst := ps @ [p]\<rparr>"
    have "copy_step False (re_up r) ?d"
      using cp_chunk [of "re_up r" 1] r(2) by (simp add: copy_start_def relay_buffer_def)
    then have "relay_step r (r\<lparr>re_up := ?d\<rparr>)" using rl_up [of r ?d] r(4) by simp
    with r show ?case by (intro exI [of _ "r\<lparr>re_up := ?d\<rparr>"]) auto
  qed
  obtain r where r: "relay_step\<^sup>*\<^sup>* (relay_start up None down downErr) r" "re_up r = (copy_start [] None)\<lparr>cd_dst := up\<rparr>"
      "re_down r = copy_start down downErr" "\<not> re_closed r" using chunks [of up "[]"] by auto
  let ?u = "(copy_start [] None)\<lparr>cd_dst := up, cd_end := Some None\<rparr>"
  let ?r1 = "r\<lparr>re_up := ?u\<rparr>" and ?d = "(copy_start down downErr)\<lparr>cd_end := Some (Some ErrClosed)\<rparr>"
  have "copy_step False (re_up r) ?u" using cp_source_ends [of "re_up r"] r(2) by (simp add: copy_start_def)
  then have "relay_step r ?r1" using rl_up [of r ?u] r(4) by simp
  moreover have "relay_step ?r1 (?r1\<lparr>re_closed := True\<rparr>)" by (rule rl_close) simp
  moreover have "copy_step True (re_down r) ?d" using cp_closed [of "re_down r"] r(3) by (simp add: copy_start_def)
  then have "relay_step (?r1\<lparr>re_closed := True\<rparr>) (?r1\<lparr>re_closed := True, re_down := ?d\<rparr>)"
    using rl_down [of "?r1\<lparr>re_closed := True\<rparr>" ?d] by simp
  ultimately have "relay_step\<^sup>*\<^sup>* (relay_start up None down downErr) (?r1\<lparr>re_closed := True, re_down := ?d\<rparr>)"
    using r(1) by auto
  moreover have "relay_over (?r1\<lparr>re_closed := True, re_down := ?d\<rparr>)" by (simp add: relay_over_def)
  ultimately show ?thesis by (intro exI [of _ "?r1\<lparr>re_closed := True, re_down := ?d\<rparr>"]) (simp add: copy_start_def)
qed

section \<open>Relaying packets\<close>

text \<open>One \<open>copyPacket\<close> on the results of its reads, as long as they last; \<open>writes\<close> are the results of
  its writes. An empty packet ends the copy.\<close>

fun copyPacket ::
  "(go_error + bytes \<times> metadata) list \<Rightarrow> go_error option list \<Rightarrow> (bytes \<times> metadata) list \<times> go_error option option" where
  "copyPacket [] writes = ([], None)"
| "copyPacket (Inr (p, m) # rs) writes =
     (if p = [] then ([], Some None)
      else case writes of
        Some e # _ \<Rightarrow> ([], Some (Some e))
      | ws \<Rightarrow> (case copyPacket rs (tl ws) of (out, e) \<Rightarrow> ((p, m) # out, e)))"
| "copyPacket (Inl e # rs) writes = ([], Some (Some e))"

definition forwardable :: "(go_error + bytes \<times> metadata) \<Rightarrow> bool" where
  "forwardable r = (case r of Inr (p, _) \<Rightarrow> p \<noteq> [] | Inl _ \<Rightarrow> False)"

lemma copyPacket_forwards:
  "\<forall>w\<in>set writes. w = None \<Longrightarrow>
     map Inr (fst (copyPacket rs writes)) = takeWhile forwardable rs \<and>
     (snd (copyPacket rs writes) = None \<longleftrightarrow> list_all forwardable rs)"
proof (induction rs writes rule: copyPacket.induct)
  case (2 p m rs writes)
  have "\<forall>w\<in>set (tl writes). w = None" using "2.prems" by (cases writes) auto
  with 2 show ?case by (auto simp: forwardable_def split: list.splits option.splits prod.splits)
qed (auto simp: forwardable_def)

text \<open>The packet relay forwards what it reads, in order and with its addresses, up to the first failing
  read or the first empty packet: a single UDP datagram without payload, which is a legal packet, ends
  the copy and with it the whole session.\<close>

theorem packet_relay_forwards:
  assumes "\<forall>w\<in>set writes. w = None"
  shows "map Inr (fst (copyPacket rs writes)) = takeWhile forwardable rs \<and>
    (snd (copyPacket rs writes) = None \<longleftrightarrow> list_all forwardable rs) \<and>
    copyPacket (map Inr ps @ Inr ([], m) # rs) [] = copyPacket (map Inr ps @ [Inr ([], m)]) []"
proof -
  have "copyPacket (map Inr ps @ Inr ([], m) # rs) [] = copyPacket (map Inr ps @ [Inr ([], m)]) []"
    by (induction ps) auto
  with copyPacket_forwards [OF assms] show ?thesis by blast
qed

definition sample_meta :: metadata where
  "sample_meta = \<lparr>Command = 0, Address = sample_domain\<rparr>"

theorem packet_relay_forwards_witness:
  "map Inr (fst (copyPacket [Inr ([7], sample_meta), Inr ([], sample_meta), Inr ([8], sample_meta)] [])) =
     [Inr ([7], sample_meta) :: go_error + bytes \<times> metadata]"
  using packet_relay_forwards [of "[]" "[Inr ([7], sample_meta), Inr ([], sample_meta), Inr ([8], sample_meta)]"]
  by (simp add: forwardable_def)

section \<open>Building the server's stack\<close>

text \<open>A node of the stack with its name, its server, whether the proxy accepts from it, and the nodes
  above it. \<open>mk\<close> is \<open>NewServer\<close> of a tunnel; a failure ends the process.\<close>

datatype 'sv stack_node = Stack_Node (sn_name: string) (sn_server: 'sv) (sn_endpoint: bool) (sn_next: "'sv stack_node list")

definition find_next :: "string \<Rightarrow> 'sv stack_node list \<Rightarrow> 'sv stack_node option" where
  "find_next name ns = find (\<lambda>n. sn_name n = name) ns"

definition BuildNext :: "(string \<Rightarrow> 'sv \<Rightarrow> 'sv outcome) \<Rightarrow> string \<Rightarrow> 'sv stack_node \<Rightarrow> 'sv stack_node outcome" where
  "BuildNext mk name n =
     (case find_next name (sn_next n) of
        Some _ \<Rightarrow> Ret n
      | None \<Rightarrow>
          (case mk name (sn_server n) of
             Ret sv \<Rightarrow> Ret (Stack_Node (sn_name n) (sn_server n) (sn_endpoint n) (sn_next n @ [Stack_Node name sv False []]))
           | _ \<Rightarrow> Panic ''log.Fatal''))"

text \<open>A chain of \<open>BuildNext\<close> calls, each on the node the previous one returned, and then setting
  \<open>IsEndpoint\<close> on the last.\<close>

fun build_chain :: "(string \<Rightarrow> 'sv \<Rightarrow> 'sv outcome) \<Rightarrow> string list \<Rightarrow> bool \<Rightarrow> 'sv stack_node \<Rightarrow> 'sv stack_node outcome" where
  "build_chain mk [] ep n = Ret (Stack_Node (sn_name n) (sn_server n) (ep \<or> sn_endpoint n) (sn_next n))"
| "build_chain mk (name # names) ep n =
     (case BuildNext mk name n of
        Ret n1 \<Rightarrow>
          (case find_next name (sn_next n1) of
             None \<Rightarrow> Panic ''unreachable''
           | Some c \<Rightarrow>
               (case build_chain mk names ep c of
                  Ret c' \<Rightarrow> Ret (Stack_Node (sn_name n1) (sn_server n1) (sn_endpoint n1)
                                 (map (\<lambda>x. if sn_name x = name then c' else x) (sn_next n1)))
                | Raise e \<Rightarrow> Raise e | Panic p \<Rightarrow> Panic p | Hang \<Rightarrow> Hang))
      | Raise e \<Rightarrow> Raise e | Panic p \<Rightarrow> Panic p | Hang \<Rightarrow> Hang)"

fun FindAllEndpoints :: "'sv stack_node \<Rightarrow> 'sv list" where
  "FindAllEndpoints (Stack_Node name sv ep ns) =
     (if ep \<or> ns = [] then [sv] else []) @ concat (map FindAllEndpoints ns)"

fun build_chains :: "(string \<Rightarrow> 'sv \<Rightarrow> 'sv outcome) \<Rightarrow> (string list \<times> bool) list \<Rightarrow> 'sv stack_node \<Rightarrow> 'sv stack_node outcome" where
  "build_chains mk [] n = Ret n"
| "build_chains mk ((names, ep) # cs) n =
     (case build_chain mk names ep n of Ret n1 \<Rightarrow> build_chains mk cs n1
      | Raise e \<Rightarrow> Raise e | Panic p \<Rightarrow> Panic p | Hang \<Rightarrow> Hang)"

text \<open>The chains of the server's creator, from the node on which the protocols are stacked.\<close>

definition server_chains :: "bool \<Rightarrow> (string list \<times> bool) list" where
  "server_chains shadowsocks =
     (let ss = (if shadowsocks then [''SHADOWSOCKS''] else []) in
      [(ss @ [''TROJAN'', ''MUX'', ''SIMPLESOCKS''], True), (ss @ [''TROJAN''], True), ([''WEBSOCKET''], False),
       ([''WEBSOCKET''] @ ss @ [''TROJAN'', ''MUX'', ''SIMPLESOCKS''], True), ([''WEBSOCKET''] @ ss @ [''TROJAN''], True)])"

definition server_sources :: "(string \<Rightarrow> 'sv \<Rightarrow> 'sv outcome) \<Rightarrow> bool \<Rightarrow> bool \<Rightarrow> 'sv \<Rightarrow> 'sv list outcome" where
  "server_sources mk plugin shadowsocks transport =
     (let root = Stack_Node ''TRANSPORT'' transport False [];
          built = (if plugin then Ret root
                   else (case BuildNext mk ''TLS'' root of
                           Ret n \<Rightarrow> (case find_next ''TLS'' (sn_next n) of Some c \<Rightarrow> Ret c | None \<Rightarrow> Panic ''unreachable'')
                         | Raise e \<Rightarrow> Raise e | Panic p \<Rightarrow> Panic p | Hang \<Rightarrow> Hang))
      in case built of
           Ret n \<Rightarrow> (case build_chains mk (server_chains shadowsocks) n of
                      Ret t \<Rightarrow> Ret (FindAllEndpoints t) | Raise e \<Rightarrow> Raise e | Panic p \<Rightarrow> Panic p | Hang \<Rightarrow> Hang)
         | Raise e \<Rightarrow> Raise e | Panic p \<Rightarrow> Panic p | Hang \<Rightarrow> Hang)"

text \<open>With a server written as the list of its layers, the proxy accepts from the trojan layer and from
  the multiplexed layer above it, directly and below a websocket, for every configuration.\<close>

lemma server_sources_layers:
  "server_sources (\<lambda>name s. Ret (s @ [name])) plugin shadowsocks [''TRANSPORT''] =
     (let base = ''TRANSPORT'' # (if plugin then [] else [''TLS'']); ss = (if shadowsocks then [''SHADOWSOCKS''] else []) in
      Ret [base @ ss @ [''TROJAN''], base @ ss @ [''TROJAN'', ''MUX'', ''SIMPLESOCKS''],
           base @ [''WEBSOCKET''] @ ss @ [''TROJAN''], base @ [''WEBSOCKET''] @ ss @ [''TROJAN'', ''MUX'', ''SIMPLESOCKS'']])"
  by (cases plugin; cases shadowsocks)
    (simp_all add: server_sources_def server_chains_def BuildNext_def find_next_def Let_def)

end
