(* ===== verification/Field_Validation.thy ===== *)
theory Field_Validation
  imports Go_Net
begin

text \<open>
  The field validators that the handlers of the panel share (\<open>internal/webserver/validation.go\<close>),
  with the parts of Go they rest on: decoding of UTF-8 by \<open>range\<close> over a string, with one
  \<open>RuneError\<close> for every byte that starts no valid sequence, the white space of \<open>unicode.IsSpace\<close> and
  \<open>strings.TrimSpace\<close>. An error is its message, which is not translated.
\<close>

section \<open>UTF-8\<close>

definition RuneError :: nat where
  "RuneError = 0xFFFD"

text \<open>The range of the second byte and the length of a sequence, by its first byte.\<close>

definition lead :: "nat \<Rightarrow> (nat \<times> nat \<times> nat) option" where
  "lead b =
     (if 0xC2 \<le> b \<and> b \<le> 0xDF then Some (2, 0x80, 0xBF)
      else if b = 0xE0 then Some (3, 0xA0, 0xBF)
      else if b = 0xED then Some (3, 0x80, 0x9F)
      else if 0xE1 \<le> b \<and> b \<le> 0xEF then Some (3, 0x80, 0xBF)
      else if b = 0xF0 then Some (4, 0x90, 0xBF)
      else if 0xF1 \<le> b \<and> b \<le> 0xF3 then Some (4, 0x80, 0xBF)
      else if b = 0xF4 then Some (4, 0x80, 0x8F)
      else None)"

definition is_cont :: "nat \<Rightarrow> bool" where
  "is_cont b \<longleftrightarrow> 0x80 \<le> b \<and> b \<le> 0xBF"

text \<open>\<open>utf8.DecodeRuneInString\<close> on a non-empty text: the rune, its width, and whether the encoding
  is valid.\<close>

fun decode_rune :: "nat list \<Rightarrow> nat \<times> nat \<times> bool" where
  "decode_rune [] = (RuneError, 0, True)"
| "decode_rune (b # bs) =
     (if b < 0x80 then (b, 1, True)
      else case lead b of
        None \<Rightarrow> (RuneError, 1, False)
      | Some (n, lo, hi) \<Rightarrow>
          if length bs < n - 1 \<or> \<not> (lo \<le> hd bs \<and> hd bs \<le> hi) \<or> \<not> list_all is_cont (take (n - 1) bs)
          then (RuneError, 1, False)
          else (foldl (\<lambda>r c. r * 64 + (c - 0x80)) (b mod 2 ^ (7 - n)) (take (n - 1) bs), n, True))"

lemma decode_rune_width:
  "bs \<noteq> [] \<Longrightarrow> 1 \<le> fst (snd (decode_rune bs)) \<and> fst (snd (decode_rune bs)) \<le> length bs"
  by (cases bs) (auto simp: lead_def not_less Suc_le_eq split: if_splits)

lemma decode_rune_step: "(r, n, ok) = decode_rune bs \<Longrightarrow> bs \<noteq> [] \<Longrightarrow> 0 < n"
  using decode_rune_width [of bs] by (metis One_nat_def Suc_le_eq fst_conv snd_conv)

function decode_runes :: "nat list \<Rightarrow> (nat \<times> bool) list" where
  "decode_runes [] = []"
| "decode_runes (b # bs) =
     (case decode_rune (b # bs) of (r, n, ok) \<Rightarrow> (r, ok) # decode_runes (drop n (b # bs)))"
  by pat_completeness auto
termination by (relation "measure length") (auto simp del: decode_rune.simps dest!: decode_rune_step)

declare decode_runes.simps [simp del]

definition range_string :: "string \<Rightarrow> (nat \<times> bool) list" where
  "range_string s = decode_runes (map code s)"

definition runes :: "string \<Rightarrow> nat list" where
  "runes s = map fst (range_string s)"

definition ValidString :: "string \<Rightarrow> bool" where
  "ValidString s \<longleftrightarrow> list_all snd (range_string s)"

definition RuneCountInString :: "string \<Rightarrow> nat" where
  "RuneCountInString s = length (range_string s)"

section \<open>White space\<close>

definition IsSpace :: "nat \<Rightarrow> bool" where
  "IsSpace r =
     (if r \<le> 0xFF then r = 9 \<or> r = 10 \<or> r = 11 \<or> r = 12 \<or> r = 13 \<or> r = 32 \<or> r = 0x85 \<or> r = 0xA0
      else r = 0x1680 \<or> 0x2000 \<le> r \<and> r \<le> 0x200A \<or> r = 0x2028 \<or> r = 0x2029 \<or> r = 0x202F \<or>
        r = 0x205F \<or> r = 0x3000)"

function TrimLeft :: "string \<Rightarrow> string" where
  "TrimLeft [] = []"
| "TrimLeft (c # s) =
     (case decode_rune (map code (c # s)) of
        (r, n, _) \<Rightarrow> if IsSpace r then TrimLeft (drop n (c # s)) else c # s)"
  by pat_completeness auto
termination by (relation "measure length") (auto simp del: decode_rune.simps dest!: decode_rune_step)

text \<open>\<open>utf8.DecodeLastRuneInString\<close>: back over at most three continuation bytes.\<close>

definition decode_last :: "nat list \<Rightarrow> nat \<times> nat" where
  "decode_last bs =
     (let n = length bs in
      if n = 0 then (RuneError, 0)
      else if last bs < 0x80 then (last bs, 1)
      else
        let start = (case find (\<lambda>i. \<not> is_cont (bs ! i)) (rev [n - 4 ..< n - 1]) of
              Some i \<Rightarrow> i | None \<Rightarrow> n - 5);
            (r, w, _) = decode_rune (drop start bs)
        in if start + w \<noteq> n then (RuneError, 1) else (r, w))"

lemma decode_last_width: "bs \<noteq> [] \<Longrightarrow> 1 \<le> snd (decode_last bs)"
proof -
  assume bs: "bs \<noteq> []"
  have f: "find P (rev [n - 4 ..< n - 1]) = Some i \<Longrightarrow> i < n" for P and i n :: nat
    by (auto simp: find_Some_iff rev_nth)
  have "start < length bs \<Longrightarrow> 1 \<le> fst (snd (decode_rune (drop start bs)))" for start
    using decode_rune_width [of "drop start bs"] by simp
  moreover have "length bs - 5 < length bs" using bs by simp
  ultimately show ?thesis using f [of _ "length bs"]
    by (auto simp: decode_last_def Let_def split: option.splits prod.splits) (metis One_nat_def fst_conv snd_conv)+
qed

lemma decode_last_step: "(r, n) = decode_last bs \<Longrightarrow> bs \<noteq> [] \<Longrightarrow> 0 < n"
  using decode_last_width [of bs] by (metis One_nat_def Suc_le_eq snd_conv)

function TrimRight :: "string \<Rightarrow> string" where
  "TrimRight [] = []"
| "TrimRight (c # s) =
     (case decode_last (map code (c # s)) of
        (r, n) \<Rightarrow> if IsSpace r then TrimRight (take (length (c # s) - n) (c # s)) else c # s)"
  by pat_completeness auto
termination by (relation "measure length") (auto dest!: decode_last_step)

declare TrimLeft.simps [simp del] TrimRight.simps [simp del]

definition TrimSpace :: "string \<Rightarrow> string" where
  "TrimSpace s = TrimRight (TrimLeft s)"

text \<open>\<open>strings.ContainsAny\<close> and \<open>IndexAny\<close> for a set of ASCII characters.\<close>

definition ContainsAny :: "string \<Rightarrow> string \<Rightarrow> bool" where
  "ContainsAny s cs \<longleftrightarrow> list_ex (\<lambda>c. c \<in> set cs) s"

definition TrimPrefix :: "string \<Rightarrow> string \<Rightarrow> string" where
  "TrimPrefix s p = (if HasPrefix s p then drop (length p) s else s)"

definition TrimSuffix :: "string \<Rightarrow> string \<Rightarrow> string" where
  "TrimSuffix s p = (if HasSuffix s p then take (length s - length p) s else s)"

section \<open>The validators\<close>

definition maxNodeNameLen :: nat where "maxNodeNameLen = 128"
definition maxHostnameLen :: nat where "maxHostnameLen = 253"
definition maxWSPathLen :: nat where "maxWSPathLen = 512"
definition maxUsernameLen :: nat where "maxUsernameLen = 64"

definition is_control :: "nat \<Rightarrow> bool" where
  "is_control r \<longleftrightarrow> r < 0x20 \<or> r = 0x7F \<or> 0x80 \<le> r \<and> r \<le> 0x9F \<or> r = 0x2028 \<or> r = 0x2029"

definition hasControlChars :: "string \<Rightarrow> bool" where
  "hasControlChars s \<longleftrightarrow> list_ex is_control (runes s)"

definition isAlphaNum :: "char \<Rightarrow> bool" where
  "isAlphaNum c \<longleftrightarrow>
     97 \<le> code c \<and> code c \<le> 122 \<or> 65 \<le> code c \<and> code c \<le> 90 \<or> 48 \<le> code c \<and> code c \<le> 57"

definition validate_label :: "string \<Rightarrow> string option" where
  "validate_label label =
     (if label = [] then Some ''empty label''
      else if length label > 63 then Some ''label too long''
      else if hd label = CHR ''-'' \<or> last label = CHR ''-'' then Some ''hyphen at an end of a label''
      else if \<not> list_all (\<lambda>c. isAlphaNum c \<or> c = CHR ''-'' \<or> c = CHR ''_'') label then Some ''illegal character''
      else None)"

fun validate_labels :: "string list \<Rightarrow> string option" where
  "validate_labels [] = None"
| "validate_labels (l # ls) = (case validate_label l of Some e \<Rightarrow> Some e | None \<Rightarrow> validate_labels ls)"

definition validateHostname :: "string \<Rightarrow> string option" where
  "validateHostname host0 =
     (let host = TrimSuffix host0 ''.'' in
      if host = [] then Some ''empty domain name'' else validate_labels (split_at CHR ''.'' host))"

definition validateNodeAddress :: "string \<Rightarrow> string option" where
  "validateNodeAddress address =
     (if address = [] then Some ''empty address''
      else if address \<noteq> TrimSpace address then Some ''surrounding white space''
      else if hasControlChars address then Some ''control characters''
      else if length address > maxHostnameLen then Some ''too long''
      else
        let candidate = TrimSuffix (TrimPrefix address ''['') '']'' in
        if ParseIP candidate \<noteq> [] then None
        else validateHostname address)"

definition validateSNI :: "string \<Rightarrow> string option" where
  "validateSNI sni =
     (if sni = [] then None
      else if sni \<noteq> TrimSpace sni then Some ''surrounding white space''
      else if hasControlChars sni then Some ''control characters''
      else if length sni > maxHostnameLen then Some ''too long''
      else if ParseIP sni \<noteq> [] then None
      else validateHostname sni)"

definition validateWSPath :: "string \<Rightarrow> string option" where
  "validateWSPath path =
     (if path = [] then None
      else if \<not> HasPrefix path ''/'' then Some ''no leading slash''
      else if hasControlChars path then Some ''control characters''
      else if length path > maxWSPathLen then Some ''too long''
      else if ContainsAny path [CHR '' '', CHR 0x09] then Some ''blank''
      else if ContainsAny path ''?#'' then Some ''query or fragment''
      else None)"

definition htmlMetaChars :: string where
  "htmlMetaChars = [CHR ''<'', CHR ''>'', CHR 0x22, CHR 0x27, CHR ''&'']"

definition validateNodeName :: "string \<Rightarrow> string option" where
  "validateNodeName nm =
     (if nm = [] then Some ''empty name''
      else if hasControlChars nm then Some ''control characters''
      else if \<not> ValidString nm then Some ''invalid UTF-8''
      else if RuneCountInString nm > maxNodeNameLen then Some ''too long''
      else if TrimSpace nm = [] then Some ''white space only''
      else if ContainsAny nm htmlMetaChars then Some ''HTML metacharacter''
      else None)"

definition forbidden_name_chars :: string where
  "forbidden_name_chars = [CHR ''/'', CHR 0x5C, CHR '':'', CHR ''*'', CHR ''?'', CHR 0x22, CHR ''<'', CHR ''>'', CHR ''|'']"

definition validateUsername :: "string \<Rightarrow> string option" where
  "validateUsername username =
     (if username = [] then Some ''empty name''
      else if \<not> ValidString username then Some ''invalid UTF-8''
      else if RuneCountInString username > maxUsernameLen then Some ''too long''
      else if hasControlChars username then Some ''control characters''
      else if list_ex (\<lambda>r. IsSpace r \<or> r \<in> set (map code forbidden_name_chars)) (runes username)
      then Some ''illegal character''
      else None)"

definition validateQuota :: "int \<Rightarrow> string option" where
  "validateQuota quota = (if quota < - 1 then Some ''quota below -1'' else None)"

section \<open>ASCII bytes are never hidden\<close>

text \<open>No valid sequence swallows a byte below 128, so every such byte of a text is one of its runes.\<close>

lemma decode_rune_ascii:
  assumes "decode_rune bs = (r, n, ok)" "b \<in> set (take n bs)" "b < 0x80"
  shows "r = b"
proof -
  obtain x xs where bs: "bs = x # xs" using assms by (cases bs) auto
  show ?thesis
  proof (cases "x < 0x80")
    case True
    then show ?thesis using assms bs by auto
  next
    case False
    then have "b \<in> set (take (n - 1) xs)" using assms bs by (cases n) auto
    moreover from this have "0 < n - 1" by (cases "n - 1") auto
    ultimately have "list_all is_cont (take (n - 1) xs)"
      using assms(1) bs False by (auto split: if_splits option.splits prod.splits)
    then have "is_cont b" using \<open>b \<in> set (take (n - 1) xs)\<close> by (simp add: list_all_iff)
    then show ?thesis using assms(3) by (simp add: is_cont_def)
  qed
qed

lemma decode_runes_ascii: "b \<in> set bs \<Longrightarrow> b < 0x80 \<Longrightarrow> b \<in> fst ` set (decode_runes bs)"
proof (induction bs rule: decode_runes.induct)
  case (2 x xs)
  obtain r n ok where d: "decode_rune (x # xs) = (r, n, ok)" by (metis prod_cases3)
  have rs: "decode_runes (x # xs) = (r, ok) # decode_runes (drop n (x # xs))"
    using d by (simp add: decode_runes.simps(2) del: decode_rune.simps)
  have "b \<in> set (take n (x # xs)) \<union> set (drop n (x # xs))" using 2(2) by (metis append_take_drop_id set_append)
  then show ?case
  proof
    assume "b \<in> set (take n (x # xs))"
    then show ?thesis using decode_rune_ascii [OF d _ 2(3)] rs by auto
  next
    assume "b \<in> set (drop n (x # xs))"
    then show ?thesis using 2(1) [OF d [symmetric] refl _ 2(3)] rs by auto
  qed
qed simp

lemma runes_ascii: "c \<in> set s \<Longrightarrow> code c < 0x80 \<Longrightarrow> code c \<in> set (runes s)"
  using decode_runes_ascii [of "code c" "map code s"] by (auto simp: runes_def range_string_def)

lemma no_control_bytes: "\<not> hasControlChars s \<Longrightarrow> c \<in> set s \<Longrightarrow> 32 \<le> code c \<and> code c \<noteq> 127"
  using runes_ascii [of c s]
  by (cases "code c < 0x80") (auto simp: hasControlChars_def list_ex_iff is_control_def)

section \<open>Host names\<close>

text \<open>The reference: non-empty labels of at most 63 letters, digits, hyphens and underscores, no hyphen at
  an end, joined by dots, perhaps with one dot at the end.\<close>

definition good_label :: "string \<Rightarrow> bool" where
  "good_label l \<longleftrightarrow> l \<noteq> [] \<and> length l \<le> 63 \<and> hd l \<noteq> CHR ''-'' \<and> last l \<noteq> CHR ''-'' \<and>
     (\<forall>c \<in> set l. isAlphaNum c \<or> c = CHR ''-'' \<or> c = CHR ''_'')"

fun join_dots :: "string list \<Rightarrow> string" where
  "join_dots [] = []"
| "join_dots [l] = l"
| "join_dots (l # ls) = l @ CHR ''.'' # join_dots ls"

definition hostname :: "string \<Rightarrow> bool" where
  "hostname h \<longleftrightarrow> (\<exists>ls. ls \<noteq> [] \<and> (\<forall>l \<in> set ls. good_label l) \<and>
     (h = join_dots ls \<or> h = join_dots ls @ ''.''))"

lemma validate_label_iff: "validate_label l = None \<longleftrightarrow> good_label l"
  by (auto simp: validate_label_def good_label_def list_all_iff)

lemma validate_labels_iff: "validate_labels ls = None \<longleftrightarrow> (\<forall>l \<in> set ls. good_label l)"
proof (induction ls)
  case (Cons l ls)
  then show ?case using validate_label_iff [of l] by (auto split: option.splits)
qed simp

lemma split_at_ne [simp]: "split_at c s \<noteq> []"
  by (cases s) (auto split: list.splits)

lemma join_split: "join_dots (split_at CHR ''.'' s) = s"
proof (induction s)
  case (Cons x s)
  obtain w ws where w: "split_at CHR ''.'' s = w # ws" using split_at_ne by (metis list.exhaust)
  then show ?case using Cons by (cases ws) auto
qed simp

lemma split_no_dot: "CHR ''.'' \<notin> set l \<Longrightarrow> split_at CHR ''.'' (l @ CHR ''.'' # s) = l # split_at CHR ''.'' s"
  by (induction l) auto

lemma split_single: "CHR ''.'' \<notin> set l \<Longrightarrow> split_at CHR ''.'' l = [l]"
  by (induction l) auto

lemma split_join:
  "ls \<noteq> [] \<Longrightarrow> \<forall>l \<in> set ls. CHR ''.'' \<notin> set l \<Longrightarrow> split_at CHR ''.'' (join_dots ls) = ls"
  by (induction ls rule: join_dots.induct) (auto simp: split_no_dot split_single)

lemma good_label_no_dot: "good_label l \<Longrightarrow> CHR ''.'' \<notin> set l"
  by (auto simp: good_label_def isAlphaNum_def code_def)

lemma join_dots_last: "ls \<noteq> [] \<Longrightarrow> \<forall>l \<in> set ls. good_label l \<Longrightarrow> join_dots ls \<noteq> [] \<and> last (join_dots ls) \<noteq> CHR ''.''"
proof (induction ls rule: join_dots.induct)
  case (2 l)
  then have "l \<noteq> []" "CHR ''.'' \<notin> set l" using good_label_no_dot by (auto simp: good_label_def)
  then show ?case using last_in_set by force
qed auto

lemma strip_dot: "TrimSuffix h ''.'' = (if h \<noteq> [] \<and> last h = CHR ''.'' then butlast h else h)"
proof -
  have "HasSuffix h ''.'' \<longleftrightarrow> h \<noteq> [] \<and> last h = CHR ''.''"
    by (auto simp: HasSuffix_iff) (metis append_butlast_last_id)
  then show ?thesis by (simp add: TrimSuffix_def butlast_conv_take)
qed

lemma validateHostname_join:
  assumes "ls \<noteq> []" "\<forall>l \<in> set ls. good_label l" "TrimSuffix h ''.'' = join_dots ls"
  shows "validateHostname h = None"
  using assms join_dots_last [OF assms(1,2)] split_join [OF assms(1)] good_label_no_dot
  by (simp add: validateHostname_def Let_def validate_labels_iff)

section \<open>Properties\<close>

text \<open>C34. The host name check is the DNS grammar: a name is accepted exactly when it consists of non-empty
  labels of at most 63 letters, digits, hyphens and underscores, with no hyphen at an end of a label,
  joined by single dots and perhaps followed by one dot.\<close>

theorem validateHostname_is_grammar: "validateHostname h = None \<longleftrightarrow> hostname h"
proof
  assume ok: "validateHostname h = None"
  let ?t = "TrimSuffix h ''.''" and ?ls = "split_at CHR ''.'' (TrimSuffix h ''.'')"
  have "\<forall>l \<in> set ?ls. good_label l"
    using ok by (simp add: validateHostname_def Let_def validate_labels_iff split: if_splits)
  moreover have "h = join_dots ?ls \<or> h = join_dots ?ls @ ''.''"
    unfolding join_split strip_dot by (metis append_butlast_last_id)
  ultimately show "hostname h" unfolding hostname_def using split_at_ne by blast
next
  assume "hostname h"
  then obtain ls where ls: "ls \<noteq> []" "\<forall>l \<in> set ls. good_label l" "h = join_dots ls \<or> h = join_dots ls @ ''.''"
    unfolding hostname_def by blast
  then have "TrimSuffix h ''.'' = join_dots ls" using join_dots_last [OF ls(1,2)] by (auto simp: strip_dot)
  then show "validateHostname h = None" by (rule validateHostname_join [OF ls(1,2)])
qed

text \<open>C33. Accepted fields carry no injection. Whatever bytes an administrator submits, a user name, node
  name, node address, SNI or WebSocket path that passes its validator has no control byte (so no line
  break and no NUL) and a bounded length; a user name has none of the characters that end a path component
  or a share link, a node name none that ends an HTML element or attribute, and a path is absolute
  without blank, query or fragment.\<close>

theorem accepted_fields_safe:
  assumes "validateUsername user = None" "validateNodeName name = None" "validateNodeAddress addr = None"
    "validateSNI sni = None" "validateWSPath path = None"
  shows "(\<forall>c \<in> set (user @ name @ addr @ sni @ path). 32 \<le> code c \<and> code c \<noteq> 127) \<and>
    length (runes user) \<le> 64 \<and> length (runes name) \<le> 128 \<and>
    length addr \<le> 253 \<and> length sni \<le> 253 \<and> length path \<le> 512 \<and>
    set user \<inter> set ('' '' @ forbidden_name_chars) = {} \<and> set name \<inter> set htmlMetaChars = {} \<and>
    set path \<inter> set '' ?#'' = {} \<and> (path \<noteq> [] \<longrightarrow> hd path = CHR ''/'')"
proof -
  have e: "\<not> hasControlChars []" by (simp add: hasControlChars_def runes_def range_string_def decode_runes.simps)
  have nc: "\<not> hasControlChars user" "\<not> hasControlChars name" "\<not> hasControlChars addr"
      "\<not> hasControlChars sni" "\<not> hasControlChars path"
    using assms by (auto simp: validateUsername_def validateNodeName_def validateNodeAddress_def
        validateSNI_def validateWSPath_def e split: if_splits)
  have "\<forall>c \<in> set (user @ name @ addr @ sni @ path). 32 \<le> code c \<and> code c \<noteq> 127"
    using nc no_control_bytes by auto
  moreover have "length (runes user) \<le> 64" "length (runes name) \<le> 128"
    using assms(1,2) by (auto simp: validateUsername_def validateNodeName_def RuneCountInString_def runes_def
        maxUsernameLen_def maxNodeNameLen_def not_less split: if_splits)
  moreover have "length addr \<le> 253" "length sni \<le> 253" "length path \<le> 512"
    using assms(3-5) by (auto simp: validateNodeAddress_def validateSNI_def validateWSPath_def
        maxHostnameLen_def maxWSPathLen_def not_less split: if_splits)
  moreover have "set user \<inter> set ('' '' @ forbidden_name_chars) = {}"
  proof -
    have "\<forall>r \<in> set (runes user). \<not> (IsSpace r \<or> r \<in> set (map code forbidden_name_chars))"
      using assms(1) by (auto simp: validateUsername_def list_ex_iff split: if_splits)
    moreover have "\<forall>c \<in> set ('' '' @ forbidden_name_chars). code c < 0x80 \<and> (IsSpace (code c) \<or> code c \<in> set (map code forbidden_name_chars))"
      by (simp add: forbidden_name_chars_def code_def IsSpace_def)
    ultimately show ?thesis using runes_ascii by blast
  qed
  moreover have "set name \<inter> set htmlMetaChars = {}"
    using assms(2) by (auto simp: validateNodeName_def ContainsAny_def list_ex_iff split: if_splits)
  moreover have "set path \<inter> set '' ?#'' = {}" "path \<noteq> [] \<longrightarrow> hd path = CHR ''/''"
    using assms(5) by (cases path; auto simp: validateWSPath_def ContainsAny_def list_ex_iff HasPrefix_def split: if_splits)+
  ultimately show ?thesis by blast
qed

theorem accepted_fields_safe_witness:
  "validateUsername ''u'' = None \<and> validateNodeName ''n'' = None \<and> validateNodeAddress ''h'' = None \<and>
   validateSNI ''s'' = None \<and> validateWSPath ''/'' = None \<and> length (runes ''u'') \<le> 64"
proof -
  have "validateUsername ''u'' = None" by code_simp
  moreover have "validateNodeName ''n'' = None" by code_simp
  moreover have "validateNodeAddress ''h'' = None" by code_simp
  moreover have "validateSNI ''s'' = None" by code_simp
  moreover have "validateWSPath ''/'' = None" by code_simp
  ultimately show ?thesis using accepted_fields_safe by blast
qed

end
