(* ===== verification/Admin_Workers.thy ===== *)
theory Admin_Workers
  imports User_Policy Field_Validation
begin

text \<open>
  The background workers of the management server (\<open>internal/webserver/workers.go\<close>):
  \<open>syncEmbeddedTrafficOnce\<close>, which moves the meters of the authenticators in the same process to the
  user table, and \<open>runScheduledTrafficReset\<close>, the monthly reset. A ticker is the sequence of its ticks.
\<close>

section \<open>Embedded traffic\<close>

text \<open>A meter is named by the position of its authenticator in \<open>s.auths\<close> and its place in the heap.\<close>

type_synonym meter = "nat \<times> nat"

definition meters :: "mem_auth list \<Rightarrow> meter list" where
  "meters auths = concat (map (\<lambda>i. map (Pair i) (ListUsers (auths ! i))) [0 ..< length auths])"

definition meter_of :: "mem_auth list \<Rightarrow> meter \<Rightarrow> mem_user" where
  "meter_of auths m = heap (auths ! fst m) ! snd m"

record collectedTraffic =
  ct_user :: meter
  ct_sent :: u64
  ct_recv :: u64

text \<open>Phase 1: the readings per user hash, and those of every single meter.\<close>

definition snapshot_of :: "traffic_map \<Rightarrow> string \<Rightarrow> traffic" where
  "snapshot_of snaps h = (case map_of snaps h of None \<Rightarrow> \<lparr>Up = 0, Down = 0\<rparr> | Some t \<Rightarrow> t)"

fun collect_embedded ::
  "mem_auth list \<Rightarrow> meter list \<Rightarrow> traffic_map \<Rightarrow> collectedTraffic list \<Rightarrow>
   store_error + traffic_map \<times> collectedTraffic list" where
  "collect_embedded auths [] snaps perUser = Inr (snaps, perUser)"
| "collect_embedded auths (m # ms) snaps perUser =
     (case GetTraffic (meter_of auths m) of (s, r) \<Rightarrow>
      if s = 0 \<and> r = 0 then collect_embedded auths ms snaps perUser
      else
        let h = hash (meter_of auths m); cur = snapshot_of snaps h in
        case addTrafficTotals (Up cur) r of
          Inl e \<Rightarrow> Inl e
        | Inr up \<Rightarrow>
            (case addTrafficTotals (Down cur) s of
               Inl e \<Rightarrow> Inl e
             | Inr down \<Rightarrow>
                 collect_embedded auths ms (AList.update h \<lparr>Up = up, Down = down\<rparr> snaps)
                   (perUser @ [\<lparr>ct_user = m, ct_sent = s, ct_recv = r\<rparr>])))"

text \<open>Phase 2: the increments are computed first, then written, in one transaction.\<close>

fun embedded_increments :: "traffic_map \<Rightarrow> store_error + (string \<times> traffic_increment) list" where
  "embedded_increments [] = Inr []"
| "embedded_increments ((h, t) # rest) =
     (case newTrafficIncrement (Up t) (Down t) 1 of
        Inl e \<Rightarrow> Inl e
      | Inr i \<Rightarrow> (case embedded_increments rest of Inl e \<Rightarrow> Inl e | Inr js \<Rightarrow> Inr ((h, i) # js)))"

definition embedded_transaction :: "bool \<Rightarrow> traffic_map \<Rightarrow> traffic_db \<Rightarrow> store_error + traffic_db" where
  "embedded_transaction dbDown snaps db =
     (case embedded_increments snaps of
        Inl e \<Rightarrow> Inl e
      | Inr js \<Rightarrow> if dbDown then Inl (DbError ''database'') else persist_all js db)"

definition on_meter :: "meter \<Rightarrow> (mem_user \<Rightarrow> mem_user) \<Rightarrow> mem_auth list \<Rightarrow> mem_auth list" where
  "on_meter m f auths = auths[fst m := on_user (snd m) f (auths ! fst m)]"

text \<open>Phase 3.\<close>

definition subtract_collected :: "collectedTraffic list \<Rightarrow> mem_auth list \<Rightarrow> mem_auth list" where
  "subtract_collected per auths =
     fold (\<lambda>c. on_meter (ct_user c) (SubtractTraffic (ct_sent c) (ct_recv c))) per auths"

text \<open>Connections keep counting while the worker runs: phase 1 reads \<open>auths\<close>, phase 3 finds \<open>mid\<close>.\<close>

definition syncEmbeddedTrafficOnce ::
  "bool \<Rightarrow> mem_auth list \<Rightarrow> mem_auth list \<Rightarrow> traffic_db \<Rightarrow> store_error option \<times> mem_auth list \<times> traffic_db" where
  "syncEmbeddedTrafficOnce dbDown auths mid db =
     (case collect_embedded auths (meters auths) [] [] of
        Inl e \<Rightarrow> (Some e, mid, db)
      | Inr (snaps, perUser) \<Rightarrow>
          if length snaps = 0 then (None, mid, db)
          else case embedded_transaction dbDown snaps db of
            Inl e \<Rightarrow> (Some e, mid, db)
          | Inr db' \<Rightarrow> (None, subtract_collected perUser mid, db'))"

text \<open>One tick of \<open>trafficSyncWorker\<close>.\<close>

definition trafficSync_tick ::
  "bool \<Rightarrow> mem_auth list \<Rightarrow> mem_auth list \<Rightarrow> traffic_db \<Rightarrow> mem_auth list \<times> traffic_db" where
  "trafficSync_tick dbDown auths mid db =
     (if length auths = 0 then (mid, db) else snd (syncEmbeddedTrafficOnce dbDown auths mid db))"

section \<open>The monthly reset\<close>

record date =
  da_year :: nat
  da_month :: nat
  da_day :: nat

text \<open>\<open>Format("2006-01")\<close>.\<close>

definition format_month :: "date \<Rightarrow> string" where
  "format_month d = zero_pad 4 (da_year d) @ ''-'' @ zero_pad 2 (da_month d)"

record reset_db =
  rd_config :: "(string \<times> string) list"
  rd_users :: "(string \<times> user_row) list"

definition clear_row :: "user_row \<Rightarrow> user_row" where
  "clear_row r = r\<lparr>row_used := 0, row_upload := 0, row_download := 0\<rparr>"

text \<open>One tick: the two readings of the clock and whether the three accesses of the database succeed.\<close>

record reset_tick =
  rt_now :: date
  rt_now2 :: date
  rt_readDay :: bool
  rt_readLast :: bool
  rt_commit :: bool

definition runScheduledTrafficReset :: "reset_tick \<Rightarrow> reset_db \<Rightarrow> reset_db" where
  "runScheduledTrafficReset t db =
     (if \<not> rt_readDay t then db
      else case map_of (rd_config db) ''traffic_reset_day'' of
        None \<Rightarrow> db
      | Some v \<Rightarrow>
          (case ParseInt 64 (TrimSpace v) of
             None \<Rightarrow> db
           | Some resetDay \<Rightarrow>
               if resetDay \<le> 0 \<or> int (da_day (rt_now t)) \<noteq> resetDay then db
               else if \<not> rt_readLast t then db
               else
                 let lastResetMonth =
                       (case map_of (rd_config db) ''last_reset_month'' of None \<Rightarrow> [] | Some m \<Rightarrow> m);
                     currentMonth = format_month (rt_now2 t)
                 in if lastResetMonth = currentMonth then db
                    else if \<not> rt_commit t then db
                    else db\<lparr>rd_users := map (\<lambda>(h, r). (h, clear_row r)) (rd_users db),
                            rd_config := AList.update ''last_reset_month'' currentMonth (rd_config db)\<rparr>))"

section \<open>The meters, one by one\<close>

lemma addTrafficTotals_exact: "addTrafficTotals a b = Inr c \<Longrightarrow> uint c = uint a + uint b"
proof -
  assume "addTrafficTotals a b = Inr c"
  then have c: "c = a + b" "\<not> a > (- 1) - b" by (auto simp: addTrafficTotals_def split: if_splits)
  have m: "uint (- 1 :: u64) = 2 ^ 64 - 1" by (simp add: unsigned_minus_1_eq_mask mask_eq_exp_minus_1)
  have "b \<le> - 1" by simp
  then have "uint (- 1 - b) = 2 ^ 64 - 1 - uint b" using m by (subst uint_sub_lem [THEN iffD1]) (simp_all add: word_le_def)
  then have "uint a + uint b < 2 ^ LENGTH(64)" using c(2) by (simp add: word_less_def)
  then show ?thesis using c(1) uint_add_lem [of a b] by simp
qed

definition dir_meter :: "bool \<Rightarrow> mem_user \<Rightarrow> int" where
  "dir_meter up u = uint (if up then recv u else sent u)"

definition pending_in :: "bool \<Rightarrow> mem_auth list \<Rightarrow> meter list \<Rightarrow> string \<Rightarrow> int" where
  "pending_in up auths ms h =
     (\<Sum>m\<leftarrow>ms. if hash (meter_of auths m) = h then dir_meter up (meter_of auths m) else 0)"

text \<open>What the meters of a user still hold, in one direction.\<close>

definition pending :: "bool \<Rightarrow> mem_auth list \<Rightarrow> string \<Rightarrow> int" where
  "pending up auths h = pending_in up auths (meters auths) h"

definition snap_amount :: "bool \<Rightarrow> traffic_map \<Rightarrow> string \<Rightarrow> int" where
  "snap_amount up snaps h = dir_amount up (snapshot_of snaps h)"

lemma snap_amount_amount: "snap_amount up snaps h = amount up snaps h"
  by (simp add: snap_amount_def amount_def snapshot_of_def dir_amount_def split: option.splits)

lemma collect_amount:
  "collect_embedded auths ms snaps per = Inr (snaps', per') \<Longrightarrow>
   amount up snaps' h = amount up snaps h + pending_in up auths ms h"
proof (induction auths ms snaps per rule: collect_embedded.induct)
  case (2 auths m ms snaps per)
  let ?u = "meter_of auths m"
  show ?case
  proof (cases "sent ?u = 0 \<and> recv ?u = 0")
    case True
    then show ?thesis using 2 by (auto simp: GetTraffic_def pending_in_def dir_meter_def)
  next
    case False
    let ?c = "snapshot_of snaps (hash ?u)"
    obtain a b where ab: "addTrafficTotals (Up ?c) (recv ?u) = Inr a" "addTrafficTotals (Down ?c) (sent ?u) = Inr b"
        "collect_embedded auths ms (AList.update (hash ?u) \<lparr>Up = a, Down = b\<rparr> snaps)
          (per @ [\<lparr>ct_user = m, ct_sent = sent ?u, ct_recv = recv ?u\<rparr>]) = Inr (snaps', per')"
      using 2(3) False by (auto simp: GetTraffic_def Let_def split: sum.splits)
    have "amount up snaps' h = amount up (AList.update (hash ?u) \<lparr>Up = a, Down = b\<rparr> snaps) h + pending_in up auths ms h"
      using 2(2) [OF _ _ _ _ ab(1,2) ab(3)] False by (simp add: GetTraffic_def)
    moreover have "amount up (AList.update (hash ?u) \<lparr>Up = a, Down = b\<rparr> snaps) h =
        amount up snaps h + (if hash ?u = h then dir_meter up ?u else 0)"
      using ab(1,2) [THEN addTrafficTotals_exact]
      by (auto simp: snap_amount_amount [symmetric] snap_amount_def snapshot_of_def update_conv' dir_amount_def
          dir_meter_def)
    ultimately show ?thesis by (simp add: pending_in_def)
  qed
qed (simp add: pending_in_def)

lemma collect_keys:
  "collect_embedded auths ms snaps per = Inr (snaps', per') \<Longrightarrow> distinct (map fst snaps) \<Longrightarrow> distinct (map fst snaps')"
  by (induction auths ms snaps per rule: collect_embedded.induct)
    (auto simp: Let_def distinct_update split: sum.splits if_splits prod.splits)

definition reading :: "mem_auth list \<Rightarrow> meter \<Rightarrow> collectedTraffic" where
  "reading auths m = \<lparr>ct_user = m, ct_sent = sent (meter_of auths m), ct_recv = recv (meter_of auths m)\<rparr>"

lemma collect_readings:
  "collect_embedded auths ms snaps per = Inr (snaps', per') \<Longrightarrow>
   per' = per @ map (reading auths) (filter (\<lambda>m. \<not> (sent (meter_of auths m) = 0 \<and> recv (meter_of auths m) = 0)) ms)"
  by (induction auths ms snaps per rule: collect_embedded.induct)
    (auto simp: Let_def GetTraffic_def reading_def split: sum.splits if_splits)



lemma embedded_increments_effect:
  "embedded_increments snaps = Inr js \<Longrightarrow> map fst js = map fst snaps \<and>
   (case map_of snaps h of None \<Rightarrow> map_of js h = None
    | Some t \<Rightarrow> \<exists>i. map_of js h = Some i \<and> newTrafficIncrement (Up t) (Down t) 1 = Inr i)"
  by (induction snaps arbitrary: js rule: embedded_increments.induct)
    (auto split: sum.splits option.splits)

lemma persist_all_skip: "persist_all js db = persist_all (filter (\<lambda>j. fst j \<noteq> []) js) db"
  by (induction js db rule: persist_all.induct)
    (auto simp: persistTrafficIncrement_def split: sum.splits)

lemma embedded_transaction_effect:
  assumes "embedded_transaction dbDown snaps db = Inr db'" "distinct (map fst snaps)" "h \<noteq> []"
  shows "charged up db' h = charged up db h + (if map_of (rows db) h = None then 0 else amount up snaps h)"
proof -
  obtain js where js: "embedded_increments snaps = Inr js" "persist_all (filter (\<lambda>j. fst j \<noteq> []) js) db = Inr db'"
    using assms(1) persist_all_skip by (auto simp: embedded_transaction_def split: sum.splits if_splits)
  note E = embedded_increments_effect [OF js(1), of h]
  have "distinct (map fst (filter (\<lambda>j. fst j \<noteq> []) js))" using E assms(2) by (simp add: distinct_map_filter)
  moreover have f: "map_of (filter (\<lambda>j. fst j \<noteq> []) js) h = map_of js h" using assms(3) by (induction js) auto
  moreover have no_empty: "[] \<notin> fst ` set (filter (\<lambda>j. fst j \<noteq> []) js)" by auto
  ultimately have "map_of (rows db') h =
      (case map_of js h of None \<Rightarrow> map_of (rows db) h | Some i \<Rightarrow> map_option (row_add i) (map_of (rows db) h))"
    using persist_all_effect [OF js(2) _ no_empty, of h] by simp
  then show ?thesis using E newTrafficIncrement_one
    by (cases "map_of snaps h"; cases "map_of (rows db) h")
      (fastforce simp: charged_def amount_def dir_amount_def dir_row_def row_add_def)+
qed

text \<open>Subtraction acts on each meter alone.\<close>

definition valid_meter :: "mem_auth list \<Rightarrow> meter \<Rightarrow> bool" where
  "valid_meter auths m \<longleftrightarrow> fst m < length auths \<and> snd m < length (heap (auths ! fst m))"

lemma on_meter_shape [simp]:
  "length (on_meter m f auths) = length auths"
  "users (on_meter m f auths ! i) = users (auths ! i)"
  "length (heap (on_meter m f auths ! i)) = length (heap (auths ! i))"
proof -
  show "length (on_meter m f auths) = length auths" by (simp add: on_meter_def)
  have "on_meter m f auths ! i = (if i = fst m \<and> i < length auths then on_user (snd m) f (auths ! i) else auths ! i)"
    by (cases "fst m < length auths") (auto simp: on_meter_def list_update_beyond)
  then show "users (on_meter m f auths ! i) = users (auths ! i)"
    "length (heap (on_meter m f auths ! i)) = length (heap (auths ! i))"
    by (simp_all add: on_user_def)
qed

lemma on_meter_valid [simp]: "valid_meter (on_meter m f auths) k = valid_meter auths k"
  by (simp add: valid_meter_def)

lemma meters_on_meter [simp]: "meters (on_meter m f auths) = meters auths"
  by (simp add: meters_def ListUsers_def)

lemma meter_of_on_meter:
  "valid_meter auths m \<Longrightarrow> meter_of (on_meter m f auths) k = (if k = m then f (meter_of auths m) else meter_of auths k)"
  by (cases k; cases m) (auto simp: valid_meter_def meter_of_def on_meter_def on_user_def nth_list_update)

lemma subtract_meters [simp]: "meters (subtract_collected per auths) = meters auths"
  unfolding subtract_collected_def by (induction per arbitrary: auths) simp_all

lemma subtract_meter_of:
  assumes "distinct ms" "\<forall>m \<in> set ms. valid_meter mid m"
  shows "meter_of (subtract_collected (map (reading auths) ms) mid) k =
    (if k \<in> set ms then SubtractTraffic (sent (meter_of auths k)) (recv (meter_of auths k)) (meter_of mid k)
     else meter_of mid k)"
  using assms unfolding subtract_collected_def
  by (induction ms arbitrary: mid) (auto simp: reading_def meter_of_on_meter)

lemma distinct_tagged:
  "distinct xs \<Longrightarrow> \<forall>x \<in> set xs. distinct (f x) \<Longrightarrow> distinct (concat (map (\<lambda>x. map (Pair x) (f x)) xs))"
  by (induction xs) (auto simp: distinct_map inj_on_def)

lemma meters_distinct: "\<forall>a \<in> set auths. auth_inv a \<Longrightarrow> distinct (meters auths)"
  unfolding meters_def by (rule distinct_tagged) (simp_all add: ListUsers_def auth_inv_def)

lemma meters_valid: "\<forall>a \<in> set auths. auth_inv a \<Longrightarrow> m \<in> set (meters auths) \<Longrightarrow> valid_meter auths m"
  by (fastforce simp: meters_def valid_meter_def ListUsers_def auth_inv_def)

text \<open>The authenticators after some time of counting.\<close>

definition grown :: "mem_auth list \<Rightarrow> mem_auth list \<Rightarrow> bool" where
  "grown auths mid \<longleftrightarrow> length mid = length auths \<and> map users mid = map users auths \<and>
     list_all2 (\<lambda>a b. length (heap a) \<le> length (heap b)) auths mid \<and>
     (\<forall>m \<in> set (meters auths). hash (meter_of mid m) = hash (meter_of auths m) \<and>
        sent (meter_of auths m) \<le> sent (meter_of mid m) \<and> recv (meter_of auths m) \<le> recv (meter_of mid m))"

lemma grown_meters: "grown auths mid \<Longrightarrow> meters mid = meters auths"
proof -
  assume g: "grown auths mid"
  have "users (mid ! i) = users (auths ! i)" if "i < length auths" for i
  proof -
    have "map users mid ! i = map users auths ! i" "length mid = length auths" using g by (simp_all add: grown_def)
    then show ?thesis using that by simp
  qed
  moreover have "length mid = length auths" using g by (simp add: grown_def)
  ultimately have "map (\<lambda>i. map (Pair i) (ListUsers (mid ! i))) [0 ..< length mid] =
      map (\<lambda>i. map (Pair i) (ListUsers (auths ! i))) [0 ..< length auths]"
    by (intro map_cong) (simp_all add: ListUsers_def)
  then show ?thesis by (simp add: meters_def)
qed

lemma grown_valid: "grown auths mid \<Longrightarrow> valid_meter auths m \<Longrightarrow> valid_meter mid m"
  by (auto simp: grown_def valid_meter_def dest: list_all2_nthD)

lemma subtract_exact:
  "s \<le> sent u \<Longrightarrow> r \<le> recv u \<Longrightarrow> dir_meter up (SubtractTraffic s r u) = dir_meter up u - uint (if up then r else s)"
  by (simp add: dir_meter_def SubtractTraffic_def word_le_def uint_sub_lem [THEN iffD1])

lemma pending_subtracted:
  assumes inv: "\<forall>a \<in> set auths. auth_inv a" and g: "grown auths mid"
    and per: "per = map (reading auths) (filter (\<lambda>m. \<not> (sent (meter_of auths m) = 0 \<and> recv (meter_of auths m) = 0)) (meters auths))"
  shows "pending up (subtract_collected per mid) h = pending up mid h - pending up auths h"
proof -
  let ?z = "\<lambda>m. sent (meter_of auths m) = 0 \<and> recv (meter_of auths m) = 0"
  let ?s = "subtract_collected per mid"
  have s: "meter_of ?s m = (if \<not> ?z m then SubtractTraffic (sent (meter_of auths m)) (recv (meter_of auths m))
      (meter_of mid m) else meter_of mid m)" if "m \<in> set (meters auths)" for m
    unfolding per using that meters_distinct [OF inv] meters_valid [OF inv] grown_valid [OF g]
    by (subst subtract_meter_of) auto
  have "hash (meter_of ?s m) = hash (meter_of auths m) \<and> hash (meter_of mid m) = hash (meter_of auths m) \<and>
      dir_meter up (meter_of ?s m) = dir_meter up (meter_of mid m) - dir_meter up (meter_of auths m)"
    if "m \<in> set (meters auths)" for m
  proof -
    have "hash (meter_of mid m) = hash (meter_of auths m)" "sent (meter_of auths m) \<le> sent (meter_of mid m)"
        "recv (meter_of auths m) \<le> recv (meter_of mid m)" using g that by (auto simp: grown_def)
    then show ?thesis using s [OF that] subtract_exact
      by (cases "?z m") (auto simp: SubtractTraffic_def dir_meter_def)
  qed
  then have "pending_in up ?s (meters auths) h = (\<Sum>m\<leftarrow>meters auths.
      (if hash (meter_of mid m) = h then dir_meter up (meter_of mid m) else 0) -
      (if hash (meter_of auths m) = h then dir_meter up (meter_of auths m) else 0))"
    unfolding pending_in_def by (intro arg_cong [where f = sum_list] map_cong) auto
  then show ?thesis by (simp add: pending_def pending_in_def grown_meters [OF g] sum_list_subtractf)
qed

lemma collect_empty_amount:
  "collect_embedded auths (meters auths) [] [] = Inr (snaps, per) \<Longrightarrow> amount up snaps h = pending up auths h"
  using collect_amount [of auths "meters auths" "[]" "[]" snaps per up h] by (simp add: pending_def amount_def)

section \<open>The monthly reset, over many ticks\<close>

text \<open>The ticks of a run that reset the counters.\<close>

definition performs :: "reset_tick \<Rightarrow> reset_db \<Rightarrow> bool" where
  "performs t db \<longleftrightarrow> rt_readDay t \<and> rt_readLast t \<and> rt_commit t \<and>
     (case map_of (rd_config db) ''traffic_reset_day'' of None \<Rightarrow> False
      | Some v \<Rightarrow> ParseInt 64 (TrimSpace v) = Some (int (da_day (rt_now t)))) \<and> 0 < da_day (rt_now t) \<and>
     map_of (rd_config db) ''last_reset_month'' \<noteq> Some (format_month (rt_now2 t))"

fun reset_log :: "reset_tick list \<Rightarrow> reset_db \<Rightarrow> reset_tick list" where
  "reset_log [] db = []"
| "reset_log (t # ts) db =
     (if performs t db then t # reset_log ts (runScheduledTrafficReset t db)
      else reset_log ts (runScheduledTrafficReset t db))"

lemma format_month_ne: "format_month d \<noteq> []"
  by (simp add: format_month_def)

lemma reset_cases:
  "performs t db \<Longrightarrow> runScheduledTrafficReset t db =
     db\<lparr>rd_users := map (\<lambda>(h, r). (h, clear_row r)) (rd_users db),
        rd_config := AList.update ''last_reset_month'' (format_month (rt_now2 t)) (rd_config db)\<rparr>"
  "\<not> performs t db \<Longrightarrow> runScheduledTrafficReset t db = db"
  using format_month_ne [of "rt_now2 t"]
  by (auto simp: performs_def runScheduledTrafficReset_def Let_def split: option.splits)

text \<open>The text of a month determines it.\<close>

lemma zero_pad_val: "digits_val (zero_pad w n) = int n"
proof -
  have "foldl (\<lambda>acc c. acc * 10 + int (code c - 48)) 0 (replicate k CHR ''0'') = 0" for k
    by (induction k) (simp_all add: code_def)
  then show ?thesis using digits_val_dec [of n] by (simp add: zero_pad_def digits_val_def)
qed

lemma zero_pad_no_dash: "c \<in> set (zero_pad w n) \<Longrightarrow> c \<noteq> CHR ''-''"
  by (auto simp: zero_pad_def is_digit_def code_def dest: dec_digits_digits)

lemma append_dash_inj: "CHR ''-'' \<notin> set xs \<Longrightarrow> CHR ''-'' \<notin> set us \<Longrightarrow> xs @ CHR ''-'' # ys = us @ CHR ''-'' # vs \<Longrightarrow> xs = us \<and> ys = vs"
  by (induction xs arbitrary: us) (case_tac us; auto)+

lemma format_month_inj: "format_month d = format_month e \<longleftrightarrow> da_year d = da_year e \<and> da_month d = da_month e"
proof
  assume "format_month d = format_month e"
  then have "zero_pad 4 (da_year d) = zero_pad 4 (da_year e) \<and> zero_pad 2 (da_month d) = zero_pad 2 (da_month e)"
    using zero_pad_no_dash by (intro append_dash_inj) (auto simp: format_month_def)
  then show "da_year d = da_year e \<and> da_month d = da_month e" using zero_pad_val by (metis of_nat_eq_iff)
qed (simp add: format_month_def)

definition month_no :: "date \<Rightarrow> nat" where
  "month_no d = 13 * da_year d + da_month d"

lemma month_no_inj: "da_month d \<le> 12 \<Longrightarrow> da_month e \<le> 12 \<Longrightarrow> month_no d = month_no e \<longleftrightarrow> format_month d = format_month e"
  unfolding format_month_inj month_no_def by presburger

lemma marker_after:
  "performs t db \<Longrightarrow> map_of (rd_config (runScheduledTrafficReset t db)) ''last_reset_month'' = Some (format_month (rt_now2 t))"
  by (simp add: reset_cases update_conv')

lemma reset_day_kept:
  "map_of (rd_config (runScheduledTrafficReset t db)) ''traffic_reset_day'' = map_of (rd_config db) ''traffic_reset_day''"
  by (cases "performs t db") (simp_all add: reset_cases update_conv')

abbreviation tick_month :: "reset_tick \<Rightarrow> nat" where
  "tick_month t \<equiv> month_no (rt_now2 t)"

lemma reset_log_after:
  assumes "sorted (map tick_month ts)" "\<forall>t \<in> set ts. da_month (rt_now2 t) \<le> 12 \<and> month_no d \<le> tick_month t"
    "da_month d \<le> 12" "map_of (rd_config db) ''last_reset_month'' = Some (format_month d)"
  shows "sorted_wrt (<) (month_no d # map tick_month (reset_log ts db))"
  using assms
proof (induction ts arbitrary: db d)
  case (Cons t ts)
  show ?case
  proof (cases "performs t db")
    case True
    then have "format_month (rt_now2 t) \<noteq> format_month d" using Cons.prems(4) by (auto simp: performs_def)
    then have lt: "month_no d < tick_month t" using Cons.prems(2,3) month_no_inj [of d "rt_now2 t"] by fastforce
    have "sorted_wrt (<) (tick_month t # map tick_month (reset_log ts (runScheduledTrafficReset t db)))"
      by (rule Cons.IH) (use Cons.prems marker_after [OF True] in auto)
    then show ?thesis using True lt by force
  next
    case False
    then show ?thesis using Cons.IH [of d db] Cons.prems by (simp add: reset_cases(2))
  qed
qed simp

lemma reset_log_sorted:
  assumes "sorted (map tick_month ts)" "\<forall>t \<in> set ts. da_month (rt_now2 t) \<le> 12"
  shows "sorted_wrt (<) (map tick_month (reset_log ts db))"
  using assms
proof (induction ts arbitrary: db)
  case (Cons t ts)
  then show ?case using reset_log_after [of ts "rt_now2 t" "runScheduledTrafficReset t db"] marker_after [of t db]
    by (cases "performs t db") (auto simp: reset_cases(2))
qed simp

text \<open>A tick on the configured day with a working database.\<close>

definition due :: "reset_tick \<Rightarrow> reset_db \<Rightarrow> bool" where
  "due t db \<longleftrightarrow> rt_readDay t \<and> rt_readLast t \<and> rt_commit t \<and> 0 < da_day (rt_now t) \<and>
     (case map_of (rd_config db) ''traffic_reset_day'' of None \<Rightarrow> False
      | Some v \<Rightarrow> ParseInt 64 (TrimSpace v) = Some (int (da_day (rt_now t))))"

lemma due_kept: "due t (runScheduledTrafficReset x db) = due t db"
  by (simp add: due_def reset_day_kept)

lemma due_reset:
  "t \<in> set ts \<Longrightarrow> due t db \<Longrightarrow> map_of (rd_config db) ''last_reset_month'' \<noteq> Some (format_month (rt_now2 t)) \<Longrightarrow>
   \<exists>x \<in> set (reset_log ts db). format_month (rt_now2 x) = format_month (rt_now2 t)"
proof (induction ts arbitrary: db)
  case (Cons x ts)
  show ?case
  proof (cases "performs x db \<and> format_month (rt_now2 x) = format_month (rt_now2 t)")
    case True
    then show ?thesis by auto
  next
    case False
    then have "t \<noteq> x" using Cons.prems by (auto simp: performs_def due_def)
    moreover have "map_of (rd_config (runScheduledTrafficReset x db)) ''last_reset_month'' \<noteq> Some (format_month (rt_now2 t))"
      using False Cons.prems(3) marker_after by (cases "performs x db") (auto simp: reset_cases(2))
    ultimately have "\<exists>y \<in> set (reset_log ts (runScheduledTrafficReset x db)). format_month (rt_now2 y) = format_month (rt_now2 t)"
      using Cons by (auto simp: due_kept)
    then show ?thesis by auto
  qed
qed simp

lemma strict_filter_one:
  "sorted_wrt (<) (map f xs) \<Longrightarrow> x \<in> set xs \<Longrightarrow> filter (\<lambda>y. f y = (f x :: nat)) xs = [x]"
  by (induction xs) (auto simp: filter_empty_conv)

lemma wrong_day_no_reset:
  assumes "map_of (rd_config db) ''traffic_reset_day'' = Some v" "ParseInt 64 (TrimSpace v) = Some (int d)"
    "\<forall>t \<in> set ts. da_day (rt_now t) \<noteq> d"
  shows "fold runScheduledTrafficReset ts db = db"
  using assms(3)
proof (induction ts)
  case (Cons t ts)
  then have "\<not> performs t db" using assms(1,2) by (simp add: performs_def)
  then show ?case using Cons by (simp add: reset_cases(2))
qed simp

section \<open>Properties\<close>

text \<open>C30. Embedded traffic is neither lost nor charged twice. However many authenticators know a user, and
  whatever is counted while the worker runs: after one synchronisation the charge in the user table
  plus what the meters still hold is what the table had plus what the meters held when the
  transaction ended. On success exactly the amount read in phase 1 has moved; after any error neither the table nor
  a meter has changed.\<close>

theorem embedded_traffic_conserved:
  assumes "\<forall>a \<in> set auths. auth_inv a" "grown auths mid"
    "syncEmbeddedTrafficOnce dbDown auths mid db = (e, auths', db')"
    "h \<noteq> []" "map_of (rows db) h \<noteq> None"
  shows "charged up db' h + pending up auths' h = charged up db h + pending up mid h \<and>
    (e = None \<longrightarrow> pending up auths' h = pending up mid h - pending up auths h) \<and>
    (e \<noteq> None \<longrightarrow> db' = db \<and> auths' = mid)"
proof (cases "collect_embedded auths (meters auths) [] []")
  case (Inl x)
  then show ?thesis using assms(3) by (auto simp: syncEmbeddedTrafficOnce_def)
next
  case (Inr y)
  then obtain snaps per where c: "collect_embedded auths (meters auths) [] [] = Inr (snaps, per)" by (cases y) auto
  note A = collect_empty_amount [OF c, of up h]
  show ?thesis
  proof (cases "snaps = [] \<or> (\<exists>x. embedded_transaction dbDown snaps db = Inl x)")
    case True
    then show ?thesis using assms(3) c A by (cases "snaps = []") (auto simp: syncEmbeddedTrafficOnce_def amount_def)
  next
    case False
    then obtain d where d: "embedded_transaction dbDown snaps db = Inr d" by (meson sum.exhaust)
    have "distinct (map fst snaps)" using collect_keys [OF c] by simp
    note T = embedded_transaction_effect [OF d this assms(4), of up]
    note P = pending_subtracted [OF assms(1,2) collect_readings [OF c, unfolded append_Nil], of up h]
    show ?thesis using assms(3,5) c d False A T P by (auto simp: syncEmbeddedTrafficOnce_def)
  qed
qed

definition sample_meter :: "u64 \<Rightarrow> u64 \<Rightarrow> mem_auth" where
  "sample_meter s r = \<lparr>users = [(''h'', 0)], heap = [AddTraffic64 s r (new_user ''h'')]\<rparr>"

definition sample_rows :: traffic_db where
  "sample_rows = \<lparr>rows = [(''h'', \<lparr>row_upload = 3, row_download = 0, row_used = 3\<rparr>)], receipts = []\<rparr>"

theorem embedded_traffic_conserved_witness:
  "\<exists>auths' db'. syncEmbeddedTrafficOnce False [sample_meter 5 7, sample_meter 1 2] [sample_meter 5 8, sample_meter 1 2]
      sample_rows = (None, auths', db') \<and>
    charged True db' ''h'' + pending True auths' ''h'' = 13 \<and> pending True auths' ''h'' = 1"
proof -
  let ?a = "[sample_meter 5 7, sample_meter 1 2]" and ?m = "[sample_meter 5 8, sample_meter 1 2]"
  obtain e auths' db' where r: "syncEmbeddedTrafficOnce False ?a ?m sample_rows = (e, auths', db')"
    by (metis prod_cases3)
  have "fst (syncEmbeddedTrafficOnce False ?a ?m sample_rows) = None" by code_simp
  then have e: "e = None" using r by simp
  have p: "pending True ?m ''h'' = 10" "pending True ?a ''h'' = 9" "charged True sample_rows ''h'' = 3" by code_simp+
  have "\<forall>a \<in> set ?a. auth_inv a" by (simp add: sample_meter_def auth_inv_def AddTraffic64_def new_user_def)
  moreover have "grown ?a ?m" by code_simp
  ultimately show ?thesis using embedded_traffic_conserved [OF _ _ r, of "''h''" True] e r p
    by (simp add: sample_rows_def)
qed

text \<open>The monthly reset happens exactly once a month. Over any sequence of ticks in the order of time, with any of
  them failing at any access of the database, the months in which the counters were cleared are strictly
  increasing; and a month that has a tick on the configured day with a working database, and
  was not marked before, is cleared in exactly one tick.\<close>

theorem reset_once_a_month:
  assumes "sorted (map tick_month ts)" "\<forall>x \<in> set ts. da_month (rt_now2 x) \<le> 12"
    "t \<in> set ts" "due t db" "map_of (rd_config db) ''last_reset_month'' \<noteq> Some (format_month (rt_now2 t))"
  shows "sorted_wrt (<) (map tick_month (reset_log ts db)) \<and>
    length (filter (\<lambda>x. tick_month x = tick_month t) (reset_log ts db)) = 1"
proof -
  note S = reset_log_sorted [OF assms(1,2), of db]
  have sub: "set (reset_log xs d) \<subseteq> set xs" for xs d by (induction xs arbitrary: d) auto
  obtain x where x: "x \<in> set (reset_log ts db)" "format_month (rt_now2 x) = format_month (rt_now2 t)"
    using due_reset [OF assms(3-5)] by blast
  then have "tick_month x = tick_month t" using sub [of ts db] assms(2,3) month_no_inj by blast
  then show ?thesis using strict_filter_one [OF S x(1)] S by simp
qed

definition sample_tick :: "nat \<Rightarrow> nat \<Rightarrow> bool \<Rightarrow> reset_tick" where
  "sample_tick m d ok =
     (let n = \<lparr>da_year = 2025, da_month = m, da_day = d\<rparr>
      in \<lparr>rt_now = n, rt_now2 = n, rt_readDay = True, rt_readLast = True, rt_commit = ok\<rparr>)"

theorem reset_once_a_month_witness:
  "length (filter (\<lambda>x. tick_month x = tick_month (sample_tick 2 3 True))
     (reset_log [sample_tick 1 3 True, sample_tick 2 3 False, sample_tick 2 3 True, sample_tick 2 3 True, sample_tick 3 1 True]
       \<lparr>rd_config = [(''traffic_reset_day'', '' 3'')], rd_users = []\<rparr>)) = 1"
proof -
  have "ParseInt 64 (TrimSpace '' 3'') = Some 3" by code_simp
  then have "due (sample_tick 2 3 True) \<lparr>rd_config = [(''traffic_reset_day'', '' 3'')], rd_users = []\<rparr>"
    by (simp add: due_def sample_tick_def Let_def)
  then show ?thesis
    using reset_once_a_month [of "[sample_tick 1 3 True, sample_tick 2 3 False, sample_tick 2 3 True, sample_tick 2 3 True, sample_tick 3 1 True]"
        "sample_tick 2 3 True"]
    by (simp add: month_no_def sample_tick_def Let_def)
qed

text \<open>A reset day that a month does not have is skipped in that month: with day 31 no tick of a thirty-day
  month changes anything, so in April usage keeps adding up to what March left.\<close>

theorem reset_day_31_skipped:
  assumes "map_of (rd_config db) ''traffic_reset_day'' = Some ''31''" "\<forall>t \<in> set ts. da_day (rt_now t) \<le> 30"
  shows "fold runScheduledTrafficReset ts db = db"
proof (rule wrong_day_no_reset [OF assms(1)])
  show "ParseInt 64 (TrimSpace ''31'') = Some (int 31)" by code_simp
qed (use assms(2) in fastforce)

text \<open>The day and the month come from two readings of the clock. When the tick falls on the end of the last day of a
  month, the next month is marked as reset, and its own reset does not happen.\<close>

theorem reset_at_midnight_marks_next_month:
  assumes "due t db" "rt_now t = \<lparr>da_year = y, da_month = m, da_day = d\<rparr>"
    "rt_now2 t = \<lparr>da_year = y, da_month = Suc m, da_day = 1\<rparr>"
    "map_of (rd_config db) ''last_reset_month'' = None" "rt_now2 s = \<lparr>da_year = y, da_month = Suc m, da_day = d\<rparr>"
  shows "\<not> performs s (runScheduledTrafficReset t db)"
proof -
  have "performs t db" using assms(1,4) by (simp add: due_def performs_def)
  then show ?thesis using marker_after [of t db] assms(3,5) by (simp add: performs_def format_month_def)
qed

end
