(* ===== verification/Go_Time.thy ===== *)
theory Go_Time
  imports Go_Net
begin

text \<open>
  The part of Go's \<open>time\<close> that the handlers of the panel use: instants as nanoseconds since Go's zero
  time (1 January of year 1, UTC), the calendar, \<open>time.Parse\<close> for the layouts
  \<open>2006-01-02\<close> and \<open>2006-01-02 15:04:05\<close> as the library scans them (a one-digit hour, several
  blanks and a fraction of a second are accepted), and the end of a local day. The local zone has a fixed
  offset from UTC, in seconds.
\<close>

section \<open>Calendar\<close>

definition leap_year :: "nat \<Rightarrow> bool" where
  "leap_year y \<longleftrightarrow> y mod 4 = 0 \<and> (y mod 100 \<noteq> 0 \<or> y mod 400 = 0)"

definition daysIn :: "nat \<Rightarrow> nat \<Rightarrow> nat" where
  "daysIn m y = (if m = 2 then if leap_year y then 29 else 28 else if m \<in> {4, 6, 9, 11} then 30 else 31)"

fun days_before_month :: "nat \<Rightarrow> nat \<Rightarrow> nat" where
  "days_before_month 0 y = 0"
| "days_before_month (Suc m) y = (if m = 0 then 0 else days_before_month m y + daysIn m y)"

definition days_before_year :: "nat \<Rightarrow> int" where
  "days_before_year y =
     (let p = int y - 1 in p * 365 + p div 4 - p div 100 + p div 400)"

definition nanosecond :: int where
  "nanosecond = 10 ^ 9"

definition date_instant :: "nat \<Rightarrow> nat \<Rightarrow> nat \<Rightarrow> nat \<Rightarrow> nat \<Rightarrow> nat \<Rightarrow> nat \<Rightarrow> int" where
  "date_instant y m d h mi s ns =
     ((days_before_year y + int (days_before_month m y) + int d - 1) * 86400 +
      int h * 3600 + int mi * 60 + int s) * nanosecond + int ns"

section \<open>Scanning\<close>

definition num_of :: "string \<Rightarrow> nat" where
  "num_of s = nat (digits_val s)"

text \<open>\<open>getnum\<close>: two digits, or one when the field is not fixed.\<close>

definition getnum :: "bool \<Rightarrow> string \<Rightarrow> (nat \<times> string) option" where
  "getnum fixed s =
     (case s of
        [] \<Rightarrow> None
      | a # r \<Rightarrow>
          if \<not> is_digit a then None
          else case r of
            [] \<Rightarrow> if fixed then None else Some (num_of [a], [])
          | b # t \<Rightarrow>
              if is_digit b then Some (num_of [a, b], t)
              else if fixed then None else Some (num_of [a], r))"

definition lit :: "char \<Rightarrow> string \<Rightarrow> string option" where
  "lit c s = (case s of [] \<Rightarrow> None | x # t \<Rightarrow> if x = c then Some t else None)"

text \<open>Year, month and day; the day is checked against the month by the caller, as the library does at the
  end.\<close>

definition scan_date :: "string \<Rightarrow> (nat \<times> nat \<times> nat \<times> string) option" where
  "scan_date s =
     (if length s < 4 \<or> \<not> list_all is_digit (take 4 s) then None
      else
        let y = num_of (take 4 s) in
        case lit CHR ''-'' (drop 4 s) of None \<Rightarrow> None | Some s1 \<Rightarrow>
        (case getnum True s1 of None \<Rightarrow> None | Some (m, s2) \<Rightarrow>
         if m = 0 \<or> 12 < m then None
         else (case lit CHR ''-'' s2 of None \<Rightarrow> None | Some s3 \<Rightarrow>
           (case getnum True s3 of None \<Rightarrow> None | Some (d, s4) \<Rightarrow> Some (y, m, d, s4)))))"

definition day_ok :: "nat \<Rightarrow> nat \<Rightarrow> nat \<Rightarrow> bool" where
  "day_ok y m d \<longleftrightarrow> 1 \<le> d \<and> d \<le> daysIn m y"

definition Parse_date :: "string \<Rightarrow> (nat \<times> nat \<times> nat) option" where
  "Parse_date s =
     (case scan_date s of
        None \<Rightarrow> None
      | Some (y, m, d, rest) \<Rightarrow> if rest = [] \<and> day_ok y m d then Some (y, m, d) else None)"

text \<open>A blank of the layout: no blank, then the end of the text, or any number of blanks.\<close>

definition skip_blank :: "string \<Rightarrow> string option" where
  "skip_blank s = (if s \<noteq> [] \<and> hd s \<noteq> CHR '' '' then None else Some (dropWhile (\<lambda>c. c = CHR '' '') s))"

text \<open>A fraction after the seconds: at most nine digits count.\<close>

definition scan_fraction :: "string \<Rightarrow> nat \<times> string" where
  "scan_fraction s =
     (case s of
        c # d # r \<Rightarrow>
          if (c = CHR ''.'' \<or> c = CHR '','') \<and> is_digit d then
            (let ds = take 9 (takeWhile is_digit (d # r))
             in (num_of ds * 10 ^ (9 - length ds), dropWhile is_digit (d # r)))
          else (0, s)
      | _ \<Rightarrow> (0, s))"

definition Parse_datetime :: "string \<Rightarrow> int option" where
  "Parse_datetime s =
     (case scan_date s of None \<Rightarrow> None | Some (y, m, d, r0) \<Rightarrow>
      (case skip_blank r0 of None \<Rightarrow> None | Some r1 \<Rightarrow>
      (case getnum False r1 of None \<Rightarrow> None | Some (h, r2) \<Rightarrow>
       if 24 \<le> h then None
       else (case lit CHR '':'' r2 of None \<Rightarrow> None | Some r3 \<Rightarrow>
       (case getnum True r3 of None \<Rightarrow> None | Some (mi, r4) \<Rightarrow>
        if 60 \<le> mi then None
        else (case lit CHR '':'' r4 of None \<Rightarrow> None | Some r5 \<Rightarrow>
        (case getnum True r5 of None \<Rightarrow> None | Some (sc, r6) \<Rightarrow>
         if 60 \<le> sc then None
         else (case scan_fraction r6 of (ns, r7) \<Rightarrow>
           if r7 = [] \<and> day_ok y m d then Some (date_instant y m d h mi sc ns) else None))))))))"

text \<open>\<open>time.Date(y, m, d, 23, 59, 59, 0, time.Local)\<close>.\<close>

definition end_of_local_day :: "int \<Rightarrow> nat \<times> nat \<times> nat \<Rightarrow> int" where
  "end_of_local_day tz ymd =
     (case ymd of (y, m, d) \<Rightarrow> date_instant y m d 23 59 59 0 - tz * nanosecond)"

text \<open>\<open>AddDate(0, 0, days)\<close> in a zone of fixed offset.\<close>

definition add_days :: "int \<Rightarrow> int \<Rightarrow> int" where
  "add_days now days = now + days * 86400 * nanosecond"

section \<open>The last second of a day\<close>

lemma date_instant_day: "date_instant y m d 23 59 59 0 = date_instant y m d 0 0 0 0 + 86399 * nanosecond"
  by (simp add: date_instant_def algebra_simps)

end
