(* ===== verification/User_Admin.thy ===== *)
theory User_Admin
  imports User_Policy Credentials Field_Validation Go_Time
begin

text \<open>
  The handlers of the panel for proxy users (\<open>internal/webserver/users.go\<close>). A handler takes the
  parsed request (\<open>None\<close> when the JSON does not parse), the surroundings of the call and the
  state, the user table with the authenticators in the same process, and returns the HTTP status and the new state.
  The surroundings tell which accesses of the database fail. The identifier of the path is the number it
  denotes. On a worker node a handler passes the request to the master: \<open>se_master\<close> is its answer.
\<close>

section \<open>Data\<close>

record panel_user = db_user +
  pu_id :: nat
  pu_created :: int
  pu_username :: string
  pu_password :: string
  pu_ciphertext :: string
  pu_keyID :: string

record panel =
  pl_users :: "panel_user list"
  pl_auths :: "mem_auth list"

text \<open>The surroundings: the clock and the local zone, the credential vault with the bytes of the random source, the
  identifier the database would give to a new row, and the outcome of each access.\<close>

record surroundings =
  se_isNode :: bool
  se_master :: int
  se_now :: int
  se_tz :: int
  se_vault :: vault
  se_rand :: "bytes option"
  se_newID :: nat
  se_lookup :: bool
  se_begin :: bool
  se_write :: bool
  se_setPassword :: "go_error option"
  se_delete :: bool
  se_commit :: bool
  se_refresh :: bool

record publicUser =
  pb_id :: nat
  pb_created :: int
  pb_username :: string
  pb_hash :: string
  pb_quota :: int
  pb_used :: int
  pb_upload :: int
  pb_download :: int
  pb_expiry :: "int option"
  pb_ip_limit :: int
  pb_status :: int

definition toPublicUser :: "panel_user \<Rightarrow> publicUser" where
  "toPublicUser u =
     \<lparr>pb_id = pu_id u, pb_created = pu_created u, pb_username = pu_username u, pb_hash = du_hash u,
      pb_quota = du_quota u, pb_used = du_used u, pb_upload = du_upload u, pb_download = du_download u,
      pb_expiry = du_expiry u, pb_ip_limit = du_ip_limit u, pb_status = du_status u\<rparr>"

definition toPublicUsers :: "panel_user list \<Rightarrow> publicUser list" where
  "toPublicUsers us = map toPublicUser us"

definition handleListUsers :: "surroundings \<Rightarrow> panel \<Rightarrow> int \<times> publicUser list" where
  "handleListUsers e p =
     (if se_isNode e then (se_master e, [])
      else if \<not> se_lookup e then (500, [])
      else (200, toPublicUsers (pl_users p)))"

section \<open>The user table\<close>

definition user_by_id :: "nat \<Rightarrow> panel_user list \<Rightarrow> panel_user option" where
  "user_by_id i us = find (\<lambda>u. pu_id u = i) us"

definition update_users :: "nat \<Rightarrow> (panel_user \<Rightarrow> panel_user) \<Rightarrow> panel_user list \<Rightarrow> panel_user list" where
  "update_users i f us = map (\<lambda>u. if pu_id u = i then f u else u) us"

definition delete_user :: "nat \<Rightarrow> panel_user list \<Rightarrow> panel_user list" where
  "delete_user i us = filter (\<lambda>u. pu_id u \<noteq> i) us"

text \<open>The primary key and the unique index on the hash.\<close>

definition unique_users :: "panel_user list \<Rightarrow> bool" where
  "unique_users us \<longleftrightarrow> distinct (map pu_id us) \<and> distinct (map du_hash us)"

text \<open>\<open>Create\<close> of the object-relational mapper: a zero identifier is replaced by the database's, a zero
  creation time by the clock, and a zero quota by the declared default of the column.\<close>

definition create_user :: "surroundings \<Rightarrow> panel_user \<Rightarrow> panel_user" where
  "create_user e u =
     u\<lparr>pu_id := (if pu_id u = 0 then se_newID e else pu_id u),
       pu_created := (if pu_created u = 0 then se_now e else pu_created u),
       du_quota := (if du_quota u = 0 then - 1 else du_quota u)\<rparr>"

definition cred_of :: "panel_user \<Rightarrow> user_cred" where
  "cred_of u = \<lparr>uc_id = pu_id u, uc_password = pu_password u, uc_ciphertext = pu_ciphertext u,
     uc_keyID = pu_keyID u, uc_hash = du_hash u\<rparr>"

definition with_cred :: "user_cred \<Rightarrow> panel_user \<Rightarrow> panel_user" where
  "with_cred c u = u\<lparr>pu_password := uc_password c, pu_ciphertext := uc_ciphertext c, pu_keyID := uc_keyID c,
     du_hash := uc_hash c\<rparr>"

section \<open>Creating\<close>

text \<open>The row that is persisted first, without a password.\<close>

definition new_row :: "surroundings \<Rightarrow> panel_user \<Rightarrow> panel_user" where
  "new_row e u =
     create_user e (u\<lparr>du_hash := SHA224String (pu_password u), pu_password := [], pu_ciphertext := [], pu_keyID := []\<rparr>)"

text \<open>After \<open>Create\<close>: the encrypted password is written, or the row is deleted again.\<close>

definition finish_create :: "surroundings \<Rightarrow> panel_user \<Rightarrow> string \<Rightarrow> panel \<Rightarrow> int \<times> panel" where
  "finish_create e row plaintext p =
     (let us1 = pl_users p @ [row] in
      case SetUserPassword (se_vault e) (se_rand e) (se_setPassword e) plaintext (cred_of row) of
        (Ret _, c) \<Rightarrow>
          (200, p\<lparr>pl_users := update_users (pu_id row) (with_cred c) us1,
                  pl_auths := (if du_status row = 0 then syncAuthAddUser (uc_hash c) (pl_auths p) else pl_auths p)\<rparr>)
      | (Raise _, _) \<Rightarrow> (500, p\<lparr>pl_users := (if se_delete e then delete_user (pu_id row) us1 else us1)\<rparr>)
      | (_, _) \<Rightarrow> (500, p\<lparr>pl_users := us1\<rparr>))"

definition handleAddUser :: "surroundings \<Rightarrow> panel_user option \<Rightarrow> panel \<Rightarrow> int \<times> panel" where
  "handleAddUser e req p =
     (if se_isNode e then (se_master e, p)
      else case req of
        None \<Rightarrow> (400, p)
      | Some u \<Rightarrow>
          if pu_password u = [] then (400, p)
          else if validateUsername (pu_username u) \<noteq> None then (400, p)
          else if validateQuota (du_quota u) \<noteq> None then (400, p)
          else if du_status u < 0 \<or> du_status u > 1 then (400, p)
          else if du_ip_limit u < 0 \<or> du_ip_limit u > 100 then (400, p)
          else if \<not> se_lookup e then (500, p)
          else if find (\<lambda>x. du_hash x = SHA224String (pu_password u)) (pl_users p) \<noteq> None then (409, p)
          else if \<not> se_write e \<or> \<not> unique_users (pl_users p @ [new_row e u]) then (500, p)
          else finish_create e (new_row e u) (pu_password u) p)"

section \<open>Updating\<close>

record user_update =
  rq_username :: string
  rq_password :: string
  rq_status :: "int option"
  rq_expiryDays :: "int option"
  rq_expiryTime :: "string option"
  rq_quota :: "int option"
  rq_ipLimit :: "int option"

text \<open>The columns an update writes; \<open>Some None\<close> for the expiry writes NULL.\<close>

record updates =
  up_username :: "string option"
  up_status :: "int option"
  up_quota :: "int option"
  up_ipLimit :: "int option"
  up_hash :: "string option"
  up_expiry :: "int option option"

definition expiry_of_text :: "int \<Rightarrow> string \<Rightarrow> int option option" where
  "expiry_of_text tz val =
     (if val = [] \<or> val = ''null'' then Some None
      else case Parse_datetime val of
        Some t \<Rightarrow> Some (Some t)
      | None \<Rightarrow> map_option (\<lambda>d. Some (end_of_local_day tz d)) (Parse_date val))"

text \<open>The checks of the request in their order: an HTTP status, or the columns to write.\<close>

definition collect_updates :: "surroundings \<Rightarrow> nat \<Rightarrow> user_update \<Rightarrow> panel_user list \<Rightarrow> int + updates" where
  "collect_updates e i r us =
     (if rq_username r \<noteq> [] \<and> validateUsername (rq_username r) \<noteq> None then Inl 400
      else if (case rq_status r of None \<Rightarrow> False | Some s \<Rightarrow> s < 0 \<or> s > 1) then Inl 400
      else if (case rq_quota r of None \<Rightarrow> False | Some q \<Rightarrow> validateQuota q \<noteq> None) then Inl 400
      else if (case rq_ipLimit r of None \<Rightarrow> False | Some n \<Rightarrow> n < 0 \<or> n > 100) then Inl 400
      else if rq_password r \<noteq> [] \<and> \<not> se_lookup e then Inl 500
      else if rq_password r \<noteq> [] \<and>
              find (\<lambda>x. du_hash x = SHA224String (rq_password r) \<and> pu_id x \<noteq> i) us \<noteq> None then Inl 409
      else if (case rq_expiryDays r of None \<Rightarrow> False | Some d \<Rightarrow> d < 0 \<or> d > 3650) then Inl 400
      else
        let days = map_option (\<lambda>d. if d > 0 then Some (add_days (se_now e) d) else None) (rq_expiryDays r);
            cols = \<lparr>up_username = (if rq_username r \<noteq> [] then Some (rq_username r) else None),
                    up_status = rq_status r, up_quota = rq_quota r, up_ipLimit = rq_ipLimit r,
                    up_hash = (if rq_password r \<noteq> [] then Some (SHA224String (rq_password r)) else None),
                    up_expiry = days\<rparr>
        in case rq_expiryTime r of
             None \<Rightarrow> Inr cols
           | Some val \<Rightarrow>
               (case expiry_of_text (se_tz e) val of
                  None \<Rightarrow> Inl 400
                | Some x \<Rightarrow> Inr (cols\<lparr>up_expiry := Some x\<rparr>)))"

definition apply_updates :: "updates \<Rightarrow> panel_user \<Rightarrow> panel_user" where
  "apply_updates c u =
     u\<lparr>pu_username := (case up_username c of None \<Rightarrow> pu_username u | Some x \<Rightarrow> x),
       du_status := (case up_status c of None \<Rightarrow> du_status u | Some x \<Rightarrow> x),
       du_quota := (case up_quota c of None \<Rightarrow> du_quota u | Some x \<Rightarrow> x),
       du_ip_limit := (case up_ipLimit c of None \<Rightarrow> du_ip_limit u | Some x \<Rightarrow> x),
       du_hash := (case up_hash c of None \<Rightarrow> du_hash u | Some x \<Rightarrow> x),
       du_expiry := (case up_expiry c of None \<Rightarrow> du_expiry u | Some x \<Rightarrow> x)\<rparr>"

text \<open>The transaction: the columns, then the encrypted password. \<open>None\<close> is a rollback.\<close>

definition update_transaction ::
  "surroundings \<Rightarrow> updates \<Rightarrow> string \<Rightarrow> panel_user \<Rightarrow> panel_user list \<Rightarrow> panel_user list option" where
  "update_transaction e c password u us =
     (if \<not> se_begin e then None
      else
        let u1 = apply_updates c u; us1 = update_users (pu_id u) (\<lambda>_. u1) us in
        if \<not> se_write e \<or> \<not> unique_users us1 then None
        else if up_hash c = None then (if se_commit e then Some us1 else None)
        else case SetUserPassword (se_vault e) (se_rand e) (se_setPassword e) password (cred_of u1) of
          (Ret _, k) \<Rightarrow>
            if se_commit e then Some (update_users (pu_id u) (with_cred k) us1) else None
        | (_, _) \<Rightarrow> None)"

definition handleUpdateUser :: "surroundings \<Rightarrow> nat \<Rightarrow> user_update option \<Rightarrow> panel \<Rightarrow> int \<times> panel" where
  "handleUpdateUser e i req p =
     (if se_isNode e then (se_master e, p)
      else case req of
        None \<Rightarrow> (400, p)
      | Some r \<Rightarrow>
          (case user_by_id i (pl_users p) of
             None \<Rightarrow> (404, p)
           | Some u \<Rightarrow>
               (case collect_updates e i r (pl_users p) of
                  Inl status \<Rightarrow> (status, p)
                | Inr c \<Rightarrow>
                    (case update_transaction e c (rq_password r) u (pl_users p) of
                       None \<Rightarrow> (500, p)
                     | Some us \<Rightarrow>
                         (200, p\<lparr>pl_users := us,
                                 pl_auths :=
                                   (let a1 = syncAuthDelUser (du_hash u) (pl_auths p) in
                                    if \<not> se_refresh e then a1
                                    else case user_by_id i us of
                                      None \<Rightarrow> a1
                                    | Some v \<Rightarrow> if du_status v = 0 then syncAuthAddUser (du_hash v) a1 else a1)\<rparr>)))))"

section \<open>Deleting and single columns\<close>

definition handleDeleteUser :: "surroundings \<Rightarrow> nat \<Rightarrow> panel \<Rightarrow> int \<times> panel" where
  "handleDeleteUser e i p =
     (if se_isNode e then (se_master e, p)
      else case user_by_id i (pl_users p) of
        None \<Rightarrow> (404, p)
      | Some u \<Rightarrow>
          let p1 = p\<lparr>pl_auths := syncAuthDelUser (du_hash u) (pl_auths p)\<rparr> in
          if se_delete e then (200, p1\<lparr>pl_users := delete_user i (pl_users p)\<rparr>) else (500, p1))"

text \<open>\<open>Update\<close> of one column where the identifier matches: the status of the reply and the table.\<close>

definition update_column :: "surroundings \<Rightarrow> nat \<Rightarrow> (panel_user \<Rightarrow> panel_user) \<Rightarrow> panel \<Rightarrow> int \<times> panel" where
  "update_column e i f p =
     (if \<not> se_write e then (500, p)
      else if user_by_id i (pl_users p) = None then (404, p)
      else (200, p\<lparr>pl_users := update_users i f (pl_users p)\<rparr>))"

definition handleUpdateQuota :: "surroundings \<Rightarrow> nat \<Rightarrow> int option \<Rightarrow> panel \<Rightarrow> int \<times> panel" where
  "handleUpdateQuota e i req p =
     (case req of
        None \<Rightarrow> (400, p)
      | Some quota \<Rightarrow>
          if validateQuota quota \<noteq> None then (400, p)
          else update_column e i (\<lambda>u. u\<lparr>du_quota := quota\<rparr>) p)"

definition handleClearTraffic :: "surroundings \<Rightarrow> nat \<Rightarrow> panel \<Rightarrow> int \<times> panel" where
  "handleClearTraffic e i p =
     (if se_isNode e then (se_master e, p)
      else update_column e i (\<lambda>u. u\<lparr>du_used := 0, du_upload := 0, du_download := 0\<rparr>) p)"

definition handleSetExpire :: "surroundings \<Rightarrow> nat \<Rightarrow> int option \<Rightarrow> panel \<Rightarrow> int \<times> panel" where
  "handleSetExpire e i req p =
     (case req of
        None \<Rightarrow> (400, p)
      | Some days \<Rightarrow>
          if days < 0 \<or> days > 3650 then (400, p)
          else update_column e i (\<lambda>u. u\<lparr>du_expiry := Some (add_days (se_now e) days)\<rparr>) p)"

definition handleCancelExpire :: "surroundings \<Rightarrow> nat \<Rightarrow> panel \<Rightarrow> int \<times> panel" where
  "handleCancelExpire e i p = update_column e i (\<lambda>u. u\<lparr>du_expiry := None\<rparr>) p"

section \<open>Requests as a whole\<close>

datatype panel_request =
    CreateUser "panel_user option"
  | ChangeUser nat "user_update option"
  | RemoveUser nat
  | SetQuota nat "int option"
  | ClearTraffic nat
  | SetExpire nat "int option"
  | CancelExpire nat

fun panel_handle :: "surroundings \<times> panel_request \<Rightarrow> panel \<Rightarrow> int \<times> panel" where
  "panel_handle (e, CreateUser req) p = handleAddUser e req p"
| "panel_handle (e, ChangeUser i req) p = handleUpdateUser e i req p"
| "panel_handle (e, RemoveUser i) p = handleDeleteUser e i p"
| "panel_handle (e, SetQuota i q) p = handleUpdateQuota e i q p"
| "panel_handle (e, ClearTraffic i) p = handleClearTraffic e i p"
| "panel_handle (e, SetExpire i d) p = handleSetExpire e i d p"
| "panel_handle (e, CancelExpire i) p = handleCancelExpire e i p"

definition panel_run :: "(surroundings \<times> panel_request) list \<Rightarrow> panel \<Rightarrow> panel" where
  "panel_run rs p = fold (\<lambda>r q. snd (panel_handle r q)) rs p"

section \<open>Well-formed rows\<close>

definition user_wf :: "panel_user \<Rightarrow> bool" where
  "user_wf u \<longleftrightarrow> pu_id u \<noteq> 0 \<and> length (du_hash u) = 56 \<and> (du_status u = 0 \<or> du_status u = 1) \<and>
     - 1 \<le> du_quota u \<and> 0 \<le> du_ip_limit u \<and> du_ip_limit u \<le> 100 \<and>
     validateUsername (pu_username u) = None \<and> pu_password u = []"

definition users_wf :: "panel_user list \<Rightarrow> bool" where
  "users_wf us \<longleftrightarrow> list_all user_wf us \<and> unique_users us"

definition panel_wf :: "panel \<Rightarrow> bool" where
  "panel_wf p \<longleftrightarrow> users_wf (pl_users p) \<and> list_all auth_inv (pl_auths p)"

lemma sync_auths_inv [simp]:
  "list_all auth_inv as \<Longrightarrow> list_all auth_inv (syncAuthAddUser h as)"
  "list_all auth_inv as \<Longrightarrow> list_all auth_inv (syncAuthDelUser h as)"
  by (auto simp: syncAuthAddUser_def syncAuthDelUser_def list_all_iff AddUser_inv DelUser_inv)

lemma update_ids:
  "\<forall>u. pu_id (f u) = pu_id u \<Longrightarrow> map pu_id (update_users i f us) = map pu_id us"
  by (simp add: update_users_def)

lemma update_wf:
  assumes "list_all user_wf us" "\<And>u. u \<in> set us \<Longrightarrow> user_wf u \<Longrightarrow> pu_id u = i \<Longrightarrow> user_wf (f u)"
  shows "list_all user_wf (update_users i f us)"
  using assms by (auto simp: update_users_def list_all_iff)

lemma delete_wf: "users_wf us \<Longrightarrow> users_wf (delete_user i us)"
  by (auto simp: users_wf_def delete_user_def list_all_iff unique_users_def distinct_map_filter)

text \<open>A change of columns that the index does not cover.\<close>

lemma update_column_wf:
  assumes "users_wf us" "\<And>u. user_wf u \<Longrightarrow> user_wf (f u)" "\<And>u. pu_id (f u) = pu_id u \<and> du_hash (f u) = du_hash u"
  shows "users_wf (update_users i f us)"
proof -
  have "map du_hash (update_users i f us) = map du_hash us" using assms(3) by (simp add: update_users_def)
  then show ?thesis using assms update_ids [of f i us] update_wf [of us i f]
    by (simp add: users_wf_def unique_users_def)
qed

lemma update_column_panel:
  assumes "panel_wf p" "\<And>u. user_wf u \<Longrightarrow> user_wf (f u)" "\<And>u. pu_id (f u) = pu_id u \<and> du_hash (f u) = du_hash u"
  shows "panel_wf (snd (update_column e i f p))"
  using assms update_column_wf [of "pl_users p" f i] by (simp add: update_column_def panel_wf_def)

lemma user_by_idD: "user_by_id i us = Some u \<Longrightarrow> u \<in> set us \<and> pu_id u = i"
  by (auto simp: user_by_id_def find_Some_iff)

lemma set_password_effect:
  "SetUserPassword v rnd err pw c = (Ret x, c') \<Longrightarrow>
   uc_id c' = uc_id c \<and> uc_hash c' = SHA224String pw \<and> uc_password c' = [] \<and> uc_id c \<noteq> 0"
  by (auto simp: SetUserPassword_def sha224Password_def SHA224String_def split: if_splits outcome.splits)

lemma ids_fresh: "unique_users (us @ [r]) \<Longrightarrow> u \<in> set us \<Longrightarrow> pu_id u \<noteq> pu_id r"
  unfolding unique_users_def by simp (metis imageI)

lemma update_last:
  "unique_users (us @ [r]) \<Longrightarrow> update_users (pu_id r) f (us @ [r]) = us @ [f r]"
  using ids_fresh [of us r] by (auto simp: update_users_def intro!: map_idI)

lemma delete_last: "unique_users (us @ [r]) \<Longrightarrow> delete_user (pu_id r) (us @ [r]) = us"
  using ids_fresh [of us r] by (auto simp: delete_user_def intro!: filter_True)

text \<open>What a request to create a user has passed when its row is written.\<close>

definition acceptable :: "surroundings \<Rightarrow> panel_user \<Rightarrow> panel \<Rightarrow> bool" where
  "acceptable e u p \<longleftrightarrow> validateUsername (pu_username u) = None \<and> validateQuota (du_quota u) = None \<and>
     (du_status u = 0 \<or> du_status u = 1) \<and> 0 \<le> du_ip_limit u \<and> du_ip_limit u \<le> 100 \<and> pu_password u \<noteq> [] \<and>
     unique_users (pl_users p @ [new_row e u])"

lemma handleAddUser_cases:
  assumes "handleAddUser e req p = (s, p')"
  obtains (same) "p' = p" "s \<noteq> 200 \<or> se_isNode e"
  | (made) u c where "req = Some u" "s = 200" "acceptable e u p"
      "SetUserPassword (se_vault e) (se_rand e) (se_setPassword e) (pu_password u) (cred_of (new_row e u)) = (Ret (), c)"
      "p' = p\<lparr>pl_users := pl_users p @ [with_cred c (new_row e u)],
              pl_auths := (if du_status u = 0 then syncAuthAddUser (uc_hash c) (pl_auths p) else pl_auths p)\<rparr>"
  | (left) u x where "req = Some u" "s = 500" "acceptable e u p" "p' = p\<lparr>pl_users := pl_users p @ [new_row e u]\<rparr>"
      "fst (SetUserPassword (se_vault e) (se_rand e) (se_setPassword e) (pu_password u) (cred_of (new_row e u))) = x"
      "(\<exists>g. x = Raise g \<and> \<not> se_delete e) \<or> (\<exists>m. x = Panic m) \<or> x = Hang"
proof (cases "\<exists>u. req = Some u \<and> acceptable e u p \<and> finish_create e (new_row e u) (pu_password u) p = (s, p')")
  case False
  then have "p' = p \<and> (s \<noteq> 200 \<or> se_isNode e)"
    using assms by (auto simp: handleAddUser_def acceptable_def split: if_splits option.splits)
  then show ?thesis using same by blast
next
  case True
  then obtain u where u: "req = Some u" "acceptable e u p" "finish_create e (new_row e u) (pu_password u) p = (s, p')"
    by blast
  have un: "unique_users (pl_users p @ [new_row e u])" using u(2) by (simp add: acceptable_def)
  have st: "du_status (new_row e u) = du_status u" by (simp add: new_row_def create_user_def)
  obtain x c where x: "SetUserPassword (se_vault e) (se_rand e) (se_setPassword e) (pu_password u) (cred_of (new_row e u)) = (x, c)"
    by fastforce
  note F = u(3) [unfolded finish_create_def Let_def x]
  show ?thesis
  proof (cases x)
    case (Ret y)
    then show ?thesis using made [OF u(1) _ u(2), of c] F x st update_last [OF un] by auto
  next
    case (Raise g)
    have d: "se_delete e \<Longrightarrow> p' = p \<and> s = 500" using F Raise delete_last [OF un] by auto
    show ?thesis
    proof (cases "se_delete e")
      case True
      then show ?thesis using same d by simp
    next
      case False
      then show ?thesis using left [OF u(1) _ u(2), of x] F x Raise by auto
    qed
  qed (use left [OF u(1) _ u(2), of x] F x in auto)
qed

lemma new_row_wf:
  assumes "acceptable e u p" "se_newID e \<noteq> 0"
  shows "user_wf (new_row e u)"
  using assms by (auto simp: acceptable_def user_wf_def new_row_def create_user_def validateQuota_def split: if_splits)

lemma with_cred_wf:
  "user_wf u \<Longrightarrow> uc_password c = [] \<Longrightarrow> length (uc_hash c) = 56 \<Longrightarrow> user_wf (with_cred c u)"
  by (simp add: user_wf_def with_cred_def)

lemma handleAddUser_wf:
  assumes "panel_wf p" "se_newID e \<noteq> 0"
  shows "panel_wf (snd (handleAddUser e req p))"
proof (cases "handleAddUser e req p" rule: prod.exhaust)
  case (Pair s p')
  from Pair show ?thesis
  proof (cases rule: handleAddUser_cases)
    case same
    then show ?thesis using Pair assms by simp
  next
    case (made u c)
    note S = set_password_effect [OF made(4)]
    have "du_hash (with_cred c (new_row e u)) = du_hash (new_row e u)" "pu_id (with_cred c (new_row e u)) = pu_id (new_row e u)"
      using S by (simp_all add: with_cred_def new_row_def create_user_def)
    then have "unique_users (pl_users p @ [with_cred c (new_row e u)])" using made(3) by (simp add: acceptable_def unique_users_def)
    moreover have "user_wf (with_cred c (new_row e u))"
      using new_row_wf [OF made(3) assms(2)] S by (intro with_cred_wf) auto
    ultimately show ?thesis using Pair made(5) assms(1) by (simp add: panel_wf_def users_wf_def)
  next
    case (left u x)
    then show ?thesis using Pair assms new_row_wf [OF left(3) assms(2)] by (simp add: panel_wf_def users_wf_def acceptable_def)
  qed
qed

lemma collect_updates_ok:
  assumes "collect_updates e i r us = Inr c"
  shows "(case up_username c of None \<Rightarrow> True | Some n \<Rightarrow> validateUsername n = None) \<and>
    (case up_status c of None \<Rightarrow> True | Some s \<Rightarrow> s = 0 \<or> s = 1) \<and>
    (case up_quota c of None \<Rightarrow> True | Some q \<Rightarrow> - 1 \<le> q) \<and>
    (case up_ipLimit c of None \<Rightarrow> True | Some n \<Rightarrow> 0 \<le> n \<and> n \<le> 100) \<and>
    up_hash c = (if rq_password r = [] then None else Some (SHA224String (rq_password r)))"
proof -
  have "\<exists>x. c = \<lparr>up_username = (if rq_username r \<noteq> [] then Some (rq_username r) else None),
        up_status = rq_status r, up_quota = rq_quota r, up_ipLimit = rq_ipLimit r,
        up_hash = (if rq_password r \<noteq> [] then Some (SHA224String (rq_password r)) else None), up_expiry = x\<rparr>"
    using assms by (auto simp: collect_updates_def Let_def split: if_splits option.splits)
  then obtain x where c: "c = \<lparr>up_username = (if rq_username r \<noteq> [] then Some (rq_username r) else None),
        up_status = rq_status r, up_quota = rq_quota r, up_ipLimit = rq_ipLimit r,
        up_hash = (if rq_password r \<noteq> [] then Some (SHA224String (rq_password r)) else None), up_expiry = x\<rparr>" ..
  have "rq_username r \<noteq> [] \<longrightarrow> validateUsername (rq_username r) = None"
    "\<not> (case rq_status r of None \<Rightarrow> False | Some s \<Rightarrow> s < 0 \<or> s > 1)"
    "\<not> (case rq_quota r of None \<Rightarrow> False | Some q \<Rightarrow> validateQuota q \<noteq> None)"
    "\<not> (case rq_ipLimit r of None \<Rightarrow> False | Some n \<Rightarrow> n < 0 \<or> n > 100)"
    using assms unfolding collect_updates_def by (meson Inl_Inr_False)+
  then show ?thesis unfolding c by (auto simp: validateQuota_def split: option.splits if_splits)
qed

lemma apply_updates_wf: "user_wf u \<Longrightarrow> collect_updates e i r us = Inr c \<Longrightarrow> user_wf (apply_updates c u)"
  using collect_updates_ok [of e i r us c]
  by (auto simp: user_wf_def apply_updates_def split: option.splits if_splits)

lemma update_const_twice:
  "pu_id v = i \<Longrightarrow> update_users i f (update_users i (\<lambda>_. v) us) = update_users i (\<lambda>_. f v) us"
  by (simp add: update_users_def)

lemma update_transaction_cases:
  assumes "update_transaction e c pw u us = Some us'"
  obtains (plain) "up_hash c = None" "us' = update_users (pu_id u) (\<lambda>_. apply_updates c u) us" "unique_users us'"
  | (password) k where "up_hash c \<noteq> None" "us' = update_users (pu_id u) (\<lambda>_. with_cred k (apply_updates c u)) us"
      "unique_users (update_users (pu_id u) (\<lambda>_. apply_updates c u) us)"
      "SetUserPassword (se_vault e) (se_rand e) (se_setPassword e) pw (cred_of (apply_updates c u)) = (Ret (), k)"
proof -
  have i: "pu_id (apply_updates c u) = pu_id u" by (simp add: apply_updates_def)
  show ?thesis
  proof (cases "up_hash c")
    case None
    then show ?thesis using assms plain by (auto simp: update_transaction_def Let_def split: if_splits)
  next
    case (Some h)
    then obtain k where "SetUserPassword (se_vault e) (se_rand e) (se_setPassword e) pw (cred_of (apply_updates c u)) = (Ret (), k)"
      "us' = update_users (pu_id u) (with_cred k) (update_users (pu_id u) (\<lambda>_. apply_updates c u) us)"
      "unique_users (update_users (pu_id u) (\<lambda>_. apply_updates c u) us)"
      using assms by (auto simp: update_transaction_def Let_def split: if_splits prod.splits outcome.splits)
    then show ?thesis using password Some update_const_twice [OF i] by simp
  qed
qed

lemma unique_const:
  assumes "unique_users (update_users i (\<lambda>_. v) us)" "pu_id w = pu_id v" "du_hash w = du_hash v"
  shows "unique_users (update_users i (\<lambda>_. w) us)"
proof -
  have "map pu_id (update_users i (\<lambda>_. w) us) = map pu_id (update_users i (\<lambda>_. v) us)"
    "map du_hash (update_users i (\<lambda>_. w) us) = map du_hash (update_users i (\<lambda>_. v) us)"
    using assms(2,3) by (simp_all add: update_users_def)
  then show ?thesis using assms(1) by (simp add: unique_users_def)
qed

text \<open>The new row of a successful update.\<close>

lemma update_transaction_row:
  assumes "update_transaction e c (rq_password r) u us = Some us'" "collect_updates e i r us = Inr c" "user_wf u"
  obtains v where "us' = update_users (pu_id u) (\<lambda>_. v) us" "unique_users us'" "user_wf v" "pu_id v = pu_id u"
    "du_status v = du_status (apply_updates c u)"
    "du_hash v = (if rq_password r = [] then du_hash u else SHA224String (rq_password r))"
  using assms(1)
proof (cases rule: update_transaction_cases)
  case plain
  then show ?thesis using that [of "apply_updates c u"] apply_updates_wf [OF assms(3,2)] collect_updates_ok [OF assms(2)]
    by (auto simp: apply_updates_def split: if_splits)
next
  case (password k)
  let ?v = "with_cred k (apply_updates c u)"
  note S = set_password_effect [OF password(4)]
  have h: "rq_password r \<noteq> []" "up_hash c = Some (SHA224String (rq_password r))"
    using collect_updates_ok [OF assms(2)] password(1) by (auto split: if_splits)
  have v: "pu_id ?v = pu_id (apply_updates c u)" "du_hash ?v = du_hash (apply_updates c u)"
      "du_hash ?v = SHA224String (rq_password r)" "pu_id ?v = pu_id u" "du_status ?v = du_status (apply_updates c u)"
    using S h by (simp_all add: with_cred_def apply_updates_def)
  have "user_wf ?v" using apply_updates_wf [OF assms(3,2)] S by (intro with_cred_wf) auto
  then show ?thesis using that [of ?v] password(2) unique_const [OF password(3) v(1,2)] v h by auto
qed

lemma handleUpdateUser_wf:
  assumes "panel_wf p"
  shows "panel_wf (snd (handleUpdateUser e i req p))"
proof (cases "\<exists>r u c us. req = Some r \<and> user_by_id i (pl_users p) = Some u \<and> collect_updates e i r (pl_users p) = Inr c \<and>
    update_transaction e c (rq_password r) u (pl_users p) = Some us")
  case False
  then show ?thesis using assms by (auto simp: handleUpdateUser_def split: option.splits sum.splits)
next
  case True
  then obtain r u c us where H: "req = Some r" "user_by_id i (pl_users p) = Some u" "collect_updates e i r (pl_users p) = Inr c"
    "update_transaction e c (rq_password r) u (pl_users p) = Some us" by blast
  have u: "user_wf u" using assms user_by_idD [OF H(2)] by (auto simp: panel_wf_def users_wf_def list_all_iff)
  obtain v where v: "us = update_users (pu_id u) (\<lambda>_. v) (pl_users p)" "unique_users us" "user_wf v"
    using update_transaction_row [OF H(4,3) u] by metis
  then have "users_wf us" using assms by (auto simp: panel_wf_def users_wf_def update_users_def list_all_iff)
  then show ?thesis using assms H
    by (auto simp: handleUpdateUser_def panel_wf_def Let_def split: option.splits)
qed

lemma handleDeleteUser_wf: "panel_wf p \<Longrightarrow> panel_wf (snd (handleDeleteUser e i p))"
  by (auto simp: handleDeleteUser_def panel_wf_def delete_wf Let_def split: option.splits)

lemma panel_handle_wf:
  assumes "panel_wf p" "se_newID e \<noteq> 0"
  shows "panel_wf (snd (panel_handle (e, r) p))"
proof (cases r)
  case (SetQuota i q)
  then show ?thesis using assms
    by (auto simp: handleUpdateQuota_def validateQuota_def user_wf_def intro!: update_column_panel split: option.splits)
qed (use assms in \<open>auto simp: handleAddUser_wf handleUpdateUser_wf handleDeleteUser_wf handleClearTraffic_def
    handleSetExpire_def handleCancelExpire_def user_wf_def intro!: update_column_panel split: option.splits\<close>)

section \<open>Password and hash belong together\<close>

definition coherent :: "vault \<Rightarrow> panel_user \<Rightarrow> bool" where
  "coherent v u \<longleftrightarrow> (case UserPassword v (cred_of u) of Ret pw \<Rightarrow> pw \<noteq> [] \<and> SHA224String pw = du_hash u | _ \<Rightarrow> False)"

definition vault_ok :: "vault \<Rightarrow> bool" where
  "vault_ok v \<longleftrightarrow> aead_ok (va_aead v) \<and> (\<forall>m. va_key v \<noteq> Panic m) \<and> va_key v \<noteq> Hang"

text \<open>One key, nonces of the right size, and compensating deletes that do not fail.\<close>

definition calm :: "vault \<Rightarrow> surroundings \<Rightarrow> bool" where
  "calm v e \<longleftrightarrow> se_vault e = v \<and> (case se_rand e of None \<Rightarrow> True | Some n \<Rightarrow> length n = nonce_size) \<and> se_delete e"

lemma set_password_readable:
  assumes "vault_ok v" "calm v e" "SetUserPassword (se_vault e) (se_rand e) err pw c = (Ret x, c')" "pw \<noteq> []"
  shows "UserPassword v c' = Ret pw"
proof -
  obtain t where t: "EncryptCredential v (se_rand e) (userPasswordPurpose (uc_id c)) pw = Ret t"
      "c' = c\<lparr>uc_password := [], uc_ciphertext := t, uc_keyID := ''default'', uc_hash := sha224Password pw\<rparr>"
    using assms(2,3) by (auto simp: SetUserPassword_def calm_def split: if_splits outcome.splits)
  obtain n where n: "se_rand e = Some n" "length n = nonce_size"
    using t(1) assms(2,4) by (auto simp: EncryptCredential_def calm_def split: outcome.splits option.splits)
  show ?thesis using encrypt_decrypt [OF _ n(2), of v "userPasswordPurpose (uc_id c)" pw t] assms(1,4) t n(1)
    by (simp add: vault_ok_def UserPassword_def)
qed

lemma set_password_no_panic:
  assumes "vault_ok v"
  shows "fst (SetUserPassword v rnd err pw c) \<noteq> Panic m \<and> fst (SetUserPassword v rnd err pw c) \<noteq> Hang"
  using assms by (auto simp: vault_ok_def SetUserPassword_def EncryptCredential_def split: outcome.splits option.splits)

lemma coherent_new_password:
  assumes "vault_ok v" "calm v e" "pw \<noteq> []" "SetUserPassword (se_vault e) (se_rand e) err pw (cred_of u) = (Ret x, c)"
  shows "coherent v (with_cred c u)"
proof -
  note S = set_password_effect [OF assms(4)]
  have "cred_of (with_cred c u) = c" using S by (simp add: cred_of_def with_cred_def)
  then show ?thesis using set_password_readable [OF assms(1,2,4,3)] S assms(3) by (simp add: coherent_def with_cred_def)
qed

lemma coherent_cong:
  assumes "cred_of w = cred_of u"
  shows "coherent v w = coherent v u"
proof -
  have "du_hash w = du_hash u" using assms by (simp add: cred_of_def)
  then show ?thesis by (simp add: coherent_def assms cong: outcome.case_cong)
qed

lemma coherent_column:
  "list_all (coherent v) (pl_users p) \<Longrightarrow> (\<And>u. cred_of (f u) = cred_of u) \<Longrightarrow>
   list_all (coherent v) (pl_users (snd (update_column e i f p)))"
  by (auto simp: update_column_def update_users_def list_all_iff dest: coherent_cong [of "f u" u v for u])

lemma coherent_add:
  assumes "vault_ok v" "calm v e" "list_all (coherent v) (pl_users p)"
  shows "list_all (coherent v) (pl_users (snd (handleAddUser e req p)))"
proof (cases "handleAddUser e req p" rule: prod.exhaust)
  case (Pair s p')
  from Pair show ?thesis
  proof (cases rule: handleAddUser_cases)
    case (made u c)
    then show ?thesis using Pair assms(3) coherent_new_password [OF assms(1,2) _ made(4)] by (simp add: acceptable_def)
  next
    case (left u x)
    then show ?thesis using assms(2) set_password_no_panic [OF assms(1)] by (auto simp: calm_def)
  qed (use Pair assms in simp)
qed

lemma coherent_update:
  assumes "vault_ok v" "calm v e" "list_all (coherent v) (pl_users p)"
  shows "list_all (coherent v) (pl_users (snd (handleUpdateUser e i req p)))"
proof (cases "\<exists>r u c us. req = Some r \<and> user_by_id i (pl_users p) = Some u \<and> collect_updates e i r (pl_users p) = Inr c \<and>
    update_transaction e c (rq_password r) u (pl_users p) = Some us")
  case False
  then show ?thesis using assms(3) by (auto simp: handleUpdateUser_def split: option.splits sum.splits)
next
  case True
  then obtain r u c us where H: "req = Some r" "user_by_id i (pl_users p) = Some u" "collect_updates e i r (pl_users p) = Inr c"
    "update_transaction e c (rq_password r) u (pl_users p) = Some us" by blast
  note C = collect_updates_ok [OF H(3)]
  have "\<exists>w. us = update_users (pu_id u) (\<lambda>_. w) (pl_users p) \<and> coherent v w"
    using H(4)
  proof (cases rule: update_transaction_cases)
    case plain
    have "coherent v u" using assms(3) user_by_idD [OF H(2)] by (simp add: list_all_iff)
    then have "coherent v (apply_updates c u)" using plain(1) coherent_cong [of "apply_updates c u" u v]
      by (simp add: cred_of_def apply_updates_def)
    then show ?thesis using plain(2) by blast
  next
    case (password k)
    then show ?thesis using coherent_new_password [OF assms(1,2) _ password(4)] C by (auto split: if_splits)
  qed
  then have "list_all (coherent v) us" using assms(3) by (auto simp: update_users_def list_all_iff)
  then show ?thesis using assms(3) H by (auto simp: handleUpdateUser_def Let_def split: option.splits)
qed

lemma coherent_handle:
  assumes "vault_ok v" "calm v e" "list_all (coherent v) (pl_users p)"
  shows "list_all (coherent v) (pl_users (snd (panel_handle (e, r) p)))"
proof (cases r)
  case (RemoveUser i)
  then show ?thesis using assms(3)
    by (auto simp: handleDeleteUser_def delete_user_def Let_def list_all_iff split: option.splits)
qed (use assms in \<open>auto simp: coherent_add coherent_update handleUpdateQuota_def handleClearTraffic_def
    handleSetExpire_def handleCancelExpire_def cred_of_def intro!: coherent_column split: option.splits\<close>)

section \<open>The authenticators after a change\<close>

definition policy_rows :: "panel \<Rightarrow> db_user list" where
  "policy_rows p = map db_user.truncate (pl_users p)"

lemma truncate_fields [simp]:
  "du_hash (db_user.truncate u) = du_hash u" "du_status (db_user.truncate u) = du_status u"
  "du_expiry (db_user.truncate u) = du_expiry u"
  by (simp_all add: db_user.truncate_def)

lemma policy_rows_hashes: "map du_hash (policy_rows p) = map du_hash (pl_users p)"
  by (simp add: policy_rows_def)

lemma node_valid_known: "h \<in> set (node_valid_hashes now us) \<Longrightarrow> h \<in> du_hash ` set us"
  by (auto simp: node_valid_hashes_def)

lemma absent_never_synced:
  assumes "panel_wf p" "h \<notin> du_hash ` set (pl_users p)" "auth_inv a"
  shows "h \<notin> user_names (snd (SyncAuthenticatorFromDatabase now (Some (policy_rows p)) a))"
proof -
  have "distinct (map du_hash (policy_rows p))"
    using assms(1) by (simp add: panel_wf_def users_wf_def unique_users_def policy_rows_hashes)
  then have "user_names (snd (SyncAuthenticatorFromDatabase now (Some (policy_rows p)) a)) =
      set (node_valid_hashes now (policy_rows p))"
    using sync_result(3) [OF assms(3) _ refl] by blast
  moreover have "h \<notin> du_hash ` set (policy_rows p)" using assms(2) by (simp add: policy_rows_def image_image)
  ultimately show ?thesis using node_valid_known by blast
qed

lemma del_names: "a \<in> set (syncAuthDelUser h as) \<Longrightarrow> h \<noteq> [] \<Longrightarrow> h \<notin> user_names a"
  by (auto simp: syncAuthDelUser_def DelUser_names)

lemma add_names: "a \<in> set (syncAuthAddUser h as) \<Longrightarrow> h \<noteq> [] \<Longrightarrow> h \<in> user_names a"
  by (auto simp: syncAuthAddUser_def AddUser_names)

lemma add_names_other: "a \<in> set (syncAuthAddUser k as) \<Longrightarrow> \<forall>b \<in> set as. h \<notin> user_names b \<Longrightarrow> h \<noteq> k \<Longrightarrow> h \<notin> user_names a"
  by (auto simp: syncAuthAddUser_def AddUser_names split: if_splits)

lemma hash_ne: "user_wf u \<Longrightarrow> du_hash u \<noteq> []"
  by (auto simp: user_wf_def)

lemma panel_user_wf: "panel_wf p \<Longrightarrow> user_by_id i (pl_users p) = Some u \<Longrightarrow> user_wf u"
  using user_by_idD [of i "pl_users p" u] by (auto simp: panel_wf_def users_wf_def list_all_iff)

lemma handleUpdateUser_ok:
  assumes "panel_wf p" "handleUpdateUser e i req p = (200, p')" "\<not> se_isNode e"
  obtains r u v where "req = Some r" "user_by_id i (pl_users p) = Some u" "user_wf u" "user_wf v"
    "pl_users p' = update_users i (\<lambda>_. v) (pl_users p)" "unique_users (pl_users p')" "user_by_id i (pl_users p') = Some v"
    "du_hash v = (if rq_password r = [] then du_hash u else SHA224String (rq_password r))"
    "pl_auths p' = (let a1 = syncAuthDelUser (du_hash u) (pl_auths p) in
        if se_refresh e \<and> du_status v = 0 then syncAuthAddUser (du_hash v) a1 else a1)"
proof -
  have "collect_updates e i r us \<noteq> Inl 200" for r us
    by (auto simp: collect_updates_def Let_def split: if_splits option.splits)
  then have "\<exists>r u c us. req = Some r \<and> user_by_id i (pl_users p) = Some u \<and> collect_updates e i r (pl_users p) = Inr c \<and>
      update_transaction e c (rq_password r) u (pl_users p) = Some us \<and> pl_users p' = us \<and>
      pl_auths p' = (let a1 = syncAuthDelUser (du_hash u) (pl_auths p) in
         if \<not> se_refresh e then a1 else case user_by_id i us of None \<Rightarrow> a1
           | Some v \<Rightarrow> if du_status v = 0 then syncAuthAddUser (du_hash v) a1 else a1)"
    using assms(2,3) by (auto simp: handleUpdateUser_def Let_def split: option.splits sum.splits)
  then obtain r u c us where H: "req = Some r" "user_by_id i (pl_users p) = Some u" "collect_updates e i r (pl_users p) = Inr c"
      "update_transaction e c (rq_password r) u (pl_users p) = Some us" "pl_users p' = us"
      "pl_auths p' = (let a1 = syncAuthDelUser (du_hash u) (pl_auths p) in
         if \<not> se_refresh e then a1 else case user_by_id i us of None \<Rightarrow> a1
           | Some v \<Rightarrow> if du_status v = 0 then syncAuthAddUser (du_hash v) a1 else a1)"
    by blast
  note u = panel_user_wf [OF assms(1) H(2)] and ui = user_by_idD [OF H(2)]
  obtain v where v: "us = update_users (pu_id u) (\<lambda>_. v) (pl_users p)" "unique_users us" "user_wf v" "pu_id v = pu_id u"
      "du_hash v = (if rq_password r = [] then du_hash u else SHA224String (rq_password r))"
    using update_transaction_row [OF H(4,3) u] by metis
  have "find (\<lambda>x. pu_id x = i) (map (\<lambda>x. if pu_id x = i then v else x) xs) = Some v" if "u \<in> set xs" for xs
    using that ui v(4) by (induction xs) auto
  then have "user_by_id i us = Some v" using ui v(1) by (simp add: user_by_id_def update_users_def)
  then show ?thesis using that [OF H(1,2) u v(3)] H(5,6) v ui by (simp add: Let_def)
qed

lemma readded_meter:
  assumes "auth_inv a" "h \<in> user_names a"
  shows "\<exists>q. AuthUser h (snd (AddUser h (snd (DelUser h a)))) = Some q \<and>
    heap (snd (AddUser h (snd (DelUser h a)))) ! q = new_user h"
proof -
  have "AuthUser h (snd (DelUser h a)) = None" using AuthUser_None_iff [of h "snd (DelUser h a)"] by (simp add: DelUser_names)
  then have "AuthUser h (snd (AddUser h (snd (DelUser h a)))) = Some (length (heap (snd (DelUser h a))))"
    "heap (snd (AddUser h (snd (DelUser h a)))) ! length (heap (snd (DelUser h a))) = new_user h"
    by (simp_all add: AddUser_AuthUser) (simp add: AddUser_def)
  then show ?thesis by blast
qed

section \<open>Properties\<close>

text \<open>C31. The user table stays well-formed. After any sequence of requests to the user handlers, with any contents
  and any of their accesses of the database or the key failing, every row still has a 56-character hash, a
  status 0 or 1, a quota of at least -1, an address limit from 0 to 100, a valid name, an identifier and no plaintext
  password; identifiers and hashes are unique, and every authenticator keeps its invariant.\<close>

theorem users_stay_wellformed:
  assumes "panel_wf p" "\<forall>(e, r) \<in> set rs. se_newID e \<noteq> 0"
  shows "panel_wf (panel_run rs p)"
  using assms unfolding panel_run_def
proof (induction rs arbitrary: p)
  case (Cons x rs)
  obtain e r where x: "x = (e, r)" by fastforce
  then have "panel_wf (snd (panel_handle x p))" using Cons.prems by (simp add: panel_handle_wf)
  then show ?case using Cons by simp
qed simp

definition sample_surroundings :: surroundings where
  "sample_surroundings = \<lparr>se_isNode = False, se_master = 502, se_now = 10 ^ 18, se_tz = 0, se_vault = sample_vault,
     se_rand = Some (replicate 12 1), se_newID = 7, se_lookup = True, se_begin = True, se_write = True,
     se_setPassword = None, se_delete = True, se_commit = True, se_refresh = True\<rparr>"

definition sample_user :: panel_user where
  "sample_user = \<lparr>du_hash = [], du_quota = 0, du_used = 0, du_upload = 0, du_download = 0, du_expiry = Some 1,
     du_ip_limit = 2, du_status = 0, pu_id = 0, pu_created = 0, pu_username = ''u'', pu_password = ''pw'',
     pu_ciphertext = [], pu_keyID = []\<rparr>"

definition empty_panel :: panel where
  "empty_panel = \<lparr>pl_users = [], pl_auths = [empty_auth]\<rparr>"

lemma empty_panel_wf: "panel_wf empty_panel"
  by (simp add: panel_wf_def empty_panel_def users_wf_def unique_users_def)

theorem users_stay_wellformed_witness:
  "panel_wf (panel_run [(sample_surroundings, CreateUser (Some sample_user)), (sample_surroundings, SetQuota 7 (Some 5))] empty_panel)"
  using users_stay_wellformed [OF empty_panel_wf, of "[(sample_surroundings, CreateUser (Some sample_user)),
    (sample_surroundings, SetQuota 7 (Some 5))]"] by (simp add: sample_surroundings_def)

text \<open>C32. A stored password always belongs to its hash. As long as the key is the same and a compensating
  delete does not fail, after any sequence of requests the ciphertext of every row decrypts to a
  non-empty password whose SHA-224 hash is the hash the proxy authenticates by: no failing step of a
  creation or an update leaves the new hash beside the old password or the other way round.\<close>

theorem password_matches_hash:
  assumes "vault_ok v" "\<forall>(e, r) \<in> set rs. calm v e" "list_all (coherent v) (pl_users p)"
  shows "list_all (coherent v) (pl_users (panel_run rs p))"
  using assms(2,3) unfolding panel_run_def
proof (induction rs arbitrary: p)
  case (Cons x rs)
  obtain e r where x: "x = (e, r)" by fastforce
  then have "list_all (coherent v) (pl_users (snd (panel_handle x p)))"
    using Cons.prems by (simp add: coherent_handle [OF assms(1)])
  then show ?case using Cons by simp
qed simp

theorem password_matches_hash_witness:
  "list_all (coherent sample_vault) (pl_users (panel_run [(sample_surroundings, CreateUser (Some sample_user)),
     (sample_surroundings\<lparr>se_commit := False\<rparr>, ChangeUser 7 None)] empty_panel))"
proof -
  have v: "vault_ok sample_vault" using sample_vault_ok by (simp add: vault_ok_def sample_vault_def)
  have c: "calm sample_vault sample_surroundings" "calm sample_vault (sample_surroundings\<lparr>se_commit := False\<rparr>)"
    by (simp_all add: calm_def sample_surroundings_def nonce_size_def)
  show ?thesis
    using password_matches_hash [OF v, of "[(sample_surroundings, CreateUser (Some sample_user)),
       (sample_surroundings\<lparr>se_commit := False\<rparr>, ChangeUser 7 None)]" empty_panel] c
    by (simp add: empty_panel_def)
qed

text \<open>Deleting a user is final. When the deletion succeeds, no authenticator accepts the user's hash any more, and
  none ever will by a refresh from the table, nor is the hash sent to a worker node.\<close>

theorem removal_is_final:
  assumes "panel_wf p" "\<not> se_isNode e" "user_by_id i (pl_users p) = Some u" "handleDeleteUser e i p = (200, p')" "auth_inv a"
  shows "(\<forall>b \<in> set (pl_auths p'). du_hash u \<notin> user_names b) \<and>
    du_hash u \<notin> user_names (snd (SyncAuthenticatorFromDatabase now (Some (policy_rows p')) a)) \<and>
    du_hash u \<notin> set (node_valid_hashes now (policy_rows p'))"
proof -
  note u = panel_user_wf [OF assms(1,3)]
  have p': "p' = p\<lparr>pl_auths := syncAuthDelUser (du_hash u) (pl_auths p), pl_users := delete_user i (pl_users p)\<rparr>"
    using assms(2-4) by (auto simp: handleDeleteUser_def Let_def split: if_splits)
  have wf: "panel_wf p'" using handleDeleteUser_wf [OF assms(1), of e i] assms(4) by simp
  have ui: "u \<in> set (pl_users p)" "pu_id u = i" using user_by_idD [OF assms(3)] by auto
  have inj: "inj_on du_hash (set (pl_users p))"
    using assms(1) by (simp add: panel_wf_def users_wf_def unique_users_def distinct_map)
  have gone: "du_hash u \<notin> du_hash ` set (pl_users p')"
    using p' ui inj by (auto simp: delete_user_def dest: inj_onD)
  then have "du_hash u \<notin> set (node_valid_hashes now (policy_rows p'))"
    using node_valid_known by (fastforce simp: policy_rows_def image_image)
  moreover have "\<forall>b \<in> set (pl_auths p'). du_hash u \<notin> user_names b"
    using p' del_names [OF _ hash_ne [OF u]] by auto
  ultimately show ?thesis using absent_never_synced [OF wf gone assms(5)] by blast
qed

definition sample_row :: panel_user where
  "sample_row = sample_user\<lparr>pu_id := 7, pu_password := [], du_hash := replicate 56 CHR ''z''\<rparr>"

definition sample_panel :: panel where
  "sample_panel = \<lparr>pl_users = [sample_row], pl_auths = [snd (AddUser (du_hash sample_row) empty_auth)]\<rparr>"

lemma sample_panel_wf: "panel_wf sample_panel"
proof -
  have "validateUsername ''u'' = None" by code_simp
  then show ?thesis
    by (simp add: panel_wf_def sample_panel_def users_wf_def unique_users_def user_wf_def sample_row_def
        sample_user_def AddUser_inv)
qed

theorem removal_is_final_witness:
  "\<exists>p'. handleDeleteUser sample_surroundings 7 sample_panel = (200, p') \<and>
    (\<forall>b \<in> set (pl_auths p'). du_hash sample_row \<notin> user_names b)"
proof -
  obtain p' where p': "handleDeleteUser sample_surroundings 7 sample_panel = (200, p')"
    by (simp add: handleDeleteUser_def sample_surroundings_def sample_panel_def user_by_id_def sample_row_def)
  moreover have "user_by_id 7 (pl_users sample_panel) = Some sample_row"
    by (simp add: user_by_id_def sample_panel_def sample_row_def)
  moreover have "\<not> se_isNode sample_surroundings" by (simp add: sample_surroundings_def)
  ultimately show ?thesis
    using removal_is_final [OF sample_panel_wf _ _ p' auth_inv_empty, of sample_row] by blast
qed

text \<open>A password change takes effect at once. When an update with a new password succeeds, the row has the new
  hash, no row and no authenticator has the old one, so neither the proxy nor a worker node accepts the old
  password, and every authenticator accepts the new one if the user is enabled.\<close>

theorem password_change_takes_effect:
  assumes "panel_wf p" "\<not> se_isNode e" "user_by_id i (pl_users p) = Some u"
    "handleUpdateUser e i (Some r) p = (200, p')" "rq_password r \<noteq> []" "SHA224String (rq_password r) \<noteq> du_hash u"
  shows "\<exists>v. user_by_id i (pl_users p') = Some v \<and> du_hash v = SHA224String (rq_password r) \<and>
    du_hash u \<notin> du_hash ` set (pl_users p') \<and> (\<forall>b \<in> set (pl_auths p'). du_hash u \<notin> user_names b) \<and>
    (se_refresh e \<and> du_status v = 0 \<longrightarrow> (\<forall>b \<in> set (pl_auths p'). du_hash v \<in> user_names b))"
proof -
  from assms(1,4,2) obtain r' u' v where H: "Some r = Some r'" "user_by_id i (pl_users p) = Some u'" "user_wf u'" "user_wf v"
      "pl_users p' = update_users i (\<lambda>_. v) (pl_users p)" "unique_users (pl_users p')" "user_by_id i (pl_users p') = Some v"
      "du_hash v = (if rq_password r' = [] then du_hash u' else SHA224String (rq_password r'))"
      "pl_auths p' = (let a1 = syncAuthDelUser (du_hash u') (pl_auths p) in
        if se_refresh e \<and> du_status v = 0 then syncAuthAddUser (du_hash v) a1 else a1)"
    by (rule handleUpdateUser_ok)
  have v: "user_wf u" "user_wf v" "pl_users p' = update_users i (\<lambda>_. v) (pl_users p)"
      "user_by_id i (pl_users p') = Some v" "du_hash v = SHA224String (rq_password r)"
      "pl_auths p' = (let a1 = syncAuthDelUser (du_hash u) (pl_auths p) in
        if se_refresh e \<and> du_status v = 0 then syncAuthAddUser (du_hash v) a1 else a1)"
    using H assms(3,5) by simp_all
  have ui: "u \<in> set (pl_users p)" "pu_id u = i" using user_by_idD [OF assms(3)] by auto
  have inj: "inj_on du_hash (set (pl_users p))"
    using assms(1) by (simp add: panel_wf_def users_wf_def unique_users_def distinct_map)
  have "du_hash u \<notin> du_hash ` set (pl_users p')"
    using v(3,5) ui inj assms(6) by (auto simp: update_users_def dest: inj_onD)
  moreover have "\<forall>b \<in> set (syncAuthDelUser (du_hash u) (pl_auths p)). du_hash u \<notin> user_names b"
    using del_names [OF _ hash_ne [OF v(1)]] by blast
  then have "\<forall>b \<in> set (pl_auths p'). du_hash u \<notin> user_names b"
    using v(5,6) assms(6) add_names_other [of _ "du_hash v" "syncAuthDelUser (du_hash u) (pl_auths p)" "du_hash u"]
    by (auto simp: Let_def split: if_splits)
  ultimately show ?thesis using v(4-6) add_names [OF _ hash_ne [OF v(2)]] by auto
qed

definition sample_update :: user_update where
  "sample_update = \<lparr>rq_username = [], rq_password = ''new'', rq_status = None, rq_expiryDays = None,
     rq_expiryTime = None, rq_quota = None, rq_ipLimit = None\<rparr>"

lemma sample_update_ok: "\<exists>p'. handleUpdateUser sample_surroundings 7 (Some sample_update) sample_panel = (200, p')"
proof -
  obtain c where c: "SetUserPassword sample_vault (Some (replicate 12 1)) None ''new'' (cred_of
      (sample_row\<lparr>du_hash := SHA224String ''new''\<rparr>)) = (Ret (), c)"
    by (simp add: SetUserPassword_def EncryptCredential_def sample_vault_def cred_of_def sample_row_def)
  have "apply_updates \<lparr>up_username = None, up_status = None, up_quota = None, up_ipLimit = None,
      up_hash = Some (SHA224String ''new''), up_expiry = None\<rparr> sample_row = sample_row\<lparr>du_hash := SHA224String ''new''\<rparr>"
    by (simp add: apply_updates_def)
  with c show ?thesis
    by (simp add: handleUpdateUser_def sample_surroundings_def sample_panel_def user_by_id_def sample_row_def
        collect_updates_def sample_update_def update_transaction_def Let_def update_users_def unique_users_def)
qed

lemma hash_is_hex: "CHR ''z'' \<notin> set (SHA224String password)"
proof -
  have "hex_digit n \<noteq> CHR ''z''" if "n < 16" for n
  proof
    assume "hex_digit n = CHR ''z''"
    then have "of_char (hex_digit n) = (122 :: nat)" by simp
    then show False using that by (simp add: hex_digit_def split: if_splits)
  qed
  moreover have "unat b div 16 < 16" "unat b mod 16 < 16" for b :: byte using unat_byte_less [of b] by simp_all
  ultimately have "CHR ''z'' \<notin> set (hex_byte b)" for b by (metis empty_iff empty_set hex_byte_def set_ConsD)
  then show ?thesis by (auto simp: SHA224String_def)
qed

lemma sample_hash_differs: "SHA224String password \<noteq> du_hash sample_row"
  using hash_is_hex [of password] by (auto simp: sample_row_def)

theorem password_change_takes_effect_witness:
  "\<exists>p'. handleUpdateUser sample_surroundings 7 (Some sample_update) sample_panel = (200, p') \<and>
    (\<forall>b \<in> set (pl_auths p'). du_hash sample_row \<notin> user_names b)"
proof -
  obtain p' where p': "handleUpdateUser sample_surroundings 7 (Some sample_update) sample_panel = (200, p')"
    using sample_update_ok ..
  moreover have "user_by_id 7 (pl_users sample_panel) = Some sample_row"
    by (simp add: user_by_id_def sample_panel_def sample_row_def)
  moreover have "\<not> se_isNode sample_surroundings" by (simp add: sample_surroundings_def)
  moreover have "rq_password sample_update \<noteq> []" "SHA224String (rq_password sample_update) \<noteq> du_hash sample_row"
    using sample_hash_differs by (simp_all add: sample_update_def)
  ultimately show ?thesis using password_change_takes_effect [OF sample_panel_wf _ _ p', of sample_row] by blast
qed

text \<open>Any successful update of an enabled user puts the hash back into every authenticator, whatever the
  expiry and the quota of the row say: an expired user who is renamed is accepted again by the proxy until the next
  refresh, while the worker nodes and the refresh itself refuse the user.\<close>

theorem update_readmits_expired:
  assumes "panel_wf p" "\<not> se_isNode e" "se_refresh e" "handleUpdateUser e i req p = (200, p')"
    "user_by_id i (pl_users p') = Some v" "du_status v = 0" "expired now (db_user.truncate v)"
  shows "(\<forall>b \<in> set (pl_auths p'). du_hash v \<in> user_names b) \<and> du_hash v \<notin> set (node_valid_hashes now (policy_rows p'))"
proof -
  from assms(1,4,2) obtain r' u v' where H: "req = Some r'" "user_by_id i (pl_users p) = Some u" "user_wf u" "user_wf v'"
      "pl_users p' = update_users i (\<lambda>_. v') (pl_users p)" "unique_users (pl_users p')" "user_by_id i (pl_users p') = Some v'"
      "du_hash v' = (if rq_password r' = [] then du_hash u else SHA224String (rq_password r'))"
      "pl_auths p' = (let a1 = syncAuthDelUser (du_hash u) (pl_auths p) in
        if se_refresh e \<and> du_status v' = 0 then syncAuthAddUser (du_hash v') a1 else a1)"
    by (rule handleUpdateUser_ok)
  have u: "user_wf v" "unique_users (pl_users p')"
      "pl_auths p' = syncAuthAddUser (du_hash v) (syncAuthDelUser (du_hash u) (pl_auths p))"
    using H assms(3,5,6) by simp_all
  have "w = v" if "w \<in> set (pl_users p')" "du_hash w = du_hash v" for w
    using that u(2) user_by_idD [OF assms(5)] by (auto simp: unique_users_def distinct_map dest: inj_onD)
  then have "du_hash v \<notin> set (node_valid_hashes now (policy_rows p'))"
    using assms(7) by (auto simp: node_valid_hashes_def policy_rows_def)
  then show ?thesis using u(3) add_names [OF _ hash_ne [OF u(1)]] by auto
qed

text \<open>An update that keeps the password replaces the user's meters: what they had counted since the last
  synchronisation is discarded and never charged.\<close>

theorem update_drops_traffic:
  assumes "panel_wf p" "\<not> se_isNode e" "se_refresh e" "handleUpdateUser e i (Some r) p = (200, p')"
    "rq_password r = []" "user_by_id i (pl_users p) = Some u" "user_by_id i (pl_users p') = Some v" "du_status v = 0"
    "k < length (pl_auths p)" "du_hash u \<in> user_names (pl_auths p ! k)"
  shows "\<exists>q. AuthUser (du_hash u) (pl_auths p' ! k) = Some q \<and> sent (heap (pl_auths p' ! k) ! q) = 0 \<and>
    recv (heap (pl_auths p' ! k) ! q) = 0"
proof -
  from assms(1,4,2) obtain r' u' v' where H: "Some r = Some r'" "user_by_id i (pl_users p) = Some u'" "user_wf u'" "user_wf v'"
      "pl_users p' = update_users i (\<lambda>_. v') (pl_users p)" "unique_users (pl_users p')" "user_by_id i (pl_users p') = Some v'"
      "du_hash v' = (if rq_password r' = [] then du_hash u' else SHA224String (rq_password r'))"
      "pl_auths p' = (let a1 = syncAuthDelUser (du_hash u') (pl_auths p) in
        if se_refresh e \<and> du_status v' = 0 then syncAuthAddUser (du_hash v') a1 else a1)"
    by (rule handleUpdateUser_ok)
  have h: "user_wf u" "pl_auths p' = syncAuthAddUser (du_hash u) (syncAuthDelUser (du_hash u) (pl_auths p))"
    using H assms(3,5-8) by simp_all
  have "auth_inv (pl_auths p ! k)" using assms(1,9) by (simp add: panel_wf_def list_all_length)
  moreover have "pl_auths p' ! k = snd (AddUser (du_hash u) (snd (DelUser (du_hash u) (pl_auths p ! k))))"
    using h(2) hash_ne [OF h(1)] assms(9) by (simp add: syncAuthAddUser_def syncAuthDelUser_def)
  ultimately show ?thesis using readded_meter [OF _ assms(10)] by (auto simp: new_user_def)
qed

lemma persist_all_accepts:
  "persist_all js db = Inr db' \<Longrightarrow> distinct (map fst js) \<Longrightarrow> (h, i) \<in> set js \<Longrightarrow> h \<noteq> [] \<Longrightarrow>
   map_of (rows db) h = Some r \<Longrightarrow> 0 < Upload i \<Longrightarrow> row_accepts i r"
proof (induction js arbitrary: db)
  case (Cons x js)
  obtain k j where x: "x = (k, j)" by fastforce
  obtain db1 where 1: "persistTrafficIncrement k j db = Inr db1" "persist_all js db1 = Inr db'"
    using Cons.prems(1) x by (auto split: sum.splits)
  show ?case
  proof (cases "k = h")
    case True
    then have "j = i" using Cons.prems(2,3) x by force
    then show ?thesis using 1(1) True Cons.prems(4-6)
      by (auto simp: persistTrafficIncrement_def split: if_splits)
  next
    case False
    then have "map_of (rows db1) h = Some r" using persist_effect [OF 1(1), of h] Cons.prems(5) by simp
    moreover have "(h, i) \<in> set js" using Cons.prems(3) x False by auto
    ultimately show ?thesis using Cons.IH [OF 1(2)] Cons.prems(2,4,6) by simp
  qed
qed simp

text \<open>The request that creates a user may carry any counters. A row with a negative counter makes the
  control plane refuse every report that holds upload traffic of that user, and with it the traffic of all other
  users of the report.\<close>

theorem negative_counter_blocks_reports:
  assumes "map_of (rows db) h = Some r" "row_used r < 0" "h \<noteq> []" "distinct (map fst batch)" "map_of batch h = Some t"
    "0 < uint (Up t)" "map_of (receipts db) syncID = None"
  shows "fst (handleDataPlaneTraffic False now syncID batch db) \<noteq> 200 \<and> snd (handleDataPlaneTraffic False now syncID batch db) = db"
proof -
  let ?db = "db\<lparr>receipts := receipts db @ [(syncID, now)]\<rparr>"
  have "persist_all js ?db \<noteq> Inr d" if js: "batch_increments 1 batch = Inr js" for js d
  proof
    assume p: "persist_all js ?db = Inr d"
    obtain i where i: "map_of js h = Some i" "newTrafficIncrement (Up t) (Down t) 1 = Inr i"
      using batch_increments_effect [OF js assms(4), of h] assms(3,5) by auto
    have "0 < Upload i" using newTrafficIncrement_one [OF i(2)] assms(6) by simp
    then have "row_accepts i r"
      using persist_all_accepts [OF p _ map_of_SomeD [OF i(1)] assms(3)] assms(1)
        batch_increments_effect [OF js assms(4), of h] by simp
    then show False using assms(2) by (simp add: row_accepts_def)
  qed
  then show ?thesis using assms(7)
    by (auto simp: handleDataPlaneTraffic_def traffic_transaction_def split: sum.splits)
qed

end
