(* ===== verification/Node_Admin.thy ===== *)
theory Node_Admin
  imports Node_Master Field_Validation
begin

text \<open>
  The handlers of the panel for worker nodes (\<open>internal/webserver/nodes.go\<close>), and the reports of the workers
  interleaved with them. A handler takes the surroundings of the call, the parsed request (\<open>None\<close> when the
  JSON does not parse) and the state, and returns the HTTP status and the new state. The identifier of the path is the number it
  denotes. The time stamps that the object-relational mapper keeps in every row are left out.
\<close>

section \<open>Data\<close>

record panel_node = node_row +
  pn_name :: string
  pn_address :: string
  pn_port :: int
  pn_wsEnabled :: bool
  pn_wsPath :: string
  pn_sni :: string

record node_panel =
  np_nodes :: "panel_node list"
  np_config :: config_table

text \<open>The surroundings: the clock, the vault with the bytes of the random source for the secret, the marker and the
  nonce, the identifier the database would give to a new row, and the outcome of each access.\<close>

record node_env =
  ne_isNode :: bool
  ne_master :: int
  ne_now :: int
  ne_vault :: vault
  ne_randSecret :: "bytes option"
  ne_randMarker :: "bytes option"
  ne_nonce :: "bytes option"
  ne_newID :: nat
  ne_lookup :: bool
  ne_create :: bool
  ne_setSecret :: bool
  ne_delete :: bool
  ne_update :: bool
  ne_config :: bool
  ne_mainInfo :: "string \<times> int \<times> bool \<times> string"
  ne_serverDomain :: string

record publicNode =
  bn_id :: nat
  bn_name :: string
  bn_address :: string
  bn_detectedIP :: string
  bn_port :: int
  bn_status :: int
  bn_lastHeartbeat :: "int option"
  bn_rate :: rat
  bn_wsEnabled :: bool
  bn_wsPath :: string
  bn_sni :: string

definition toPublicNode :: "panel_node \<Rightarrow> publicNode" where
  "toPublicNode n =
     \<lparr>bn_id = nd_id n, bn_name = pn_name n, bn_address = pn_address n, bn_detectedIP = nd_detectedIP n,
      bn_port = pn_port n, bn_status = nd_status n, bn_lastHeartbeat = nd_lastHeartbeat n, bn_rate = nd_rate n,
      bn_wsEnabled = pn_wsEnabled n, bn_wsPath = pn_wsPath n, bn_sni = pn_sni n\<rparr>"

definition toPublicNodes :: "panel_node list \<Rightarrow> publicNode list" where
  "toPublicNodes ns = map toPublicNode ns"

section \<open>Listing\<close>

text \<open>The entry for the master itself. Its address is the configured domain only.\<close>

definition mainNode :: "node_env \<Rightarrow> config_table \<Rightarrow> publicNode list" where
  "mainNode e cfg =
     (case ne_mainInfo e of (domain0, port, ws, wsPath) \<Rightarrow>
        let nm = (case map_of cfg ''site_title'' of Some v \<Rightarrow> if v \<noteq> [] then v else ''main node'' | None \<Rightarrow> ''main node'');
            domain = (if domain0 = [] then ne_serverDomain e else domain0)
        in if domain = [] then []
           else [\<lparr>bn_id = 999999, bn_name = nm, bn_address = domain, bn_detectedIP = [], bn_port = port, bn_status = 0,
                  bn_lastHeartbeat = Some (ne_now e), bn_rate = 1, bn_wsEnabled = ws, bn_wsPath = wsPath, bn_sni = []\<rparr>])"

definition handleListNodes :: "node_env \<Rightarrow> node_panel \<Rightarrow> int \<times> publicNode list" where
  "handleListNodes e p =
     (if \<not> ne_lookup e then (500, [])
      else if \<not> ne_isNode e then
        (if \<not> ne_config e then (500, []) else (200, mainNode e (np_config p) @ toPublicNodes (np_nodes p)))
      else (200, toPublicNodes (np_nodes p)))"

section \<open>The node table\<close>

text \<open>The part of the table that carries the credentials, and the table with that part replaced.\<close>

definition core :: "panel_node list \<Rightarrow> node_row list" where
  "core ns = map node_row.truncate ns"

definition with_core :: "node_row list \<Rightarrow> panel_node list \<Rightarrow> panel_node list" where
  "with_core rs ns = map2 (\<lambda>r n. node_row.extend r (node_row.more n)) rs ns"

definition node_by_id :: "nat \<Rightarrow> panel_node list \<Rightarrow> panel_node option" where
  "node_by_id i ns = find (\<lambda>n. nd_id n = i) ns"

definition delete_node :: "nat \<Rightarrow> panel_node list \<Rightarrow> panel_node list" where
  "delete_node i ns = filter (\<lambda>n. nd_id n \<noteq> i) ns"

text \<open>\<open>SetNodeSecret\<close> on the table of the panel; \<open>ne_setSecret\<close> tells whether the UPDATE is carried out.\<close>

definition set_secret :: "node_env \<Rightarrow> string \<Rightarrow> panel_node \<Rightarrow> panel_node list \<Rightarrow> unit outcome \<times> panel_node list" where
  "set_secret e secret n ns =
     (if \<not> ne_setSecret e then (Raise (Opaque ''database''), ns)
      else case SetNodeSecret (ne_vault e) (ne_nonce e) (ne_now e) secret (node_row.truncate n) (core ns) of
        (r, rs) \<Rightarrow> (r, with_core rs ns))"

section \<open>Creating\<close>

record node_request_body =
  nr_name :: string
  nr_address :: string
  nr_port :: int
  nr_rate :: "rat option"
  nr_wsEnabled :: bool
  nr_wsPath :: string
  nr_sni :: string
  nr_secret :: string

definition hex :: "bytes \<Rightarrow> string" where
  "hex bs = concat (map hex_byte bs)"

definition PendingNodeSecretMarker :: "bytes option \<Rightarrow> string outcome" where
  "PendingNodeSecretMarker rnd =
     (case rnd of
        None \<Rightarrow> Raise (Opaque ''generate pending node credential marker'')
      | Some buf \<Rightarrow> Ret (''pending:'' @ b64_encode buf))"

definition valid_port :: "int \<Rightarrow> bool" where
  "valid_port p \<longleftrightarrow> 1 \<le> p \<and> p \<le> 65535"

definition request_valid :: "node_request_body \<Rightarrow> bool" where
  "request_valid r \<longleftrightarrow>
     validateNodeName (nr_name r) = None \<and> validateNodeAddress (nr_address r) = None \<and>
     (nr_port r = 0 \<or> valid_port (nr_port r)) \<and> validateWSPath (nr_wsPath r) = None \<and> validateSNI (nr_sni r) = None \<and>
     ValidateTrafficRate (case nr_rate r of None \<Rightarrow> 1 | Some x \<Rightarrow> x) = None"

definition new_node :: "node_env \<Rightarrow> string \<Rightarrow> node_request_body \<Rightarrow> panel_node" where
  "new_node e pending r =
     \<lparr>nd_id = ne_newID e, nd_secret = pending, nd_ciphertext = [], nd_hash = [], nd_rotatedAt = None, nd_status = 0,
      nd_lastHeartbeat = None, nd_detectedIP = [], nd_rate = (case nr_rate r of None \<Rightarrow> 1 | Some x \<Rightarrow> x),
      pn_name = nr_name r, pn_address = nr_address r, pn_port = (if nr_port r = 0 then 443 else nr_port r),
      pn_wsEnabled = nr_wsEnabled r, pn_wsPath = (if nr_wsPath r = [] then ''/trojan-go'' else nr_wsPath r),
      pn_sni = nr_sni r\<rparr>"

text \<open>The reply carries the secret in clear.\<close>

definition handleAddNode :: "node_env \<Rightarrow> node_request_body option \<Rightarrow> node_panel \<Rightarrow> (int \<times> string option) \<times> node_panel" where
  "handleAddNode e req p =
     (case req of
        None \<Rightarrow> ((400, None), p)
      | Some r \<Rightarrow>
          if \<not> request_valid r then ((400, None), p)
          else if nr_secret r = [] \<and> ne_randSecret e = None then ((500, None), p)
          else
            let secret = (if nr_secret r = [] then hex (the (ne_randSecret e)) else nr_secret r) in
            (case PendingNodeSecretMarker (ne_randMarker e) of
               Ret pending \<Rightarrow>
                 let row = new_node e pending r; ns1 = np_nodes p @ [row] in
                 if \<not> ne_create e \<or> \<not> unique_secrets (core ns1) then ((500, None), p)
                 else (case set_secret e secret row ns1 of
                         (Ret _, ns2) \<Rightarrow> ((200, Some secret), p\<lparr>np_nodes := ns2\<rparr>)
                       | (Raise _, _) \<Rightarrow> ((500, None), p\<lparr>np_nodes := (if ne_delete e then delete_node (nd_id row) ns1 else ns1)\<rparr>)
                       | _ \<Rightarrow> ((500, None), p\<lparr>np_nodes := ns1\<rparr>))
             | _ \<Rightarrow> ((500, None), p)))"

section \<open>Changing\<close>

record node_change =
  nc_name :: string
  nc_address :: string
  nc_port :: "int option"
  nc_rate :: "rat option"
  nc_wsEnabled :: "bool option"
  nc_wsPath :: string

definition change_path :: "node_change \<Rightarrow> string" where
  "change_path r = (if HasPrefix (nc_wsPath r) ''/'' then nc_wsPath r else ''/'' @ nc_wsPath r)"

definition change_valid :: "node_change \<Rightarrow> bool" where
  "change_valid r \<longleftrightarrow>
     (nc_name r \<noteq> [] \<longrightarrow> validateNodeName (nc_name r) = None) \<and>
     (nc_address r \<noteq> [] \<longrightarrow> validateNodeAddress (nc_address r) = None) \<and>
     (case nc_port r of None \<Rightarrow> True | Some p \<Rightarrow> valid_port p) \<and>
     (case nc_rate r of None \<Rightarrow> True | Some x \<Rightarrow> ValidateTrafficRate x = None) \<and>
     (nc_wsPath r \<noteq> [] \<longrightarrow> validateWSPath (change_path r) = None)"

definition apply_change :: "node_change \<Rightarrow> panel_node \<Rightarrow> panel_node" where
  "apply_change r n =
     n\<lparr>pn_name := (if nc_name r \<noteq> [] then nc_name r else pn_name n),
       pn_address := (if nc_address r \<noteq> [] then nc_address r else pn_address n),
       pn_port := (case nc_port r of None \<Rightarrow> pn_port n | Some p \<Rightarrow> p),
       nd_rate := (case nc_rate r of None \<Rightarrow> nd_rate n | Some x \<Rightarrow> x),
       pn_wsEnabled := (case nc_wsEnabled r of None \<Rightarrow> pn_wsEnabled n | Some b \<Rightarrow> b),
       pn_wsPath := (if nc_wsPath r \<noteq> [] then change_path r else pn_wsPath n)\<rparr>"

definition update_nodes :: "nat \<Rightarrow> (panel_node \<Rightarrow> panel_node) \<Rightarrow> panel_node list \<Rightarrow> panel_node list" where
  "update_nodes i f ns = map (\<lambda>n. if nd_id n = i then f n else n) ns"

text \<open>The identifier 999999 stands for the master, whose name is the title of the site.\<close>

definition handleUpdateNode :: "node_env \<Rightarrow> nat \<Rightarrow> node_change option \<Rightarrow> node_panel \<Rightarrow> int \<times> node_panel" where
  "handleUpdateNode e i req p =
     (if i = 999999 then
        (case req of
           None \<Rightarrow> (400, p)
         | Some r \<Rightarrow>
             if nc_name r \<noteq> [] then
               (if \<not> ne_config e then (500, p) else (200, p\<lparr>np_config := AList.update ''site_title'' (nc_name r) (np_config p)\<rparr>))
             else (200, p))
      else case req of
        None \<Rightarrow> (400, p)
      | Some r \<Rightarrow>
          (case (if ne_lookup e then node_by_id i (np_nodes p) else None) of
             None \<Rightarrow> (404, p)
           | Some n \<Rightarrow>
               if \<not> change_valid r then (400, p)
               else if \<not> ne_update e then (500, p)
               else (200, p\<lparr>np_nodes := update_nodes i (apply_change r) (np_nodes p)\<rparr>)))"

definition handleRotateNodeSecret :: "node_env \<Rightarrow> nat \<Rightarrow> node_panel \<Rightarrow> (int \<times> string option) \<times> node_panel" where
  "handleRotateNodeSecret e i p =
     (if i = 999999 then ((400, None), p)
      else case (if ne_lookup e then node_by_id i (np_nodes p) else None) of
        None \<Rightarrow> ((404, None), p)
      | Some n \<Rightarrow>
          (case ne_randSecret e of
             None \<Rightarrow> ((500, None), p)
           | Some b \<Rightarrow>
               (case set_secret e (hex b) n (np_nodes p) of
                  (Ret _, ns) \<Rightarrow> ((200, Some (hex b)), p\<lparr>np_nodes := ns\<rparr>)
                | _ \<Rightarrow> ((500, None), p))))"

definition handleDeleteNode :: "node_env \<Rightarrow> nat \<Rightarrow> node_panel \<Rightarrow> int \<times> node_panel" where
  "handleDeleteNode e i p =
     (if ne_isNode e then (ne_master e, p)
      else case (if ne_lookup e then node_by_id i (np_nodes p) else None) of
        None \<Rightarrow> (404, p)
      | Some n \<Rightarrow> if ne_delete e then (200, p\<lparr>np_nodes := delete_node i (np_nodes p)\<rparr>) else (500, p))"

text \<open>\<open>handlePingNode\<close>: \<open>dial\<close> tells whether an address answers.\<close>

definition handlePingNode :: "node_env \<Rightarrow> (string \<Rightarrow> int \<Rightarrow> bool) \<Rightarrow> nat \<Rightarrow> node_panel \<Rightarrow> int \<times> bool" where
  "handlePingNode e dial i p =
     (case (if ne_lookup e then node_by_id i (np_nodes p) else None) of
        None \<Rightarrow> (404, False)
      | Some n \<Rightarrow> (200, dial (pn_address n) (pn_port n)))"

section \<open>Reports of a worker\<close>

text \<open>A report in its two accesses: the row of the secret is read, and later \<open>Save\<close> writes all of its
  columns. \<open>Save\<close> of the object-relational mapper inserts the row when no row has its identifier.\<close>

definition report_load :: "vault \<Rightarrow> string \<Rightarrow> node_panel \<Rightarrow> panel_node option" where
  "report_load v secret p =
     (if secret = [] then None
      else case NodeBySecret v secret (core (np_nodes p)) of
        Ret r \<Rightarrow> node_by_id (nd_id r) (np_nodes p)
      | _ \<Rightarrow> None)"

definition Save :: "panel_node \<Rightarrow> panel_node list \<Rightarrow> panel_node list option" where
  "Save n ns =
     (let ns' = (if nd_id n \<in> nd_id ` set ns then update_nodes (nd_id n) (\<lambda>_. n) ns else ns @ [n])
      in if unique_secrets (core ns') then Some ns' else None)"

definition report_save :: "int \<Rightarrow> string \<Rightarrow> panel_node \<Rightarrow> node_panel \<Rightarrow> int \<times> node_panel" where
  "report_save now ip n p =
     (let n1 = n\<lparr>nd_lastHeartbeat := Some now, nd_status := 1, nd_detectedIP := (if is_local_ip ip then nd_detectedIP n else ip)\<rparr>
      in case Save n1 (np_nodes p) of None \<Rightarrow> (500, p) | Some ns \<Rightarrow> (200, p\<lparr>np_nodes := ns\<rparr>))"

section \<open>Requests and reports interleaved\<close>

text \<open>The table with the rows that reports have read and not yet written back. \<open>fresh\<close> holds the identifiers that the
  database may give to new rows.\<close>

record node_world =
  nw_panel :: node_panel
  nw_loaded :: "panel_node list"

inductive node_step :: "vault \<Rightarrow> (nat \<Rightarrow> bool) \<Rightarrow> node_world \<Rightarrow> node_world \<Rightarrow> bool" for v fresh where
  add: "ne_vault e = v \<Longrightarrow> fresh (ne_newID e) \<Longrightarrow> handleAddNode e req (nw_panel w) = (r, p) \<Longrightarrow>
    node_step v fresh w (w\<lparr>nw_panel := p\<rparr>)"
| change: "handleUpdateNode e i chg (nw_panel w) = (st, p) \<Longrightarrow> node_step v fresh w (w\<lparr>nw_panel := p\<rparr>)"
| rotate: "ne_vault e = v \<Longrightarrow> handleRotateNodeSecret e i (nw_panel w) = (r, p) \<Longrightarrow> node_step v fresh w (w\<lparr>nw_panel := p\<rparr>)"
| delete: "handleDeleteNode e i (nw_panel w) = (st, p) \<Longrightarrow> node_step v fresh w (w\<lparr>nw_panel := p\<rparr>)"
| load: "report_load v secret (nw_panel w) = Some n \<Longrightarrow> node_step v fresh w (w\<lparr>nw_loaded := n # nw_loaded w\<rparr>)"
| save: "n \<in> set (nw_loaded w) \<Longrightarrow> report_save now ip n (nw_panel w) = (st, p) \<Longrightarrow>
    node_step v fresh w (w\<lparr>nw_panel := p, nw_loaded := remove1 n (nw_loaded w)\<rparr>)"

section \<open>Well-formed nodes\<close>

definition node_wf :: "panel_node \<Rightarrow> bool" where
  "node_wf n \<longleftrightarrow>
     validateNodeName (pn_name n) = None \<and> validateNodeAddress (pn_address n) = None \<and> valid_port (pn_port n) \<and>
     ValidateTrafficRate (nd_rate n) = None \<and> validateWSPath (pn_wsPath n) = None \<and> pn_wsPath n \<noteq> [] \<and>
     validateSNI (pn_sni n) = None"

definition nodes_wf :: "panel_node list \<Rightarrow> bool" where
  "nodes_wf ns \<longleftrightarrow> unique_secrets (core ns) \<and> (\<forall>n \<in> set ns. node_wf n)"

definition secret_row :: "node_env \<Rightarrow> string \<Rightarrow> string \<Rightarrow> panel_node \<Rightarrow> panel_node" where
  "secret_row e c fp n = n\<lparr>nd_secret := ''retired:'' @ dec_string (int (nd_id n)), nd_ciphertext := c, nd_hash := fp,
     nd_rotatedAt := Some (ne_now e)\<rparr>"

lemmas row_defs = node_row.truncate_def node_row.extend_def

lemma core_ids [simp]: "map nd_id (core ns) = map nd_id ns"
  by (simp add: core_def row_defs)

lemma update_nodes_ids: "(\<And>n. nd_id n = i \<Longrightarrow> nd_id (f n) = i) \<Longrightarrow> map nd_id (update_nodes i f ns) = map nd_id ns"
  by (simp add: update_nodes_def)

lemma extend_truncate [simp]: "node_row.extend (node_row.truncate n) (node_row.more n) = n"
  by (cases n) (simp add: row_defs)

lemma extend_secret: "node_row.extend ((node_row.truncate n)\<lparr>nd_secret := ''retired:'' @ dec_string (int (nd_id n)),
    nd_ciphertext := c, nd_hash := fp, nd_rotatedAt := Some (ne_now e)\<rparr>) (node_row.more n) = secret_row e c fp n"
  by (cases n) (simp add: row_defs secret_row_def)

lemma truncate_id [simp]: "nd_id (node_row.truncate n) = nd_id n"
  by (simp add: row_defs)

lemma unique_row:
  assumes "distinct (map nd_id ns)" "n \<in> set ns" "x \<in> set ns" "nd_id x = nd_id n"
  shows "x = n"
  using assms by (metis distinct_map inj_onD)

lemma set_secret_ok:
  assumes "set_secret e s n ns = (Ret u, ns')" "n \<in> set ns" "distinct (map nd_id ns)"
  obtains c fp where "EncryptCredential (ne_vault e) (ne_nonce e) (nodeSecretPurpose (nd_id n)) s = Ret c"
    "CredentialFingerprint (ne_vault e) ''node-secret-lookup'' s = Ret fp"
    "ns' = update_nodes (nd_id n) (\<lambda>_. secret_row e c fp n) ns" "unique_secrets (core ns')"
proof -
  let ?t = "node_row.truncate n"
  obtain rs where rs: "SetNodeSecret (ne_vault e) (ne_nonce e) (ne_now e) s ?t (core ns) = (Ret u, rs)" "ns' = with_core rs ns"
    using assms(1) by (auto simp: set_secret_def split: if_splits prod.splits)
  then obtain c fp where c: "EncryptCredential (ne_vault e) (ne_nonce e) (nodeSecretPurpose (nd_id n)) s = Ret c"
      "CredentialFingerprint (ne_vault e) ''node-secret-lookup'' s = Ret fp"
      "rs = update_node (?t\<lparr>nd_secret := ''retired:'' @ dec_string (int (nd_id n)), nd_ciphertext := c, nd_hash := fp,
         nd_rotatedAt := Some (ne_now e)\<rparr>) (core ns)" "unique_secrets rs"
    by (auto simp: SetNodeSecret_def Let_def row_defs split: if_splits outcome.splits)
  have "ns ! i = n" if "i < length ns" "nd_id (ns ! i) = nd_id n" for i
    using unique_row [OF assms(3,2)] that by simp
  then have "ns' = update_nodes (nd_id n) (\<lambda>_. secret_row e c fp n) ns"
    unfolding rs(2) c(3) with_core_def core_def update_node_def update_nodes_def
    using extend_secret [where n = n and c = c and fp = fp and e = e] by (auto simp: list_eq_iff_nth_eq)
  moreover from this have "core ns' = rs"
    unfolding c(3) by (auto simp: core_def update_node_def update_nodes_def row_defs secret_row_def)
  ultimately show ?thesis using that c by simp
qed

lemma secret_row_wf [simp]: "node_wf (secret_row e c fp n) = node_wf n" "nd_id (secret_row e c fp n) = nd_id n"
  by (simp_all add: secret_row_def node_wf_def)

lemma unique_ids: "unique_secrets (core ns) \<Longrightarrow> distinct (map nd_id ns)"
  by (simp add: unique_secrets_def)

lemma node_by_idD: "node_by_id i ns = Some n \<Longrightarrow> n \<in> set ns \<and> nd_id n = i"
  by (auto simp: node_by_id_def find_Some_iff)

lemma set_secret_wf:
  assumes "set_secret e s n ns = (Ret u, ns')" "n \<in> set ns" "nodes_wf ns"
  shows "nodes_wf ns' \<and> map nd_id ns' = map nd_id ns"
proof -
  have d: "distinct (map nd_id ns)" using assms(3) unique_ids by (simp add: nodes_wf_def)
  obtain c fp where "ns' = update_nodes (nd_id n) (\<lambda>_. secret_row e c fp n) ns" "unique_secrets (core ns')"
    using set_secret_ok [OF assms(1,2) d] by metis
  then show ?thesis using assms(2,3) by (auto simp: nodes_wf_def update_nodes_ids) (auto simp: update_nodes_def)
qed

lemma core_filter: "unique_secrets (core ns) \<Longrightarrow> unique_secrets (core (filter P ns))"
  by (auto simp: unique_secrets_def core_def comp_def row_defs intro: distinct_map_filter)

lemma delete_node_wf: "nodes_wf ns \<Longrightarrow> nodes_wf (delete_node i ns)"
  by (auto simp: nodes_wf_def delete_node_def core_filter)

lemma new_node_wf: "request_valid r \<Longrightarrow> node_wf (new_node e pending r)"
proof -
  have "validateWSPath ''/trojan-go'' = None" by code_simp
  moreover have "valid_port 443" by (simp add: valid_port_def)
  ultimately show "request_valid r \<Longrightarrow> node_wf (new_node e pending r)"
    by (auto simp: request_valid_def node_wf_def new_node_def)
qed

lemma add_cases:
  assumes "handleAddNode e req p = (r, p')"
  shows "p' = p \<or>
    (\<exists>q pending. req = Some q \<and> request_valid q \<and> unique_secrets (core (np_nodes p @ [new_node e pending q])) \<and>
      (p' = p\<lparr>np_nodes := np_nodes p @ [new_node e pending q]\<rparr> \<or>
       p' = p\<lparr>np_nodes := delete_node (ne_newID e) (np_nodes p @ [new_node e pending q])\<rparr> \<or>
       (\<exists>s ns. r = (200, Some s) \<and> s = (if nr_secret q = [] then hex (the (ne_randSecret e)) else nr_secret q) \<and>
          set_secret e s (new_node e pending q) (np_nodes p @ [new_node e pending q]) = (Ret (), ns) \<and>
          p' = p\<lparr>np_nodes := ns\<rparr>)))"
proof (cases "p' = p")
  case False
  then obtain q pending where q: "req = Some q" "request_valid q" "PendingNodeSecretMarker (ne_randMarker e) = Ret pending"
      "unique_secrets (core (np_nodes p @ [new_node e pending q]))" "ne_create e" "nr_secret q = [] \<longrightarrow> ne_randSecret e \<noteq> None"
    using assms unfolding handleAddNode_def Let_def by (auto split: option.splits if_splits outcome.splits)
  have i: "nd_id (new_node e pending q) = ne_newID e" by (simp add: new_node_def)
  obtain o' ns where s: "set_secret e (if nr_secret q = [] then hex (the (ne_randSecret e)) else nr_secret q) (new_node e pending q)
      (np_nodes p @ [new_node e pending q]) = (o', ns)" by fastforce
  have "p' = p\<lparr>np_nodes := np_nodes p @ [new_node e pending q]\<rparr> \<or>
       p' = p\<lparr>np_nodes := delete_node (ne_newID e) (np_nodes p @ [new_node e pending q])\<rparr> \<or>
       (\<exists>s ns. r = (200, Some s) \<and> s = (if nr_secret q = [] then hex (the (ne_randSecret e)) else nr_secret q) \<and>
          set_secret e s (new_node e pending q) (np_nodes p @ [new_node e pending q]) = (Ret (), ns) \<and>
          p' = p\<lparr>np_nodes := ns\<rparr>)"
    using assms s i q(5,6) unfolding handleAddNode_def Let_def q(1) option.case q(3) outcome.case
    using q(2,4) by (cases o') (simp_all split: if_splits)
  then show ?thesis using q by blast
qed simp

lemma handleAddNode_wf:
  assumes "handleAddNode e req p = (r, p')" "nodes_wf (np_nodes p)"
  shows "nodes_wf (np_nodes p') \<and> nd_id ` set (np_nodes p') \<subseteq> insert (ne_newID e) (nd_id ` set (np_nodes p))"
  using add_cases [OF assms(1)]
proof (elim disjE exE conjE)
  fix q pending s ns
  assume a: "request_valid q" "unique_secrets (core (np_nodes p @ [new_node e pending q]))"
    and s: "set_secret e s (new_node e pending q) (np_nodes p @ [new_node e pending q]) = (Ret (), ns)"
    and p': "p' = p\<lparr>np_nodes := ns\<rparr>"
  have w: "nodes_wf (np_nodes p @ [new_node e pending q])" using a assms(2) new_node_wf by (auto simp: nodes_wf_def)
  then have "nodes_wf ns" "map nd_id ns = map nd_id (np_nodes p @ [new_node e pending q])"
    using set_secret_wf [OF s _ w] by auto
  moreover from arg_cong [OF this(2), of set] have "nd_id ` set ns = insert (ne_newID e) (nd_id ` set (np_nodes p))"
    by (simp add: new_node_def)
  ultimately show ?thesis using p' by simp
qed (use assms(2) new_node_wf in \<open>auto simp: nodes_wf_def core_filter delete_node_def new_node_def\<close>)

lemma apply_change_wf: "change_valid r \<Longrightarrow> node_wf n \<Longrightarrow> node_wf (apply_change r n)"
  by (auto simp: change_valid_def node_wf_def apply_change_def change_path_def split: option.splits)

lemma change_core:
  assumes "\<And>n. nd_id (f n) = nd_id n \<and> nd_secret (f n) = nd_secret n \<and> nd_hash (f n) = nd_hash n"
  shows "unique_secrets (core (update_nodes i f ns)) = unique_secrets (core ns)"
  using assms by (simp add: unique_secrets_def core_def update_nodes_def comp_def row_defs if_distrib cong: if_cong)

lemma handleUpdateNode_wf:
  assumes "handleUpdateNode e i req p = (st, p')" "nodes_wf (np_nodes p)"
  shows "nodes_wf (np_nodes p') \<and> map nd_id (np_nodes p') = map nd_id (np_nodes p)"
proof -
  have "p' = p \<or> np_nodes p' = np_nodes p \<or> (\<exists>r. change_valid r \<and> np_nodes p' = update_nodes i (apply_change r) (np_nodes p))"
    using assms(1) by (fastforce simp: handleUpdateNode_def split: if_splits option.splits)
  moreover have "nodes_wf (update_nodes i (apply_change r) (np_nodes p))" if "change_valid r" for r
    using assms(2) apply_change_wf [OF that] change_core [of "apply_change r"]
    by (auto simp: nodes_wf_def apply_change_def) (auto simp: update_nodes_def apply_change_def)
  moreover have "map nd_id (update_nodes i (apply_change r) (np_nodes p)) = map nd_id (np_nodes p)" for r
    by (rule update_nodes_ids) (simp add: apply_change_def)
  ultimately show ?thesis using assms(2) by metis
qed

lemma handleRotateNodeSecret_wf:
  assumes "handleRotateNodeSecret e i p = (r, p')" "nodes_wf (np_nodes p)"
  shows "nodes_wf (np_nodes p') \<and> map nd_id (np_nodes p') = map nd_id (np_nodes p)"
proof -
  have "p' = p \<or> (\<exists>n b ns. node_by_id i (np_nodes p) = Some n \<and> set_secret e (hex b) n (np_nodes p) = (Ret (), ns) \<and> p' = p\<lparr>np_nodes := ns\<rparr>)"
    using assms(1) by (fastforce simp: handleRotateNodeSecret_def split: if_splits option.splits prod.splits outcome.splits)
  then show ?thesis using assms(2) set_secret_wf node_by_idD by fastforce
qed

lemma handleDeleteNode_wf:
  assumes "handleDeleteNode e i p = (st, p')" "nodes_wf (np_nodes p)"
  shows "nodes_wf (np_nodes p') \<and> nd_id ` set (np_nodes p') \<subseteq> nd_id ` set (np_nodes p)"
  using assms delete_node_wf
  by (auto simp: handleDeleteNode_def delete_node_def [of i "np_nodes p"] split: if_splits option.splits dest: delete_node_wf [of _ i])

lemma report_load_row: "report_load v s p = Some n \<Longrightarrow> n \<in> set (np_nodes p)"
  by (auto simp: report_load_def split: if_splits outcome.splits dest: node_by_idD)

lemma report_save_wf:
  assumes "report_save now ip n p = (st, p')" "nodes_wf (np_nodes p)" "node_wf n"
  shows "nodes_wf (np_nodes p') \<and> nd_id ` set (np_nodes p') \<subseteq> insert (nd_id n) (nd_id ` set (np_nodes p))"
  using assms by (auto simp: report_save_def Save_def Let_def nodes_wf_def node_wf_def update_nodes_def split: if_splits)

definition world_wf :: "node_world \<Rightarrow> bool" where
  "world_wf w \<longleftrightarrow> nodes_wf (np_nodes (nw_panel w)) \<and> (\<forall>n \<in> set (nw_loaded w). node_wf n)"

lemma node_step_wf: "node_step v fresh w w' \<Longrightarrow> world_wf w \<Longrightarrow> world_wf w'"
proof (induction rule: node_step.induct)
  case (load s w n)
  then show ?case using report_load_row by (auto simp: world_wf_def nodes_wf_def)
next
  case (save n w now ip st p)
  then show ?case using report_save_wf [OF save(2)] notin_set_remove1 [of _ "nw_loaded w" n] by (auto simp: world_wf_def)
qed (auto simp: world_wf_def dest: handleAddNode_wf handleUpdateNode_wf handleRotateNodeSecret_wf handleDeleteNode_wf)

definition absent :: "nat \<Rightarrow> node_world \<Rightarrow> bool" where
  "absent i w \<longleftrightarrow> i \<notin> nd_id ` set (np_nodes (nw_panel w)) \<and> i \<notin> nd_id ` set (nw_loaded w)"

lemma node_step_absent: "node_step v fresh w w' \<Longrightarrow> world_wf w \<Longrightarrow> absent i w \<Longrightarrow> \<not> fresh i \<Longrightarrow> absent i w'"
proof (induction rule: node_step.induct)
  case (add e req w r p)
  then show ?case using handleAddNode_wf [OF add(3)] by (auto simp: world_wf_def absent_def)
next
  case (change e j chg w st p)
  then have "nd_id ` set (np_nodes p) = nd_id ` set (np_nodes (nw_panel w))"
    using handleUpdateNode_wf [OF change(1)] by (metis list.set_map world_wf_def)
  then show ?case using change by (simp add: absent_def)
next
  case (rotate e j w r p)
  then have "nd_id ` set (np_nodes p) = nd_id ` set (np_nodes (nw_panel w))"
    using handleRotateNodeSecret_wf [OF rotate(2)] by (metis list.set_map world_wf_def)
  then show ?case using rotate by (simp add: absent_def)
next
  case (delete e j w st p)
  then show ?case using handleDeleteNode_wf [OF delete(1)] by (auto simp: world_wf_def absent_def)
next
  case (load s w n)
  then show ?case using report_load_row by (auto simp: absent_def)
next
  case (save n w now ip st p)
  have "nd_id n \<noteq> i" using save(1,4) by (auto simp: absent_def)
  then show ?case using save report_save_wf [OF save(2)] set_remove1_subset [of n "nw_loaded w"]
    by (auto simp: world_wf_def absent_def)
qed

lemma lookup_row: "NodeBySecret v s rs = Ret r \<Longrightarrow> r \<in> set rs"
  by (auto simp: NodeBySecret_def find_Some_iff split: outcome.splits option.splits)

section \<open>Properties\<close>

text \<open>The node table stays well formed. In every interleaving of requests of the panel, with any pattern of failing
  accesses, and of reports whose row was read at any earlier time, every node has a valid name, address, server
  name and WebSocket path, a port in range and an admissible traffic rate, and no two nodes share an identifier,
  a stored secret or a fingerprint.\<close>

theorem nodes_stay_wellformed:
  assumes "(node_step v fresh)\<^sup>*\<^sup>* w w'" "world_wf w"
  shows "world_wf w'"
  using assms by (induction rule: rtranclp_induct) (auto intro: node_step_wf)

text \<open>A deleted node stays out. Once the panel has deleted a node of which no report holds a copy, and as long as
  the database does not give its identifier out again, no secret identifies it in any later state, whatever
  requests and reports follow.\<close>

theorem deleted_node_stays_out:
  assumes "world_wf w" "ne_isNode e = False" "handleDeleteNode e i (nw_panel w) = (200, p)" "i \<notin> nd_id ` set (nw_loaded w)"
    "\<not> fresh i" "(node_step v fresh)\<^sup>*\<^sup>* (w\<lparr>nw_panel := p\<rparr>) w'"
  shows "i \<notin> nd_id ` set (np_nodes (nw_panel w')) \<and>
    (\<forall>s r. NodeBySecret v s (core (np_nodes (nw_panel w'))) = Ret r \<longrightarrow> nd_id r \<noteq> i)"
proof -
  let ?w = "w\<lparr>nw_panel := p\<rparr>"
  have "np_nodes p = delete_node i (np_nodes (nw_panel w))"
    using assms(2,3) by (auto simp: handleDeleteNode_def split: option.splits if_splits)
  then have "absent i ?w" "world_wf ?w"
    using assms(1,4) delete_node_wf by (auto simp: absent_def delete_node_def world_wf_def)
  from assms(6) this have "absent i w' \<and> world_wf w'"
    by (induction rule: rtranclp_induct) (use assms(5) in \<open>auto intro: node_step_wf node_step_absent\<close>)
  then have a: "i \<notin> nd_id ` set (np_nodes (nw_panel w'))" by (simp add: absent_def)
  moreover have "nd_id r \<noteq> i" if "NodeBySecret v s (core (np_nodes (nw_panel w'))) = Ret r" for s r
    using lookup_row [OF that] a by (auto simp: core_def row_defs)
  ultimately show ?thesis by blast
qed

lemma core_with_core: "length rs = length ns \<Longrightarrow> core (with_core rs ns) = rs"
  by (induction rs ns rule: list_induct2) (auto simp: core_def with_core_def row_defs)

lemma set_secret_lookup:
  assumes "set_secret e s n ns = (Ret u, ns')" "n \<in> set ns"
  shows "SetNodeSecret (ne_vault e) (ne_nonce e) (ne_now e) s (node_row.truncate n) (core ns) = (Ret (), core ns')"
proof -
  obtain rs where rs: "SetNodeSecret (ne_vault e) (ne_nonce e) (ne_now e) s (node_row.truncate n) (core ns) = (Ret u, rs)"
      "ns' = with_core rs ns"
    using assms(1) by (auto simp: set_secret_def split: if_splits prod.splits)
  have "length rs = length ns" using rs(1)
    by (auto simp: SetNodeSecret_def Let_def update_node_def core_def split: if_splits outcome.splits)
  then show ?thesis using rs core_with_core by simp
qed

lemma set_secret_identifies:
  assumes "set_secret e s n ns = (Ret (), ns')" "n \<in> set ns" "distinct (map nd_id ns)" "s \<noteq> []"
  shows "(\<exists>r. NodeBySecret (ne_vault e) s (core ns') = Ret r \<and> nd_id r = nd_id n) \<and>
    (\<forall>s' r. NodeBySecret (ne_vault e) s' (core ns') = Ret r \<and> nd_id r = nd_id n \<longrightarrow>
       CredentialFingerprint (ne_vault e) ''node-secret-lookup'' s' = CredentialFingerprint (ne_vault e) ''node-secret-lookup'' s) \<and>
    (\<forall>m \<in> set ns. nd_id m \<noteq> nd_id n \<longrightarrow> m \<in> set ns')"
proof -
  have "node_row.truncate n \<in> set (core ns)" using assms(2) by (simp add: core_def)
  note L = node_secret_rotation [OF this assms(4) set_secret_lookup [OF assms(1,2)], unfolded truncate_id]
  obtain c fp where "ns' = update_nodes (nd_id n) (\<lambda>_. secret_row e c fp n) ns"
    using set_secret_ok [OF assms(1-3)] by metis
  then have "m \<in> set ns'" if "m \<in> set ns" "nd_id m \<noteq> nd_id n" for m
    using that by (force simp: update_nodes_def)
  with L show ?thesis by blast
qed

lemma handleAddNode_ok:
  assumes "handleAddNode e req p = ((200, Some s), p')"
  obtains q pending where "req = Some q" "unique_secrets (core (np_nodes p @ [new_node e pending q]))"
    "set_secret e s (new_node e pending q) (np_nodes p @ [new_node e pending q]) = (Ret (), np_nodes p')"
proof -
  obtain q where q: "req = Some q" using assms by (cases req) (auto simp: handleAddNode_def)
  obtain pending where pending: "PendingNodeSecretMarker (ne_randMarker e) = Ret pending"
    using assms q by (cases "PendingNodeSecretMarker (ne_randMarker e)") (auto simp: handleAddNode_def Let_def split: if_splits)
  let ?s = "if nr_secret q = [] then hex (the (ne_randSecret e)) else nr_secret q"
    and ?row = "new_node e pending q" and ?ns = "np_nodes p @ [new_node e pending q]"
  obtain res ns where r: "set_secret e ?s ?row ?ns = (res, ns)" by fastforce
  have "unique_secrets (core ?ns)" "s = ?s" "res = Ret ()" "np_nodes p' = ns"
    using assms q pending r by (cases res; auto simp: handleAddNode_def Let_def split: if_splits)+
  then show ?thesis using that q r by simp
qed

lemma handleRotateNodeSecret_ok:
  assumes "handleRotateNodeSecret e i p = ((200, Some s), p')"
  obtains n where "node_by_id i (np_nodes p) = Some n" "set_secret e s n (np_nodes p) = (Ret (), np_nodes p')"
proof -
  obtain n where n: "node_by_id i (np_nodes p) = Some n" "ne_lookup e" "i \<noteq> 999999"
    using assms by (cases "node_by_id i (np_nodes p)") (auto simp: handleRotateNodeSecret_def split: if_splits)
  obtain b where b: "ne_randSecret e = Some b"
    using assms n by (cases "ne_randSecret e") (auto simp: handleRotateNodeSecret_def)
  obtain res ns where r: "set_secret e (hex b) n (np_nodes p) = (res, ns)" by fastforce
  have "s = hex b" "res = Ret ()" "np_nodes p' = ns"
    using assms n b r by (cases res; auto simp: handleRotateNodeSecret_def)+
  then show ?thesis using that n(1) r by simp
qed

text \<open>C40. A secret that the panel gives out identifies its node. After a node was created or its secret rotated, the
  secret of the reply authenticates as that node, nothing else does unless it has the same keyed
  fingerprint (so the secret before the rotation is refused), and the rows of all other nodes are as before.\<close>

theorem issued_secret_identifies_node:
  assumes "nodes_wf (np_nodes p)" "s \<noteq> []"
    "handleAddNode e req p = ((200, Some s), p') \<and> i = ne_newID e \<or> handleRotateNodeSecret e i p = ((200, Some s), p')"
  shows "(\<exists>r. NodeBySecret (ne_vault e) s (core (np_nodes p')) = Ret r \<and> nd_id r = i) \<and>
    (\<forall>s' r. NodeBySecret (ne_vault e) s' (core (np_nodes p')) = Ret r \<and> nd_id r = i \<longrightarrow>
       CredentialFingerprint (ne_vault e) ''node-secret-lookup'' s' = CredentialFingerprint (ne_vault e) ''node-secret-lookup'' s) \<and>
    (\<forall>m \<in> set (np_nodes p). nd_id m \<noteq> i \<longrightarrow> m \<in> set (np_nodes p'))"
  using assms(3)
proof
  assume "handleAddNode e req p = ((200, Some s), p') \<and> i = ne_newID e"
  then have a: "handleAddNode e req p = ((200, Some s), p')" "i = ne_newID e" by simp_all
  obtain q pending where q: "unique_secrets (core (np_nodes p @ [new_node e pending q]))"
      "set_secret e s (new_node e pending q) (np_nodes p @ [new_node e pending q]) = (Ret (), np_nodes p')"
    using handleAddNode_ok [OF a(1)] by metis
  have i: "nd_id (new_node e pending q) = i" by (simp add: new_node_def a(2))
  have "new_node e pending q \<in> set (np_nodes p @ [new_node e pending q])" by simp
  note L = set_secret_identifies [OF q(2) this unique_ids [OF q(1)] assms(2), unfolded i]
  have "\<forall>m \<in> set (np_nodes p). nd_id m \<noteq> i \<longrightarrow> m \<in> set (np_nodes p')" using L [THEN conjunct2, THEN conjunct2] by simp
  with L show ?thesis by blast
next
  assume r: "handleRotateNodeSecret e i p = ((200, Some s), p')"
  then obtain n where n: "node_by_id i (np_nodes p) = Some n" "set_secret e s n (np_nodes p) = (Ret (), np_nodes p')"
    by (rule handleRotateNodeSecret_ok)
  have d: "distinct (map nd_id (np_nodes p))" using assms(1) unique_ids by (simp add: nodes_wf_def)
  have i: "n \<in> set (np_nodes p)" "nd_id n = i" using node_by_idD [OF n(1)] by simp_all
  from set_secret_identifies [OF n(2) i(1) d assms(2)] show ?thesis unfolding i(2) .
qed

section \<open>Copies of a row\<close>

definition credentials :: "panel_node list \<Rightarrow> (nat \<times> string \<times> string \<times> string) list" where
  "credentials ns = map (\<lambda>n. (nd_id n, nd_secret n, nd_ciphertext n, nd_hash n)) ns"

definition reported :: "int \<Rightarrow> string \<Rightarrow> panel_node \<Rightarrow> panel_node" where
  "reported now ip n = n\<lparr>nd_lastHeartbeat := Some now, nd_status := 1, nd_detectedIP := (if is_local_ip ip then nd_detectedIP n else ip)\<rparr>"

lemma reported_fields [simp]: "nd_id (reported now ip n) = nd_id n" "nd_secret (reported now ip n) = nd_secret n"
    "nd_ciphertext (reported now ip n) = nd_ciphertext n" "nd_hash (reported now ip n) = nd_hash n"
  by (simp_all add: reported_def)

lemma report_save_eq: "report_save now ip n p =
    (case Save (reported now ip n) (np_nodes p) of None \<Rightarrow> (500, p) | Some ns \<Rightarrow> (200, p\<lparr>np_nodes := ns\<rparr>))"
  by (simp add: report_save_def reported_def Let_def)

lemma credentials_unique: "credentials ns = credentials ms \<Longrightarrow> unique_secrets (core ns) = unique_secrets (core ms)"
proof -
  have c: "map nd_id xs = map fst (credentials xs)" "map nd_secret (core xs) = map (fst \<circ> snd) (credentials xs)"
    "map nd_hash (core xs) = map (snd \<circ> snd \<circ> snd) (credentials xs)" for xs
    by (simp_all add: credentials_def core_def row_defs comp_def)
  show "credentials ns = credentials ms \<Longrightarrow> unique_secrets (core ns) = unique_secrets (core ms)"
    by (simp only: unique_secrets_def core_ids c)
qed

lemma restored_credentials:
  assumes "distinct (map nd_id ns)" "n \<in> set ns"
  shows "credentials (update_nodes (nd_id n) (\<lambda>_. reported now ip n) ns) = credentials ns"
  using unique_row [OF assms] by (auto simp: credentials_def update_nodes_def)

text \<open>A report that has read its row before a rotation and writes it back afterwards undoes the rotation: the write
  succeeds and every node has the credentials it had before.\<close>

theorem stale_report_undoes_rotation:
  assumes "nodes_wf (np_nodes p)" "report_load v old p = Some n" "handleRotateNodeSecret e (nd_id n) p = ((200, Some s), p')"
  shows "\<exists>p''. report_save now ip n p' = (200, p'') \<and> credentials (np_nodes p'') = credentials (np_nodes p)"
proof -
  have n: "n \<in> set (np_nodes p)" using report_load_row [OF assms(2)] .
  have d: "distinct (map nd_id (np_nodes p))" using assms(1) unique_ids by (simp add: nodes_wf_def)
  obtain m where m: "node_by_id (nd_id n) (np_nodes p) = Some m" "set_secret e s m (np_nodes p) = (Ret (), np_nodes p')"
    using assms(3) by (rule handleRotateNodeSecret_ok)
  then have "m = n" using node_by_idD unique_row [OF d n] by blast
  then obtain c fp where p': "np_nodes p' = update_nodes (nd_id n) (\<lambda>_. secret_row e c fp n) (np_nodes p)"
    using set_secret_ok [OF m(2) _ d] n by metis
  let ?ns = "update_nodes (nd_id n) (\<lambda>_. reported now ip n) (np_nodes p')"
  have ns: "?ns = update_nodes (nd_id n) (\<lambda>_. reported now ip n) (np_nodes p)" by (simp add: p' update_nodes_def)
  have "credentials ?ns = credentials (np_nodes p)" unfolding ns by (rule restored_credentials [OF d n])
  moreover from this have "unique_secrets (core ?ns)" using assms(1) credentials_unique by (metis nodes_wf_def)
  moreover have "map nd_id (np_nodes p') = map nd_id (np_nodes p)" by (simp add: p' update_nodes_ids)
  then have "nd_id n \<in> nd_id ` set (np_nodes p')" using n by (metis image_eqI list.set_map)
  ultimately show ?thesis by (simp add: report_save_eq Save_def)
qed

text \<open>A report that has read its row before the node was deleted inserts the row again, with its credentials.\<close>

theorem stale_report_revives_node:
  assumes "nodes_wf (np_nodes p)" "report_load v s p = Some n" "ne_isNode e = False"
    "handleDeleteNode e (nd_id n) p = (200, p')"
  shows "\<exists>p''. report_save now ip n p' = (200, p'') \<and> reported now ip n \<in> set (np_nodes p'')"
proof -
  have n: "n \<in> set (np_nodes p)" using report_load_row [OF assms(2)] .
  have p': "np_nodes p' = filter (\<lambda>m. nd_id m \<noteq> nd_id n) (np_nodes p)"
    using assms(3,4) by (auto simp: handleDeleteNode_def delete_node_def split: option.splits if_splits)
  have u: "unique_secrets (core (np_nodes p))" using assms(1) by (simp add: nodes_wf_def)
  then have "inj_on nd_secret (set (np_nodes p))" "inj_on nd_hash (set (np_nodes p))"
    by (auto simp: unique_secrets_def core_def comp_def row_defs distinct_map)
  then have "nd_secret n \<notin> nd_secret ` set (np_nodes p')" "nd_hash n \<notin> nd_hash ` set (np_nodes p')"
    unfolding p' using n by (auto dest: inj_onD)
  then have "unique_secrets (core (np_nodes p' @ [reported now ip n]))"
    using core_filter [OF u, of "\<lambda>m. nd_id m \<noteq> nd_id n"] by (auto simp: p' unique_secrets_def core_def comp_def row_defs)
  moreover have "nd_id n \<notin> nd_id ` set (np_nodes p')" by (auto simp: p')
  ultimately show ?thesis by (simp add: report_save_eq Save_def)
qed

text \<open>A node whose secret could not be stored and whose row could not be taken back keeps every later node from being
  created: its empty fingerprint occupies the unique index.\<close>

theorem failed_rollback_blocks_creation:
  assumes "m \<in> set (np_nodes p)" "nd_hash m = []"
  shows "handleAddNode e req p \<noteq> ((200, Some s), p')"
proof
  assume "handleAddNode e req p = ((200, Some s), p')"
  then obtain q pending where "unique_secrets (core (np_nodes p @ [new_node e pending q]))"
    by (rule handleAddNode_ok)
  then show False using assms by (force simp: unique_secrets_def core_def comp_def row_defs new_node_def)
qed

section \<open>Examples\<close>

definition sample_env :: node_env where
  "sample_env = \<lparr>ne_isNode = False, ne_master = 0, ne_now = 5, ne_vault = sample_vault, ne_randSecret = None,
     ne_randMarker = Some [1], ne_nonce = Some (replicate 12 1), ne_newID = 1, ne_lookup = True, ne_create = True,
     ne_setSecret = True, ne_delete = True, ne_update = True, ne_config = True, ne_mainInfo = ([], 443, False, []),
     ne_serverDomain = []\<rparr>"

definition sample_body :: node_request_body where
  "sample_body = \<lparr>nr_name = ''n'', nr_address = ''h'', nr_port = 0, nr_rate = None, nr_wsEnabled = False, nr_wsPath = [],
     nr_sni = [], nr_secret = ''s''\<rparr>"

definition no_nodes :: node_panel where
  "no_nodes = \<lparr>np_nodes = [], np_config = []\<rparr>"

lemma no_nodes_wf: "nodes_wf (np_nodes no_nodes)"
  by (simp add: no_nodes_def nodes_wf_def unique_secrets_def core_def)

lemma sample_body_valid: "request_valid sample_body"
proof -
  have "validateNodeName ''n'' = None" by code_simp
  moreover have "validateNodeAddress ''h'' = None" by code_simp
  moreover have "validateWSPath [] = None" "validateSNI [] = None" by (simp_all add: validateWSPath_def validateSNI_def)
  moreover have "ValidateTrafficRate 1 = None" by (simp add: ValidateTrafficRate_def MaxTrafficRate_def)
  ultimately show ?thesis by (simp add: request_valid_def sample_body_def)
qed

lemma set_secret_alone:
  assumes "nd_id n \<noteq> 0" "ne_setSecret e" "EncryptCredential (ne_vault e) (ne_nonce e) (nodeSecretPurpose (nd_id n)) s = Ret c"
    "CredentialFingerprint (ne_vault e) ''node-secret-lookup'' s = Ret fp"
  shows "set_secret e s n [n] = (Ret (), [secret_row e c fp n])"
  using assms extend_secret [where n = n and c = c and fp = fp and e = e]
  by (simp add: set_secret_def SetNodeSecret_def core_def update_node_def unique_secrets_def with_core_def Let_def)

lemma sample_added: "\<exists>p. handleAddNode sample_env (Some sample_body) no_nodes = ((200, Some ''s''), p) \<and> (\<exists>m. np_nodes p = [m] \<and> nd_id m = 1)"
proof -
  obtain c where c: "EncryptCredential (ne_vault sample_env) (ne_nonce sample_env) (nodeSecretPurpose 1) ''s'' = Ret c"
    by (simp add: EncryptCredential_def sample_vault_def sample_env_def Let_def)
  obtain fp where fp: "CredentialFingerprint (ne_vault sample_env) ''node-secret-lookup'' ''s'' = Ret fp"
    by (simp add: CredentialFingerprint_def sample_vault_def sample_env_def Let_def)
  have n: "nd_id (new_node sample_env q sample_body) = 1" for q by (simp add: new_node_def sample_env_def)
  have s: "ne_setSecret sample_env" "nr_secret sample_body = ''s''" "ne_create sample_env" "ne_randMarker sample_env = Some [1]"
    "np_nodes no_nodes = []" by (simp_all add: sample_body_def sample_env_def no_nodes_def)
  have "\<exists>m. set_secret sample_env ''s'' (new_node sample_env q sample_body) [new_node sample_env q sample_body] = (Ret (), [m]) \<and> nd_id m = 1" for q
    using set_secret_alone [OF _ s(1), of "new_node sample_env q sample_body" "''s''" c fp] c fp by (simp add: n)
  then obtain m where m: "set_secret sample_env ''s'' (new_node sample_env (''pending:'' @ b64_encode [1]) sample_body)
      [new_node sample_env (''pending:'' @ b64_encode [1]) sample_body] = (Ret (), [m])" "nd_id m = 1" by metis
  have u: "unique_secrets (core [k])" for k by (simp add: unique_secrets_def core_def)
  show ?thesis using m sample_body_valid u s(2-5)
    by (simp add: handleAddNode_def PendingNodeSecretMarker_def Let_def del: b64_encode.simps)
qed

theorem nodes_stay_wellformed_witness:
  "\<exists>w. (node_step sample_vault (\<lambda>i. i = 1))\<^sup>*\<^sup>* \<lparr>nw_panel = no_nodes, nw_loaded = []\<rparr> w \<and> np_nodes (nw_panel w) \<noteq> [] \<and> world_wf w"
proof -
  let ?w = "\<lparr>nw_panel = no_nodes, nw_loaded = []\<rparr>"
  obtain p where p: "handleAddNode sample_env (Some sample_body) no_nodes = ((200, Some ''s''), p)" "np_nodes p \<noteq> []"
    using sample_added by auto
  have "node_step sample_vault (\<lambda>i. i = 1) ?w (?w\<lparr>nw_panel := p\<rparr>)"
    using p(1) by (intro node_step.add [where e = sample_env]) (simp_all add: sample_env_def)
  then have s: "(node_step sample_vault (\<lambda>i. i = 1))\<^sup>*\<^sup>* ?w (?w\<lparr>nw_panel := p\<rparr>)" by (rule r_into_rtranclp)
  have "world_wf ?w" using no_nodes_wf by (simp add: world_wf_def)
  from nodes_stay_wellformed [OF s this] s p(2) show ?thesis by (intro exI [of _ "?w\<lparr>nw_panel := p\<rparr>"]) simp
qed

theorem issued_secret_identifies_node_witness:
  "\<exists>p r. handleAddNode sample_env (Some sample_body) no_nodes = ((200, Some ''s''), p) \<and>
     NodeBySecret sample_vault ''s'' (core (np_nodes p)) = Ret r \<and> nd_id r = 1"
proof -
  obtain p where p: "handleAddNode sample_env (Some sample_body) no_nodes = ((200, Some ''s''), p)"
    using sample_added by blast
  have "ne_vault sample_env = sample_vault" "ne_newID sample_env = 1" by (simp_all add: sample_env_def)
  with issued_secret_identifies_node [OF no_nodes_wf, where s = "''s''" and e = sample_env and i = 1] p show ?thesis by auto
qed

theorem deleted_node_stays_out_witness:
  "\<exists>p p'. np_nodes p \<noteq> [] \<and> handleDeleteNode sample_env 1 p = (200, p') \<and>
     (\<forall>s r. NodeBySecret sample_vault s (core (np_nodes p')) = Ret r \<longrightarrow> nd_id r \<noteq> 1)"
proof -
  obtain p m where p: "handleAddNode sample_env (Some sample_body) no_nodes = ((200, Some ''s''), p)" "np_nodes p = [m]" "nd_id m = 1"
    using sample_added by auto
  let ?w = "\<lparr>nw_panel = p, nw_loaded = []\<rparr>"
  have e: "ne_isNode sample_env = False" "ne_lookup sample_env" "ne_delete sample_env" by (simp_all add: sample_env_def)
  then obtain p' where p': "handleDeleteNode sample_env 1 (nw_panel ?w) = (200, p')"
    using p(2,3) by (simp add: handleDeleteNode_def node_by_id_def)
  have "world_wf ?w" using handleAddNode_wf [OF p(1) no_nodes_wf] by (simp add: world_wf_def)
  from deleted_node_stays_out [OF this e(1) p', of "\<lambda>_. False" sample_vault "?w\<lparr>nw_panel := p'\<rparr>"]
  have "\<forall>s r. NodeBySecret sample_vault s (core (np_nodes p')) = Ret r \<longrightarrow> nd_id r \<noteq> 1" by simp
  then show ?thesis using p' p(2) by (intro exI [of _ p] exI [of _ p']) simp
qed

end
