(* ===== verification/Edge_Gateway.thy ===== *)
theory Edge_Gateway
  imports Byte_Reader Field_Validation
begin

text \<open>
  The edge gateway on the public port (\<open>internal/webserver/gateway.go\<close>) and its router to the private
  services (\<open>service_router.go\<close>): telling HTTP from the Trojan protocol by a trial parse that is
  rewound, the routes, the PROXY header for the data plane, the limit on connections and the shutdown. The
  decrypted stream of a connection is a \<open>net_in\<close>.
\<close>

section \<open>Trying to read an HTTP request\<close>

text \<open>\<open>http.ReadRequest\<close> over a \<open>bufio.Reader\<close>, as the standard library's parser behaves on the bytes
  it has been given so far: it wants more, gives up, or has a request with its path. \<open>hp_room\<close> is the
  free space of the buffer for the next read. The parser is arbitrary in this development.\<close>

datatype sniff = NeedMore | NotHTTP | Request string

record http_parser =
  hp_state :: "bytes \<Rightarrow> sniff"
  hp_room :: "bytes \<Rightarrow> nat"

definition bufio_size :: nat where
  "bufio_size = 4096"

text \<open>The buffer is never full when the library reads.\<close>

definition bufio_room :: "http_parser \<Rightarrow> bool" where
  "bufio_room h \<longleftrightarrow> (\<forall>b. 0 < hp_room h b \<and> hp_room h b \<le> bufio_size)"

fun ReadRequest :: "nat \<Rightarrow> http_parser \<Rightarrow> 's reader \<Rightarrow> bytes \<Rightarrow> ('s, string) proc" where
  "ReadRequest 0 h rd got s = (Hang, s)"
| "ReadRequest (Suc fuel) h rd got s =
     (case hp_state h got of
        Request p \<Rightarrow> (Ret p, s)
      | NotHTTP \<Rightarrow> (Raise (Opaque ''malformed HTTP request''), s)
      | NeedMore \<Rightarrow>
          (case rd (hp_room h got) s of ((bs, err), s') \<Rightarrow>
           (case err of
              None \<Rightarrow> ReadRequest fuel h rd (got @ bs) s'
            | Some e \<Rightarrow> (case hp_state h (got @ bs) of Request p \<Rightarrow> Ret p | _ \<Rightarrow> Raise e, s'))))"

text \<open>The trial: buffer, parse, rewind, stop buffering. \<open>fuel\<close> bounds the number of reads.\<close>

definition sniff_http ::
  "nat \<Rightarrow> nat \<Rightarrow> http_parser \<Rightarrow> 's reader \<Rightarrow> 's \<Rightarrow> string outcome \<times> 's rewind_reader" where
  "sniff_http fuel n h rd conn =
     (case SetBufferSize n (NewRewindConn conn) of
        Ret r0 \<Rightarrow>
          (case ReadRequest fuel h (RewindReader_Read rd) [] r0 of (res, r1) \<Rightarrow>
             (case Rewind r1 of
                Ret r2 \<Rightarrow> (res, StopBuffering r2)
              | Panic m \<Rightarrow> (Panic m, r1)
              | Raise e \<Rightarrow> (Raise e, r1)
              | Hang \<Rightarrow> (Hang, r1)))
      | Panic m \<Rightarrow> (Panic m, NewRewindConn conn)
      | Raise e \<Rightarrow> (Raise e, NewRewindConn conn)
      | Hang \<Rightarrow> (Hang, NewRewindConn conn))"

section \<open>The service router\<close>

text \<open>\<open>urlHost\<close> is the host name that \<open>url.Parse\<close> finds in an address, or \<open>None\<close> when the
  address does not parse or has no host. Nothing is assumed of it.\<close>

definition loopbackHTTPURL :: "(string \<Rightarrow> string option) \<Rightarrow> string \<Rightarrow> go_error option" where
  "loopbackHTTPURL urlHost address =
     (case urlHost address of
        None \<Rightarrow> Some (Opaque ''invalid address'')
      | Some host \<Rightarrow>
          if host \<noteq> ''127.0.0.1'' \<and> host \<noteq> ''::1'' \<and> host \<noteq> ''localhost''
          then Some (Opaque ''must use a loopback address'') else None)"

datatype service = AdminService | ControlService

text \<open>\<open>http.ServeMux\<close> with plain patterns (no wildcard and no method). Registering an empty pattern or the
  same pattern twice panics; a pattern that ends with a slash matches its subtree; the longest match wins.\<close>

type_synonym mux = "(string \<times> service) list"

definition mux_Handle :: "string \<Rightarrow> service \<Rightarrow> mux outcome \<Rightarrow> mux outcome" where
  "mux_Handle pattern svc m =
     (case m of
        Ret t \<Rightarrow>
          if pattern = [] then Panic ''http: invalid pattern''
          else if pattern \<in> fst ` set t then Panic ''http: multiple registrations''
          else Ret (t @ [(pattern, svc)])
      | x \<Rightarrow> x)"

definition pattern_matches :: "string \<Rightarrow> string \<Rightarrow> bool" where
  "pattern_matches pattern path \<longleftrightarrow> (if HasSuffix pattern ''/'' then HasPrefix path pattern else path = pattern)"

fun longest :: "mux \<Rightarrow> (string \<times> service) option" where
  "longest [] = None"
| "longest (e # es) =
     (case longest es of
        None \<Rightarrow> Some e
      | Some x \<Rightarrow> if length (fst x) > length (fst e) then Some x else Some e)"

definition mux_route :: "mux \<Rightarrow> string \<Rightarrow> service option" where
  "mux_route t path = map_option snd (longest (filter (\<lambda>e. pattern_matches (fst e) path) t))"

record service_router =
  sr_adminPrefix :: string
  sr_subPath :: string
  sr_adminDisabled :: bool
  sr_mux :: mux

definition with_slash :: "string \<Rightarrow> string" where
  "with_slash p = (if HasPrefix p ''/'' then p else ''/'' @ p)"

definition normal_prefix :: "string \<Rightarrow> string" where
  "normal_prefix p =
     (let q = with_slash (if p = [] then ''/admin/'' else p) in if HasSuffix q ''/'' then q else q @ ''/'')"

definition normal_subPath :: "string \<Rightarrow> string" where
  "normal_subPath p = with_slash (if p = [] then ''/sub'' else p)"

definition control_prefix :: string where
  "control_prefix = ''/control/v1/''"

definition router_mux :: "bool \<Rightarrow> string \<Rightarrow> string \<Rightarrow> mux outcome" where
  "router_mux adminDisabled adminPrefix subPath =
     (let m0 = mux_Handle control_prefix ControlService (Ret []) in
      if adminDisabled then m0
      else
        let m1 = mux_Handle adminPrefix AdminService m0;
            m2 = mux_Handle (TrimSuffix adminPrefix ''/'') AdminService m1;
            m3 = mux_Handle ''/sub'' AdminService m2
        in if subPath \<noteq> ''/sub'' then mux_Handle subPath AdminService m3 else m3)"

definition NewServiceRouter ::
  "(string \<Rightarrow> string option) \<Rightarrow> string \<Rightarrow> string \<Rightarrow> string \<Rightarrow> string \<Rightarrow> service_router outcome" where
  "NewServiceRouter urlHost adminAddress controlAddress prefix sub =
     (let adminDisabled = (adminAddress = []) in
      case (if adminDisabled then None else loopbackHTTPURL urlHost adminAddress) of
        Some e \<Rightarrow> Raise e
      | None \<Rightarrow>
          (case loopbackHTTPURL urlHost controlAddress of
             Some e \<Rightarrow> Raise e
           | None \<Rightarrow>
               let adminPrefix = normal_prefix prefix; subPath = normal_subPath sub in
               (case router_mux adminDisabled adminPrefix subPath of
                  Ret t \<Rightarrow> Ret \<lparr>sr_adminPrefix = adminPrefix, sr_subPath = subPath,
                               sr_adminDisabled = adminDisabled, sr_mux = t\<rparr>
                | Raise e \<Rightarrow> Raise e
                | Panic m \<Rightarrow> Panic m
                | Hang \<Rightarrow> Hang)))"

definition Matches :: "service_router \<Rightarrow> string \<Rightarrow> bool" where
  "Matches r path =
     (if HasPrefix path control_prefix then True
      else if sr_adminDisabled r then False
      else
        let adminRoot = TrimSuffix (sr_adminPrefix r) ''/''
        in path = sr_subPath r \<or> path = ''/sub'' \<or> path = adminRoot \<or> HasPrefix path (sr_adminPrefix r))"

text \<open>The headers that the reverse proxies remove.\<close>

definition sanitize_headers :: "(string \<times> string) list \<Rightarrow> (string \<times> string) list" where
  "sanitize_headers hs =
     filter (\<lambda>(k, _). k \<notin> {''Forwarded'', ''X-Forwarded-For'', ''X-Forwarded-Host'', ''X-Forwarded-Proto'', ''X-Real-Ip''}) hs"

section \<open>The gateway\<close>

definition requireLoopbackAddress :: "string \<Rightarrow> go_error option" where
  "requireLoopbackAddress address =
     (case SplitHostPort address of
        None \<Rightarrow> Some (Opaque ''invalid address'')
      | Some (host, _) \<Rightarrow>
          let ip = ParseIP host in
          if host \<noteq> ''localhost'' \<and> (ip = [] \<or> \<not> IP_IsLoopback ip)
          then Some (Opaque ''must use a loopback address'') else None)"

record gateway_config =
  gc_listen :: string
  gc_admin :: string
  gc_adminDisabled :: bool
  gc_control :: string
  gc_trojan :: string
  gc_adminPrefix :: string
  gc_subPath :: string
  gc_maxConnections :: int

record gateway =
  gw_router :: service_router
  gw_trojan :: string
  gw_max :: nat

definition MaxActiveConnections :: nat where
  "MaxActiveConnections = 10000"

definition or_default :: "string \<Rightarrow> string \<Rightarrow> string" where
  "or_default d s = (if s = [] then d else s)"

text \<open>\<open>certOk\<close> and \<open>listenOk\<close>: loading the key pair and opening the port.\<close>

definition NewGateway :: "(string \<Rightarrow> string option) \<Rightarrow> bool \<Rightarrow> bool \<Rightarrow> gateway_config \<Rightarrow> gateway outcome" where
  "NewGateway urlHost certOk listenOk c =
     (let admin = (if gc_adminDisabled c then [] else or_default ''127.0.0.1:8081'' (gc_admin c));
          control = or_default ''127.0.0.1:8082'' (gc_control c);
          trojan = or_default ''127.0.0.1:14443'' (gc_trojan c)
      in case requireLoopbackAddress trojan of
           Some e \<Rightarrow> Raise e
         | None \<Rightarrow>
             if \<not> certOk then Raise (Opaque ''load TLS certificate'')
             else (case NewServiceRouter urlHost admin control (gc_adminPrefix c) (gc_subPath c) of
                Ret r \<Rightarrow>
                  if \<not> listenOk then Raise (Opaque ''listen'')
                  else Ret \<lparr>gw_router = r, gw_trojan = trojan,
                            gw_max = (if gc_maxConnections c \<le> 0 then MaxActiveConnections else nat (gc_maxConnections c))\<rparr>
              | Raise e \<Rightarrow> Raise e
              | Panic m \<Rightarrow> Panic m
              | Hang \<Rightarrow> Hang))"

section \<open>The configuration file\<close>

text \<open>\<open>filepath.Clean\<close> on the elements of a path.\<close>

definition clean_step :: "bool \<Rightarrow> string list \<Rightarrow> string \<Rightarrow> string list" where
  "clean_step rooted out c =
     (if c = [] \<or> c = ''.'' then out
      else if c = ''..'' then
        (if out \<noteq> [] \<and> last out \<noteq> ''..'' then butlast out else if rooted then out else out @ [c])
      else out @ [c])"

fun join_slash :: "string list \<Rightarrow> string" where
  "join_slash [] = []"
| "join_slash [x] = x"
| "join_slash (x # xs) = x @ ''/'' @ join_slash xs"

definition Clean :: "string \<Rightarrow> string" where
  "Clean path =
     (let rooted = HasPrefix path ''/''; s = join_slash (foldl (clean_step rooted) [] (split_at CHR ''/'' path))
      in if rooted then ''/'' @ s else if s = [] then ''.'' else s)"

record gateway_file =
  gf_cert :: string
  gf_key :: string
  gf_listen :: string
  gf_admin :: string
  gf_adminDisabled :: bool
  gf_control :: string
  gf_trojan :: string
  gf_adminPrefix :: string
  gf_subPath :: string

text \<open>\<open>file\<close> is \<open>None\<close> for a file that cannot be read, \<open>Some None\<close> for one that does not decode.\<close>

definition loadGatewayConfig :: "gateway_file option option \<Rightarrow> go_error + gateway_file" where
  "loadGatewayConfig file =
     (case file of
        None \<Rightarrow> Inl (Opaque ''read gateway configuration'')
      | Some None \<Rightarrow> Inl (Opaque ''parse gateway configuration'')
      | Some (Some f) \<Rightarrow>
          if gf_cert f = [] \<or> gf_key f = [] then Inl (Opaque ''gateway configuration needs ssl.cert and ssl.key'')
          else Inr f)"

definition override :: "(string \<Rightarrow> string) \<Rightarrow> string \<Rightarrow> string" where
  "override overrides path = (if overrides (Clean path) \<noteq> [] then overrides (Clean path) else path)"

text \<open>\<open>keyPair\<close> tells whether a certificate and a key load; a path without an override maps to the empty string.\<close>

definition ValidateGatewayConfigWithPathOverrides ::
  "(string \<Rightarrow> string option) \<Rightarrow> (string \<Rightarrow> string \<Rightarrow> bool) \<Rightarrow> (string \<Rightarrow> string) \<Rightarrow> gateway_file option option \<Rightarrow> go_error option" where
  "ValidateGatewayConfigWithPathOverrides urlHost keyPair overrides file =
     (case loadGatewayConfig file of
        Inl e \<Rightarrow> Some e
      | Inr f \<Rightarrow>
          if SplitHostPort (or_default ''0.0.0.0:443'' (gf_listen f)) = None then Some (Opaque ''invalid gateway listen address'')
          else
            case (if gf_adminDisabled f then None else loopbackHTTPURL urlHost (or_default ''127.0.0.1:8081'' (gf_admin f))) of
              Some e \<Rightarrow> Some e
            | None \<Rightarrow>
                (case loopbackHTTPURL urlHost (or_default ''127.0.0.1:8082'' (gf_control f)) of
                   Some e \<Rightarrow> Some e
                 | None \<Rightarrow>
                     (case requireLoopbackAddress (or_default ''127.0.0.1:14443'' (gf_trojan f)) of
                        Some e \<Rightarrow> Some e
                      | None \<Rightarrow>
                          if keyPair (override overrides (gf_cert f)) (override overrides (gf_key f)) then None
                          else Some (Opaque ''load TLS certificate''))))"

definition ValidateGatewayConfig ::
  "(string \<Rightarrow> string option) \<Rightarrow> (string \<Rightarrow> string \<Rightarrow> bool) \<Rightarrow> gateway_file option option \<Rightarrow> go_error option" where
  "ValidateGatewayConfig urlHost keyPair file = ValidateGatewayConfigWithPathOverrides urlHost keyPair (\<lambda>_. []) file"

text \<open>\<open>RunGatewayService\<close> up to its accept loop; \<open>listenAddress\<close> is the command line's.\<close>

definition RunGatewayService ::
  "(string \<Rightarrow> string option) \<Rightarrow> (string \<Rightarrow> string \<Rightarrow> bool) \<Rightarrow> (string \<Rightarrow> bool) \<Rightarrow> gateway_file option option \<Rightarrow> string \<Rightarrow>
   gateway outcome" where
  "RunGatewayService urlHost keyPair listenOk file listenAddress =
     (case ValidateGatewayConfig urlHost keyPair file of
        Some e \<Rightarrow> Raise e
      | None \<Rightarrow>
          (case loadGatewayConfig file of
             Inl e \<Rightarrow> Raise e
           | Inr f \<Rightarrow>
               let listen = or_default ''0.0.0.0:443'' (or_default (gf_listen f) listenAddress);
                   c = \<lparr>gc_listen = listen,
                        gc_admin = (if gf_adminDisabled f then [] else or_default ''127.0.0.1:8081'' (gf_admin f)),
                        gc_adminDisabled = gf_adminDisabled f,
                        gc_control = or_default ''127.0.0.1:8082'' (gf_control f),
                        gc_trojan = or_default ''127.0.0.1:14443'' (gf_trojan f),
                        gc_adminPrefix = gf_adminPrefix f, gc_subPath = gf_subPath f, gc_maxConnections = 0\<rparr>
               in NewGateway urlHost (keyPair (gf_cert f) (gf_key f)) (listenOk listen) c))"

section \<open>Connections\<close>

text \<open>A TCP address: the IP and the port, or \<open>None\<close> for another kind of address or a nil IP.\<close>

type_synonym tcp_addr = "(bytes \<times> nat) option"

definition writeProxyHeader :: "tcp_addr \<Rightarrow> tcp_addr \<Rightarrow> string" where
  "writeProxyHeader source destination =
     (case (source, destination) of
        (Some (sip, sport), Some (dip, dport)) \<Rightarrow>
          let family = (if IP_To4 sip \<noteq> [] \<and> IP_To4 dip \<noteq> [] then ''TCP4'' else ''TCP6'')
          in ''PROXY '' @ family @ '' '' @ IP_String sip @ '' '' @ IP_String dip @ '' '' @ dec_string (int sport) @
             '' '' @ dec_string (int dport) @ [CHR 0x0D, CHR 0x0A]
      | _ \<Rightarrow> ''PROXY UNKNOWN'' @ [CHR 0x0D, CHR 0x0A])"

text \<open>What becomes of a connection after its TLS handshake.\<close>

datatype gateway_fate =
    ToRouter "net_in rewind_reader"
  | NotFound404
  | BackendDown
  | Relayed bytes "net_in rewind_reader"
  | Crashed string
  | Stuck

text \<open>\<open>forwardTrojan\<close>: \<open>Relayed pre conn\<close> is a backend that has received \<open>pre\<close> and is then sent what
  \<open>conn\<close> delivers.\<close>

definition forwardTrojan :: "bool \<Rightarrow> bool \<Rightarrow> tcp_addr \<Rightarrow> tcp_addr \<Rightarrow> net_in rewind_reader \<Rightarrow> gateway_fate" where
  "forwardTrojan dialOk writeOk source destination conn =
     (if \<not> dialOk then BackendDown
      else if \<not> writeOk then BackendDown
      else Relayed (bytes_of (writeProxyHeader source destination)) conn)"

definition handleConn ::
  "gateway \<Rightarrow> nat \<Rightarrow> http_parser \<Rightarrow> bool \<Rightarrow> bool \<Rightarrow> tcp_addr \<Rightarrow> tcp_addr \<Rightarrow> net_in \<Rightarrow> gateway_fate" where
  "handleConn g fuel h dialOk writeOk source destination conn =
     (case sniff_http fuel (16 * 1024) h seg_read conn of
        (Ret path, r) \<Rightarrow> if Matches (gw_router g) path then ToRouter r else NotFound404
      | (Raise _, r) \<Rightarrow> forwardTrojan dialOk writeOk source destination r
      | (Panic m, _) \<Rightarrow> Crashed m
      | (Hang, _) \<Rightarrow> Stuck)"

section \<open>The trial parse loses nothing\<close>

text \<open>The parser decides before it has seen \<open>limit\<close> bytes of the stream.\<close>

definition decides :: "http_parser \<Rightarrow> nat \<Rightarrow> bytes \<Rightarrow> bool" where
  "decides h limit stream \<longleftrightarrow>
     (\<forall>k. limit \<le> length (take k stream) \<longrightarrow> hp_state h (take k stream) \<noteq> NeedMore)"

definition settled :: "'a outcome \<Rightarrow> bool" where
  "settled r \<longleftrightarrow> (case r of Ret _ \<Rightarrow> True | Raise _ \<Rightarrow> True | _ \<Rightarrow> False)"

lemma take_append_prefix: "take (length got) (got @ s) = got" "take (length got + length bs) (got @ bs @ s) = got @ bs"
  by simp_all

context byte_reader
begin

lemma ReadRequest_reads:
  assumes "bufio_room h"
  shows "ok n s \<Longrightarrow> (length got < limit \<longrightarrow> limit - length got + bufio_size \<le> n) \<Longrightarrow>
    decides h limit (got @ content s) \<Longrightarrow> limit - length got + 1 < fuel \<Longrightarrow>
    \<exists>res s' bs. ReadRequest fuel h rd got s = (res, s') \<and> settled res \<and> advances 0 s bs s'"
proof (induction fuel arbitrary: n s got)
  case (Suc fuel)
  show ?case
  proof (cases "hp_state h got")
    case NeedMore
    have room: "0 < hp_room h got" "hp_room h got \<le> bufio_size" using assms by (simp_all add: bufio_room_def)
    have "length got < limit"
      using Suc.prems(3) NeedMore take_append_prefix(1) [of got "content s"]
      by (metis decides_def not_le)
    then have budget: "limit - length got + bufio_size \<le> n" using Suc.prems(2) by blast
    then have le: "hp_room h got \<le> n" using room by linarith
    show ?thesis
    proof (cases "content s = []")
      case True
      obtain s' where r: "rd (hp_room h got) s = (([], Some (fin s)), s')" "content s' = []" "fin s' = fin s"
          "origin s' = origin s" "ok n s'" using rd_end [OF Suc.prems(1) room(1) le True] by blast
      then have "advances 0 s [] s'" using True ok_mono [OF r(5)] by (simp add: advances_def)
      moreover have "settled (case hp_state h (got @ []) of Request p \<Rightarrow> Ret p | _ \<Rightarrow> Raise (fin s))"
        by (simp add: settled_def split: sniff.splits)
      ultimately show ?thesis using NeedMore r(1) by auto
    next
      case False
      obtain bs s' where r: "rd (hp_room h got) s = ((bs, None), s')" "bs \<noteq> []" "length bs \<le> hp_room h got"
          "content s = bs @ content s'" "fin s' = fin s" "origin s' = origin s" "ok (n - length bs) s'"
        using rd_some [OF Suc.prems(1) room(1) le False] by blast
      have pos: "0 < length bs" using r(2) by simp
      have "length (got @ bs) < limit \<longrightarrow> limit - length (got @ bs) + bufio_size \<le> n - length bs"
        using budget by auto
      moreover have "decides h limit ((got @ bs) @ content s')" using Suc.prems(3) r(4) by simp
      moreover have "limit - length (got @ bs) + 1 < fuel" using Suc.prems(4) pos \<open>length got < limit\<close> by (simp only: length_append)
      ultimately obtain res s'' cs where i: "ReadRequest fuel h rd (got @ bs) s' = (res, s'')" "settled res"
          "advances 0 s' cs s''" using Suc.IH [OF r(7)] by blast
      have "advances (n - length bs) s bs s'" using r by (simp add: advances_def)
      from advances_trans [OF this i(3)] show ?thesis using NeedMore r(1) i(1,2) by auto
    qed
  next
    case NotHTTP
    then show ?thesis using advances_refl [OF ok_mono [OF Suc.prems(1)], of 0] by (auto simp: settled_def)
  next
    case (Request p)
    then show ?thesis using advances_refl [OF ok_mono [OF Suc.prems(1)], of 0] by (auto simp: settled_def)
  qed
qed simp

end

lemma sniff_reader_kept:
  "buffering (snd (ReadRequest fuel h (RewindReader_Read rd) got r)) = buffering r \<and>
   bufferSize (snd (ReadRequest fuel h (RewindReader_Read rd) got r)) = bufferSize r"
proof (induction fuel arbitrary: got r)
  case (Suc fuel)
  obtain bs err r' where "RewindReader_Read rd (hp_room h got) r = ((bs, err), r')" by (metis prod.exhaust)
  moreover from this have "buffering r' = buffering r \<and> bufferSize r' = bufferSize r"
    by (auto simp: RewindReader_Read_def Let_def split: prod.splits if_splits)
  ultimately show ?case using Suc [of "got @ bs" r'] by (auto split: option.splits sniff.splits)
qed simp

context rewind_over
begin

lemma sniff_replays:
  assumes "bufio_room h" "ok max_rewind_buffer conn" "limit + bufio_size \<le> max_rewind_buffer"
    "decides h limit (content conn)" "limit + 1 < fuel" "0 < sz"
  shows "\<exists>res r. sniff_http fuel sz h rd conn = (res, r) \<and> settled res \<and> rewind_content content r = content conn \<and>
    \<not> buffering r \<and> rewind_ok ok 0 r \<and> rewind_fin fin r = fin conn"
proof -
  let ?r0 = "(NewRewindConn conn)\<lparr>buffering := True, bufReadIdx := 0, bufferSize := sz, buf := []\<rparr>"
  have s0: "SetBufferSize sz (NewRewindConn conn) = Ret ?r0" using assms(6) by (simp add: SetBufferSize_def NewRewindConn_def)
  have c0: "rewind_content content ?r0 = content conn" "rewind_origin content ?r0 = content conn"
      "rewind_ok ok max_rewind_buffer ?r0" "rewind_fin fin ?r0 = fin conn"
    using assms(2) by (simp_all add: NewRewindConn_def rewind_content_def rewind_origin_def rewind_ok_def rewind_fin_def)
  obtain res r1 bs where R: "ReadRequest fuel h (RewindReader_Read rd) [] ?r0 = (res, r1)" "settled res"
      "rw.advances 0 ?r0 bs r1"
    using rw.ReadRequest_reads [OF assms(1) c0(3), of "[]" limit fuel] assms(3-5) c0(1) by auto
  have k: "buffering r1" "bufferSize r1 = sz"
    using sniff_reader_kept [of fuel h rd "[]" ?r0] R(1) by simp_all
  have "buf r1 @ content (rawReader r1) = content conn" "rewind_ok ok 0 r1" "rewind_fin fin r1 = fin conn"
    using R(3) c0(2,4) k(1) by (auto simp: rw.advances_def rewind_origin_def)
  then show ?thesis using s0 R(1,2) k assms(6)
    by (auto simp: sniff_http_def Rewind_def StopBuffering_def rewind_content_def rewind_ok_def rewind_fin_def)
qed

end

lemma net_sniff:
  assumes "bufio_room h" "seg_ok 0 conn" "limit + bufio_size \<le> max_rewind_buffer"
    "decides h limit (seg_content conn)" "limit + 1 < fuel" "0 < sz"
  shows "\<exists>res r. sniff_http fuel sz h seg_read conn = (res, r) \<and> settled res \<and>
    rewind_content seg_content r = seg_content conn \<and> \<not> buffering r \<and> seg_ok 0 (rawReader r)"
proof -
  have "seg_ok max_rewind_buffer conn" using assms(2) by (simp add: seg_ok_def)
  from net_rw.sniff_replays [OF assms(1) this assms(3-6)] show ?thesis by (auto simp: rewind_ok_def)
qed

section \<open>Routes\<close>

lemma mux_Handle_Ret:
  "mux_Handle pattern svc m = Ret t \<Longrightarrow> \<exists>t0. m = Ret t0 \<and> t = t0 @ [(pattern, svc)] \<and> pattern \<noteq> [] \<and> pattern \<notin> fst ` set t0"
  by (auto simp: mux_Handle_def split: outcome.splits if_splits)

lemma router_mux_disabled: "router_mux True a s = Ret [(control_prefix, ControlService)]"
  by (simp add: router_mux_def mux_Handle_def control_prefix_def)

lemma router_mux_enabled:
  assumes "router_mux False a s = Ret t"
  shows "set t = {(control_prefix, ControlService), (a, AdminService), (TrimSuffix a ''/'', AdminService),
    (''/sub'', AdminService), (s, AdminService)}"
proof -
  let ?m0 = "mux_Handle control_prefix ControlService (Ret [])"
  let ?m2 = "mux_Handle (TrimSuffix a ''/'') AdminService (mux_Handle a AdminService ?m0)"
  have m3: "mux_Handle ''/sub'' AdminService ?m2 = Ret u \<Longrightarrow>
      set u = {(control_prefix, ControlService), (a, AdminService), (TrimSuffix a ''/'', AdminService), (''/sub'', AdminService)}" for u
    by (auto dest!: mux_Handle_Ret)
  show ?thesis
  proof (cases "s = ''/sub''")
    case True
    then show ?thesis using assms m3 by (auto simp: router_mux_def Let_def)
  next
    case False
    then obtain u where "mux_Handle ''/sub'' AdminService ?m2 = Ret u" "t = u @ [(s, AdminService)]"
      using assms mux_Handle_Ret by (fastforce simp: router_mux_def Let_def)
    then show ?thesis using m3 by auto
  qed
qed

lemma longest_None [simp]: "longest es = None \<longleftrightarrow> es = []"
  by (cases es) (auto split: option.splits)

lemma longest_in: "longest es = Some e \<Longrightarrow> e \<in> set es"
  by (induction es arbitrary: e) (auto split: option.splits if_splits)

lemma mux_route_None: "mux_route t path = None \<longleftrightarrow> (\<forall>e \<in> set t. \<not> pattern_matches (fst e) path)"
  by (auto simp: mux_route_def filter_empty_conv)

lemma mux_route_Some: "mux_route t path = Some svc \<Longrightarrow> \<exists>e \<in> set t. snd e = svc \<and> pattern_matches (fst e) path"
  by (force simp: mux_route_def dest: longest_in)

lemma pattern_refl: "pattern_matches p p"
  by (simp add: pattern_matches_def HasPrefix_def)

lemma pattern_control: "pattern_matches control_prefix path = HasPrefix path control_prefix"
  by (simp add: pattern_matches_def control_prefix_def HasSuffix_def)

lemma normal_prefix_slash: "HasSuffix (normal_prefix p) ''/''"
  by (auto simp: normal_prefix_def Let_def)

lemma NewServiceRouterD:
  assumes "NewServiceRouter urlHost adminAddress controlAddress prefix sub = Ret r"
  shows "sr_adminPrefix r = normal_prefix prefix" "sr_subPath r = normal_subPath sub"
    "sr_adminDisabled r = (adminAddress = [])"
    "router_mux (adminAddress = []) (normal_prefix prefix) (normal_subPath sub) = Ret (sr_mux r)"
    "loopbackHTTPURL urlHost controlAddress = None" "adminAddress \<noteq> [] \<Longrightarrow> loopbackHTTPURL urlHost adminAddress = None"
  using assms by (auto simp: NewServiceRouter_def Let_def split: option.splits outcome.splits if_splits)

section \<open>Connections and shutdown\<close>

text \<open>\<open>Serve\<close> and the end of a handler, which first frees its place in the semaphore and then takes the
  connection off the list.\<close>

record serve_state =
  ss_sem :: nat
  ss_active :: "nat list"
  ss_leaving :: "nat list"
  ss_refused :: nat
  ss_done :: bool

inductive serve_step :: "nat \<Rightarrow> serve_state \<Rightarrow> serve_state \<Rightarrow> bool" for limit where
  accept: "\<not> ss_done s \<Longrightarrow> ss_sem s < limit \<Longrightarrow> c \<notin> set (ss_active s) \<Longrightarrow>
    serve_step limit s (s\<lparr>ss_sem := Suc (ss_sem s), ss_active := ss_active s @ [c]\<rparr>)"
| refuse: "\<not> ss_done s \<Longrightarrow> \<not> ss_sem s < limit \<Longrightarrow> serve_step limit s (s\<lparr>ss_refused := Suc (ss_refused s)\<rparr>)"
| free: "c \<in> set (ss_active s) \<Longrightarrow> c \<notin> set (ss_leaving s) \<Longrightarrow>
    serve_step limit s (s\<lparr>ss_sem := ss_sem s - 1, ss_leaving := ss_leaving s @ [c]\<rparr>)"
| remove: "c \<in> set (ss_leaving s) \<Longrightarrow>
    serve_step limit s (s\<lparr>ss_active := removeAll c (ss_active s), ss_leaving := removeAll c (ss_leaving s)\<rparr>)"
| close: "serve_step limit s (s\<lparr>ss_done := True\<rparr>)"

definition serve_init :: serve_state where
  "serve_init = \<lparr>ss_sem = 0, ss_active = [], ss_leaving = [], ss_refused = 0, ss_done = False\<rparr>"

definition handling :: "serve_state \<Rightarrow> nat set" where
  "handling s = set (ss_active s) - set (ss_leaving s)"

definition serve_inv :: "nat \<Rightarrow> serve_state \<Rightarrow> bool" where
  "serve_inv limit s \<longleftrightarrow> ss_sem s = card (handling s) \<and> ss_sem s \<le> limit \<and> set (ss_leaving s) \<subseteq> set (ss_active s)"

lemma serve_step_inv: "serve_step limit s s' \<Longrightarrow> serve_inv limit s \<Longrightarrow> serve_inv limit s'"
proof (induction rule: serve_step.induct)
  case (accept s c)
  then have "c \<notin> set (ss_leaving s)" by (auto simp: serve_inv_def)
  then have "handling (s\<lparr>ss_sem := Suc (ss_sem s), ss_active := ss_active s @ [c]\<rparr>) = insert c (handling s)" "c \<notin> handling s"
    using accept by (auto simp: handling_def)
  then show ?case using accept by (auto simp: serve_inv_def handling_def)
next
  case (free c s)
  then have "handling (s\<lparr>ss_sem := ss_sem s - 1, ss_leaving := ss_leaving s @ [c]\<rparr>) = handling s - {c}" "c \<in> handling s"
    by (auto simp: handling_def)
  then show ?case using free by (auto simp: serve_inv_def handling_def)
next
  case (remove c s)
  then have "handling (s\<lparr>ss_active := removeAll c (ss_active s), ss_leaving := removeAll c (ss_leaving s)\<rparr>) = handling s"
    by (auto simp: handling_def)
  then show ?case using remove by (auto simp: serve_inv_def)
qed (auto simp: serve_inv_def handling_def)

lemma serve_reachable_inv:
  assumes "(serve_step limit)\<^sup>*\<^sup>* serve_init s"
  shows "serve_inv limit s"
  using assms
proof (induction rule: rtranclp_induct)
  case base
  then show ?case by (simp add: serve_inv_def serve_init_def handling_def)
qed (rule serve_step_inv)

text \<open>\<open>ServiceRouter.Close\<close>: the caller runs inside \<open>closeOnce.Do\<close> and waits for a goroutine in
  \<open>http.Server.Shutdown\<close> or for the timer. Shutdown takes the server's lock and closes the listeners
  that are still tracked; the listener is the router itself, so this calls \<open>closeOnce.Do\<close> again, which returns
  only when the first call has. The serving goroutine leaves when its listener reports the closed router, and
  needs the same lock to take its listener off the list.\<close>

datatype closer = NotCalled | Waiting | Returned

datatype shutdown = NotStarted | WantsLock | InListenerClose | Draining | Complete

datatype serving = Serving | Leaving | Untracked

record close_state =
  cs_closer :: closer
  cs_shutdown :: shutdown
  cs_serving :: serving
  cs_conns :: nat
  cs_timer :: bool

inductive close_step :: "close_state \<Rightarrow> close_state \<Rightarrow> bool" where
  call: "cs_closer s = NotCalled \<Longrightarrow> close_step s (s\<lparr>cs_closer := Waiting, cs_shutdown := WantsLock\<rparr>)"
| accept_fails: "cs_closer s \<noteq> NotCalled \<Longrightarrow> cs_serving s = Serving \<Longrightarrow> close_step s (s\<lparr>cs_serving := Leaving\<rparr>)"
| untrack: "cs_serving s = Leaving \<Longrightarrow> cs_shutdown s \<noteq> InListenerClose \<Longrightarrow> close_step s (s\<lparr>cs_serving := Untracked\<rparr>)"
| lock: "cs_shutdown s = WantsLock \<Longrightarrow>
    close_step s (s\<lparr>cs_shutdown := (if cs_serving s = Untracked then Draining else InListenerClose)\<rparr>)"
| listener_closed: "cs_shutdown s = InListenerClose \<Longrightarrow> cs_closer s = Returned \<Longrightarrow> close_step s (s\<lparr>cs_shutdown := Draining\<rparr>)"
| conn_ends: "0 < cs_conns s \<Longrightarrow> close_step s (s\<lparr>cs_conns := cs_conns s - 1\<rparr>)"
| drained: "cs_shutdown s = Draining \<Longrightarrow> cs_conns s = 0 \<Longrightarrow> cs_serving s = Untracked \<Longrightarrow> close_step s (s\<lparr>cs_shutdown := Complete\<rparr>)"
| graceful: "cs_closer s = Waiting \<Longrightarrow> cs_shutdown s = Complete \<Longrightarrow> close_step s (s\<lparr>cs_closer := Returned\<rparr>)"
| timeout: "close_step s (s\<lparr>cs_timer := True\<rparr>)"
| forced: "cs_closer s = Waiting \<Longrightarrow> cs_timer s \<Longrightarrow> close_step s (s\<lparr>cs_closer := Returned, cs_conns := 0\<rparr>)"

definition close_init :: "nat \<Rightarrow> close_state" where
  "close_init n = \<lparr>cs_closer = NotCalled, cs_shutdown = NotStarted, cs_serving = Serving, cs_conns = n, cs_timer = False\<rparr>"

lemma stuck_step:
  "close_step s s' \<Longrightarrow> cs_timer s \<or> cs_closer s = Waiting \<and> cs_shutdown s = InListenerClose \<Longrightarrow>
   cs_timer s' \<or> cs_closer s' = Waiting \<and> cs_shutdown s' = InListenerClose"
  by (induction rule: close_step.induct) auto

text \<open>The shutdown of the router can wait for its full time limit although no connection is open: from
  the start with no connection there is a run into a state from which \<open>Close\<close> returns only after the timer.\<close>

theorem close_waits_for_timeout:
  "\<exists>s. close_step\<^sup>*\<^sup>* (close_init 0) s \<and> cs_conns s = 0 \<and> cs_closer s = Waiting \<and> \<not> cs_timer s \<and>
    (\<forall>t. close_step\<^sup>*\<^sup>* s t \<longrightarrow> cs_closer t = Returned \<longrightarrow> cs_timer t)"
proof -
  let ?a = "(close_init 0)\<lparr>cs_closer := Waiting, cs_shutdown := WantsLock\<rparr>"
  let ?s = "?a\<lparr>cs_shutdown := InListenerClose\<rparr>"
  have "close_step (close_init 0) ?a" by (rule call) (simp add: close_init_def)
  moreover have "close_step ?a ?s" using lock [of ?a] by (simp add: close_init_def)
  ultimately have "close_step\<^sup>*\<^sup>* (close_init 0) ?s" by (meson converse_rtranclp_into_rtranclp r_into_rtranclp)
  moreover have "cs_timer t \<or> cs_closer t = Waiting \<and> cs_shutdown t = InListenerClose" if "close_step\<^sup>*\<^sup>* ?s t" for t
    using that by (induction rule: rtranclp_induct) (simp add: close_init_def, rule stuck_step)
  then have "cs_closer t = Returned \<longrightarrow> cs_timer t" if "close_step\<^sup>*\<^sup>* ?s t" for t using that by fastforce
  ultimately show ?thesis by (intro exI [of _ ?s]) (auto simp: close_init_def)
qed

text \<open>An administration prefix of one slash is accepted by the checks of the configuration and makes the
  construction of the router panic, as does a subscription path equal to the administration root.\<close>

theorem router_config_panics:
  "loopbackHTTPURL urlHost adm = None \<Longrightarrow> loopbackHTTPURL urlHost ctl = None \<Longrightarrow> adm \<noteq> [] \<Longrightarrow>
   NewServiceRouter urlHost adm ctl ''/'' sub = Panic ''http: invalid pattern'' \<and>
   NewServiceRouter urlHost adm ctl ''admin'' ''/admin'' = Panic ''http: multiple registrations''"
  by (simp add: NewServiceRouter_def Let_def normal_prefix_def normal_subPath_def with_slash_def HasPrefix_def HasSuffix_def
      router_mux_def mux_Handle_def control_prefix_def TrimSuffix_def)

section \<open>Properties\<close>

text \<open>The gateway passes the client's bytes on unchanged. Whatever the standard HTTP parser makes of a stream
  and however the stream is cut into segments, as long as the parser decides within the reader's buffer: a
  connection that reaches the router or the Trojan data plane delivers exactly the bytes the client
  sent, to the data plane after the PROXY header with the client's address; the data plane is only dialled when
  the stream is no HTTP request, only paths of the router's table reach it, and no stream makes the handler panic or
  hang.\<close>

theorem gateway_transparent:
  assumes "seg_ok 0 conn" "bufio_room h" "decides h limit (seg_content conn)" "limit + bufio_size \<le> max_rewind_buffer"
    "limit + 1 < fuel"
  shows "case handleConn g fuel h dialOk writeOk source destination conn of
      ToRouter r \<Rightarrow> rewind_content seg_content r = seg_content conn \<and> \<not> buffering r
    | NotFound404 \<Rightarrow> True
    | BackendDown \<Rightarrow> \<not> (dialOk \<and> writeOk)
    | Relayed pre r \<Rightarrow> pre = bytes_of (writeProxyHeader source destination) \<and>
        rewind_content seg_content r = seg_content conn \<and> \<not> buffering r
    | _ \<Rightarrow> False"
proof -
  obtain res r where r: "sniff_http fuel (16 * 1024) h seg_read conn = (res, r)" "settled res"
      "rewind_content seg_content r = seg_content conn" "\<not> buffering r"
    using net_sniff [OF assms(2,1,4,3,5), of "16 * 1024"] by auto
  then show ?thesis by (cases res) (auto simp: handleConn_def forwardTrojan_def settled_def)
qed

definition sample_parser :: http_parser where
  "sample_parser = \<lparr>hp_state = \<lambda>b. if length b < 3 then NeedMore else if take 3 b = bytes_of ''GET'' then Request ''/sub'' else NotHTTP,
     hp_room = \<lambda>_. 4096\<rparr>"

definition sample_gateway :: gateway where
  "sample_gateway = \<lparr>gw_router = \<lparr>sr_adminPrefix = ''/admin/'', sr_subPath = ''/sub'', sr_adminDisabled = False, sr_mux = []\<rparr>,
     gw_trojan = ''127.0.0.1:14443'', gw_max = 1\<rparr>"

definition sample_stream :: net_in where
  "sample_stream = \<lparr>segs = [[71, 69], [88, 1]], fin_err = EOF\<rparr>"

theorem gateway_transparent_witness:
  "case handleConn sample_gateway (Suc (Suc (Suc (Suc (Suc 0))))) sample_parser True True None None sample_stream of
      Relayed pre r \<Rightarrow> rewind_content seg_content r = [71, 69, 88, 1] | _ \<Rightarrow> False"
proof -
  let ?n = "Suc (Suc (Suc (Suc (Suc 0))))"
  have c: "seg_ok 0 sample_stream" "seg_content sample_stream = [71, 69, 88, 1]"
    by (simp_all add: sample_stream_def seg_ok_def seg_content_def)
  have d: "bufio_room sample_parser" "decides sample_parser 3 (seg_content sample_stream)" "(3 :: nat) + bufio_size \<le> max_rewind_buffer"
    "(3 :: nat) + 1 < ?n"
    unfolding c by (auto simp: bufio_room_def sample_parser_def bufio_size_def decides_def max_rewind_buffer_def)
  have "\<exists>pre r. handleConn sample_gateway ?n sample_parser True True None None sample_stream = Relayed pre r"
    by (simp add: handleConn_def sniff_http_def SetBufferSize_def NewRewindConn_def sample_stream_def sample_parser_def
        RewindReader_Read_def seg_read_def Let_def max_rewind_buffer_def Rewind_def StopBuffering_def forwardTrojan_def
        bytes_of_def)
  then show ?thesis
    using gateway_transparent [OF c(1) d, where g = sample_gateway and dialOk = True and writeOk = True and
        source = None and destination = None] c(2) by auto
qed

text \<open>The gateway's decision and its router agree. For every configuration the router accepts, both private services
  have loopback addresses; every path the gateway lets in has a route; with the administration
  service disabled nothing is routed to it; only paths below \<open>/control/v1/\<close> reach the
  control service; and unless a configured path ends in a slash, the router has no route beyond the paths the gateway
  lets in.\<close>

theorem router_agrees_with_gateway:
  assumes "NewServiceRouter urlHost adm ctl prefix sub = Ret r"
  shows "loopbackHTTPURL urlHost ctl = None \<and> (\<not> sr_adminDisabled r \<longrightarrow> loopbackHTTPURL urlHost adm = None) \<and>
    (Matches r path \<longrightarrow> mux_route (sr_mux r) path \<noteq> None) \<and>
    (sr_adminDisabled r \<longrightarrow> mux_route (sr_mux r) path \<noteq> Some AdminService) \<and>
    (mux_route (sr_mux r) path = Some ControlService \<longrightarrow> HasPrefix path control_prefix) \<and>
    (\<not> HasSuffix (TrimSuffix (sr_adminPrefix r) ''/'') ''/'' \<and> \<not> HasSuffix (sr_subPath r) ''/'' \<longrightarrow>
      mux_route (sr_mux r) path \<noteq> None \<longrightarrow> Matches r path)"
proof (cases "adm = []")
  case True
  then have t: "sr_mux r = [(control_prefix, ControlService)]" "sr_adminDisabled r"
    using NewServiceRouterD [OF assms] router_mux_disabled by simp_all
  then have "mux_route (sr_mux r) path = (if HasPrefix path control_prefix then Some ControlService else None)"
    by (simp add: mux_route_def pattern_control)
  then show ?thesis using t NewServiceRouterD(5) [OF assms] by (simp add: Matches_def)
next
  case False
  note D = NewServiceRouterD [OF assms]
  have t: "set (sr_mux r) = {(control_prefix, ControlService), (sr_adminPrefix r, AdminService),
      (TrimSuffix (sr_adminPrefix r) ''/'', AdminService), (''/sub'', AdminService), (sr_subPath r, AdminService)}"
    using router_mux_enabled D(1,2,4) False by simp
  have a: "pattern_matches (sr_adminPrefix r) path = HasPrefix path (sr_adminPrefix r)"
    using normal_prefix_slash [of prefix] D(1) by (simp add: pattern_matches_def)
  have s: "pattern_matches ''/sub'' path = (path = ''/sub'')" by (simp add: pattern_matches_def HasSuffix_def)
  have e: "\<not> sr_adminDisabled r" using D(3) False by simp
  have c: "mux_route (sr_mux r) path = Some ControlService \<longrightarrow> HasPrefix path control_prefix"
    using mux_route_Some [of "sr_mux r" path ControlService] t pattern_control by auto
  have m: "Matches r path \<longrightarrow> mux_route (sr_mux r) path \<noteq> None"
    using e t a pattern_control pattern_refl by (auto simp: Matches_def mux_route_None Let_def)
  have "\<not> HasSuffix (TrimSuffix (sr_adminPrefix r) ''/'') ''/'' \<and> \<not> HasSuffix (sr_subPath r) ''/'' \<longrightarrow>
      mux_route (sr_mux r) path \<noteq> None \<longrightarrow> Matches r path"
  proof (intro impI)
    assume "\<not> HasSuffix (TrimSuffix (sr_adminPrefix r) ''/'') ''/'' \<and> \<not> HasSuffix (sr_subPath r) ''/''"
    then have "pattern_matches (TrimSuffix (sr_adminPrefix r) ''/'') path = (path = TrimSuffix (sr_adminPrefix r) ''/'')"
      "pattern_matches (sr_subPath r) path = (path = sr_subPath r)" by (simp_all add: pattern_matches_def)
    moreover assume "mux_route (sr_mux r) path \<noteq> None"
    ultimately show "Matches r path"
      using t a s pattern_control [of path] e unfolding mux_route_None Matches_def Let_def by auto
  qed
  then show ?thesis using D(5,6) False e c m by blast
qed

theorem router_agrees_with_gateway_witness:
  "\<exists>r. NewServiceRouter (\<lambda>_. Some ''localhost'') ''a'' ''b'' [] [] = Ret r \<and> mux_route (sr_mux r) ''/admin/x'' \<noteq> None"
proof -
  obtain r where r: "NewServiceRouter (\<lambda>_. Some ''localhost'') ''a'' ''b'' [] [] = Ret r" "sr_adminPrefix r = ''/admin/''"
    by (simp add: NewServiceRouter_def Let_def normal_prefix_def normal_subPath_def with_slash_def HasPrefix_def HasSuffix_def
      router_mux_def mux_Handle_def control_prefix_def TrimSuffix_def loopbackHTTPURL_def)
  moreover have "Matches r ''/admin/x''"
    using r NewServiceRouterD(3) [OF r(1)] by (simp add: Matches_def HasPrefix_def Let_def)
  ultimately show ?thesis using router_agrees_with_gateway [OF r(1), of "''/admin/x''"] by blast
qed

text \<open>The file's addresses are checked by exactly the rules that the gateway applies to them, so validation
  decides whether the service starts, up to the panic of the router on clashing paths and the listening port.\<close>

lemma mux_Handle_total: "m \<noteq> Hang \<and> (\<forall>e. m \<noteq> Raise e) \<Longrightarrow> mux_Handle p s m \<noteq> Hang \<and> (\<forall>e. mux_Handle p s m \<noteq> Raise e)"
  by (simp add: mux_Handle_def split: outcome.splits)

lemma router_mux_total: "(\<exists>t. router_mux d a s = Ret t) \<or> (\<exists>m. router_mux d a s = Panic m)"
proof -
  have "router_mux d a s \<noteq> Hang \<and> (\<forall>e. router_mux d a s \<noteq> Raise e)"
    unfolding router_mux_def Let_def using mux_Handle_total by simp
  then show ?thesis by (cases "router_mux d a s") auto
qed

lemma or_default_idem: "d \<noteq> [] \<Longrightarrow> or_default d (or_default d s) = or_default d s" "d \<noteq> [] \<Longrightarrow> or_default d s \<noteq> []"
  by (auto simp: or_default_def)

lemma override_none [simp]: "override (\<lambda>_. []) p = p"
  by (simp add: override_def)

theorem gateway_starts_iff_valid:
  "(\<exists>g. RunGatewayService urlHost keyPair listenOk file listenAddress = Ret g) \<longleftrightarrow>
   ValidateGatewayConfig urlHost keyPair file = None \<and>
   (\<exists>f. file = Some (Some f) \<and> listenOk (or_default ''0.0.0.0:443'' (or_default (gf_listen f) listenAddress)) \<and>
      (\<forall>m. router_mux (gf_adminDisabled f) (normal_prefix (gf_adminPrefix f)) (normal_subPath (gf_subPath f)) \<noteq> Panic m))"
proof (cases "ValidateGatewayConfig urlHost keyPair file")
  case None
  then obtain f where f: "file = Some (Some f)" "loadGatewayConfig file = Inr f"
    by (auto simp: ValidateGatewayConfig_def ValidateGatewayConfigWithPathOverrides_def loadGatewayConfig_def
        split: option.splits if_splits)
  have v: "gf_adminDisabled f \<or> loopbackHTTPURL urlHost (or_default ''127.0.0.1:8081'' (gf_admin f)) = None"
      "loopbackHTTPURL urlHost (or_default ''127.0.0.1:8082'' (gf_control f)) = None"
      "requireLoopbackAddress (or_default ''127.0.0.1:14443'' (gf_trojan f)) = None" "keyPair (gf_cert f) (gf_key f)"
    using None by (auto simp: ValidateGatewayConfig_def ValidateGatewayConfigWithPathOverrides_def f(2)
        split: option.splits if_splits)
  show ?thesis using None f v router_mux_total [of "gf_adminDisabled f" "normal_prefix (gf_adminPrefix f)" "normal_subPath (gf_subPath f)"]
    by (auto simp: RunGatewayService_def NewGateway_def NewServiceRouter_def Let_def or_default_idem split: outcome.splits)
qed (auto simp: RunGatewayService_def)

text \<open>The number of connections being handled never exceeds the limit, in every interleaving of accepted
  connections and ending handlers; connections beyond it are refused.\<close>

theorem gateway_connections_bounded:
  assumes "(serve_step limit)\<^sup>*\<^sup>* serve_init s"
  shows "card (handling s) \<le> limit \<and> ss_sem s = card (handling s)"
  using serve_reachable_inv [OF assms] by (simp add: serve_inv_def)

theorem gateway_connections_bounded_witness:
  "\<exists>s. (serve_step 1)\<^sup>*\<^sup>* serve_init s \<and> handling s = {7} \<and> card (handling s) \<le> 1"
proof -
  let ?s = "serve_init\<lparr>ss_sem := 1, ss_active := [7]\<rparr>"
  have "serve_step 1 serve_init ?s" using accept [of serve_init 1 7] by (simp add: serve_init_def)
  then have r: "(serve_step 1)\<^sup>*\<^sup>* serve_init ?s" by (rule r_into_rtranclp)
  moreover have "handling ?s = {7}" by (simp add: handling_def serve_init_def)
  ultimately show ?thesis using gateway_connections_bounded [OF r] by blast
qed

end
