(* ===== verification/Transport_Server.thy ===== *)
theory Transport_Server
  imports Edge_Gateway
begin

text \<open>
  The listening end of the data plane (\<open>tunnel/transport/server.go\<close>, \<open>proxy_protocol.go\<close>): the PROXY
  header that the gateway sends in front of a connection, the separation of HTTP from other streams, and
  the two accept queues. \<open>bufio.Reader\<close> is written out over any reader.
\<close>

section \<open>bufio.Reader\<close>

record 's bufio =
  bf_buf :: bytes
  bf_err :: "go_error option"
  bf_src :: 's

definition NewReaderSize :: "'s \<Rightarrow> 's bufio" where
  "NewReaderSize src = \<lparr>bf_buf = [], bf_err = None, bf_src = src\<rparr>"

text \<open>\<open>ReadString\<close> with a buffer of \<open>sz\<close> bytes: \<open>acc\<close> holds the full buffers read so far. A partial
  line at an error is not returned, since the caller ignores it.\<close>

fun ReadString :: "nat \<Rightarrow> nat \<Rightarrow> 's reader \<Rightarrow> byte \<Rightarrow> bytes \<Rightarrow> ('s bufio, bytes) proc" where
  "ReadString 0 sz rd delim acc b = (Hang, b)"
| "ReadString (Suc fuel) sz rd delim acc b =
     (if delim \<in> set (bf_buf b) then
        (let line = takeWhile (\<lambda>c. c \<noteq> delim) (bf_buf b) @ [delim]
         in (Ret (acc @ line), b\<lparr>bf_buf := drop (length line) (bf_buf b)\<rparr>))
      else case bf_err b of
        Some e \<Rightarrow> (Raise e, b\<lparr>bf_buf := [], bf_err := None\<rparr>)
      | None \<Rightarrow>
          if sz \<le> length (bf_buf b) then ReadString fuel sz rd delim (acc @ bf_buf b) (b\<lparr>bf_buf := []\<rparr>)
          else case rd (sz - length (bf_buf b)) (bf_src b) of ((bs, err), src) \<Rightarrow>
            ReadString fuel sz rd delim acc (b\<lparr>bf_buf := bf_buf b @ bs, bf_err := err, bf_src := src\<rparr>))"

text \<open>\<open>Read\<close>: from the buffer, or, when that is empty, directly for a large destination.\<close>

definition bufio_Read :: "nat \<Rightarrow> 's reader \<Rightarrow> 's bufio reader" where
  "bufio_Read sz rd k b =
     (if k = 0 then (if bf_buf b \<noteq> [] then (([], None), b) else (([], bf_err b), b\<lparr>bf_err := None\<rparr>))
      else if bf_buf b \<noteq> [] then ((take k (bf_buf b), None), b\<lparr>bf_buf := drop k (bf_buf b)\<rparr>)
      else case bf_err b of
        Some e \<Rightarrow> (([], Some e), b\<lparr>bf_err := None\<rparr>)
      | None \<Rightarrow>
          if sz \<le> k then
            (case rd k (bf_src b) of ((bs, err), src) \<Rightarrow> ((bs, err), b\<lparr>bf_src := src\<rparr>))
          else
            (case rd sz (bf_src b) of ((bs, err), src) \<Rightarrow>
               if bs = [] then (([], err), b\<lparr>bf_src := src\<rparr>)
               else ((take k bs, None), b\<lparr>bf_buf := drop k bs, bf_err := err, bf_src := src\<rparr>)))"

section \<open>The PROXY header\<close>

definition proxyProtocolV1MaxHeader :: nat where
  "proxyProtocolV1MaxHeader = 108"

record proxyProtocolConn =
  pp_reader :: "net_in bufio"
  pp_remoteAddr :: tcp_addr
  pp_localAddr :: tcp_addr

text \<open>\<open>strings.Fields\<close>.\<close>

function fields_from :: "string \<Rightarrow> string \<Rightarrow> string list" where
  "fields_from cur [] = (if cur = [] then [] else [cur])"
| "fields_from cur (c # s) =
     (case decode_rune (map code (c # s)) of (r, n, _) \<Rightarrow>
        if IsSpace r then (if cur = [] then [] else [cur]) @ fields_from [] (drop n (c # s))
        else fields_from (cur @ take n (c # s)) (drop n (c # s)))"
  by pat_completeness auto
termination
  by (relation "measure (\<lambda>(_, s). length s)") (auto simp del: decode_rune.simps dest!: decode_rune_step)

declare fields_from.simps [simp del]

definition Fields :: "string \<Rightarrow> string list" where
  "Fields s = fields_from [] s"

definition loopback_addr :: "tcp_addr \<Rightarrow> bool" where
  "loopback_addr a \<longleftrightarrow> (case a of None \<Rightarrow> False | Some (ip, _) \<Rightarrow> IP_IsLoopback ip)"

definition proxyProtocolPort :: "string \<Rightarrow> nat option" where
  "proxyProtocolPort raw =
     (case ParseInt 64 raw of
        None \<Rightarrow> None
      | Some port \<Rightarrow> if port < 1 \<or> port > 65535 then None else Some (nat port))"

text \<open>The fields of the line: the message of a refusal, or the two ends, which an unknown peer does not have.\<close>

definition parse_proxy_fields :: "string list \<Rightarrow> string + ((bytes \<times> nat) \<times> (bytes \<times> nat)) option" where
  "parse_proxy_fields fs =
     (if length fs = 2 \<and> fs ! 0 = ''PROXY'' \<and> fs ! 1 = ''UNKNOWN'' then Inr None
      else if length fs \<noteq> 6 \<or> fs ! 0 \<noteq> ''PROXY'' \<or> (fs ! 1 \<noteq> ''TCP4'' \<and> fs ! 1 \<noteq> ''TCP6'')
      then Inl ''unsupported PROXY protocol header''
      else
        let sourceIP = ParseIP (fs ! 2); destinationIP = ParseIP (fs ! 3) in
        if sourceIP = [] \<or> destinationIP = [] then Inl ''invalid PROXY protocol IP address''
        else if fs ! 1 = ''TCP4'' \<and> (IP_To4 sourceIP = [] \<or> IP_To4 destinationIP = [])
        then Inl ''PROXY TCP4 header contains a non-IPv4 address''
        else if fs ! 1 = ''TCP6'' \<and> (IP_To4 sourceIP \<noteq> [] \<or> IP_To4 destinationIP \<noteq> [])
        then Inl ''PROXY TCP6 header contains a non-IPv6 address''
        else case proxyProtocolPort (fs ! 4) of
          None \<Rightarrow> Inl ''invalid PROXY source port''
        | Some sp \<Rightarrow>
            (case proxyProtocolPort (fs ! 5) of
               None \<Rightarrow> Inl ''invalid PROXY destination port''
             | Some dp \<Rightarrow> Inr (Some ((sourceIP, sp), (destinationIP, dp)))))"

definition readProxyProtocolV1 :: "nat \<Rightarrow> tcp_addr \<Rightarrow> tcp_addr \<Rightarrow> net_in \<Rightarrow> proxyProtocolConn outcome" where
  "readProxyProtocolV1 fuel localAddr remoteAddr conn =
     (if \<not> loopback_addr localAddr then Raise (Opaque ''PROXY protocol listener must bind to loopback'')
      else if \<not> loopback_addr remoteAddr then Raise (Opaque ''PROXY protocol connection must originate from loopback'')
      else case ReadString fuel proxyProtocolV1MaxHeader seg_read 10 [] (NewReaderSize conn) of
        (Ret line, b) \<Rightarrow>
          if length line > proxyProtocolV1MaxHeader \<or> \<not> HasSuffix (string_of line) [CHR 0x0D, CHR 0x0A]
          then Raise (Opaque ''invalid PROXY protocol header length or terminator'')
          else (case parse_proxy_fields (Fields (TrimSuffix (string_of line) [CHR 0x0D, CHR 0x0A])) of
                  Inl m \<Rightarrow> Raise (Opaque m)
                | Inr None \<Rightarrow> Ret \<lparr>pp_reader = b, pp_remoteAddr = remoteAddr, pp_localAddr = localAddr\<rparr>
                | Inr (Some (s, d)) \<Rightarrow> Ret \<lparr>pp_reader = b, pp_remoteAddr = Some s, pp_localAddr = Some d\<rparr>)
      | (Raise e, _) \<Rightarrow> Raise (Err ''read PROXY protocol header'' (Some e))
      | (Panic m, _) \<Rightarrow> Panic m
      | (Hang, _) \<Rightarrow> Hang)"

section \<open>Accepting connections\<close>

text \<open>A connection in a queue: a plain or rewound stream with the addresses it reports. A connection without
  the header reads from the network through an empty buffer here, which delivers the same bytes.\<close>

record transport_conn =
  tc_stream :: "net_in bufio rewind_reader"
  tc_remote :: tcp_addr

record transport =
  tr_connChan :: "transport_conn list"
  tr_wsChan :: "transport_conn list"
  tr_nextHTTP :: bool
  tr_proxyProtocol :: bool
  tr_cmd :: "(string \<times> string list) option"
  tr_closed :: bool

definition chan_size :: nat where
  "chan_size = 32"

text \<open>The select at the end of the goroutine: the connection is queued, closed when the server has stopped, or the
  goroutine waits; a receiver frees a place in a later step. When both cases are ready, \<open>pick\<close> chooses.\<close>

datatype 'a handed = Queued 'a | ConnClosed | Waits

definition queue_conn :: "bool \<Rightarrow> transport_conn \<Rightarrow> transport \<Rightarrow> transport handed" where
  "queue_conn pick c t =
     (if length (tr_connChan t) < chan_size \<and> (pick \<or> \<not> tr_closed t) then Queued (t\<lparr>tr_connChan := tr_connChan t @ [c]\<rparr>)
      else if tr_closed t then ConnClosed else Waits)"

definition queue_ws :: "bool \<Rightarrow> transport_conn \<Rightarrow> transport \<Rightarrow> transport handed" where
  "queue_ws pick c t =
     (if length (tr_wsChan t) < chan_size \<and> (pick \<or> \<not> tr_closed t) then Queued (t\<lparr>tr_wsChan := tr_wsChan t @ [c]\<rparr>)
      else if tr_closed t then ConnClosed else Waits)"

abbreviation header_rd :: "net_in bufio reader" where
  "header_rd \<equiv> bufio_Read proxyProtocolV1MaxHeader seg_read"

definition accept_plain ::
  "nat \<Rightarrow> http_parser \<Rightarrow> bool \<Rightarrow> tcp_addr \<Rightarrow> net_in bufio \<Rightarrow> transport \<Rightarrow> transport handed" where
  "accept_plain fuel h pick remote b t =
     (if tr_nextHTTP t then
        (case sniff_http fuel 512 h header_rd b of
           (Raise _, r) \<Rightarrow> queue_conn pick \<lparr>tc_stream = r, tc_remote = remote\<rparr> t
         | (Ret _, r) \<Rightarrow> queue_ws pick \<lparr>tc_stream = r, tc_remote = remote\<rparr> t
         | (Panic _, _) \<Rightarrow> ConnClosed
         | (Hang, _) \<Rightarrow> Waits)
      else queue_conn pick \<lparr>tc_stream = NewRewindConn b, tc_remote = remote\<rparr> t)"

text \<open>The goroutine for one accepted connection.\<close>

definition accept_one ::
  "nat \<Rightarrow> http_parser \<Rightarrow> bool \<Rightarrow> tcp_addr \<Rightarrow> tcp_addr \<Rightarrow> net_in \<Rightarrow> transport \<Rightarrow> transport handed" where
  "accept_one fuel h pick localAddr remoteAddr conn t =
     (if tr_proxyProtocol t then
        (case readProxyProtocolV1 fuel localAddr remoteAddr conn of
           Ret p \<Rightarrow> accept_plain fuel h pick (pp_remoteAddr p) (pp_reader p) t
         | Raise _ \<Rightarrow> ConnClosed
         | Panic _ \<Rightarrow> ConnClosed
         | Hang \<Rightarrow> Waits)
      else accept_plain fuel h pick remoteAddr (NewReaderSize conn) t)"

text \<open>\<open>AcceptConn\<close>: asking for HTTP connections switches the server over for good. \<open>None\<close> waits.\<close>

definition take_conn ::
  "bool \<Rightarrow> bool \<Rightarrow> transport_conn list \<Rightarrow> (go_error + transport_conn) option \<times> transport_conn list" where
  "take_conn pick closed q =
     (case q of
        c # cs \<Rightarrow>
          if pick \<or> \<not> closed then (Some (Inr c), cs) else (Some (Inl (NewError ''transport server closed'')), q)
      | [] \<Rightarrow> (if closed then Some (Inl (NewError ''transport server closed'')) else None, []))"

definition AcceptConn :: "bool \<Rightarrow> string option \<Rightarrow> transport \<Rightarrow> (go_error + transport_conn) option \<times> transport" where
  "AcceptConn pick overlay t =
     (if overlay = Some ''WEBSOCKET'' \<or> overlay = Some ''HTTP'' then
        (case take_conn pick (tr_closed t) (tr_wsChan t) of
           (res, q) \<Rightarrow> (res, t\<lparr>tr_nextHTTP := True, tr_wsChan := q\<rparr>))
      else
        (case take_conn pick (tr_closed t) (tr_connChan t) of
           (res, q) \<Rightarrow> (res, t\<lparr>tr_connChan := q\<rparr>)))"

definition valid_proxy_host :: "string \<Rightarrow> bool" where
  "valid_proxy_host h \<longleftrightarrow> h = ''localhost'' \<or> ParseIP h \<noteq> [] \<and> IP_IsLoopback (ParseIP h)"

section \<open>Plugins, opening and closing\<close>

record plugin_config =
  pl_enabled :: bool
  pl_type :: string
  pl_command :: string
  pl_arg :: "string list"

text \<open>A command is its program and arguments; \<open>start c\<close> tells whether the system can start it.\<close>

definition startPlugin ::
  "(string \<times> string list \<Rightarrow> bool) \<Rightarrow> plugin_config \<Rightarrow> (string \<times> string list) option outcome" where
  "startPlugin start cfg =
     (if \<not> pl_enabled cfg \<or> pl_type cfg = ''plaintext'' then Ret None
      else
        let cmd = (pl_command cfg, pl_arg cfg); shell = (''sh'', [''-c'', pl_command cfg]) in
        if start cmd then Ret (Some cmd)
        else if \<not> ContainsAny (pl_command cfg) ''$;&|<>'' then Raise (NewError ''failed to start transport plugin'')
        else if start shell then Ret (Some shell)
        else Raise (NewError ''failed to start transport plugin''))"

text \<open>The second result is the commands that have been killed.\<close>

definition NewServer ::
  "(string \<times> string list \<Rightarrow> bool) \<Rightarrow> bool \<Rightarrow> bool \<Rightarrow> string \<Rightarrow> plugin_config \<Rightarrow>
   transport outcome \<times> (string \<times> string list) list" where
  "NewServer start listenOk proxyProtocol localHost plugin =
     (if proxyProtocol \<and> \<not> valid_proxy_host localHost
      then (Raise (NewError ''transport proxy_protocol requires a loopback local_addr''), [])
      else case startPlugin start plugin of
        Ret cmd \<Rightarrow>
          if \<not> listenOk
          then (Raise (NewError ''failed to listen transport''), case cmd of None \<Rightarrow> [] | Some c \<Rightarrow> [c])
          else (Ret \<lparr>tr_connChan = [], tr_wsChan = [], tr_nextHTTP = False, tr_proxyProtocol = proxyProtocol,
                     tr_cmd = cmd, tr_closed = False\<rparr>, [])
      | Raise e \<Rightarrow> (Raise e, [])
      | Panic m \<Rightarrow> (Panic m, [])
      | Hang \<Rightarrow> (Hang, []))"

definition Server_Close :: "transport \<Rightarrow> transport \<times> (string \<times> string list) list" where
  "Server_Close t = (t\<lparr>tr_closed := True\<rparr>, case tr_cmd t of None \<Rightarrow> [] | Some c \<Rightarrow> [c])"

text \<open>The client's plugins: \<open>cl_start\<close> is the command it starts, whose failure it ignores, and
  \<open>cl_server\<close> the address that it dials. \<open>anyPlugin\<close> is the environment's override of the list of
  permitted programs, \<open>port\<close> a free local port.\<close>

record transport_client =
  cl_server :: "string \<times> int"
  cl_start :: "(string \<times> string list) option"

fun base_from :: "string \<Rightarrow> string \<Rightarrow> string" where
  "base_from cur [] = cur"
| "base_from cur (c # s) = (if c = CHR ''/'' then base_from [] s else base_from (cur @ [c]) s)"

definition strip_slashes :: "string \<Rightarrow> string" where
  "strip_slashes s = rev (dropWhile (\<lambda>c. c = CHR ''/'') (rev s))"

definition filepath_Base :: "string \<Rightarrow> string" where
  "filepath_Base path =
     (if path = [] then ''.''
      else if strip_slashes path = [] then ''/'' else base_from [] (strip_slashes path))"

definition filepath_Join :: "string \<Rightarrow> string \<Rightarrow> string" where
  "filepath_Join a b = Clean (a @ ''/'' @ b)"

definition filepath_Dir :: "string \<Rightarrow> string" where
  "filepath_Dir p = Clean (rev (dropWhile (\<lambda>c. c \<noteq> CHR ''/'') (rev p)))"

definition allowedPlugins :: "string list" where
  "allowedPlugins = [''v2ray-plugin'', ''obfs-local'', ''go-shadowsocks2'', ''v2ray-plugin.exe'', ''obfs-local.exe'', ''go-shadowsocks2.exe'']"

definition NewTransportClient :: "bool \<Rightarrow> int \<Rightarrow> string \<Rightarrow> int \<Rightarrow> plugin_config \<Rightarrow> transport_client outcome" where
  "NewTransportClient anyPlugin port remoteHost remotePort plugin =
     (let cmd = Some (pl_command plugin, pl_arg plugin) in
      if \<not> pl_enabled plugin then Ret \<lparr>cl_server = (remoteHost, remotePort), cl_start = None\<rparr>
      else if pl_type plugin = ''shadowsocks'' then
        (if \<not> anyPlugin \<and> filepath_Base (pl_command plugin) \<notin> set allowedPlugins
         then Raise (NewError (''transport plugin not in whitelist: '' @ filepath_Base (pl_command plugin)))
         else Ret \<lparr>cl_server = (''127.0.0.1'', port), cl_start = cmd\<rparr>)
      else if pl_type plugin = ''other'' then Ret \<lparr>cl_server = (remoteHost, remotePort), cl_start = cmd\<rparr>
      else if pl_type plugin = ''plaintext'' then Ret \<lparr>cl_server = (remoteHost, remotePort), cl_start = None\<rparr>
      else Raise (NewError (''invalid plugin type: '' @ pl_type plugin)))"

section \<open>A buffered reader keeps the stream\<close>

definition bufio_content :: "net_in bufio \<Rightarrow> bytes" where
  "bufio_content b = bf_buf b @ seg_content (bf_src b)"

definition bufio_ok :: "nat \<Rightarrow> net_in bufio \<Rightarrow> bool" where
  "bufio_ok n b \<longleftrightarrow> seg_ok n (bf_src b) \<and> bf_err b = None"

lemma net_some:
  assumes "seg_ok 0 s" "seg_content s \<noteq> []" "0 < k"
  obtains bs s' where "seg_read k s = ((bs, None), s')" "bs \<noteq> []" "length bs \<le> k" "seg_content s = bs @ seg_content s'"
    "fin_err s' = fin_err s" "seg_ok 0 s'"
  using net.rd_some [of k s k] assms seg_ok_any [of k s 0] seg_ok_any by (metis order_refl)

lemma net_end:
  assumes "seg_ok 0 s" "seg_content s = []" "0 < k"
  shows "seg_read k s = (([], Some (fin_err s)), s)"
proof -
  have "segs s = []" using assms(1,2) by (cases "segs s") (auto simp: seg_content_def seg_ok_def)
  then show ?thesis using assms(3) by (simp add: seg_read_def)
qed

interpretation header: rewind_over header_rd bufio_content "\<lambda>b. fin_err (bf_src b)" "\<lambda>_. []" bufio_ok
proof (unfold_locales, goal_cases)
  case (1 n b k)
  show ?case
  proof (cases "bf_buf b = []")
    case False
    then show ?thesis using 1 seg_ok_any
      by (auto simp: bufio_Read_def bufio_content_def bufio_ok_def)
  next
    case True
    define k' where "k' = (if proxyProtocolV1MaxHeader \<le> k then k else proxyProtocolV1MaxHeader)"
    have "0 < k'" using 1 by (simp add: k'_def proxyProtocolV1MaxHeader_def)
    moreover have "seg_ok 0 (bf_src b)" using 1(1) seg_ok_any by (auto simp: bufio_ok_def)
    moreover have "seg_content (bf_src b) \<noteq> []" using 1(4) True by (simp add: bufio_content_def)
    ultimately obtain bs s' where r: "seg_read k' (bf_src b) = ((bs, None), s')" "bs \<noteq> []" "length bs \<le> k'"
        "seg_content (bf_src b) = bs @ seg_content s'" "fin_err s' = fin_err (bf_src b)" "seg_ok 0 s'"
      using net_some by metis
    then show ?thesis using 1 True seg_ok_any
      by (cases "proxyProtocolV1MaxHeader \<le> k")
        (auto simp: bufio_Read_def bufio_content_def bufio_ok_def k'_def)
  qed
next
  case (2 n b k)
  then have "bf_buf b = []" "seg_content (bf_src b) = []" "seg_ok 0 (bf_src b)" "bf_err b = None"
    using seg_ok_any by (auto simp: bufio_content_def bufio_ok_def)
  then show ?case using 2 net_end [of "bf_src b"] seg_ok_any
    by (auto simp: bufio_Read_def bufio_content_def bufio_ok_def proxyProtocolV1MaxHeader_def)
next
  case (3 n b m)
  then show ?case using seg_ok_any by (auto simp: bufio_ok_def)
qed

lemma takeWhile_stop: "d \<notin> set pre \<Longrightarrow> takeWhile (\<lambda>c. c \<noteq> d) (pre @ d # rest) = pre"
  by (induction pre) auto

lemma ReadString_line:
  assumes "0 < sz"
  shows "bufio_ok 0 b \<Longrightarrow> bufio_content b = pre @ d # rest \<Longrightarrow> d \<notin> set pre \<Longrightarrow>
    2 * length (seg_content (bf_src b)) + (if bf_buf b = [] then 0 else 1) < fuel \<Longrightarrow>
    \<exists>b'. ReadString fuel sz seg_read d acc b = (Ret (acc @ pre @ [d]), b') \<and> bufio_content b' = rest \<and> bufio_ok 0 b'"
proof (induction fuel arbitrary: b acc pre)
  case (Suc fuel)
  let ?buf = "bf_buf b" and ?src = "bf_src b"
  show ?case
  proof (cases "d \<in> set ?buf")
    case True
    then obtain us vs where u: "?buf = us @ d # vs" "d \<notin> set us" by (metis split_list_first)
    then have "us = pre \<and> vs @ seg_content ?src = rest"
      using Suc.prems(2,3) takeWhile_stop [of d us "vs @ seg_content ?src"] takeWhile_stop [of d pre rest]
      by (auto simp: bufio_content_def)
    then show ?thesis using True u Suc.prems(1)
      by (auto simp: Let_def takeWhile_stop bufio_content_def bufio_ok_def)
  next
    case False
    then obtain q where q: "pre = ?buf @ q" "seg_content ?src = q @ d # rest"
      using Suc.prems(2,3) by (auto simp: bufio_content_def append_eq_append_conv2 append_eq_Cons_conv)
    have err: "bf_err b = None" and ok: "seg_ok 0 ?src" using Suc.prems(1) by (simp_all add: bufio_ok_def)
    show ?thesis
    proof (cases "sz \<le> length ?buf")
      case True
      then have ne: "?buf \<noteq> []" using assms by auto
      have "\<exists>b'. ReadString fuel sz seg_read d (acc @ ?buf) (b\<lparr>bf_buf := []\<rparr>) = (Ret ((acc @ ?buf) @ q @ [d]), b') \<and>
          bufio_content b' = rest \<and> bufio_ok 0 b'"
        using Suc.prems q ne by (intro Suc.IH) (auto simp: bufio_content_def bufio_ok_def)
      then show ?thesis using False err True q(1) by simp
    next
      case small: False
      then have pos: "0 < sz - length ?buf" by simp
      obtain bs s' where r: "seg_read (sz - length ?buf) ?src = ((bs, None), s')" "bs \<noteq> []"
          "seg_content ?src = bs @ seg_content s'" "seg_ok 0 s'"
        using net_some [OF ok _ pos] q(2) by (metis append_is_Nil_conv list.distinct(1))
      let ?b = "b\<lparr>bf_buf := ?buf @ bs, bf_err := None, bf_src := s'\<rparr>"
      have "0 < length bs" "length (seg_content ?src) = length bs + length (seg_content s')" using r(2,3) by simp_all
      moreover have "2 * length (seg_content ?src) < Suc fuel" using Suc.prems(4) by linarith
      ultimately have "2 * length (seg_content s') + 1 < fuel" by linarith
      then have "\<exists>b'. ReadString fuel sz seg_read d acc ?b = (Ret (acc @ pre @ [d]), b') \<and>
          bufio_content b' = rest \<and> bufio_ok 0 b'"
        using Suc.prems r by (intro Suc.IH) (auto simp: bufio_content_def bufio_ok_def)
      then show ?thesis using False err small r(1) by simp
    qed
  qed
qed simp

section \<open>The header is read back\<close>

lemma digit_char: "k < 10 \<Longrightarrow> is_digit (char_of (48 + k)) \<and> code (char_of (48 + k)) - 48 = (k :: nat)"
  by (simp add: is_digit_def code_of_char_of)

lemma ipv4_digit:
  "k < 10 \<Longrightarrow> \<not> (dl = 1 \<and> v = 0) \<Longrightarrow> v * 10 + k \<le> 255 \<Longrightarrow>
   ipv4_fields v dl fs st (char_of (48 + k) # cs) = ipv4_fields (v * 10 + k) (Suc dl) fs False cs"
  using digit_char [of k] by (auto simp: Let_def)

lemma ipv4_octet:
  assumes "n < 256"
  shows "ipv4_fields 0 0 fs st (dec_digits n @ rest) = ipv4_fields n (length (dec_digits n)) fs False rest"
proof -
  note D = dec_digits.simps [of n] dec_digits.simps [of "n div 10"] dec_digits.simps [of "n div 10 div 10"]
  note S = if_True if_False append_Cons append_Nil
  consider "n < 10" | "10 \<le> n \<and> n < 100" | "100 \<le> n" by linarith
  then show ?thesis
  proof cases
    case 1
    then have "dec_digits n = [char_of (48 + n)]" by (simp add: D(1))
    then show ?thesis using ipv4_digit [of n 0 0 fs st rest] 1 by (simp del: ipv4_fields.simps)
  next
    case 2
    then have d: "n div 10 < 10" "n mod 10 < 10" "0 < n div 10" "n div 10 * 10 + n mod 10 = n"
        "(n < 10) = False" "(n div 10 < 10) = True" by presburger+
    have "dec_digits n = [char_of (48 + n div 10), char_of (48 + n mod 10)]" by (simp only: D(1,2) d(5,6) S)
    then show ?thesis using ipv4_digit [OF d(1), of 0 0 fs st "char_of (48 + n mod 10) # rest"]
        ipv4_digit [OF d(2), of "Suc 0" "n div 10" fs False rest] d(1,3,4) assms
      by (simp del: ipv4_fields.simps)
  next
    case 3
    let ?h = "n div 10 div 10" and ?m = "n div 10 mod 10"
    have a: "?h * 10 + ?m = n div 10" "n div 10 * 10 + n mod 10 = n" by simp_all
    have b: "10 \<le> n div 10" "n div 10 < 26" "n div 10 \<le> 255" using 3 assms by (simp_all add: less_eq_div_iff_mult_less_eq less_mult_imp_div_less div_le_mono)
    have c: "1 \<le> ?h" "?h < 10" using b(1,2) by (simp_all add: less_eq_div_iff_mult_less_eq less_mult_imp_div_less)
    have d: "?h < 10" "?m < 10" "n mod 10 < 10" "0 < ?h" "(?h * 10 + ?m) * 10 + n mod 10 = n" "?h * 10 + ?m \<le> 255"
        "(n < 10) = False" "(n div 10 < 10) = False" "(?h < 10) = True"
      unfolding a using a(2) b c 3 by simp_all
    have "dec_digits n = [char_of (48 + ?h), char_of (48 + ?m), char_of (48 + n mod 10)]" by (simp only: D d(7-9) S)
    moreover have "ipv4_fields 0 0 fs st (char_of (48 + ?h) # char_of (48 + ?m) # char_of (48 + n mod 10) # rest) =
        ipv4_fields ?h (Suc 0) fs False (char_of (48 + ?m) # char_of (48 + n mod 10) # rest)"
      using ipv4_digit [OF d(1), of 0 0] d(1) by (simp del: ipv4_fields.simps)
    moreover have "\<dots> = ipv4_fields (?h * 10 + ?m) (Suc (Suc 0)) fs False (char_of (48 + n mod 10) # rest)"
      using d(4,6) by (intro ipv4_digit [OF d(2)]) auto
    moreover have "\<dots> = ipv4_fields n (Suc (Suc (Suc 0))) fs False rest"
      using ipv4_digit [OF d(3), of "Suc (Suc 0)" "?h * 10 + ?m" fs False rest] d(5) assms by (simp del: ipv4_fields.simps)
    ultimately show ?thesis by (simp del: ipv4_fields.simps)
  qed
qed

lemma dotted_four: "dotted [a, b, c, d] =
    dec_digits (unat a) @ ''.'' @ dec_digits (unat b) @ ''.'' @ dec_digits (unat c) @ ''.'' @ dec_digits (unat d)"
  by (simp add: dotted_def upt_rec [of _ 4] upt_rec numeral_eq_Suc)

lemma parse_dotted: "parse_ipv4 (dotted [a, b, c, d]) = Some [a, b, c, d]"
proof -
  have u: "unat x < 256" "of_nat (unat x) = x" for x :: byte using unat_byte_less [of x] by simp_all
  have dot: "\<not> is_digit CHR ''.''" by (simp add: is_digit_def code_def)
  have o: "ipv4_fields 0 0 fs st (dec_digits (unat x) @ rest) = ipv4_fields (unat x) (length (dec_digits (unat x))) fs False rest"
    for x :: byte and fs st rest by (rule ipv4_octet [OF u(1)])
  have e: "ipv4_fields 0 0 fs st (dec_digits (unat x)) = ipv4_fields (unat x) (length (dec_digits (unat x))) fs False []"
    for x :: byte and fs st using o [of fs st x "[]"] by simp
  show ?thesis by (simp add: parse_ipv4_def dotted_four o e dot u(2))
qed

lemma dec_digit_chars: "c \<in> set (dec_digits n) \<Longrightarrow> c \<noteq> CHR '':'' \<and> c \<noteq> CHR ''%'' \<and> c \<noteq> CHR ''.'' \<and> 33 \<le> code c \<and> code c < 128"
  using dec_digits_digits [of c n] by (auto simp: is_digit_def code_def)

lemma ParseIP_dotted: "ParseIP (dotted [a, b, c, d]) = v4InV6Prefix @ [a, b, c, d]"
proof -
  have f: "filter (\<lambda>c. c = CHR ''.'' \<or> c = CHR '':'') (dec_digits n) = []" for n
    using dec_digit_chars by (auto simp: filter_empty_conv)
  have "CHR ''%'' \<notin> set (dotted [a, b, c, d])" using dec_digit_chars by (auto simp: dotted_four)
  moreover have "\<exists>r. filter (\<lambda>c. c = CHR ''.'' \<or> c = CHR '':'') (dotted [a, b, c, d]) = CHR ''.'' # r"
    by (simp add: dotted_four f)
  ultimately show ?thesis by (auto simp: ParseIP_def parse_dotted)
qed

lemma To4_mapped: "length ip = 4 \<Longrightarrow> IP_To4 (v4InV6Prefix @ ip) = ip"
  by (simp add: IP_To4_def)

text \<open>Words without blanks.\<close>

definition plain_word :: "string \<Rightarrow> bool" where
  "plain_word w \<longleftrightarrow> w \<noteq> [] \<and> (\<forall>c \<in> set w. 33 \<le> code c \<and> code c < 128)"

lemma fields_char:
  "code c < 128 \<Longrightarrow> fields_from cur (c # s) =
     (if IsSpace (code c) then (if cur = [] then [] else [cur]) @ fields_from [] s else fields_from (cur @ [c]) s)"
  by (simp add: fields_from.simps(2))

lemma not_space: "33 \<le> n \<Longrightarrow> n < 128 \<Longrightarrow> \<not> IsSpace n"
  by (auto simp: IsSpace_def)

lemma fields_word: "\<forall>c \<in> set w. 33 \<le> code c \<and> code c < 128 \<Longrightarrow> fields_from cur (w @ s) = fields_from (cur @ w) s"
  by (induction w arbitrary: cur) (simp_all add: fields_char not_space)

fun join_blank :: "string list \<Rightarrow> string" where
  "join_blank [] = []"
| "join_blank [w] = w"
| "join_blank (w # ws) = w @ CHR '' '' # join_blank ws"

lemma Fields_join: "\<forall>w \<in> set ws. plain_word w \<Longrightarrow> Fields (join_blank ws) = ws"
proof (induction ws rule: join_blank.induct)
  case 1
  then show ?case by (simp add: Fields_def fields_from.simps(1))
next
  case (2 w)
  then show ?case using fields_word [of w "[]" "[]"] by (simp add: Fields_def plain_word_def fields_from.simps(1))
next
  case (3 w v vs)
  have "code CHR '' '' < 128" "IsSpace (code CHR '' '')" by (simp_all add: code_def IsSpace_def)
  then have "fields_from w (CHR '' '' # join_blank (v # vs)) = w # fields_from [] (join_blank (v # vs))"
    using 3(2) by (simp add: fields_char plain_word_def)
  then show ?case using 3 fields_word [of w "[]" "CHR '' '' # join_blank (v # vs)"] by (simp add: Fields_def plain_word_def)
qed

lemma dec_digits_length: "n < 10 ^ k \<Longrightarrow> 0 < k \<Longrightarrow> length (dec_digits n) \<le> k"
proof (induction k arbitrary: n)
  case (Suc k)
  show ?case
  proof (cases "n < 10")
    case True
    then show ?thesis by (simp add: dec_digits.simps [of n])
  next
    case False
    then have "0 < k" using Suc.prems(1) by (cases k) simp_all
    moreover have "n div 10 < 10 ^ k" using Suc.prems(1) by (simp add: less_mult_imp_div_less)
    ultimately show ?thesis using Suc.IH False by (simp add: dec_digits.simps [of n])
  qed
qed simp

lemma plain_digits: "plain_word (dec_digits n)"
  using dec_digit_chars by (auto simp: plain_word_def)

lemma four_bytes: "IP_To4 ip \<noteq> [] \<Longrightarrow> \<exists>a b c d. IP_To4 ip = [a, b, c, d]"
  by (auto simp: IP_To4_def length_Suc_conv numeral_eq_Suc split: if_splits)

lemma dotted_plain: "plain_word (dotted [a, b, c, d])" and dotted_length: "length (dotted [a, b, c, d]) \<le> 15"
proof -
  have "33 \<le> code CHR ''.'' \<and> code CHR ''.'' < 128" by (simp add: code_def)
  then show "plain_word (dotted [a, b, c, d])"
    using plain_digits by (auto simp: dotted_four plain_word_def)
  have "length (dec_digits (unat x)) \<le> 3" for x :: byte
    using dec_digits_length [of "unat x" 3] unat_byte_less [of x] by simp
  from this [of a] this [of b] this [of c] this [of d] show "length (dotted [a, b, c, d]) \<le> 15" by (simp add: dotted_four)
qed

text \<open>The words of a header for two IPv4 ends.\<close>

definition header_words :: "bytes \<Rightarrow> nat \<Rightarrow> bytes \<Rightarrow> nat \<Rightarrow> string list" where
  "header_words sip sp dip dp =
     [''PROXY'', ''TCP4'', dotted (IP_To4 sip), dotted (IP_To4 dip), dec_digits sp, dec_digits dp]"

lemma header_v4:
  assumes "IP_To4 sip \<noteq> []" "IP_To4 dip \<noteq> []"
  shows "writeProxyHeader (Some (sip, sp)) (Some (dip, dp)) = join_blank (header_words sip sp dip dp) @ [CHR 0x0D, CHR 0x0A]"
  using assms by (auto simp: writeProxyHeader_def header_words_def Let_def IP_String_def IP_To4_def dec_string_def)

lemma header_words_plain:
  assumes "IP_To4 sip \<noteq> []" "IP_To4 dip \<noteq> []"
  shows "\<forall>w \<in> set (header_words sip sp dip dp). plain_word w"
proof -
  have "plain_word ''PROXY''" "plain_word ''TCP4''" by (simp_all add: plain_word_def code_def)
  then show ?thesis using four_bytes [OF assms(1)] four_bytes [OF assms(2)] plain_digits dotted_plain
    by (auto simp: header_words_def)
qed

lemma join_blank_chars: "\<forall>w \<in> set ws. plain_word w \<Longrightarrow> c \<in> set (join_blank ws) \<Longrightarrow> 32 \<le> code c"
proof (induction ws rule: join_blank.induct)
  case (3 w v vs)
  have "code CHR '' '' = 32" by (simp add: code_def)
  then show ?case using 3 by (auto simp: plain_word_def)
qed (auto simp: plain_word_def)

lemma header_length:
  assumes "IP_To4 sip \<noteq> []" "IP_To4 dip \<noteq> []" "sp \<le> 65535" "dp \<le> 65535"
  shows "length (join_blank (header_words sip sp dip dp)) \<le> 54"
proof -
  have "length (dec_digits sp) \<le> 5" "length (dec_digits dp) \<le> 5" using assms dec_digits_length [of _ 5] by simp_all
  moreover have "length (dotted (IP_To4 sip)) \<le> 15" "length (dotted (IP_To4 dip)) \<le> 15"
    using four_bytes [OF assms(1)] four_bytes [OF assms(2)] dotted_length by auto
  ultimately show ?thesis by (simp add: header_words_def)
qed

lemma port_digits: "0 < p \<Longrightarrow> p \<le> 65535 \<Longrightarrow> proxyProtocolPort (dec_digits p) = Some p"
  by (simp add: proxyProtocolPort_def ParseInt_dec)

lemma parse_header_words:
  assumes "IP_To4 sip \<noteq> []" "IP_To4 dip \<noteq> []" "0 < sp" "sp \<le> 65535" "0 < dp" "dp \<le> 65535"
  shows "parse_proxy_fields (header_words sip sp dip dp) =
    Inr (Some ((v4InV6Prefix @ IP_To4 sip, sp), (v4InV6Prefix @ IP_To4 dip, dp)))"
  using four_bytes [OF assms(1)] four_bytes [OF assms(2)] assms(3-6)
  by (auto simp: parse_proxy_fields_def header_words_def Let_def ParseIP_dotted To4_mapped port_digits)

lemma crlf_bytes: "bytes_of (join_blank ws @ [CHR 0x0D, CHR 0x0A]) = (bytes_of (join_blank ws) @ [13]) @ 10 # []"
  by (simp add: bytes_of_def)

lemma no_newline:
  assumes "\<forall>w \<in> set ws. plain_word w"
  shows "10 \<notin> set (bytes_of (join_blank ws) @ [13])"
proof -
  have "of_char c \<noteq> (10 :: byte)" if "c \<in> set (join_blank ws)" for c
  proof
    assume "of_char c = (10 :: byte)"
    then have "c = char_of (10 :: nat)" using char_byte_char [of c] by simp
    then show False using join_blank_chars [OF assms that] by (simp add: code_of_char_of)
  qed
  then show ?thesis by (auto simp: bytes_of_def)
qed

lemma TrimSuffix_append [simp]: "TrimSuffix (s @ p) p = s"
  by (simp add: TrimSuffix_def)

lemma read_header:
  assumes "IP_To4 sip \<noteq> []" "IP_To4 dip \<noteq> []" "0 < sp" "sp \<le> 65535" "0 < dp" "dp \<le> 65535"
    "loopback_addr la" "loopback_addr ra" "seg_ok 0 conn"
    "seg_content conn = bytes_of (writeProxyHeader (Some (sip, sp)) (Some (dip, dp))) @ payload"
    "2 * length (seg_content conn) < fuel"
  shows "\<exists>p. readProxyProtocolV1 fuel la ra conn = Ret p \<and> pp_remoteAddr p = Some (v4InV6Prefix @ IP_To4 sip, sp) \<and>
    pp_localAddr p = Some (v4InV6Prefix @ IP_To4 dip, dp) \<and> bufio_content (pp_reader p) = payload \<and> bufio_ok 0 (pp_reader p)"
proof -
  let ?ws = "header_words sip sp dip dp" and ?crlf = "[CHR 0x0D, CHR 0x0A]"
  let ?line = "bytes_of (join_blank ?ws @ ?crlf)"
  have w: "\<forall>w \<in> set ?ws. plain_word w" by (rule header_words_plain [OF assms(1,2)])
  have c: "bufio_content (NewReaderSize conn) = (bytes_of (join_blank ?ws) @ [13]) @ 10 # payload"
    using assms(10) by (simp add: NewReaderSize_def bufio_content_def header_v4 [OF assms(1,2)] bytes_of_def)
  have "\<exists>b. ReadString fuel proxyProtocolV1MaxHeader seg_read 10 [] (NewReaderSize conn) =
      (Ret ([] @ (bytes_of (join_blank ?ws) @ [13]) @ [10]), b) \<and> bufio_content b = payload \<and> bufio_ok 0 b"
    using assms(9,11) by (intro ReadString_line [OF _ _ c no_newline [OF w]])
      (simp_all add: proxyProtocolV1MaxHeader_def NewReaderSize_def bufio_ok_def)
  then obtain b where b: "ReadString fuel proxyProtocolV1MaxHeader seg_read 10 [] (NewReaderSize conn) = (Ret ?line, b)"
      "bufio_content b = payload" "bufio_ok 0 b"
    unfolding crlf_bytes by auto
  have "length ?line \<le> proxyProtocolV1MaxHeader"
    using header_length [OF assms(1,2,4,6)] by (simp add: proxyProtocolV1MaxHeader_def)
  then show ?thesis using b assms(7,8) Fields_join [OF w] parse_header_words [OF assms(1-6)]
    by (simp add: readProxyProtocolV1_def)
qed

lemma accept_plain_queued:
  assumes "bufio_ok 0 b" "bufio_room h" "decides h limit (bufio_content b)" "limit + bufio_size \<le> max_rewind_buffer"
    "limit + 1 < fuel" "\<not> tr_closed t" "length (tr_connChan t) < chan_size" "length (tr_wsChan t) < chan_size"
  shows "\<exists>c. (accept_plain fuel h pick remote b t = Queued (t\<lparr>tr_connChan := tr_connChan t @ [c]\<rparr>) \<or>
      tr_nextHTTP t \<and> accept_plain fuel h pick remote b t = Queued (t\<lparr>tr_wsChan := tr_wsChan t @ [c]\<rparr>)) \<and>
    tc_remote c = remote \<and> rewind_content bufio_content (tc_stream c) = bufio_content b \<and> \<not> buffering (tc_stream c)"
proof (cases "tr_nextHTTP t")
  case False
  then show ?thesis using assms
    by (auto simp: accept_plain_def queue_conn_def NewRewindConn_def rewind_content_def intro!: exI)
next
  case True
  have "bufio_ok max_rewind_buffer b" using assms(1) seg_ok_any by (auto simp: bufio_ok_def)
  from header.sniff_replays [OF assms(2) this assms(4,3,5), of 512]
  obtain res r where r: "sniff_http fuel 512 h header_rd b = (res, r)" "settled res"
      "rewind_content bufio_content r = bufio_content b" "\<not> buffering r" by auto
  show ?thesis
    by (rule exI [of _ "\<lparr>tc_stream = r, tc_remote = remote\<rparr>"])
      (use r True assms(6-8) in \<open>cases res; simp add: accept_plain_def queue_conn_def queue_ws_def settled_def\<close>)
qed

section \<open>Plugins do not outlive the server\<close>

definition started :: "plugin_config \<Rightarrow> (string \<times> string list \<Rightarrow> bool) \<Rightarrow> (string \<times> string list) list" where
  "started cfg start = (case startPlugin start cfg of Ret (Some c) \<Rightarrow> [c] | _ \<Rightarrow> [])"

text \<open>Whatever way the server comes to its end, by a failure to open or by closing, the plugin it
  started is killed; and a server that needs the header listens on loopback only.\<close>

lemma plugin_killed:
  "NewServer start l p host plugin = (Raise e, killed) \<Longrightarrow> \<not> (p \<and> \<not> valid_proxy_host host) \<Longrightarrow> killed = started plugin start"
  "NewServer start l p host plugin = (Ret t, killed) \<Longrightarrow>
     killed = [] \<and> snd (Server_Close t) = started plugin start \<and> (tr_proxyProtocol t \<longrightarrow> valid_proxy_host host)"
  by (auto simp: NewServer_def Server_Close_def started_def split: outcome.splits if_splits option.splits)

text \<open>With the list of permitted programs in force, a plugin of the shadowsocks type that the client starts is one
  of them; plugins of the other type are not checked.\<close>

lemma whitelist_enforced:
  "NewTransportClient False port h r plugin = Ret c \<Longrightarrow> cl_start c = Some (cmd, args) \<Longrightarrow>
     filepath_Base cmd \<in> set allowedPlugins \<and> cl_server c = (''127.0.0.1'', port) \<or> pl_type plugin = ''other'' \<and> cl_server c = (h, r)"
  by (auto simp: NewTransportClient_def Let_def split: if_splits)

section \<open>From the gateway to the data plane\<close>

lemma gateway_transparency:
  assumes "seg_ok 0 conn" "bufio_room h" "decides h limit (seg_content conn)" "limit + bufio_size \<le> max_rewind_buffer"
    "limit + 1 < fuel" "handleConn g fuel h dialOk writeOk s d conn = Relayed pre r"
  shows "rewind_content seg_content r = seg_content conn" "pre = bytes_of (writeProxyHeader s d)"
proof -
  obtain res r' where "sniff_http fuel (16 * 1024) h seg_read conn = (res, r')" "rewind_content seg_content r' = seg_content conn"
    using net_sniff [OF assms(2,1,4,3,5), of "16 * 1024"] by auto
  then show "rewind_content seg_content r = seg_content conn" "pre = bytes_of (writeProxyHeader s d)"
    using assms(6) by (auto simp: handleConn_def forwardTrojan_def split: outcome.splits if_splits)
qed

text \<open>C38. The client's address and every byte of its stream survive the hop from the gateway to the data plane. When the
  gateway relays an IPv4 client, whatever way the loopback connection cuts up what it sends, the listener reads back the header, queues
  exactly one connection (among the HTTP ones only after it was asked for those), and that connection
  reports the client's own address and delivers the client's stream from its first byte.\<close>

theorem relayed_client_reaches_data_plane:
  assumes client: "IP_To4 sip \<noteq> []" "IP_To4 dip \<noteq> []" "0 < sp" "sp \<le> 65535" "0 < dp" "dp \<le> 65535"
    and gateway: "seg_ok 0 conn" "bufio_room h" "decides h limit (seg_content conn)" "limit + bufio_size \<le> max_rewind_buffer"
      "limit + 1 < fuel" "handleConn g fuel h dialOk writeOk (Some (sip, sp)) (Some (dip, dp)) conn = Relayed pre r"
    and hop: "seg_ok 0 link" "seg_content link = pre @ rewind_content seg_content r" "loopback_addr la" "loopback_addr ra"
      "2 * length (seg_content link) < fuel'" "limit + 1 < fuel'"
    and listener: "tr_proxyProtocol t" "\<not> tr_closed t" "length (tr_connChan t) < chan_size" "length (tr_wsChan t) < chan_size"
  shows "\<exists>c. (accept_one fuel' h pick la ra link t = Queued (t\<lparr>tr_connChan := tr_connChan t @ [c]\<rparr>) \<or>
      tr_nextHTTP t \<and> accept_one fuel' h pick la ra link t = Queued (t\<lparr>tr_wsChan := tr_wsChan t @ [c]\<rparr>)) \<and>
    tc_remote c = Some (v4InV6Prefix @ IP_To4 sip, sp) \<and> rewind_content bufio_content (tc_stream c) = seg_content conn"
proof -
  note p = gateway_transparency [OF gateway]
  obtain q where q: "readProxyProtocolV1 fuel' la ra link = Ret q" "pp_remoteAddr q = Some (v4InV6Prefix @ IP_To4 sip, sp)"
      "bufio_content (pp_reader q) = seg_content conn" "bufio_ok 0 (pp_reader q)"
    using read_header [OF client hop(3,4,1) _ hop(5), of "seg_content conn"] hop(2) p by auto
  have "accept_one fuel' h pick la ra link t = accept_plain fuel' h pick (pp_remoteAddr q) (pp_reader q) t"
    using q(1) listener(1) by (simp add: accept_one_def)
  then show ?thesis
    using accept_plain_queued [OF q(4) gateway(2) _ gateway(4) hop(6) listener(2-4), of pick "pp_remoteAddr q"] gateway(3) q(2,3)
    by auto
qed

definition sample_link :: net_in where
  "sample_link = \<lparr>segs = [bytes_of ''PROXY TC'', bytes_of ''P4 1.2.3.4 5.6.7.8 5 9'' @ [13], [10, 71, 69, 88], [1]], fin_err = EOF\<rparr>"

definition sample_transport :: transport where
  "sample_transport = \<lparr>tr_connChan = [], tr_wsChan = [], tr_nextHTTP = True, tr_proxyProtocol = True, tr_cmd = None, tr_closed = False\<rparr>"

theorem relayed_client_reaches_data_plane_witness:
  "\<exists>c t. accept_one 100 sample_parser True (Some ([127, 0, 0, 1], 14443)) (Some ([127, 0, 0, 1], 999)) sample_link sample_transport = Queued t \<and>
    (tr_connChan t = [c] \<or> tr_wsChan t = [c]) \<and>
    tc_remote c = Some (v4InV6Prefix @ [1, 2, 3, 4], 5) \<and> rewind_content bufio_content (tc_stream c) = [71, 69, 88, 1]"
proof -
  let ?n = "Suc (Suc (Suc (Suc (Suc 0))))" and ?s = "Some ([1, 2, 3, 4], 5) :: tcp_addr" and ?d = "Some ([5, 6, 7, 8], 9) :: tcp_addr"
  let ?l = "Some ([127, 0, 0, 1], 14443) :: tcp_addr" and ?m = "Some ([127, 0, 0, 1], 999) :: tcp_addr"
  have H: "bytes_of (writeProxyHeader ?s ?d) = bytes_of ''PROXY TCP4 1.2.3.4 5.6.7.8 5 9'' @ [13, 10]" by code_simp
  have G: "bytes_of ''GET'' = [71, 69, 84]" by (simp add: bytes_of_def)
  have cl: "IP_To4 [1, 2, 3, 4] \<noteq> []" "IP_To4 [5, 6, 7, 8] \<noteq> []" "0 < (5 :: nat)" "(5 :: nat) \<le> 65535" "0 < (9 :: nat)" "(9 :: nat) \<le> 65535"
    by (simp_all add: IP_To4_def)
  have c: "seg_ok 0 sample_stream" "seg_content sample_stream = [71, 69, 88, 1]"
    by (auto simp: sample_stream_def seg_ok_def seg_content_def)
  have d: "bufio_room sample_parser" "decides sample_parser 3 (seg_content sample_stream)" "3 + bufio_size \<le> max_rewind_buffer"
    "(3 :: nat) + 1 < ?n"
    unfolding c by (auto simp: bufio_room_def sample_parser_def bufio_size_def decides_def max_rewind_buffer_def)
  have "\<exists>r. handleConn sample_gateway ?n sample_parser True True ?s ?d sample_stream = Relayed (bytes_of (writeProxyHeader ?s ?d)) r"
    by (simp add: handleConn_def sniff_http_def SetBufferSize_def NewRewindConn_def sample_stream_def sample_parser_def
        RewindReader_Read_def seg_read_def Let_def max_rewind_buffer_def Rewind_def StopBuffering_def forwardTrojan_def G)
  then obtain r where r: "handleConn sample_gateway ?n sample_parser True True ?s ?d sample_stream = Relayed (bytes_of (writeProxyHeader ?s ?d)) r" ..
  have "rewind_content seg_content r = seg_content sample_stream"
    using gateway_transparency(1) [OF c(1) d r] .
  then have link: "seg_content sample_link = bytes_of (writeProxyHeader ?s ?d) @ rewind_content seg_content r"
    unfolding H c by (simp add: sample_link_def seg_content_def bytes_of_def)
  have k: "seg_ok 0 sample_link" "loopback_addr ?l" "loopback_addr ?m" "2 * length (seg_content sample_link) < 100" "(3 :: nat) + 1 < 100"
    by (auto simp: sample_link_def seg_ok_def seg_content_def bytes_of_def loopback_addr_def IP_IsLoopback_def IP_To4_def)
  have t: "tr_proxyProtocol sample_transport" "\<not> tr_closed sample_transport" "length (tr_connChan sample_transport) < chan_size"
    "length (tr_wsChan sample_transport) < chan_size" by (simp_all add: sample_transport_def chan_size_def)
  show ?thesis
    using relayed_client_reaches_data_plane [OF cl c(1) d(1-4) r k(1) link k(2-5) t, of True] c(2)
    by (auto simp: sample_transport_def IP_To4_def)
qed

end
