(* ===== verification/Atomic_Upgrade.thy ===== *)
theory Atomic_Upgrade
  imports Transport_Server Credentials
begin

text \<open>
  The upgrade of an installation from a manifest (\<open>cmd/trojan/actions/upgrade.go\<close>): staging and checking the new files,
  backups, the journal, switching, health checks, rolling back, and the recovery of an interrupted upgrade.
  Every access of the disk and every call of the service manager is one step, which may succeed, fail without or after
  its effect, or be the point where the process dies, before or after its effect. The files of the upgrade itself (its transaction
  directories, the journal and the audit log) are kept apart from the files it replaces.
\<close>

section \<open>Manifest\<close>

record upgradeArtifact =
  ua_source :: string
  ua_target :: string
  ua_sha :: string
  ua_mode :: string
  ua_verify :: "string list"

record upgradeConfigCheck =
  cc_binary :: string
  cc_service :: string
  cc_config :: string

record upgradeHealthCheck =
  hc_name :: string
  hc_type :: string
  hc_target :: string
  hc_path :: string
  hc_expectedStatus :: int
  hc_timeout :: int

record upgradeManifest =
  um_version :: string
  um_artifacts :: "upgradeArtifact list"
  um_services :: "string list"
  um_configChecks :: "upgradeConfigCheck list"
  um_healthChecks :: "upgradeHealthCheck list"
  um_stateDir :: string
  um_auditLog :: string
  um_healthTimeout :: int

definition is_octal :: "char \<Rightarrow> bool" where
  "is_octal c \<longleftrightarrow> 48 \<le> code c \<and> code c \<le> 55"

definition octal_val :: "string \<Rightarrow> nat" where
  "octal_val s = foldl (\<lambda>n c. n * 8 + (code c - 48)) 0 s"

definition parseFileMode :: "string \<Rightarrow> nat option" where
  "parseFileMode s =
     (if length s \<noteq> 4 \<or> hd s \<noteq> CHR ''0'' then None
      else if \<not> list_all is_octal s \<or> octal_val s > 511 then None
      else Some (octal_val s))"

definition validateLoopbackAddress :: "string \<Rightarrow> go_error option" where
  "validateLoopbackAddress address =
     (case SplitHostPort address of
        None \<Rightarrow> Some (Opaque ''invalid health check target'')
      | Some (host, _) \<Rightarrow>
          if ParseIP host = [] \<or> \<not> IP_IsLoopback (ParseIP host)
          then Some (Opaque ''health check target must use a loopback IP'') else None)"

definition lower_hex :: "char \<Rightarrow> bool" where
  "lower_hex c \<longleftrightarrow> is_digit c \<or> 97 \<le> code c \<and> code c \<le> 102"

definition serviceNamePattern :: "string \<Rightarrow> bool" where
  "serviceNamePattern s \<longleftrightarrow> s \<noteq> [] \<and> list_all (\<lambda>c. isAlphaNum c \<or> c \<in> set ''_.@-'') s"

definition IsAbs :: "string \<Rightarrow> bool" where
  "IsAbs p \<longleftrightarrow> HasPrefix p ''/''"

fun validate_artifacts :: "string list \<Rightarrow> upgradeArtifact list \<Rightarrow> go_error + upgradeArtifact list" where
  "validate_artifacts seen [] = Inr []"
| "validate_artifacts seen (a # as) =
     (let sha = ascii_lower (TrimSpace (ua_sha a)); target = Clean (ua_target a) in
      if ua_source a = [] \<or> ua_target a = [] then Inl (Opaque ''artifact requires source and target'')
      else if \<not> IsAbs (ua_target a) \<or> target = ''/'' then Inl (Opaque ''artifact target must be an absolute non-root path'')
      else if target \<in> set seen then Inl (Opaque ''duplicate artifact target'')
      else if \<not> (length sha = 64 \<and> list_all lower_hex sha) then Inl (Opaque ''artifact has invalid SHA-256'')
      else if parseFileMode (ua_mode a) = None then Inl (Opaque ''invalid file mode'')
      else case validate_artifacts (target # seen) as of
        Inl e \<Rightarrow> Inl e
      | Inr as' \<Rightarrow> Inr (a\<lparr>ua_sha := sha, ua_target := target\<rparr> # as'))"

definition validate_config_check :: "string list \<Rightarrow> upgradeConfigCheck \<Rightarrow> go_error + upgradeConfigCheck" where
  "validate_config_check targets c =
     (let binary = Clean (cc_binary c); config = Clean (cc_config c) in
      if cc_binary c = [] \<or> cc_config c = [] \<or> cc_service c = [] then Inl (Opaque ''incomplete config check'')
      else if binary \<notin> set targets then Inl (Opaque ''binary_target is not an artifact target'')
      else if config \<notin> set targets then Inl (Opaque ''config_target is not an artifact target'')
      else if cc_service c \<notin> {''gateway'', ''admin'', ''worker-control'', ''data-plane''} then Inl (Opaque ''unsupported config check service'')
      else Inr (c\<lparr>cc_binary := binary, cc_config := config\<rparr>))"

fun validate_config_checks :: "string list \<Rightarrow> upgradeConfigCheck list \<Rightarrow> go_error + upgradeConfigCheck list" where
  "validate_config_checks targets [] = Inr []"
| "validate_config_checks targets (c # cs) =
     (case validate_config_check targets c of
        Inl e \<Rightarrow> Inl e
      | Inr c' \<Rightarrow> (case validate_config_checks targets cs of Inl e \<Rightarrow> Inl e | Inr cs' \<Rightarrow> Inr (c' # cs')))"

fun validate_services :: "string list \<Rightarrow> string list \<Rightarrow> go_error option" where
  "validate_services seen [] = None"
| "validate_services seen (s # ss) =
     (if \<not> serviceNamePattern s then Some (Opaque ''invalid systemd service name'')
      else if s \<in> set seen then Some (Opaque ''duplicate systemd service'')
      else validate_services (s # seen) ss)"

fun validate_health_checks :: "upgradeHealthCheck list \<Rightarrow> go_error option" where
  "validate_health_checks [] = None"
| "validate_health_checks (h # hs) =
     (if hc_name h = [] then Some (Opaque ''health check name is required'')
      else if hc_type h \<notin> {''tcp'', ''http'', ''https''} then Some (Opaque ''unsupported health check type'')
      else case validateLoopbackAddress (hc_target h) of Some e \<Rightarrow> Some e | None \<Rightarrow> validate_health_checks hs)"

definition validateUpgradeManifest :: "upgradeManifest \<Rightarrow> go_error + upgradeManifest" where
  "validateUpgradeManifest m =
     (let version = TrimSpace (um_version m); timeout = (if um_healthTimeout m \<le> 0 then 30 else um_healthTimeout m) in
      if version = [] then Inl (Opaque ''upgrade manifest version is required'')
      else if um_artifacts m = [] then Inl (Opaque ''upgrade manifest must contain artifacts'')
      else case validate_artifacts [] (um_artifacts m) of
        Inl e \<Rightarrow> Inl e
      | Inr as \<Rightarrow>
          (case validate_config_checks (map ua_target as) (um_configChecks m) of
             Inl e \<Rightarrow> Inl e
           | Inr cs \<Rightarrow>
               if um_services m = [] then Inl (Opaque ''upgrade manifest must contain services'')
               else (case validate_services [] (um_services m) of
                  Some e \<Rightarrow> Inl e
                | None \<Rightarrow>
                    (case validate_health_checks (um_healthChecks m) of
                       Some e \<Rightarrow> Inl e
                     | None \<Rightarrow>
                         if timeout > 300 then Inl (Opaque ''health_timeout_seconds must not exceed 300'')
                         else Inr (m\<lparr>um_version := version, um_artifacts := as, um_configChecks := cs,
                                     um_healthTimeout := timeout\<rparr>)))))"

section \<open>Disk and steps\<close>

record ufile =
  uf_data :: bytes
  uf_mode :: nat

datatype entry = Regular ufile | Directory | Special

text \<open>A copy in the directory of a transaction: its identifier, the part of the directory and the number.\<close>

datatype area = Staging | Backup

type_synonym tx_file = "string \<times> area \<times> nat"

record upgradeBackup =
  ub_target :: string
  ub_copy :: tx_file
  ub_existed :: bool
  ub_mode :: nat

datatype upgrade_phase = Preparing | Prepared | Switched | Healthy | Committed

record upgradeJournal =
  uj_id :: string
  uj_version :: string
  uj_phase :: upgrade_phase
  uj_transaction :: string
  uj_artifacts :: "upgradeArtifact list"
  uj_hashes :: "(string \<times> string) list"
  uj_backups :: "upgradeBackup list"
  uj_services :: "string list"
  uj_healthChecks :: "upgradeHealthCheck list"
  uj_healthTimeout :: int
  uj_auditLog :: string

text \<open>\<open>ud_journal\<close> is \<open>Some None\<close> for a file that does not decode. \<open>ud_running\<close> holds for every service the
  files it was started with last, \<open>ud_ran\<close> the staged programs that were run with their arguments.\<close>

record udisk =
  ud_files :: "string \<Rightarrow> entry option"
  ud_tx :: "tx_file \<Rightarrow> bytes option"
  ud_journal :: "upgradeJournal option option"
  ud_audit :: "(string \<times> string \<times> string) list"
  ud_running :: "string \<Rightarrow> (string \<Rightarrow> entry option)"
  ud_ran :: "(tx_file \<times> string list) list"

datatype fault = Fine | Fails | FailsAfter | Dies | DiesAfter

text \<open>One round of a health check: which services are active and which checks pass.\<close>

record round =
  rd_active :: "string \<Rightarrow> bool"
  rd_health :: "upgradeHealthCheck \<Rightarrow> bool"

text \<open>The disk, the course of the coming steps (all fine when the list has ended), and the rounds of each coming health
  check up to its deadline.\<close>

record uworld =
  uw_disk :: udisk
  uw_faults :: "fault list"
  uw_rounds :: "round list list"

datatype 'a res = Done 'a | Failed string | Dead

type_synonym 'a up = "uworld \<Rightarrow> 'a res \<times> uworld"

definition up_return :: "'a \<Rightarrow> 'a up" where
  "up_return x w = (Done x, w)"

definition up_fail :: "string \<Rightarrow> 'a up" where
  "up_fail m w = (Failed m, w)"

definition up_bind :: "'a up \<Rightarrow> ('a \<Rightarrow> 'b up) \<Rightarrow> 'b up" where
  "up_bind m k w = (case m w of (Done a, w') \<Rightarrow> k a w' | (Failed e, w') \<Rightarrow> (Failed e, w') | (Dead, w') \<Rightarrow> (Dead, w'))"

definition up_try :: "'a up \<Rightarrow> (string + 'a) up" where
  "up_try m w = (case m w of (Done a, w') \<Rightarrow> (Done (Inr a), w') | (Failed e, w') \<Rightarrow> (Done (Inl e), w') | (Dead, w') \<Rightarrow> (Dead, w'))"

definition up_get :: "udisk up" where
  "up_get w = (Done (uw_disk w), w)"

definition on_disk :: "(udisk \<Rightarrow> udisk) \<Rightarrow> uworld \<Rightarrow> uworld" where
  "on_disk f w = w\<lparr>uw_disk := f (uw_disk w)\<rparr>"

definition step :: "string \<Rightarrow> (udisk \<Rightarrow> udisk) \<Rightarrow> unit up" where
  "step m f w =
     (let w1 = w\<lparr>uw_faults := tl (uw_faults w)\<rparr> in
      case (if uw_faults w = [] then Fine else hd (uw_faults w)) of
        Fine \<Rightarrow> (Done (), on_disk f w1)
      | Fails \<Rightarrow> (Failed m, w1)
      | FailsAfter \<Rightarrow> (Failed m, on_disk f w1)
      | Dies \<Rightarrow> (Dead, w1)
      | DiesAfter \<Rightarrow> (Dead, on_disk f w1))"

fun up_each :: "('a \<Rightarrow> 'b up) \<Rightarrow> 'a list \<Rightarrow> 'b list up" where
  "up_each f [] = up_return []"
| "up_each f (x # xs) = up_bind (f x) (\<lambda>y. up_bind (up_each f xs) (\<lambda>ys. up_return (y # ys)))"

section \<open>Files of the upgrade\<close>

definition copyFileSync :: "bytes \<Rightarrow> tx_file \<Rightarrow> unit up" where
  "copyFileSync data k =
     up_bind up_get (\<lambda>d. if ud_tx d k \<noteq> None then up_fail ''file exists''
       else step ''copy'' (\<lambda>d. d\<lparr>ud_tx := (ud_tx d)(k \<mapsto> data)\<rparr>))"

text \<open>The new content appears in one step, the renaming of a temporary file.\<close>

definition atomicInstallFile :: "tx_file \<Rightarrow> string \<Rightarrow> nat \<Rightarrow> unit up" where
  "atomicInstallFile source target mode =
     up_bind up_get (\<lambda>d.
       case ud_tx d source of
         None \<Rightarrow> up_fail ''open source''
       | Some data \<Rightarrow>
           if ud_files d target = Some Directory then up_fail ''rename''
           else step ''install'' (\<lambda>d. d\<lparr>ud_files := (ud_files d)(target \<mapsto> Regular \<lparr>uf_data = data, uf_mode = mode\<rparr>)\<rparr>))"

definition write_journal :: "upgradeJournal \<Rightarrow> unit up" where
  "write_journal j = step ''write journal'' (\<lambda>d. d\<lparr>ud_journal := Some (Some j)\<rparr>)"

definition remove_journal :: "unit up" where
  "remove_journal = step ''remove journal'' (\<lambda>d. d\<lparr>ud_journal := None\<rparr>)"

definition defaultUpgradeAuditLog :: string where
  "defaultUpgradeAuditLog = ''/var/log/trojan-go/upgrade-audit.jsonl''"

definition appendUpgradeAudit :: "string \<Rightarrow> string \<Rightarrow> string \<Rightarrow> unit up" where
  "appendUpgradeAudit path i status =
     (let p = (if path = [] then defaultUpgradeAuditLog else path)
      in step ''audit'' (\<lambda>d. d\<lparr>ud_audit := ud_audit d @ [(p, i, status)]\<rparr>))"

section \<open>Staging and backups\<close>

text \<open>The extension: what follows the last dot of the last element, with the dot.\<close>

fun ext_from :: "string \<Rightarrow> string \<Rightarrow> string" where
  "ext_from e [] = e"
| "ext_from e (c # s) =
     (if c = CHR ''/'' then ext_from [] s
      else if c = CHR ''.'' then ext_from ''.'' s
      else ext_from (if e = [] then [] else e @ [c]) s)"

definition filepath_Ext :: "string \<Rightarrow> string" where
  "filepath_Ext p = ext_from [] p"

text \<open>\<open>decodes ext data\<close>: the JSON or YAML decoder for the extension accepts the content.\<close>

definition validateStagedConfig :: "(string \<Rightarrow> bytes \<Rightarrow> bool) \<Rightarrow> string \<Rightarrow> bytes \<Rightarrow> bool" where
  "validateStagedConfig decodes target data =
     (let e = ascii_lower (filepath_Ext target) in
      if e \<notin> {''.yaml'', ''.yml'', ''.json''} then True
      else TrimSpace (string_of data) \<noteq> [] \<and> decodes e data)"

definition run_binary :: "tx_file \<Rightarrow> string list \<Rightarrow> unit up" where
  "run_binary k args = step ''self-check'' (\<lambda>d. d\<lparr>ud_ran := ud_ran d @ [(k, args)]\<rparr>)"

definition verify_args :: "upgradeArtifact \<Rightarrow> string list" where
  "verify_args a = (if ua_verify a = [] \<and> filepath_Base (ua_target a) = ''trojan-go'' then [''-version''] else ua_verify a)"

definition stage_artifact ::
  "(string \<Rightarrow> bytes \<Rightarrow> bool) \<Rightarrow> string \<Rightarrow> string \<Rightarrow> nat \<times> upgradeArtifact \<Rightarrow> (string \<times> string) up" where
  "stage_artifact decodes i manifestDir na =
     (case na of (n, a) \<Rightarrow>
        let source = (if IsAbs (ua_source a) then ua_source a else filepath_Join manifestDir (ua_source a)) in
        up_bind up_get (\<lambda>d.
          case ud_files d source of
            Some (Regular f) \<Rightarrow>
              up_bind (copyFileSync (uf_data f) (i, Staging, n)) (\<lambda>_.
                let digest = concat (map hex_byte (sha256 (uf_data f))) in
                if digest \<noteq> ua_sha a then up_fail ''SHA-256 mismatch''
                else if \<not> validateStagedConfig decodes (ua_target a) (uf_data f) then up_fail ''validate staged config''
                else if verify_args a \<noteq> []
                then up_bind (run_binary (i, Staging, n) (verify_args a)) (\<lambda>_. up_return (ua_target a, digest))
                else up_return (ua_target a, digest))
          | _ \<Rightarrow> up_fail ''artifact source must be a regular file''))"

text \<open>Creating the directory at the start and flushing it at the end are steps without a visible effect.\<close>

definition stageUpgradeArtifacts ::
  "(string \<Rightarrow> bytes \<Rightarrow> bool) \<Rightarrow> string \<Rightarrow> string \<Rightarrow> upgradeArtifact list \<Rightarrow> (string \<times> string) list up" where
  "stageUpgradeArtifacts decodes i manifestDir as =
     up_bind (step ''create staging directory'' id) (\<lambda>_.
     up_bind (up_each (stage_artifact decodes i manifestDir) (enumerate 0 as)) (\<lambda>hashes.
     up_bind (step ''sync staging directory'' id) (\<lambda>_. up_return hashes)))"

definition staged_for :: "string \<Rightarrow> upgradeArtifact list \<Rightarrow> string \<Rightarrow> tx_file" where
  "staged_for i as target = (i, Staging, length (takeWhile (\<lambda>a. ua_target a \<noteq> target) as))"

definition tx_path :: "string \<Rightarrow> tx_file \<Rightarrow> string" where
  "tx_path stateDir k = (case k of (i, ar, n) \<Rightarrow>
     stateDir @ ''/'' @ i @ (case ar of Staging \<Rightarrow> ''/staging/'' | Backup \<Rightarrow> ''/backup/'') @ zero_pad 3 n)"

definition config_check_args :: "string \<Rightarrow> string \<Rightarrow> upgradeArtifact list \<Rightarrow> upgradeConfigCheck \<Rightarrow> string list" where
  "config_check_args stateDir i as c =
     [''config-check'', ''--service'', cc_service c, ''--config'', tx_path stateDir (staged_for i as (cc_config c))] @
     (if cc_service c = ''gateway''
      then concat (map (\<lambda>(n, a). if ua_target a = cc_binary c \<or> ua_target a = cc_config c then []
             else [''--path-override'', ua_target a, tx_path stateDir (i, Staging, n)]) (enumerate 0 as))
      else [])"

definition runUpgradeConfigChecks :: "string \<Rightarrow> string \<Rightarrow> upgradeManifest \<Rightarrow> unit up" where
  "runUpgradeConfigChecks stateDir i m =
     up_bind (up_each (\<lambda>c. run_binary (staged_for i (um_artifacts m) (cc_binary c))
       (config_check_args stateDir i (um_artifacts m) c)) (um_configChecks m)) (\<lambda>_. up_return ())"

definition backup_target :: "string \<Rightarrow> nat \<times> upgradeArtifact \<Rightarrow> upgradeBackup up" where
  "backup_target i na =
     (case na of (n, a) \<Rightarrow>
        up_bind (step ''inspect upgrade target'' id) (\<lambda>_.
        up_bind up_get (\<lambda>d.
          case ud_files d (ua_target a) of
            None \<Rightarrow> up_return \<lparr>ub_target = ua_target a, ub_copy = (i, Backup, n), ub_existed = False, ub_mode = 0\<rparr>
          | Some (Regular f) \<Rightarrow>
              up_bind (copyFileSync (uf_data f) (i, Backup, n)) (\<lambda>_.
                up_return \<lparr>ub_target = ua_target a, ub_copy = (i, Backup, n), ub_existed = True, ub_mode = uf_mode f\<rparr>)
          | Some _ \<Rightarrow> up_fail ''upgrade target must be a regular file'')))"

definition backupUpgradeTargets :: "string \<Rightarrow> upgradeArtifact list \<Rightarrow> upgradeBackup list up" where
  "backupUpgradeTargets i as =
     up_bind (step ''create backup directory'' id) (\<lambda>_.
     up_bind (up_each (backup_target i) (enumerate 0 as)) (\<lambda>bs.
     up_bind (step ''sync backup directory'' id) (\<lambda>_. up_return bs)))"

section \<open>Switching, health and rolling back\<close>

definition mode_of :: "upgradeArtifact \<Rightarrow> nat" where
  "mode_of a = (case parseFileMode (ua_mode a) of None \<Rightarrow> 0 | Some n \<Rightarrow> n)"

definition applyUpgrade :: "string \<Rightarrow> upgradeArtifact list \<Rightarrow> unit up" where
  "applyUpgrade i as =
     up_bind (up_each (\<lambda>(n, a). atomicInstallFile (i, Staging, n) (ua_target a) (mode_of a)) (enumerate 0 as)) (\<lambda>_. up_return ())"

fun checkUpgradeHealth :: "string list \<Rightarrow> upgradeHealthCheck list \<Rightarrow> round list \<Rightarrow> bool" where
  "checkUpgradeHealth services checks [] = False"
| "checkUpgradeHealth services checks (r # rs) =
     (list_all (rd_active r) services \<and> list_all (rd_health r) checks \<or> checkUpgradeHealth services checks rs)"

definition check_health :: "string list \<Rightarrow> upgradeHealthCheck list \<Rightarrow> unit up" where
  "check_health services checks =
     up_bind (step ''health check'' id) (\<lambda>_ w.
       (if uw_rounds w \<noteq> [] \<and> checkUpgradeHealth services checks (hd (uw_rounds w)) then Done () else Failed ''health check deadline exceeded'',
        w\<lparr>uw_rounds := tl (uw_rounds w)\<rparr>))"

definition restart :: "string \<Rightarrow> unit up" where
  "restart s = step ''restart'' (\<lambda>d. d\<lparr>ud_running := (ud_running d)(s := ud_files d)\<rparr>)"

definition restartAndCheck :: "string list \<Rightarrow> upgradeHealthCheck list \<Rightarrow> unit up" where
  "restartAndCheck services checks =
     up_bind (step ''daemon-reload'' id) (\<lambda>_.
     up_bind (up_each restart services) (\<lambda>_. check_health services checks))"

definition restore :: "upgradeBackup \<Rightarrow> unit up" where
  "restore b =
     (if ub_existed b then atomicInstallFile (ub_copy b) (ub_target b) (ub_mode b)
      else up_bind up_get (\<lambda>d.
        if ud_files d (ub_target b) = None then up_return ()
        else step ''remove new target'' (\<lambda>d. d\<lparr>ud_files := (ud_files d)(ub_target b := None)\<rparr>)))"

definition rollbackUpgrade :: "upgradeJournal \<Rightarrow> unit up" where
  "rollbackUpgrade j =
     up_bind (up_each (\<lambda>b. up_try (restore b)) (rev (uj_backups j))) (\<lambda>rs.
       if list_ex isl rs then up_fail ''restore''
       else restartAndCheck (uj_services j) (uj_healthChecks j))"

text \<open>The decision of a recovery that found the journal \<open>j\<close>.\<close>

definition recover_from :: "upgradeJournal \<Rightarrow> unit up" where
  "recover_from j =
     up_bind (if uj_phase j = Healthy
              then up_bind (up_try (check_health (uj_services j) (uj_healthChecks j))) (\<lambda>r. up_return (case r of Inr _ \<Rightarrow> True | Inl _ \<Rightarrow> False))
              else up_return False) (\<lambda>healthy.
       if healthy then
         up_bind (appendUpgradeAudit (uj_auditLog j) (uj_id j) ''committed_after_recovery'') (\<lambda>_.
         up_bind (write_journal (j\<lparr>uj_phase := Committed\<rparr>)) (\<lambda>_. remove_journal))
       else if length (uj_backups j) \<noteq> length (uj_artifacts j) \<or> uj_transaction j = [] then up_fail ''active upgrade journal is incomplete''
       else
         up_bind (up_try (rollbackUpgrade j)) (\<lambda>rb.
           let status = (case rb of Inr _ \<Rightarrow> ''recovered_after_interruption'' | Inl _ \<Rightarrow> ''recovery_failed'') in
           up_bind (up_try (appendUpgradeAudit (uj_auditLog j) (uj_id j) status)) (\<lambda>au.
             case rb of
               Inl e \<Rightarrow> up_fail e
             | Inr _ \<Rightarrow> up_bind (up_try remove_journal) (\<lambda>rm.
                 if isl au \<or> isl rm then up_fail ''audit or journal'' else up_return ()))))"

definition recoverInterruptedUpgrade :: "unit up" where
  "recoverInterruptedUpgrade =
     up_bind (step ''read journal'' id) (\<lambda>_.
     up_bind up_get (\<lambda>d.
       case ud_journal d of
         None \<Rightarrow> up_return ()
       | Some None \<Rightarrow> up_fail ''decode active upgrade journal''
       | Some (Some j) \<Rightarrow> if uj_phase j = Committed then remove_journal else recover_from j))"

section \<open>The upgrade\<close>

text \<open>The transaction \<open>i\<close> after the recovery of an earlier one.\<close>

definition commit_upgrade :: "upgradeJournal \<Rightarrow> unit up" where
  "commit_upgrade j =
     up_bind (appendUpgradeAudit (uj_auditLog j) (uj_id j) ''committed'') (\<lambda>_.
     up_bind (write_journal (j\<lparr>uj_phase := Committed\<rparr>)) (\<lambda>_. remove_journal))"

definition abort_upgrade :: "upgradeJournal \<Rightarrow> unit up" where
  "abort_upgrade j =
     up_bind (up_try (rollbackUpgrade j)) (\<lambda>rb.
       let status = (case rb of Inr _ \<Rightarrow> ''rolled_back'' | Inl _ \<Rightarrow> ''rollback_failed'') in
       up_bind (up_try (appendUpgradeAudit (uj_auditLog j) (uj_id j) status)) (\<lambda>_.
         case rb of
           Inl _ \<Rightarrow> up_fail ''upgrade failed, rollback failed''
         | Inr _ \<Rightarrow> up_bind (up_try remove_journal) (\<lambda>rm.
             up_fail (if isl rm then ''upgrade failed, rollback failed'' else ''upgrade failed and was rolled back''))))"

definition switch_upgrade :: "upgradeJournal \<Rightarrow> unit up" where
  "switch_upgrade j =
     up_bind (applyUpgrade (uj_id j) (uj_artifacts j)) (\<lambda>_.
     up_bind (write_journal (j\<lparr>uj_phase := Switched\<rparr>)) (\<lambda>_.
     up_bind (restartAndCheck (uj_services j) (uj_healthChecks j)) (\<lambda>_.
       write_journal (j\<lparr>uj_phase := Healthy\<rparr>))))"

definition run_transaction ::
  "(string \<Rightarrow> bytes \<Rightarrow> bool) \<Rightarrow> string \<Rightarrow> string \<Rightarrow> string \<Rightarrow> upgradeManifest \<Rightarrow> unit up" where
  "run_transaction decodes stateDir i manifestDir m =
     (let auditLog = (if um_auditLog m = [] then defaultUpgradeAuditLog else um_auditLog m) in
     up_bind (step ''create upgrade transaction directory'' id) (\<lambda>_.
     up_bind (up_try (up_bind (stageUpgradeArtifacts decodes i manifestDir (um_artifacts m)) (\<lambda>hashes.
                up_bind (runUpgradeConfigChecks stateDir i m) (\<lambda>_. up_return hashes)))) (\<lambda>st.
       case st of
         Inl e \<Rightarrow> up_bind (up_try (appendUpgradeAudit auditLog i ''rejected'')) (\<lambda>_. up_fail e)
       | Inr hashes \<Rightarrow>
           up_bind (up_try (backupUpgradeTargets i (um_artifacts m))) (\<lambda>bk.
             case bk of
               Inl e \<Rightarrow> up_bind (up_try (appendUpgradeAudit auditLog i ''rejected'')) (\<lambda>_. up_fail e)
             | Inr backups \<Rightarrow>
                 let j = \<lparr>uj_id = i, uj_version = um_version m, uj_phase = Prepared,
                          uj_transaction = stateDir @ ''/'' @ i, uj_artifacts = um_artifacts m,
                          uj_hashes = hashes, uj_backups = backups, uj_services = um_services m,
                          uj_healthChecks = um_healthChecks m, uj_healthTimeout = um_healthTimeout m,
                          uj_auditLog = auditLog\<rparr> in
                 up_bind (write_journal j) (\<lambda>_.
                 up_bind (up_try (switch_upgrade j)) (\<lambda>sw.
                   case sw of Inr _ \<Rightarrow> commit_upgrade j | Inl _ \<Rightarrow> abort_upgrade j))))))"

text \<open>\<open>manifest\<close> is what the file decodes to, \<open>None\<close> when it cannot be read or decoded; \<open>locked\<close> tells whether the
  lock on the state directory was obtained.\<close>

definition loadUpgradeManifest :: "upgradeManifest option \<Rightarrow> upgradeManifest up" where
  "loadUpgradeManifest manifest =
     (case manifest of
        None \<Rightarrow> up_fail ''decode upgrade manifest''
      | Some m \<Rightarrow> (case validateUpgradeManifest m of Inl _ \<Rightarrow> up_fail ''invalid upgrade manifest'' | Inr m' \<Rightarrow> up_return m'))"

definition defaultUpgradeStateDir :: string where
  "defaultUpgradeStateDir = ''/var/lib/trojan-go/upgrades''"

text \<open>The journal of the disk is the one in the state directory of the manifest.\<close>

definition executeUpgrade ::
  "(string \<Rightarrow> bytes \<Rightarrow> bool) \<Rightarrow> string \<Rightarrow> string \<Rightarrow> bool \<Rightarrow> upgradeManifest option \<Rightarrow> unit up" where
  "executeUpgrade decodes i manifestDir locked manifest =
     up_bind (loadUpgradeManifest manifest) (\<lambda>m.
     let stateDir = (if um_stateDir m = [] then defaultUpgradeStateDir else um_stateDir m) in
     up_bind (step ''create upgrade state directory'' id) (\<lambda>_.
       if \<not> locked then up_fail ''another upgrade is already running''
       else
         up_bind recoverInterruptedUpgrade (\<lambda>_.
           run_transaction decodes stateDir i manifestDir m)))"

section \<open>Specifications with crashes\<close>

text \<open>\<open>spec P m Q E D\<close>: from a disk with \<open>P\<close>, whatever steps fail and wherever the process dies, the disk has \<open>Q\<close> after a
  result, \<open>E\<close> after an error and \<open>D\<close> after the death of the process.\<close>

definition ends :: "('a \<Rightarrow> udisk \<Rightarrow> bool) \<Rightarrow> (udisk \<Rightarrow> bool) \<Rightarrow> (udisk \<Rightarrow> bool) \<Rightarrow> 'a res \<times> uworld \<Rightarrow> bool" where
  "ends Q E D r =
     (case r of (Done a, w) \<Rightarrow> Q a (uw_disk w) | (Failed _, w) \<Rightarrow> E (uw_disk w) | (Dead, w) \<Rightarrow> D (uw_disk w))"

definition spec :: "(udisk \<Rightarrow> bool) \<Rightarrow> 'a up \<Rightarrow> ('a \<Rightarrow> udisk \<Rightarrow> bool) \<Rightarrow> (udisk \<Rightarrow> bool) \<Rightarrow> (udisk \<Rightarrow> bool) \<Rightarrow> bool" where
  "spec P m Q E D \<longleftrightarrow> (\<forall>w. P (uw_disk w) \<longrightarrow> ends Q E D (m w))"

lemma ends_mono:
  "ends Q' E' D' r \<Longrightarrow> (\<And>a d. Q' a d \<Longrightarrow> Q a d) \<Longrightarrow> (\<And>d. E' d \<Longrightarrow> E d) \<Longrightarrow> (\<And>d. D' d \<Longrightarrow> D d) \<Longrightarrow> ends Q E D r"
  by (auto simp: ends_def split: prod.splits res.splits)

lemma spec_return: "(\<And>d. P d \<Longrightarrow> Q x d) \<Longrightarrow> spec P (up_return x) Q E D"
  by (simp add: spec_def ends_def up_return_def)

lemma spec_fail: "(\<And>d. P d \<Longrightarrow> E d) \<Longrightarrow> spec P (up_fail m) Q E D"
  by (simp add: spec_def ends_def up_fail_def)

lemma spec_bind: "spec P m R E D \<Longrightarrow> (\<And>a. spec (R a) (k a) Q E D) \<Longrightarrow> spec P (up_bind m k) Q E D"
  by (fastforce simp: spec_def ends_def up_bind_def split: prod.splits res.splits)

lemma bind_return: "up_bind (up_return x) k = k x"
  by (rule ext) (simp add: up_bind_def up_return_def)

lemma spec_try:
  "spec P m R X D \<Longrightarrow> (\<And>a d. R a d \<Longrightarrow> Q (Inr a) d) \<Longrightarrow> (\<And>e d. X d \<Longrightarrow> Q (Inl e) d) \<Longrightarrow> spec P (up_try m) Q E D"
  by (fastforce simp: spec_def ends_def up_try_def split: prod.splits res.splits)

lemma spec_get: "(\<And>d. P d \<Longrightarrow> spec (\<lambda>d'. d' = d) (k d) Q E D) \<Longrightarrow> spec P (up_bind up_get k) Q E D"
  by (simp add: spec_def ends_def up_bind_def up_get_def)

lemma spec_pre: "spec P' m Q E D \<Longrightarrow> (\<And>d. P d \<Longrightarrow> P' d) \<Longrightarrow> spec P m Q E D"
  unfolding spec_def by blast

lemma spec_post:
  "spec P m Q' E' D' \<Longrightarrow> (\<And>a d. Q' a d \<Longrightarrow> Q a d) \<Longrightarrow> (\<And>d. E' d \<Longrightarrow> E d) \<Longrightarrow> (\<And>d. D' d \<Longrightarrow> D d) \<Longrightarrow> spec P m Q E D"
  unfolding spec_def by (blast intro: ends_mono)

lemma spec_step:
  "(\<And>d. P d \<Longrightarrow> Q () (f d)) \<Longrightarrow> (\<And>d. P d \<Longrightarrow> E d \<and> E (f d)) \<Longrightarrow> (\<And>d. P d \<Longrightarrow> D d \<and> D (f d)) \<Longrightarrow> spec P (step m f) Q E D"
  by (auto simp: spec_def ends_def step_def on_disk_def Let_def split: fault.splits)

text \<open>A step that changes nothing the condition speaks of.\<close>

lemma spec_quiet: "(\<And>d. P d \<Longrightarrow> P (f d)) \<Longrightarrow> spec P (step m f) (\<lambda>_. P) P P"
  by (rule spec_step) simp_all

lemma spec_each_from:
  "(\<And>k ys. k < length xs \<Longrightarrow> length ys = length zs + k \<Longrightarrow> spec (I ys) (f (xs ! k)) (\<lambda>y. I (ys @ [y])) E D) \<Longrightarrow>
   spec (I zs) (up_each f xs) (\<lambda>ys. I (zs @ ys)) E D"
proof (induction xs arbitrary: zs)
  case Nil
  then show ?case by (auto intro: spec_return)
next
  case (Cons x xs)
  have "spec (I zs) (f x) (\<lambda>y. I (zs @ [y])) E D" using Cons.prems [of 0 zs] by simp
  moreover have "spec (I (zs @ [y])) (up_each f xs) (\<lambda>ys. I ((zs @ [y]) @ ys)) E D" for y
  proof (rule Cons.IH, goal_cases)
    case (1 k ys)
    then show ?case using Cons.prems [of "Suc k" ys] by simp
  qed
  ultimately show ?case by (auto intro!: spec_bind spec_return)
qed

lemma spec_each:
  "(\<And>k ys. k < length xs \<Longrightarrow> length ys = k \<Longrightarrow> spec (I ys) (f (xs ! k)) (\<lambda>y. I (ys @ [y])) E D) \<Longrightarrow>
   spec (I []) (up_each f xs) I E D"
  using spec_each_from [of xs "[]" I f E D] by simp

lemma spec_sync: "(\<And>d. P d \<Longrightarrow> E d) \<Longrightarrow> spec P (step m id) (\<lambda>_. P) E E"
  by (rule spec_step) simp_all

lemma up_each_length: "up_each f xs w = (Done ys, w') \<Longrightarrow> length ys = length xs"
  by (induction xs arbitrary: w ys w') (auto simp: up_return_def up_bind_def split: prod.splits res.splits)

lemma spec_each_length: "spec P (up_each f xs) Q E D \<Longrightarrow> spec P (up_each f xs) (\<lambda>ys d. Q ys d \<and> length ys = length xs) E D"
  by (fastforce simp: spec_def ends_def split: prod.splits res.splits dest: up_each_length)

lemma spec_each_quiet: "(\<And>x. spec P (f x) (\<lambda>_. P) P P) \<Longrightarrow> spec P (up_each f xs) (\<lambda>_. P) P P"
  using spec_each [of xs "\<lambda>_. P" f P P] by blast

lemma spec_health: "spec P (check_health s c) (\<lambda>_. P) P P"
  unfolding check_health_def
  by (rule spec_bind [OF spec_quiet]) (auto simp: spec_def ends_def)

lemma spec_restart:
  assumes "\<And>d f. P d \<Longrightarrow> P (d\<lparr>ud_running := f\<rparr>)"
  shows "spec P (restartAndCheck s c) (\<lambda>_. P) P P"
  unfolding restartAndCheck_def restart_def
  by (intro spec_bind [OF spec_quiet] spec_bind [OF spec_each_quiet [OF spec_quiet]] spec_health) (simp_all add: assms)

lemma spec_audit: "(\<And>d x. P d \<Longrightarrow> P (d\<lparr>ud_audit := x\<rparr>)) \<Longrightarrow> spec P (appendUpgradeAudit p i s) (\<lambda>_. P) P P"
  unfolding appendUpgradeAudit_def Let_def by (rule spec_quiet)

lemma spec_run: "(\<And>d x. P d \<Longrightarrow> P (d\<lparr>ud_ran := x\<rparr>)) \<Longrightarrow> spec P (run_binary k as) (\<lambda>_. P) P P"
  unfolding run_binary_def by (rule spec_quiet)

section \<open>Old and new files\<close>

definition source_of :: "string \<Rightarrow> upgradeArtifact \<Rightarrow> string" where
  "source_of manifestDir a = (if IsAbs (ua_source a) then ua_source a else filepath_Join manifestDir (ua_source a))"

definition source_data :: "(string \<Rightarrow> entry option) \<Rightarrow> string \<Rightarrow> upgradeArtifact \<Rightarrow> bytes" where
  "source_data old dir a = (case old (source_of dir a) of Some (Regular f) \<Rightarrow> uf_data f | _ \<Rightarrow> [])"

definition new_entry :: "(string \<Rightarrow> entry option) \<Rightarrow> string \<Rightarrow> upgradeArtifact \<Rightarrow> entry" where
  "new_entry old dir a = Regular \<lparr>uf_data = source_data old dir a, uf_mode = mode_of a\<rparr>"

text \<open>The files after a complete upgrade.\<close>

definition new_files :: "(string \<Rightarrow> entry option) \<Rightarrow> string \<Rightarrow> upgradeArtifact list \<Rightarrow> string \<Rightarrow> entry option" where
  "new_files old dir as p = (case find (\<lambda>a. ua_target a = p) as of Some a \<Rightarrow> Some (new_entry old dir a) | None \<Rightarrow> old p)"

lemma new_files_target:
  assumes "distinct (map ua_target as)" "a \<in> set as"
  shows "new_files old dir as (ua_target a) = Some (new_entry old dir a)"
  using find_unique [OF assms] by (simp add: new_files_def)

lemma new_files_other: "p \<notin> ua_target ` set as \<Longrightarrow> new_files old dir as p = old p"
proof -
  assume "p \<notin> ua_target ` set as"
  then have "find (\<lambda>a. ua_target a = p) as = None" by (auto simp: find_None_iff)
  then show ?thesis by (simp add: new_files_def)
qed

definition mixed :: "(string \<Rightarrow> entry option) \<Rightarrow> string \<Rightarrow> upgradeArtifact list \<Rightarrow> (string \<Rightarrow> entry option) \<Rightarrow> bool" where
  "mixed old dir as files \<longleftrightarrow> (\<forall>p. files p = old p \<or> files p = new_files old dir as p)"

definition backup_ok :: "(string \<Rightarrow> entry option) \<Rightarrow> upgradeArtifact \<Rightarrow> upgradeBackup \<Rightarrow> (tx_file \<Rightarrow> bytes option) \<Rightarrow> bool" where
  "backup_ok old a b tx \<longleftrightarrow> ub_target b = ua_target a \<and>
     (case old (ua_target a) of
        None \<Rightarrow> \<not> ub_existed b
      | Some (Regular f) \<Rightarrow> ub_existed b \<and> ub_mode b = uf_mode f \<and> tx (ub_copy b) = Some (uf_data f)
      | Some _ \<Rightarrow> False)"

definition journal_ok :: "(string \<Rightarrow> entry option) \<Rightarrow> upgradeArtifact list \<Rightarrow> upgradeJournal \<Rightarrow> (tx_file \<Rightarrow> bytes option) \<Rightarrow> bool" where
  "journal_ok old as j tx \<longleftrightarrow> uj_artifacts j = as \<and> uj_transaction j \<noteq> [] \<and> length (uj_backups j) = length as \<and>
     (\<forall>n < length as. backup_ok old (as ! n) (uj_backups j ! n) tx)"

text \<open>The disk between the steps of an upgrade and of its recoveries.\<close>

definition upgrade_inv :: "(string \<Rightarrow> entry option) \<Rightarrow> string \<Rightarrow> upgradeArtifact list \<Rightarrow> udisk \<Rightarrow> bool" where
  "upgrade_inv old dir as d \<longleftrightarrow> mixed old dir as (ud_files d) \<and>
     (case ud_journal d of
        None \<Rightarrow> ud_files d = old \<or> ud_files d = new_files old dir as
      | Some None \<Rightarrow> False
      | Some (Some j) \<Rightarrow> journal_ok old as j (ud_tx d) \<and> (uj_phase j = Committed \<longrightarrow> ud_files d = new_files old dir as))"

text \<open>A journal that says healthy is only written over new files, unless the writing of the journal itself fails after its effect
  or a later health check fails: then a rollback begins under that journal.\<close>

definition trusted :: "(string \<Rightarrow> entry option) \<Rightarrow> string \<Rightarrow> upgradeArtifact list \<Rightarrow> udisk \<Rightarrow> bool" where
  "trusted old dir as d \<longleftrightarrow>
     (case ud_journal d of Some (Some j) \<Rightarrow> (uj_phase j = Healthy \<longrightarrow> ud_files d = new_files old dir as) | _ \<Rightarrow> True)"

section \<open>Rolling back\<close>

text \<open>The files are a mixture and the backups of \<open>j\<close> are in place; \<open>js\<close> is the journal on the disk.\<close>

definition rolling :: "(string \<Rightarrow> entry option) \<Rightarrow> string \<Rightarrow> upgradeArtifact list \<Rightarrow> upgradeJournal \<Rightarrow> upgradeJournal option option \<Rightarrow> udisk \<Rightarrow> bool" where
  "rolling old dir as j js d \<longleftrightarrow> mixed old dir as (ud_files d) \<and> journal_ok old as j (ud_tx d) \<and> ud_journal d = js"

lemma spec_put_old:
  assumes "rolling old dir as j js d" "\<forall>p \<in> S. ud_files d p = old p"
  shows "spec (\<lambda>d'. d' = d) (step m (\<lambda>d. d\<lparr>ud_files := (ud_files d)(t := old t)\<rparr>))
    (\<lambda>_ d. rolling old dir as j js d \<and> (\<forall>p \<in> insert t S. ud_files d p = old p)) (rolling old dir as j js) (rolling old dir as j js)"
proof -
  have "mixed old dir as ((ud_files d)(t := old t))" using assms(1) unfolding rolling_def mixed_def by (metis fun_upd_apply)
  then have "rolling old dir as j js (d\<lparr>ud_files := (ud_files d)(t := old t)\<rparr>)" using assms(1) by (simp add: rolling_def)
  then show ?thesis using assms by (intro spec_step) auto
qed

lemma spec_restore:
  assumes "b \<in> set (uj_backups j)"
  shows "spec (\<lambda>d. rolling old dir as j js d \<and> (\<forall>p \<in> S. ud_files d p = old p)) (restore b)
    (\<lambda>_ d. rolling old dir as j js d \<and> (\<forall>p \<in> insert (ub_target b) S. ud_files d p = old p))
    (rolling old dir as j js) (rolling old dir as j js)"
proof (cases "length (uj_backups j) = length as \<and> (\<exists>a tx. backup_ok old a b tx)")
  case False
  have "\<not> rolling old dir as j js d" for d
    using False assms unfolding rolling_def journal_ok_def by (metis in_set_conv_nth)
  then show ?thesis by (simp add: spec_def ends_def)
next
  case True
  have bk: "\<exists>a. backup_ok old a b (ud_tx d)" if "rolling old dir as j js d" for d
    using that assms unfolding rolling_def journal_ok_def by (metis in_set_conv_nth)
  show ?thesis
  proof (cases "ub_existed b")
    case True
    have inst: "\<exists>x. ud_tx d (ub_copy b) = Some x \<and> old (ub_target b) = Some (Regular \<lparr>uf_data = x, uf_mode = ub_mode b\<rparr>)"
      if r: "rolling old dir as j js d" for d
    proof -
      obtain a where "backup_ok old a b (ud_tx d)" using bk [OF r] by blast
      then obtain f where "ud_tx d (ub_copy b) = Some (uf_data f)" "old (ub_target b) = Some (Regular f)" "ub_mode b = uf_mode f"
        using True by (auto simp: backup_ok_def split: option.splits entry.splits)
      then show ?thesis by (cases f) auto
    qed
    have "spec (\<lambda>d'. d' = d)
        (case ud_tx d (ub_copy b) of None \<Rightarrow> up_fail ''open source''
         | Some x \<Rightarrow> if ud_files d (ub_target b) = Some Directory then up_fail ''rename''
             else step ''install'' (\<lambda>d. d\<lparr>ud_files := (ud_files d)(ub_target b \<mapsto> Regular \<lparr>uf_data = x, uf_mode = ub_mode b\<rparr>)\<rparr>))
        (\<lambda>_ d. rolling old dir as j js d \<and> (\<forall>p \<in> insert (ub_target b) S. ud_files d p = old p))
        (rolling old dir as j js) (rolling old dir as j js)"
      if d: "rolling old dir as j js d \<and> (\<forall>p \<in> S. ud_files d p = old p)" for d
    proof -
      obtain x where x: "ud_tx d (ub_copy b) = Some x" "Some (Regular \<lparr>uf_data = x, uf_mode = ub_mode b\<rparr>) = old (ub_target b)"
        using inst d by metis
      have "rolling old dir as j js d" "\<forall>p \<in> S. ud_files d p = old p" using d by simp_all
      note P = spec_put_old [OF this, of "''install''" "ub_target b"]
      show ?thesis unfolding x(1) option.case x(2) using P d by (cases "ud_files d (ub_target b) = Some Directory") (auto intro!: spec_fail)
    qed
    then show ?thesis unfolding restore_def atomicInstallFile_def if_P [OF True] by (rule spec_get)
  next
    case False
    have o: "None = old (ub_target b)" if r: "rolling old dir as j js d" for d
    proof -
      obtain a where "backup_ok old a b (ud_tx d)" using bk [OF r] by blast
      then show ?thesis using False by (cases "old (ua_target a)") (auto simp: backup_ok_def split: entry.splits)
    qed
    have "spec (\<lambda>d'. d' = d)
        (if ud_files d (ub_target b) = None then up_return ()
         else step ''remove new target'' (\<lambda>d. d\<lparr>ud_files := (ud_files d)(ub_target b := None)\<rparr>))
        (\<lambda>_ d. rolling old dir as j js d \<and> (\<forall>p \<in> insert (ub_target b) S. ud_files d p = old p))
        (rolling old dir as j js) (rolling old dir as j js)"
      if d: "rolling old dir as j js d \<and> (\<forall>p \<in> S. ud_files d p = old p)" for d
    proof -
      have r: "rolling old dir as j js d" "\<forall>p \<in> S. ud_files d p = old p" using d by simp_all
      note P = spec_put_old [OF r, of "''remove new target''" "ub_target b"]
      show ?thesis unfolding o [OF r(1)] using P d by (cases "ud_files d (ub_target b) = old (ub_target b)") (auto intro!: spec_return)
    qed
    then show ?thesis unfolding restore_def if_not_P [OF False] by (rule spec_get)
  qed
qed

lemma rolling_quiet: "rolling old dir as j js d \<Longrightarrow> rolling old dir as j js (d\<lparr>ud_running := f\<rparr>)"
    "rolling old dir as j js d \<Longrightarrow> rolling old dir as j js (d\<lparr>ud_audit := x\<rparr>)"
  by (simp_all add: rolling_def)

lemma mixed_old: "mixed old dir as files \<Longrightarrow> (\<forall>a \<in> set as. files (ua_target a) = old (ua_target a)) \<Longrightarrow> files = old"
proof
  fix p assume "mixed old dir as files" "\<forall>a \<in> set as. files (ua_target a) = old (ua_target a)"
  then show "files p = old p" using new_files_other [of p as old dir] by (cases "p \<in> ua_target ` set as") (auto simp: mixed_def)
qed

lemma mixed_new:
  assumes "mixed old dir as files" "\<forall>a \<in> set as. files (ua_target a) = new_files old dir as (ua_target a)"
  shows "files = new_files old dir as"
proof
  fix p
  show "files p = new_files old dir as p"
    using assms new_files_other [of p as old dir] by (cases "p \<in> ua_target ` set as") (auto simp: mixed_def)
qed

text \<open>A rollback that succeeds has restored every file; one that fails or dies leaves a mixture with all backups.\<close>

lemma spec_rollback:
  "spec (rolling old dir as j js) (rollbackUpgrade j)
     (\<lambda>_ d. rolling old dir as j js d \<and> ud_files d = old) (rolling old dir as j js) (rolling old dir as j js)"
proof -
  let ?bs = "rev (uj_backups j)"
  define I where "I ys d \<longleftrightarrow> rolling old dir as j js d \<and>
    ((\<exists>e. Inl e \<in> set ys) \<or> (\<forall>p \<in> ub_target ` set (take (length ys) ?bs). ud_files d p = old p))" for ys :: "(string + unit) list" and d
  have step: "spec (I ys) (up_try (restore (?bs ! k))) (\<lambda>y. I (ys @ [y])) (rolling old dir as j js) (rolling old dir as j js)"
    if k: "k < length ?bs" "length ys = k" for k ys
  proof (cases "\<exists>e. Inl e \<in> set ys")
    case True
    have m: "?bs ! k \<in> set (uj_backups j)" using k(1) by (metis nth_mem set_rev)
    show ?thesis
      by (rule spec_try [OF spec_pre [OF spec_restore [OF m, where S = "{}"]]]) (use True in \<open>auto simp: I_def\<close>)
  next
    case False
    have m: "?bs ! k \<in> set (uj_backups j)" using k(1) by (metis nth_mem set_rev)
    show ?thesis
      by (rule spec_try [OF spec_pre [OF spec_restore [OF m, where S = "ub_target ` set (take k ?bs)"]]])
        (use False k in \<open>auto simp: I_def take_Suc_conv_app_nth\<close>)
  qed
  have each: "spec (I []) (up_each (\<lambda>b. up_try (restore b)) ?bs) I (rolling old dir as j js) (rolling old dir as j js)"
    by (rule spec_each) (use step in blast)
  have fin: "rolling old dir as j js d \<and> ud_files d = old" if i: "I rs d" "\<not> (\<exists>r \<in> set rs. \<exists>e. r = Inl e)" "length rs = length ?bs" for rs d
  proof -
    have r: "rolling old dir as j js d" "\<forall>p \<in> ub_target ` set (uj_backups j). ud_files d p = old p"
      using i by (auto simp: I_def)
    have "\<forall>a \<in> set as. ud_files d (ua_target a) = old (ua_target a)"
    proof
      fix a assume "a \<in> set as"
      then obtain n where n: "n < length as" "a = as ! n" by (auto simp: in_set_conv_nth)
      then have "ub_target (uj_backups j ! n) = ua_target a" "uj_backups j ! n \<in> set (uj_backups j)"
        using r(1) by (auto simp: rolling_def journal_ok_def backup_ok_def)
      then show "ud_files d (ua_target a) = old (ua_target a)" using r(2) by (metis image_eqI)
    qed
    then show ?thesis using r(1) mixed_old by (auto simp: rolling_def)
  qed
  have len: "spec (I []) (up_each (\<lambda>b. up_try (restore b)) ?bs) (\<lambda>rs d. I rs d \<and> length rs = length ?bs)
      (rolling old dir as j js) (rolling old dir as j js)"
    by (rule spec_each_length [OF each])
  show ?thesis
    unfolding rollbackUpgrade_def list_ex_iff isl_def
  proof (rule spec_bind [OF spec_pre [OF len]], goal_cases)
    case (2 rs)
    have "spec (\<lambda>d. rolling old dir as j js d \<and> ud_files d = old) (restartAndCheck (uj_services j) (uj_healthChecks j))
        (\<lambda>_ d. rolling old dir as j js d \<and> ud_files d = old) (rolling old dir as j js) (rolling old dir as j js)"
      by (rule spec_post [OF spec_restart]) (auto intro: rolling_quiet)
    note R = this
    show ?case
    proof (cases "\<exists>r \<in> set rs. \<exists>e. r = Inl e")
      case True
      show ?thesis unfolding if_P [OF True] by (rule spec_fail) (simp add: I_def)
    next
      case False
      show ?thesis unfolding if_not_P [OF False] by (rule spec_pre [OF R]) (use fin False in blast)
    qed
  qed (simp add: I_def)
qed

section \<open>Preparing\<close>

definition digest_ok :: "(string \<Rightarrow> entry option) \<Rightarrow> string \<Rightarrow> upgradeArtifact \<Rightarrow> bool" where
  "digest_ok old dir a \<longleftrightarrow> concat (map hex_byte (sha256 (source_data old dir a))) = ua_sha a"

definition at_rest :: "(string \<Rightarrow> entry option) \<Rightarrow> udisk \<Rightarrow> bool" where
  "at_rest old d \<longleftrightarrow> ud_files d = old \<and> ud_journal d = None"

text \<open>The first \<open>n\<close> artifacts are staged, with the digests of the manifest.\<close>

definition staged_upto :: "(string \<Rightarrow> entry option) \<Rightarrow> string \<Rightarrow> string \<Rightarrow> upgradeArtifact list \<Rightarrow> nat \<Rightarrow> (tx_file \<Rightarrow> bytes option) \<Rightarrow> bool" where
  "staged_upto old dir i as n tx \<longleftrightarrow>
     (\<forall>k < n. tx (i, Staging, k) = Some (source_data old dir (as ! k)) \<and> digest_ok old dir (as ! k))"

lemma spec_copy:
  assumes "\<And>d. P d \<Longrightarrow> E d"
    and "\<And>d. P d \<Longrightarrow> ud_tx d key = None \<Longrightarrow> Q (d\<lparr>ud_tx := (ud_tx d)(key \<mapsto> data)\<rparr>) \<and> E (d\<lparr>ud_tx := (ud_tx d)(key \<mapsto> data)\<rparr>)"
  shows "spec P (copyFileSync data key) (\<lambda>_. Q) E E"
  unfolding copyFileSync_def
proof (rule spec_get)
  fix d assume "P d"
  then show "spec (\<lambda>d'. d' = d) (if ud_tx d key \<noteq> None then up_fail ''file exists''
      else step ''copy'' (\<lambda>d. d\<lparr>ud_tx := (ud_tx d)(key \<mapsto> data)\<rparr>)) (\<lambda>_. Q) E E"
    using assms by (cases "ud_tx d key") (auto intro!: spec_fail spec_step)
qed

lemma stage_known: "ud_files d = old \<Longrightarrow> ud_files d (source_of dir a) = Some (Regular f) \<Longrightarrow> source_data old dir a = uf_data f"
  by (simp add: source_data_def)

lemma spec_stage:
  assumes "k < length as"
  shows "spec (\<lambda>d. at_rest old d \<and> staged_upto old dir i as k (ud_tx d)) (stage_artifact dec i dir (k, as ! k))
    (\<lambda>_ d. at_rest old d \<and> staged_upto old dir i as (Suc k) (ud_tx d)) (at_rest old) (at_rest old)"
proof -
  let ?a = "as ! k" and ?st = "\<lambda>n d. at_rest old d \<and> staged_upto old dir i as n (ud_tx d)"
  have body: "spec (\<lambda>d'. d' = d)
      (case ud_files d (source_of dir ?a) of
         Some (Regular f) \<Rightarrow>
           up_bind (copyFileSync (uf_data f) (i, Staging, k)) (\<lambda>_.
             let digest = concat (map hex_byte (sha256 (uf_data f))) in
             if digest \<noteq> ua_sha ?a then up_fail ''SHA-256 mismatch''
             else if \<not> validateStagedConfig dec (ua_target ?a) (uf_data f) then up_fail ''validate staged config''
             else if verify_args ?a \<noteq> []
             then up_bind (run_binary (i, Staging, k) (verify_args ?a)) (\<lambda>_. up_return (ua_target ?a, digest))
             else up_return (ua_target ?a, digest))
       | _ \<Rightarrow> up_fail ''artifact source must be a regular file'') (\<lambda>_. ?st (Suc k)) (at_rest old) (at_rest old)"
    if d: "?st k d" for d
  proof (cases "\<exists>f. ud_files d (source_of dir ?a) = Some (Regular f)")
    case False
    then show ?thesis using d by (auto intro!: spec_fail split: option.splits entry.splits)
  next
    case True
    then obtain f where f: "ud_files d (source_of dir ?a) = Some (Regular f)" by blast
    then have src: "source_data old dir ?a = uf_data f" using d stage_known [of d old dir ?a f] by (simp add: at_rest_def)
    define R where "R d' \<longleftrightarrow> at_rest old d' \<and> staged_upto old dir i as k (ud_tx d') \<and> ud_tx d' (i, Staging, k) = Some (uf_data f)" for d'
    have c: "spec (\<lambda>d'. d' = d) (copyFileSync (uf_data f) (i, Staging, k)) (\<lambda>_. R) (at_rest old) (at_rest old)"
      by (rule spec_copy) (use d in \<open>auto simp: R_def at_rest_def staged_upto_def\<close>)
    have R: "?st (Suc k) d'" if "R d'" "concat (map hex_byte (sha256 (uf_data f))) = ua_sha ?a" for d'
      using that src by (auto simp: R_def staged_upto_def digest_ok_def less_Suc_eq)
    have q: "at_rest old d'" if "R d'" for d' using that by (simp add: R_def)
    have r: "spec R (run_binary (i, Staging, k) (verify_args ?a)) (\<lambda>_. R) (at_rest old) (at_rest old)"
      by (rule spec_post [OF spec_run]) (auto simp: R_def at_rest_def)
    show ?thesis unfolding f option.case entry.case Let_def
      by (rule spec_bind [OF c]) (auto intro!: spec_fail spec_return spec_bind [OF r] simp: R q)
  qed
  show ?thesis unfolding stage_artifact_def source_of_def [symmetric] prod.case Let_def [of "source_of dir ?a"]
    by (rule spec_get) (use body in simp)
qed

lemma spec_stage_all:
  "spec (at_rest old) (stageUpgradeArtifacts dec i dir as)
     (\<lambda>_ d. at_rest old d \<and> staged_upto old dir i as (length as) (ud_tx d)) (at_rest old) (at_rest old)"
proof -
  let ?I = "\<lambda>(ys :: (string \<times> string) list) d. at_rest old d \<and> staged_upto old dir i as (length ys) (ud_tx d)"
  have "spec (?I []) (up_each (stage_artifact dec i dir) (enumerate 0 as)) ?I (at_rest old) (at_rest old)"
    by (rule spec_each [where I = ?I]) (use spec_stage in \<open>auto simp: nth_enumerate_eq\<close>)
  from spec_each_length [OF this] have e: "spec (at_rest old) (up_each (stage_artifact dec i dir) (enumerate 0 as))
      (\<lambda>_ d. at_rest old d \<and> staged_upto old dir i as (length as) (ud_tx d)) (at_rest old) (at_rest old)"
    by (rule spec_post [OF spec_pre]) (auto simp: staged_upto_def)
  show ?thesis unfolding stageUpgradeArtifacts_def
    by (rule spec_bind [OF spec_sync], simp, rule spec_bind [OF e], rule spec_bind [OF spec_sync], simp, rule spec_return)
qed

lemma backup_ok_mono: "backup_ok old a b tx \<Longrightarrow> tx key = None \<Longrightarrow> backup_ok old a b (tx(key \<mapsto> x))"
  by (auto simp: backup_ok_def split: option.splits entry.splits)

text \<open>Everything is staged and the first backups are made.\<close>

definition backed :: "(string \<Rightarrow> entry option) \<Rightarrow> string \<Rightarrow> string \<Rightarrow> upgradeArtifact list \<Rightarrow> upgradeBackup list \<Rightarrow> udisk \<Rightarrow> bool" where
  "backed old dir i as bs d \<longleftrightarrow> at_rest old d \<and> staged_upto old dir i as (length as) (ud_tx d) \<and>
     (\<forall>k < length bs. backup_ok old (as ! k) (bs ! k) (ud_tx d))"

lemma backed_copy:
  assumes "backed old dir i as bs d" "ud_tx d (i, Backup, k) = None"
  shows "backed old dir i as bs (d\<lparr>ud_tx := (ud_tx d)((i, Backup, k) \<mapsto> x)\<rparr>)"
  using assms by (auto simp: backed_def at_rest_def staged_upto_def intro: backup_ok_mono)

lemma spec_backup:
  assumes "k < length as" "length bs = k"
  shows "spec (backed old dir i as bs) (backup_target i (k, as ! k)) (\<lambda>b. backed old dir i as (bs @ [b])) (at_rest old) (at_rest old)"
proof -
  let ?a = "as ! k"
  have q: "at_rest old d" if "backed old dir i as bs d" for d using that by (simp add: backed_def)
  have add: "backed old dir i as (bs @ [b]) d" if "backed old dir i as bs d" "backup_ok old ?a b (ud_tx d)" for b d
    using that assms by (auto simp: backed_def nth_append less_Suc_eq)
  have body: "spec (\<lambda>d'. d' = d)
      (case ud_files d (ua_target ?a) of
         None \<Rightarrow> up_return \<lparr>ub_target = ua_target ?a, ub_copy = (i, Backup, k), ub_existed = False, ub_mode = 0\<rparr>
       | Some (Regular f) \<Rightarrow>
           up_bind (copyFileSync (uf_data f) (i, Backup, k)) (\<lambda>_.
             up_return \<lparr>ub_target = ua_target ?a, ub_copy = (i, Backup, k), ub_existed = True, ub_mode = uf_mode f\<rparr>)
       | Some _ \<Rightarrow> up_fail ''upgrade target must be a regular file'')
      (\<lambda>b. backed old dir i as (bs @ [b])) (at_rest old) (at_rest old)"
    if d: "backed old dir i as bs d" for d
  proof (cases "ud_files d (ua_target ?a)")
    case None
    then have "old (ua_target ?a) = None" using q [OF d] by (simp add: at_rest_def)
    then show ?thesis unfolding None option.case using d add by (auto intro!: spec_return simp: backup_ok_def)
  next
    case (Some e)
    show ?thesis
    proof (cases e)
      case (Regular f)
      then have o: "old (ua_target ?a) = Some (Regular f)" using Some q [OF d] by (simp add: at_rest_def)
      define R where "R d' \<longleftrightarrow> backed old dir i as bs d' \<and> ud_tx d' (i, Backup, k) = Some (uf_data f)" for d'
      have c: "spec (\<lambda>d'. d' = d) (copyFileSync (uf_data f) (i, Backup, k)) (\<lambda>_. R) (at_rest old) (at_rest old)"
        by (rule spec_copy) (use d q backed_copy [OF d, of k "uf_data f"] in \<open>auto simp: R_def\<close>)
      show ?thesis unfolding Some Regular option.case entry.case
        by (rule spec_bind [OF c]) (auto intro!: spec_return add simp: R_def backup_ok_def o)
    qed (use Some d q in \<open>auto intro!: spec_fail\<close>)
  qed
  have "spec (backed old dir i as bs) (step ''inspect upgrade target'' id) (\<lambda>_. backed old dir i as bs) (at_rest old) (at_rest old)"
    by (rule spec_post [OF spec_quiet]) (auto simp: q)
  then show ?thesis unfolding backup_target_def prod.case by (rule spec_bind) (rule spec_get, rule body)
qed

lemma spec_backup_all:
  "spec (\<lambda>d. at_rest old d \<and> staged_upto old dir i as (length as) (ud_tx d)) (backupUpgradeTargets i as)
     (\<lambda>bs d. backed old dir i as bs d \<and> length bs = length as) (at_rest old) (at_rest old)"
proof -
  let ?P = "\<lambda>d. at_rest old d \<and> staged_upto old dir i as (length as) (ud_tx d)"
  have "spec (backed old dir i as []) (up_each (backup_target i) (enumerate 0 as)) (backed old dir i as) (at_rest old) (at_rest old)"
    by (rule spec_each [where I = "backed old dir i as"]) (use spec_backup in \<open>auto simp: nth_enumerate_eq\<close>)
  from spec_each_length [OF this]
  have e: "spec ?P (up_each (backup_target i) (enumerate 0 as)) (\<lambda>bs d. backed old dir i as bs d \<and> length bs = length as) (at_rest old) (at_rest old)"
    by (rule spec_post [OF spec_pre]) (auto simp: backed_def)
  show ?thesis unfolding backupUpgradeTargets_def
    by (rule spec_bind [OF spec_sync [of ?P]], simp, rule spec_bind [OF e], rule spec_bind [OF spec_sync], simp add: backed_def, rule spec_return)
qed

section \<open>Switching\<close>

lemma journal_ok_phase [simp]: "journal_ok old as (j\<lparr>uj_phase := ph\<rparr>) tx = journal_ok old as j tx"
  by (simp add: journal_ok_def)

lemma spec_ex: "(\<And>x. C x \<Longrightarrow> spec (P x) m Q E D) \<Longrightarrow> spec (\<lambda>d. \<exists>x. C x \<and> P x d) m Q E D"
  unfolding spec_def by blast

text \<open>The journal on the disk is the one of \<open>j\<close> in some phase before the commit.\<close>

definition undecided :: "(string \<Rightarrow> entry option) \<Rightarrow> string \<Rightarrow> upgradeArtifact list \<Rightarrow> upgradeJournal \<Rightarrow> udisk \<Rightarrow> bool" where
  "undecided old dir as j d \<longleftrightarrow> (\<exists>ph. ph \<noteq> Committed \<and> rolling old dir as j (Some (Some (j\<lparr>uj_phase := ph\<rparr>))) d)"

lemma undecided_inv: "undecided old dir as j d \<Longrightarrow> upgrade_inv old dir as d"
  by (auto simp: undecided_def rolling_def upgrade_inv_def)

definition switching :: "(string \<Rightarrow> entry option) \<Rightarrow> string \<Rightarrow> upgradeArtifact list \<Rightarrow> upgradeJournal \<Rightarrow> upgrade_phase \<Rightarrow> nat \<Rightarrow> udisk \<Rightarrow> bool" where
  "switching old dir as j ph n d \<longleftrightarrow> rolling old dir as j (Some (Some (j\<lparr>uj_phase := ph\<rparr>))) d \<and>
     staged_upto old dir (uj_id j) as (length as) (ud_tx d) \<and>
     (\<forall>k < n. ud_files d (ua_target (as ! k)) = new_files old dir as (ua_target (as ! k)))"

lemma switching_undecided: "switching old dir as j ph n d \<Longrightarrow> ph \<noteq> Committed \<Longrightarrow> undecided old dir as j d"
  by (auto simp: switching_def undecided_def)

lemma switching_all: "switching old dir as j ph (length as) d \<Longrightarrow> ud_files d = new_files old dir as"
  by (rule mixed_new) (auto simp: switching_def rolling_def in_set_conv_nth)

lemma spec_install:
  assumes "distinct (map ua_target as)" "k < length as" "ph \<noteq> Committed"
  shows "spec (switching old dir as j ph k) (atomicInstallFile (uj_id j, Staging, k) (ua_target (as ! k)) (mode_of (as ! k)))
    (\<lambda>_. switching old dir as j ph (Suc k)) (undecided old dir as j) (undecided old dir as j)"
  unfolding atomicInstallFile_def
proof (rule spec_get)
  fix d assume d: "switching old dir as j ph k d"
  let ?t = "ua_target (as ! k)" and ?e = "Regular \<lparr>uf_data = source_data old dir (as ! k), uf_mode = mode_of (as ! k)\<rparr>"
  have tx: "ud_tx d (uj_id j, Staging, k) = Some (source_data old dir (as ! k))"
    using d assms(2) by (simp add: switching_def staged_upto_def)
  have e: "Some ?e = new_files old dir as ?t" using new_files_target [OF assms(1), of "as ! k"] assms(2) by (simp add: new_entry_def)
  have "mixed old dir as ((ud_files d)(?t := Some ?e))"
    using d unfolding e switching_def rolling_def mixed_def by (metis fun_upd_apply)
  then have s: "switching old dir as j ph (Suc k) (d\<lparr>ud_files := (ud_files d)(?t \<mapsto> ?e)\<rparr>)"
    using d e by (auto simp: switching_def rolling_def less_Suc_eq)
  have u: "undecided old dir as j d" "undecided old dir as j (d\<lparr>ud_files := (ud_files d)(?t \<mapsto> ?e)\<rparr>)"
    using switching_undecided assms(3) d s by blast+
  show "spec (\<lambda>d'. d' = d)
     (case ud_tx d (uj_id j, Staging, k) of None \<Rightarrow> up_fail ''open source''
      | Some data \<Rightarrow> if ud_files d ?t = Some Directory then up_fail ''rename''
          else step ''install'' (\<lambda>d. d\<lparr>ud_files := (ud_files d)(?t \<mapsto> Regular \<lparr>uf_data = data, uf_mode = mode_of (as ! k)\<rparr>)\<rparr>))
     (\<lambda>_. switching old dir as j ph (Suc k)) (undecided old dir as j) (undecided old dir as j)"
    unfolding tx option.case using s u by (cases "ud_files d ?t = Some Directory") (auto intro!: spec_fail spec_step)
qed

lemma spec_write_phase:
  assumes "ph \<noteq> Committed" "ph' \<noteq> Committed"
  shows "spec (switching old dir as j ph n) (write_journal (j\<lparr>uj_phase := ph'\<rparr>)) (\<lambda>_. switching old dir as j ph' n)
    (undecided old dir as j) (undecided old dir as j)"
proof -
  have "switching old dir as j ph' n (d\<lparr>ud_journal := Some (Some (j\<lparr>uj_phase := ph'\<rparr>))\<rparr>)" if "switching old dir as j ph n d" for d
    using that by (simp add: switching_def rolling_def)
  then show ?thesis unfolding write_journal_def using switching_undecided assms by (intro spec_step) blast+
qed

lemma spec_switch:
  assumes "distinct (map ua_target as)" "uj_artifacts j = as"
  shows "spec (switching old dir as j Prepared 0) (switch_upgrade j) (\<lambda>_. switching old dir as j Healthy (length as))
    (undecided old dir as j) (undecided old dir as j)"
proof -
  let ?u = "undecided old dir as j"
  let ?I = "\<lambda>ys :: unit list. switching old dir as j Prepared (length ys)"
  have "spec (?I []) (up_each (\<lambda>(n, a). atomicInstallFile (uj_id j, Staging, n) (ua_target a) (mode_of a)) (enumerate 0 as)) ?I ?u ?u"
    by (rule spec_each [where I = ?I]) (use spec_install [OF assms(1), of _ Prepared] in \<open>auto simp: nth_enumerate_eq\<close>)
  from spec_each_length [OF this]
  have e: "spec (switching old dir as j Prepared 0)
      (up_each (\<lambda>(n, a). atomicInstallFile (uj_id j, Staging, n) (ua_target a) (mode_of a)) (enumerate 0 as))
      (\<lambda>_. switching old dir as j Prepared (length as)) ?u ?u"
    by (rule spec_post [OF spec_pre]) auto
  have r: "spec (switching old dir as j Switched (length as)) (restartAndCheck (uj_services j) (uj_healthChecks j))
      (\<lambda>_. switching old dir as j Switched (length as)) ?u ?u"
    by (rule spec_post [OF spec_restart]) (auto simp: switching_def rolling_def intro: switching_undecided [of _ _ _ _ Switched "length as"])
  have a: "spec (switching old dir as j Prepared 0) (applyUpgrade (uj_id j) as) (\<lambda>_. switching old dir as j Prepared (length as)) ?u ?u"
    unfolding applyUpgrade_def by (rule spec_bind [OF e]) (rule spec_return, simp)
  have w: "spec (switching old dir as j ph (length as)) (write_journal (j\<lparr>uj_phase := ph'\<rparr>)) (\<lambda>_. switching old dir as j ph' (length as)) ?u ?u"
    if "ph \<noteq> Committed" "ph' \<noteq> Committed" for ph ph'
    using that by (rule spec_write_phase)
  show ?thesis unfolding switch_upgrade_def assms(2)
    by (rule spec_bind [OF a], rule spec_bind [OF w], simp, simp, rule spec_bind [OF r], rule w) simp_all
qed

section \<open>The whole upgrade\<close>

lemma inv_done: "at_rest old d \<Longrightarrow> upgrade_inv old dir as d"
  by (simp add: upgrade_inv_def at_rest_def mixed_def)

lemma inv_quiet: "upgrade_inv old dir as d \<Longrightarrow> upgrade_inv old dir as (d\<lparr>ud_audit := x\<rparr>)"
  by (auto simp: upgrade_inv_def split: option.splits)

text \<open>Committing, from new files under a healthy journal.\<close>

lemma spec_commit:
  assumes "journal_ok old as j tx"
  shows "spec (\<lambda>d. ud_files d = new_files old dir as \<and> ud_tx d = tx \<and> ud_journal d = Some (Some j))
    (up_bind (appendUpgradeAudit p i s) (\<lambda>_. up_bind (write_journal (j\<lparr>uj_phase := Committed\<rparr>)) (\<lambda>_. remove_journal)))
    (\<lambda>_. at_rest (new_files old dir as)) (upgrade_inv old dir as) (upgrade_inv old dir as)"
proof -
  let ?n = "new_files old dir as" and ?v = "upgrade_inv old dir as"
  define R where "R js d \<longleftrightarrow> ud_files d = ?n \<and> ud_tx d = tx \<and> ud_journal d = js" for js and d :: udisk
  have v: "?v d" if "R (Some (Some j')) d" "journal_ok old as j' tx" for j' d
    using that by (simp add: R_def upgrade_inv_def mixed_def)
  have a: "spec (R (Some (Some j))) (appendUpgradeAudit p i s) (\<lambda>_. R (Some (Some j))) ?v ?v"
    by (rule spec_post [OF spec_audit]) (use v assms in \<open>auto simp: R_def\<close>)
  have w: "spec (R (Some (Some j))) (write_journal (j\<lparr>uj_phase := Committed\<rparr>)) (\<lambda>_. R (Some (Some (j\<lparr>uj_phase := Committed\<rparr>)))) ?v ?v"
    unfolding write_journal_def using assms by (intro spec_step) (auto simp: R_def upgrade_inv_def mixed_def)
  have r: "spec (R (Some (Some (j\<lparr>uj_phase := Committed\<rparr>)))) remove_journal (\<lambda>_. at_rest ?n) ?v ?v"
    unfolding remove_journal_def using assms by (intro spec_step) (auto simp: R_def upgrade_inv_def mixed_def at_rest_def)
  have "spec (R (Some (Some j))) (up_bind (appendUpgradeAudit p i s) (\<lambda>_. up_bind (write_journal (j\<lparr>uj_phase := Committed\<rparr>)) (\<lambda>_. remove_journal)))
      (\<lambda>_. at_rest ?n) ?v ?v"
    by (rule spec_bind [OF a], rule spec_bind [OF w], rule r)
  then show ?thesis unfolding R_def .
qed

text \<open>Rolling back under the journal \<open>js\<close> of a phase before the commit, recording it, and removing the journal.\<close>

lemma spec_finish_rollback:
  assumes "\<And>d. rolling old dir as j js d \<Longrightarrow> upgrade_inv old dir as d"
    and "\<And>rb au. spec (\<lambda>d. case rb of Inl _ \<Rightarrow> rolling old dir as j js d | Inr _ \<Rightarrow> rolling old dir as j js d \<and> ud_files d = old) (k rb au)
      Q (upgrade_inv old dir as) (upgrade_inv old dir as)"
  shows "spec (rolling old dir as j js)
    (up_bind (up_try (rollbackUpgrade j)) (\<lambda>rb. up_bind (up_try (appendUpgradeAudit p i (st rb))) (k rb)))
    Q (upgrade_inv old dir as) (upgrade_inv old dir as)"
proof -
  let ?v = "upgrade_inv old dir as"
  let ?P = "\<lambda>(rb :: string + unit) d. case rb of Inl _ \<Rightarrow> rolling old dir as j js d | Inr _ \<Rightarrow> rolling old dir as j js d \<and> ud_files d = old"
  have r: "spec (rolling old dir as j js) (up_try (rollbackUpgrade j)) ?P ?v ?v"
    by (rule spec_try [OF spec_post [OF spec_rollback]]) (use assms(1) in auto)
  have a: "spec (?P rb) (up_try (appendUpgradeAudit p i (st rb))) (\<lambda>_. ?P rb) ?v ?v" for rb
    by (rule spec_try [OF spec_post [OF spec_audit [of "?P rb"]]])
      (use assms(1) in \<open>auto intro: rolling_quiet split: sum.splits\<close>)
  show ?thesis by (rule spec_bind [OF r], rule spec_bind [OF a], rule assms(2))
qed

lemma spec_remove_rolled:
  assumes "\<And>d. rolling old dir as j js d \<Longrightarrow> upgrade_inv old dir as d"
  shows "spec (\<lambda>d. rolling old dir as j js d \<and> ud_files d = old) (up_try remove_journal)
    (\<lambda>rm d. upgrade_inv old dir as d \<and> (\<forall>u. rm = Inr u \<longrightarrow> at_rest old d)) (upgrade_inv old dir as) (upgrade_inv old dir as)"
proof -
  have "spec (\<lambda>d. rolling old dir as j js d \<and> ud_files d = old) remove_journal (\<lambda>_. at_rest old) (upgrade_inv old dir as) (upgrade_inv old dir as)"
    unfolding remove_journal_def
    by (rule spec_step) (use assms in \<open>auto simp: at_rest_def upgrade_inv_def mixed_def\<close>)
  then show ?thesis by (rule spec_try) (auto intro: inv_done)
qed

lemma spec_abort: "spec (undecided old dir as j) (abort_upgrade j) (\<lambda>_ _. False) (upgrade_inv old dir as) (upgrade_inv old dir as)"
proof -
  have "spec (rolling old dir as j (Some (Some (j\<lparr>uj_phase := ph\<rparr>)))) (abort_upgrade j) (\<lambda>_ _. False) (upgrade_inv old dir as) (upgrade_inv old dir as)"
    if "ph \<noteq> Committed" for ph
  proof -
    have v: "upgrade_inv old dir as d" if "rolling old dir as j (Some (Some (j\<lparr>uj_phase := ph\<rparr>))) d" for d
      using undecided_inv that \<open>ph \<noteq> Committed\<close> unfolding undecided_def by blast
    show ?thesis unfolding abort_upgrade_def Let_def
    proof (rule spec_finish_rollback [OF v], assumption)
      fix rb :: "string + unit" and au :: "string + unit"
      show "spec (\<lambda>d. case rb of Inl _ \<Rightarrow> rolling old dir as j (Some (Some (j\<lparr>uj_phase := ph\<rparr>))) d
           | Inr _ \<Rightarrow> rolling old dir as j (Some (Some (j\<lparr>uj_phase := ph\<rparr>))) d \<and> ud_files d = old)
         (case rb of Inl _ \<Rightarrow> up_fail ''upgrade failed, rollback failed''
          | Inr _ \<Rightarrow> up_bind (up_try remove_journal) (\<lambda>rm.
             up_fail (if isl rm then ''upgrade failed, rollback failed'' else ''upgrade failed and was rolled back'')))
         (\<lambda>_ _. False) (upgrade_inv old dir as) (upgrade_inv old dir as)"
        using v by (cases rb) (auto intro!: spec_fail spec_bind [OF spec_remove_rolled])
    qed
  qed
  then show ?thesis unfolding undecided_def by (rule spec_ex)
qed

lemma spec_pure: "(\<And>d. P d \<Longrightarrow> C) \<Longrightarrow> (C \<Longrightarrow> spec P m Q E D) \<Longrightarrow> spec P m Q E D"
  unfolding spec_def by blast

lemma quiet_audit: "at_rest old d \<Longrightarrow> at_rest old (d\<lparr>ud_audit := x\<rparr>)" "at_rest old d \<Longrightarrow> at_rest old (d\<lparr>ud_ran := y\<rparr>)"
  by (simp_all add: at_rest_def)

lemma spec_reject: "spec (at_rest old) (up_bind (up_try (appendUpgradeAudit p i ''rejected'')) (\<lambda>_. up_fail e)) Q (upgrade_inv old dir as) (upgrade_inv old dir as)"
proof -
  have "spec (at_rest old) (up_try (appendUpgradeAudit p i ''rejected'')) (\<lambda>_. at_rest old) (upgrade_inv old dir as) (upgrade_inv old dir as)"
    by (rule spec_try [OF spec_post [OF spec_audit]]) (auto intro: quiet_audit inv_done)
  then show ?thesis by (rule spec_bind) (auto intro!: spec_fail inv_done)
qed

lemma spec_healthy_commit:
  assumes "uj_artifacts j = as"
  shows "spec (switching old dir as j Healthy (length as))
    (up_bind (appendUpgradeAudit (uj_auditLog j) (uj_id j) ''committed'') (\<lambda>_. up_bind (write_journal (j\<lparr>uj_phase := Committed\<rparr>)) (\<lambda>_. remove_journal)))
    (\<lambda>_ d. at_rest (new_files old dir as) d \<and> (\<forall>a \<in> set as. digest_ok old dir a)) (upgrade_inv old dir as) (upgrade_inv old dir as)"
proof (rule spec_pure)
  show "\<forall>a \<in> set as. digest_ok old dir a" if "switching old dir as j Healthy (length as) d" for d
    using that by (auto simp: switching_def staged_upto_def in_set_conv_nth)
next
  assume dg: "\<forall>a \<in> set as. digest_ok old dir a"
  let ?h = "j\<lparr>uj_phase := Healthy\<rparr>"
  have "spec (\<lambda>d. \<exists>tx. journal_ok old as ?h tx \<and> (ud_files d = new_files old dir as \<and> ud_tx d = tx \<and> ud_journal d = Some (Some ?h)))
      (up_bind (appendUpgradeAudit (uj_auditLog j) (uj_id j) ''committed'') (\<lambda>_. up_bind (write_journal (?h\<lparr>uj_phase := Committed\<rparr>)) (\<lambda>_. remove_journal)))
      (\<lambda>_. at_rest (new_files old dir as)) (upgrade_inv old dir as) (upgrade_inv old dir as)"
    by (rule spec_ex) (rule spec_commit)
  then show "spec (switching old dir as j Healthy (length as))
    (up_bind (appendUpgradeAudit (uj_auditLog j) (uj_id j) ''committed'') (\<lambda>_. up_bind (write_journal (j\<lparr>uj_phase := Committed\<rparr>)) (\<lambda>_. remove_journal)))
    (\<lambda>_ d. at_rest (new_files old dir as) d \<and> (\<forall>a \<in> set as. digest_ok old dir a)) (upgrade_inv old dir as) (upgrade_inv old dir as)"
    using dg by (auto elim!: spec_post [OF spec_pre] dest: switching_all simp: switching_def rolling_def)
qed

text \<open>A transaction: a result means that all files are new, with the digests of the manifest; otherwise, and after
  the death of the process at any point, the invariant holds.\<close>

lemma spec_transaction:
  assumes "distinct (map ua_target (um_artifacts m))"
  shows "spec (at_rest old) (run_transaction dec stateDir i dir m)
    (\<lambda>_ d. at_rest (new_files old dir (um_artifacts m)) d \<and> (\<forall>a \<in> set (um_artifacts m). digest_ok old dir a))
    (upgrade_inv old dir (um_artifacts m)) (upgrade_inv old dir (um_artifacts m))"
proof -
  let ?as = "um_artifacts m" and ?v = "upgrade_inv old dir (um_artifacts m)"
  let ?st = "\<lambda>d. at_rest old d \<and> staged_upto old dir i ?as (length ?as) (ud_tx d)"
  let ?Q = "\<lambda>(_ :: unit) d. at_rest (new_files old dir ?as) d \<and> (\<forall>a \<in> set ?as. digest_ok old dir a)"
  have checks: "spec ?st (runUpgradeConfigChecks stateDir i m) (\<lambda>_. ?st) ?st ?st"
    unfolding runUpgradeConfigChecks_def
    by (rule spec_bind [OF spec_each_quiet [OF spec_run]]) (auto intro: quiet_audit spec_return)
  have prep: "spec (at_rest old) (up_try (up_bind (stageUpgradeArtifacts dec i dir ?as) (\<lambda>hashes.
       up_bind (runUpgradeConfigChecks stateDir i m) (\<lambda>_. up_return hashes))))
     (\<lambda>st d. case st of Inl _ \<Rightarrow> at_rest old d | Inr _ \<Rightarrow> ?st d) ?v ?v"
  proof (rule spec_try)
    have s: "spec (at_rest old) (stageUpgradeArtifacts dec i dir ?as) (\<lambda>_. ?st) (at_rest old) ?v"
      by (rule spec_post [OF spec_stage_all]) (auto intro: inv_done)
    have c: "spec ?st (runUpgradeConfigChecks stateDir i m) (\<lambda>_. ?st) (at_rest old) ?v"
      by (rule spec_post [OF checks]) (auto intro: inv_done)
    show "spec (at_rest old) (up_bind (stageUpgradeArtifacts dec i dir ?as) (\<lambda>hashes.
       up_bind (runUpgradeConfigChecks stateDir i m) (\<lambda>_. up_return hashes))) (\<lambda>_. ?st) (at_rest old) ?v"
      by (rule spec_bind [OF s], rule spec_bind [OF c], rule spec_return)
  qed auto
  have go: "spec (\<lambda>d. backed old dir i ?as bs d \<and> length bs = length ?as)
      (up_bind (write_journal j) (\<lambda>_. up_bind (up_try (switch_upgrade j)) (\<lambda>sw. case sw of Inr _ \<Rightarrow> commit_upgrade j | Inl _ \<Rightarrow> abort_upgrade j)))
      ?Q ?v ?v"
    if j: "uj_id j = i" "uj_phase j = Prepared" "uj_artifacts j = ?as" "uj_backups j = bs" "uj_transaction j \<noteq> []" for bs j
  proof -
    have jp: "j\<lparr>uj_phase := Prepared\<rparr> = j" using j(2) by simp
    have sw0: "switching old dir ?as j Prepared 0 (d\<lparr>ud_journal := Some (Some j)\<rparr>)"
      if "backed old dir i ?as bs d" "length bs = length ?as" for d
      using that j jp by (auto simp: switching_def rolling_def backed_def at_rest_def mixed_def journal_ok_def)
    have w: "spec (\<lambda>d. backed old dir i ?as bs d \<and> length bs = length ?as) (write_journal j) (\<lambda>_. switching old dir ?as j Prepared 0) ?v ?v"
      unfolding write_journal_def
    proof (rule spec_step)
      fix d assume d: "backed old dir i ?as bs d \<and> length bs = length ?as"
      then have q: "?v d" by (auto simp: backed_def intro: inv_done)
      have s: "switching old dir ?as j Prepared 0 (d\<lparr>ud_journal := Some (Some j)\<rparr>)" using d sw0 by blast
      then show "switching old dir ?as j Prepared 0 (d\<lparr>ud_journal := Some (Some j)\<rparr>)" .
      have "?v (d\<lparr>ud_journal := Some (Some j)\<rparr>)" using switching_undecided [OF s] undecided_inv by blast
      with q show "?v d \<and> ?v (d\<lparr>ud_journal := Some (Some j)\<rparr>)" by blast
      then show "?v d \<and> ?v (d\<lparr>ud_journal := Some (Some j)\<rparr>)" .
    qed
    have s: "spec (switching old dir ?as j Prepared 0) (up_try (switch_upgrade j))
        (\<lambda>sw d. case sw of Inr _ \<Rightarrow> switching old dir ?as j Healthy (length ?as) d | Inl _ \<Rightarrow> undecided old dir ?as j d) ?v ?v"
      by (rule spec_try [OF spec_post [OF spec_switch [OF assms j(3)]]]) (auto intro: undecided_inv)
    have c: "spec (switching old dir ?as j Healthy (length ?as)) (commit_upgrade j) ?Q ?v ?v"
      unfolding commit_upgrade_def by (rule spec_healthy_commit [OF j(3)])
    have a: "spec (undecided old dir ?as j) (abort_upgrade j) ?Q ?v ?v"
      by (rule spec_post [OF spec_abort]) auto
    show ?thesis
      by (rule spec_bind [OF w], rule spec_bind [OF s]) (use c a in \<open>auto split: sum.splits\<close>)
  qed
  have bk: "spec ?st (up_try (backupUpgradeTargets i ?as))
      (\<lambda>bk d. case bk of Inl _ \<Rightarrow> at_rest old d | Inr bs \<Rightarrow> backed old dir i ?as bs d \<and> length bs = length ?as) ?v ?v"
    by (rule spec_try [OF spec_post [OF spec_backup_all]]) (auto intro: inv_done)
  show ?thesis
    unfolding run_transaction_def Let_def
    by (rule spec_bind [OF spec_sync], erule inv_done, rule spec_bind [OF prep])
      (auto split: sum.splits intro!: spec_reject spec_bind [OF bk] go)
qed

section \<open>Recovering an interrupted upgrade\<close>

definition unhealthy :: "udisk \<Rightarrow> bool" where
  "unhealthy d \<longleftrightarrow> (\<forall>j. ud_journal d = Some (Some j) \<longrightarrow> uj_phase j \<noteq> Healthy)"

lemma unhealthy_trusted: "unhealthy d \<Longrightarrow> trusted old dir as d"
  by (auto simp: unhealthy_def trusted_def split: option.splits)

text \<open>Rolling back in a recovery, under the journal \<open>j\<close> of the disk.\<close>

lemma spec_recover_rollback:
  assumes "uj_phase j \<noteq> Committed"
  shows "spec (rolling old dir as j (Some (Some j)))
    (up_bind (up_try (rollbackUpgrade j)) (\<lambda>rb. up_bind (up_try (appendUpgradeAudit p i (st rb))) (\<lambda>au.
       case rb of Inl e \<Rightarrow> up_fail e | Inr _ \<Rightarrow> up_bind (up_try remove_journal) (\<lambda>rm.
         if (\<exists>e. au = Inl e) \<or> (\<exists>e. rm = Inl e) then up_fail ''audit or journal'' else up_return ()))))
    (\<lambda>_. at_rest old) (upgrade_inv old dir as) (upgrade_inv old dir as)"
proof (rule spec_finish_rollback)
  show v: "upgrade_inv old dir as d" if "rolling old dir as j (Some (Some j)) d" for d
    using that assms by (simp add: rolling_def upgrade_inv_def)
  fix rb :: "string + unit" and au :: "string + unit"
  have last: "spec (\<lambda>d. upgrade_inv old dir as d \<and> (\<forall>u. rm = Inr u \<longrightarrow> at_rest old d))
      (if (\<exists>e. au = Inl e) \<or> (\<exists>e. rm = Inl e) then up_fail ''audit or journal'' else up_return ())
      (\<lambda>_. at_rest old) (upgrade_inv old dir as) (upgrade_inv old dir as)" for rm :: "string + unit"
    by (cases rm) (auto intro: spec_fail spec_return)
  show "spec (\<lambda>d. case rb of Inl _ \<Rightarrow> rolling old dir as j (Some (Some j)) d | Inr _ \<Rightarrow> rolling old dir as j (Some (Some j)) d \<and> ud_files d = old)
     (case rb of Inl e \<Rightarrow> up_fail e | Inr _ \<Rightarrow> up_bind (up_try remove_journal) (\<lambda>rm.
         if (\<exists>e. au = Inl e) \<or> (\<exists>e. rm = Inl e) then up_fail ''audit or journal'' else up_return ()))
     (\<lambda>_. at_rest old) (upgrade_inv old dir as) (upgrade_inv old dir as)"
  proof (cases rb)
    case (Inr u)
    show ?thesis unfolding Inr sum.case by (rule spec_bind [OF spec_remove_rolled [OF v] last])
  qed (auto intro: spec_fail v)
qed

definition recovered :: "(string \<Rightarrow> entry option) \<Rightarrow> string \<Rightarrow> upgradeArtifact list \<Rightarrow> udisk \<Rightarrow> bool" where
  "recovered old dir as d \<longleftrightarrow> ud_journal d = None \<and> (ud_files d = old \<or> ud_files d = new_files old dir as)"

lemma recovered_quiet: "at_rest old d \<Longrightarrow> recovered old dir as d" "at_rest (new_files old dir as) d \<Longrightarrow> recovered old dir as d"
  by (simp_all add: at_rest_def recovered_def)

lemma recovered_inv: "recovered old dir as d \<Longrightarrow> upgrade_inv old dir as d"
  by (auto simp: recovered_def upgrade_inv_def mixed_def)

lemma spec_recover_from:
  assumes ph: "uj_phase j \<noteq> Committed"
  shows "spec (\<lambda>d. upgrade_inv old dir as d \<and> trusted old dir as d \<and> ud_journal d = Some (Some j)) (recover_from j)
    (\<lambda>_. recovered old dir as) (upgrade_inv old dir as) (upgrade_inv old dir as)"
proof -
  let ?v = "upgrade_inv old dir as"
  define P where "P d \<longleftrightarrow> ?v d \<and> trusted old dir as d \<and> ud_journal d = Some (Some j)" for d
  have roll: "rolling old dir as j (Some (Some j)) d" if "P d" for d
    using that by (auto simp: P_def upgrade_inv_def rolling_def)
  define H where "H healthy d \<longleftrightarrow> P d \<and> (healthy \<longrightarrow> uj_phase j = Healthy)" for healthy d
  have h: "spec P (if uj_phase j = Healthy
      then up_bind (up_try (check_health (uj_services j) (uj_healthChecks j))) (\<lambda>r. up_return (case r of Inr _ \<Rightarrow> True | Inl _ \<Rightarrow> False))
      else up_return False) H ?v ?v"
  proof (cases "uj_phase j = Healthy")
    case True
    have "spec P (up_try (check_health (uj_services j) (uj_healthChecks j))) (\<lambda>_. P) ?v ?v"
      by (rule spec_try [OF spec_post [OF spec_health]]) (auto simp: P_def)
    then show ?thesis using True by (auto intro!: spec_bind spec_return simp: H_def)
  qed (auto intro: spec_return simp: H_def)
  have commit: "spec (H True) (up_bind (appendUpgradeAudit (uj_auditLog j) (uj_id j) ''committed_after_recovery'') (\<lambda>_.
      up_bind (write_journal (j\<lparr>uj_phase := Committed\<rparr>)) (\<lambda>_. remove_journal))) (\<lambda>_. recovered old dir as) ?v ?v"
  proof -
    have t: "\<exists>tx. journal_ok old as j tx \<and> (ud_files d = new_files old dir as \<and> ud_tx d = tx \<and> ud_journal d = Some (Some j))"
      if "H True d" for d
      using that by (auto simp: H_def P_def upgrade_inv_def trusted_def)
    have c: "spec (\<lambda>d. \<exists>tx. journal_ok old as j tx \<and> (ud_files d = new_files old dir as \<and> ud_tx d = tx \<and> ud_journal d = Some (Some j)))
      (up_bind (appendUpgradeAudit (uj_auditLog j) (uj_id j) ''committed_after_recovery'') (\<lambda>_.
      up_bind (write_journal (j\<lparr>uj_phase := Committed\<rparr>)) (\<lambda>_. remove_journal))) (\<lambda>_. at_rest (new_files old dir as)) ?v ?v"
      by (rule spec_ex) (rule spec_commit)
    show ?thesis by (rule spec_post [OF spec_pre [OF c]]) (use t recovered_quiet in blast)+
  qed
  have undo: "spec (H False) (if length (uj_backups j) \<noteq> length (uj_artifacts j) \<or> uj_transaction j = [] then up_fail ''active upgrade journal is incomplete''
       else up_bind (up_try (rollbackUpgrade j)) (\<lambda>rb.
           up_bind (up_try (appendUpgradeAudit (uj_auditLog j) (uj_id j) (case rb of Inr _ \<Rightarrow> ''recovered_after_interruption'' | Inl _ \<Rightarrow> ''recovery_failed''))) (\<lambda>au.
             case rb of Inl e \<Rightarrow> up_fail e | Inr _ \<Rightarrow> up_bind (up_try remove_journal) (\<lambda>rm.
                 if (\<exists>e. au = Inl e) \<or> (\<exists>e. rm = Inl e) then up_fail ''audit or journal'' else up_return ()))))
      (\<lambda>_. recovered old dir as) ?v ?v"
    by (cases "length (uj_backups j) \<noteq> length (uj_artifacts j) \<or> uj_transaction j = []")
      (auto simp: H_def P_def intro!: spec_fail spec_post [OF spec_pre [OF spec_recover_rollback [OF ph]]] intro: recovered_quiet roll)
  have "spec P (recover_from j) (\<lambda>_. recovered old dir as) ?v ?v"
    unfolding recover_from_def isl_def Let_def
    by (rule spec_bind [OF h]) (use commit undo in \<open>auto split: if_split\<close>)
  then show ?thesis unfolding P_def .
qed

lemma spec_recover:
  "spec (\<lambda>d. upgrade_inv old dir as d \<and> trusted old dir as d) recoverInterruptedUpgrade
     (\<lambda>_. recovered old dir as) (upgrade_inv old dir as) (upgrade_inv old dir as)"
  unfolding recoverInterruptedUpgrade_def
proof (rule spec_bind [OF spec_sync], blast, rule spec_get)
  fix d assume d: "upgrade_inv old dir as d \<and> trusted old dir as d"
  show "spec (\<lambda>d'. d' = d) (case ud_journal d of None \<Rightarrow> up_return () | Some None \<Rightarrow> up_fail ''decode active upgrade journal''
      | Some (Some j) \<Rightarrow> if uj_phase j = Committed then remove_journal else recover_from j)
    (\<lambda>_. recovered old dir as) (upgrade_inv old dir as) (upgrade_inv old dir as)"
  proof (cases "ud_journal d")
    case None
    then show ?thesis using d by (auto intro!: spec_return simp: recovered_def upgrade_inv_def)
  next
    case (Some o')
    then obtain j where j: "ud_journal d = Some (Some j)" using d by (auto simp: upgrade_inv_def split: option.splits)
    show ?thesis
    proof (cases "uj_phase j = Committed")
      case True
      then have "recovered old dir as (d\<lparr>ud_journal := None\<rparr>)" "upgrade_inv old dir as d"
        using d j by (auto simp: recovered_def upgrade_inv_def)
      then show ?thesis using True j unfolding remove_journal_def by (auto intro!: spec_step dest: recovered_inv)
    next
      case False
      have "spec (\<lambda>d'. d' = d) (recover_from j) (\<lambda>_. recovered old dir as) (upgrade_inv old dir as) (upgrade_inv old dir as)"
        by (rule spec_pre [OF spec_recover_from [OF False]]) (use d j in blast)
      then show ?thesis using False j by simp
    qed
  qed
qed

text \<open>A recovery never writes a healthy journal.\<close>

lemma unhealthy_steps:
  "unhealthy d \<Longrightarrow> unhealthy (d\<lparr>ud_files := f\<rparr>)" "unhealthy d \<Longrightarrow> unhealthy (d\<lparr>ud_audit := x\<rparr>)"
  "unhealthy d \<Longrightarrow> unhealthy (d\<lparr>ud_running := r\<rparr>)" "unhealthy (d\<lparr>ud_journal := None\<rparr>)"
  by (simp_all add: unhealthy_def)

lemma spec_unhealthy_try: "spec unhealthy m (\<lambda>_. unhealthy) unhealthy unhealthy \<Longrightarrow> spec unhealthy (up_try m) (\<lambda>_. unhealthy) unhealthy unhealthy"
  by (rule spec_try)

lemma spec_unhealthy_restore: "spec unhealthy (restore b) (\<lambda>_. unhealthy) unhealthy unhealthy"
proof -
  have q: "unhealthy d \<Longrightarrow> spec (\<lambda>d'. d' = d) (step m (\<lambda>d. d\<lparr>ud_files := (ud_files d)(t := x)\<rparr>)) (\<lambda>_. unhealthy) unhealthy unhealthy" for d m t x
    by (rule spec_step) (auto intro: unhealthy_steps)
  show ?thesis unfolding restore_def atomicInstallFile_def
    by (cases "ub_existed b") (auto intro!: spec_get q spec_fail spec_return split: option.splits)
qed

lemma spec_unhealthy_rollback: "spec unhealthy (rollbackUpgrade j) (\<lambda>_. unhealthy) unhealthy unhealthy"
  unfolding rollbackUpgrade_def list_ex_iff isl_def
  by (rule spec_bind [OF spec_each_quiet [OF spec_unhealthy_try [OF spec_unhealthy_restore]]])
    (auto intro: spec_fail spec_restart unhealthy_steps)

lemma spec_unhealthy_recover: "spec unhealthy recoverInterruptedUpgrade (\<lambda>_. unhealthy) unhealthy unhealthy"
proof -
  have rm: "spec unhealthy remove_journal (\<lambda>_. unhealthy) unhealthy unhealthy"
    unfolding remove_journal_def by (rule spec_quiet) (rule unhealthy_steps)
  have fin: "spec unhealthy (up_bind (up_try remove_journal) (\<lambda>rm.
      if (\<exists>e. au = Inl e) \<or> (\<exists>e. rm = Inl e) then up_fail ''audit or journal'' else up_return ())) (\<lambda>_. unhealthy) unhealthy unhealthy"
    for au :: "string + unit"
    by (rule spec_bind [OF spec_unhealthy_try [OF rm]]) (auto intro: spec_fail spec_return)
  have au: "spec unhealthy (up_try (appendUpgradeAudit p i s)) (\<lambda>_. unhealthy) unhealthy unhealthy" for p i s
    by (rule spec_unhealthy_try [OF spec_audit]) (rule unhealthy_steps)
  have roll: "spec unhealthy (up_bind (up_try (rollbackUpgrade j)) (\<lambda>rb. up_bind (up_try (appendUpgradeAudit p i (st rb))) (\<lambda>au.
       case rb of Inl e \<Rightarrow> up_fail e | Inr _ \<Rightarrow> up_bind (up_try remove_journal) (\<lambda>rm.
         if (\<exists>e. au = Inl e) \<or> (\<exists>e. rm = Inl e) then up_fail ''audit or journal'' else up_return ()))))
      (\<lambda>_. unhealthy) unhealthy unhealthy" for j p i st
    by (rule spec_bind [OF spec_unhealthy_try [OF spec_unhealthy_rollback]], rule spec_bind [OF au])
      (auto intro: spec_fail fin split: sum.splits)
  have frm: "spec unhealthy (recover_from j) (\<lambda>_. unhealthy) unhealthy unhealthy" if "uj_phase j \<noteq> Healthy" for j
    unfolding recover_from_def isl_def if_not_P [OF that] Let_def bind_return using roll by (auto intro: spec_fail)
  show ?thesis
    unfolding recoverInterruptedUpgrade_def
  proof (rule spec_bind [OF spec_sync], blast, rule spec_get)
    fix d assume d: "unhealthy d"
    show "spec (\<lambda>d'. d' = d) (case ud_journal d of None \<Rightarrow> up_return () | Some None \<Rightarrow> up_fail ''decode active upgrade journal''
        | Some (Some j) \<Rightarrow> if uj_phase j = Committed then remove_journal else recover_from j) (\<lambda>_. unhealthy) unhealthy unhealthy"
      using d by (auto split: option.splits simp: unhealthy_def intro!: spec_return spec_fail spec_pre [OF rm] spec_pre [OF frm])
  qed
qed

section \<open>The whole upgrade\<close>

lemma validate_artifacts_distinct:
  "validate_artifacts seen as = Inr as' \<Longrightarrow> distinct (map ua_target as') \<and> set (map ua_target as') \<inter> set seen = {}"
proof (induction seen as arbitrary: as' rule: validate_artifacts.induct)
  case (2 seen a as)
  then show ?case by (fastforce simp: Let_def split: if_splits sum.splits)
qed simp

lemma validated_distinct: "validateUpgradeManifest m = Inr m' \<Longrightarrow> distinct (map ua_target (um_artifacts m'))"
  by (auto simp: validateUpgradeManifest_def Let_def dest: validate_artifacts_distinct split: if_splits sum.splits option.splits)

text \<open>A run of the upgrade over a disk without a journal.\<close>

lemma spec_execute:
  assumes v: "validateUpgradeManifest m0 = Inr m"
  shows "spec (at_rest old) (executeUpgrade dec i dir locked (Some m0))
    (\<lambda>_ d. at_rest (new_files old dir (um_artifacts m)) d \<and> (\<forall>a \<in> set (um_artifacts m). digest_ok old dir a))
    (upgrade_inv old dir (um_artifacts m)) (upgrade_inv old dir (um_artifacts m))"
proof -
  let ?v = "upgrade_inv old dir (um_artifacts m)"
  have load: "loadUpgradeManifest (Some m0) = up_return m" using v by (simp add: loadUpgradeManifest_def)
  have r: "spec (at_rest old) recoverInterruptedUpgrade (\<lambda>_. at_rest old) ?v ?v"
    unfolding recoverInterruptedUpgrade_def
    by (rule spec_bind [OF spec_sync], erule inv_done, rule spec_get) (auto simp: at_rest_def intro: spec_return)
  have "spec (at_rest old) (up_bind recoverInterruptedUpgrade (\<lambda>_. run_transaction dec stateDir i dir m))
    (\<lambda>_ d. at_rest (new_files old dir (um_artifacts m)) d \<and> (\<forall>a \<in> set (um_artifacts m). digest_ok old dir a)) ?v ?v" for stateDir
    by (rule spec_bind [OF r]) (rule spec_transaction [OF validated_distinct [OF v]])
  then show ?thesis
    unfolding executeUpgrade_def load bind_return Let_def
    by (intro spec_bind [OF spec_sync]) (auto intro: inv_done spec_fail)
qed

text \<open>Recoveries in turn, each with its own faults and health checks, whatever they return.\<close>

fun recoveries :: "(fault list \<times> round list list) list \<Rightarrow> udisk \<Rightarrow> udisk" where
  "recoveries [] d = d"
| "recoveries ((fs, rs) # xs) d = recoveries xs (uw_disk (snd (recoverInterruptedUpgrade \<lparr>uw_disk = d, uw_faults = fs, uw_rounds = rs\<rparr>)))"

lemma ends_disk: "ends (\<lambda>_. P) P P r \<Longrightarrow> P (uw_disk (snd r))"
  by (auto simp: ends_def split: prod.splits res.splits)

lemma spec_disk: "spec P m (\<lambda>_. R) R R \<Longrightarrow> P (uw_disk w) \<Longrightarrow> R (uw_disk (snd (m w)))"
  unfolding spec_def by (blast intro: ends_disk)

lemma recoveries_inv:
  "upgrade_inv old dir as d \<Longrightarrow> unhealthy d \<Longrightarrow> upgrade_inv old dir as (recoveries xs d) \<and> unhealthy (recoveries xs d)"
proof (induction xs arbitrary: d)
  case (Cons x xs)
  obtain fs rs where x: "x = (fs, rs)" by (cases x)
  let ?w = "\<lparr>uw_disk = d, uw_faults = fs, uw_rounds = rs\<rparr>"
  have "upgrade_inv old dir as (uw_disk (snd (recoverInterruptedUpgrade ?w)))"
    by (rule spec_disk [OF spec_post [OF spec_recover]]) (use Cons.prems unhealthy_trusted in \<open>auto intro: recovered_inv\<close>)
  moreover have "unhealthy (uw_disk (snd (recoverInterruptedUpgrade ?w)))"
    by (rule spec_disk [OF spec_unhealthy_recover]) (use Cons.prems in simp)
  ultimately show ?case using Cons.IH x by simp
qed simp

lemma recover_done:
  assumes "upgrade_inv old dir as (uw_disk w)" "trusted old dir as (uw_disk w)" "recoverInterruptedUpgrade w = (Done (), w')"
  shows "recovered old dir as (uw_disk w')"
  using spec_recover [of old dir as] assms unfolding spec_def ends_def by fastforce

section \<open>Progress\<close>

text \<open>\<open>completes P m Q\<close>: without faults, \<open>m\<close> returns from every world with \<open>P\<close>, in a world with \<open>Q\<close>.\<close>

definition completes :: "(uworld \<Rightarrow> bool) \<Rightarrow> 'a up \<Rightarrow> ('a \<Rightarrow> uworld \<Rightarrow> bool) \<Rightarrow> bool" where
  "completes P m Q \<longleftrightarrow> (\<forall>w. uw_faults w = [] \<and> P w \<longrightarrow> (\<exists>a w'. m w = (Done a, w') \<and> uw_faults w' = [] \<and> Q a w'))"

lemma completesD: "completes P m Q \<Longrightarrow> uw_faults w = [] \<Longrightarrow> P w \<Longrightarrow> \<exists>a w'. m w = (Done a, w') \<and> uw_faults w' = [] \<and> Q a w'"
  by (simp add: completes_def)

lemma completes_return: "(\<And>w. P w \<Longrightarrow> Q x w) \<Longrightarrow> completes P (up_return x) Q"
  by (simp add: completes_def up_return_def)

lemma completes_bind: "completes P m R \<Longrightarrow> (\<And>a. completes (R a) (k a) Q) \<Longrightarrow> completes P (up_bind m k) Q"
  unfolding completes_def up_bind_def by fastforce

lemma completes_pre: "completes P' m Q \<Longrightarrow> (\<And>w. P w \<Longrightarrow> P' w) \<Longrightarrow> completes P m Q"
  unfolding completes_def by blast

lemma completes_post: "completes P m Q' \<Longrightarrow> (\<And>a w. Q' a w \<Longrightarrow> Q a w) \<Longrightarrow> completes P m Q"
  unfolding completes_def by blast

lemma completes_try: "completes P m R \<Longrightarrow> (\<And>a w. R a w \<Longrightarrow> Q (Inr a) w) \<Longrightarrow> completes P (up_try m) Q"
  unfolding completes_def up_try_def by fastforce

lemma completes_bind_try: "completes P m R \<Longrightarrow> (\<And>a. completes (R a) (k (Inr a)) Q) \<Longrightarrow> completes P (up_bind (up_try m) k) Q"
  unfolding completes_def up_bind_def up_try_def by fastforce

lemma completes_get: "(\<And>d. completes (\<lambda>w. P w \<and> uw_disk w = d) (k d) Q) \<Longrightarrow> completes P (up_bind up_get k) Q"
  unfolding completes_def up_bind_def up_get_def by fastforce

lemma completes_step: "(\<And>w. P w \<Longrightarrow> Q () (on_disk f (w\<lparr>uw_faults := []\<rparr>))) \<Longrightarrow> completes P (step m f) Q"
  unfolding completes_def step_def by (simp add: Let_def on_disk_def)

lemma completes_each_from:
  "(\<And>k ys. k < length xs \<Longrightarrow> length ys = length zs + k \<Longrightarrow> completes (I ys) (f (xs ! k)) (\<lambda>y. I (ys @ [y]))) \<Longrightarrow>
   completes (I zs) (up_each f xs) (\<lambda>ys. I (zs @ ys))"
proof (induction xs arbitrary: zs)
  case Nil
  then show ?case by (auto intro: completes_return)
next
  case (Cons x xs)
  have "completes (I zs) (f x) (\<lambda>y. I (zs @ [y]))" using Cons.prems [of 0 zs] by simp
  moreover have "completes (I (zs @ [y])) (up_each f xs) (\<lambda>ys. I ((zs @ [y]) @ ys))" for y
  proof (rule Cons.IH, goal_cases)
    case (1 k ys)
    then show ?case using Cons.prems [of "Suc k" ys] by simp
  qed
  ultimately show ?case by (auto intro!: completes_bind completes_return)
qed

lemma completes_each:
  "(\<And>k ys. k < length xs \<Longrightarrow> length ys = k \<Longrightarrow> completes (I ys) (f (xs ! k)) (\<lambda>y. I (ys @ [y]))) \<Longrightarrow>
   completes (I []) (up_each f xs) (\<lambda>ys w. I ys w \<and> length ys = length xs)"
  using completes_each_from [of xs "[]" I f] up_each_length [of f xs] unfolding completes_def by fastforce

text \<open>What holds after every result holds after the result that comes.\<close>

lemma completes_spec:
  assumes "completes P m Q" "spec R m S E D" "\<And>w. P w \<Longrightarrow> R (uw_disk w)"
  shows "completes P m (\<lambda>a w. Q a w \<and> S a (uw_disk w))"
  unfolding completes_def
proof (intro allI impI)
  fix w assume w: "uw_faults w = [] \<and> P w"
  then obtain a w' where m: "m w = (Done a, w')" "uw_faults w' = []" "Q a w'" using completesD [OF assms(1)] by blast
  have "ends S E D (m w)" using assms(2,3) w by (simp add: spec_def)
  then show "\<exists>a w'. m w = (Done a, w') \<and> uw_faults w' = [] \<and> Q a w' \<and> S a (uw_disk w')" using m by (simp add: ends_def)
qed

text \<open>The next health check has a round before its deadline in which everything is up.\<close>

definition healthy_ahead :: "uworld \<Rightarrow> bool" where
  "healthy_ahead w \<longleftrightarrow> uw_rounds w \<noteq> [] \<and> (\<exists>r \<in> set (hd (uw_rounds w)). (\<forall>s. rd_active r s) \<and> (\<forall>h. rd_health r h))"

lemma healthy_ahead_disk [simp]: "healthy_ahead (on_disk f w) = healthy_ahead w" "healthy_ahead (w\<lparr>uw_faults := fs\<rparr>) = healthy_ahead w"
  by (simp_all add: healthy_ahead_def on_disk_def)

lemma on_disk_disk [simp]: "uw_disk (on_disk f w) = f (uw_disk w)"
  by (simp add: on_disk_def)

lemma checkUpgradeHealth_all: "\<exists>r \<in> set rs. (\<forall>s. rd_active r s) \<and> (\<forall>h. rd_health r h) \<Longrightarrow> checkUpgradeHealth s c rs"
  by (induction rs) (auto simp: list_all_iff)

lemma completes_health:
  assumes "\<And>w. P w \<Longrightarrow> healthy_ahead w" "\<And>w. P w \<Longrightarrow> R (uw_disk w)"
  shows "completes P (check_health s c) (\<lambda>_ w. R (uw_disk w))"
proof -
  have c: "healthy_ahead w \<Longrightarrow> uw_rounds w \<noteq> [] \<and> checkUpgradeHealth s c (hd (uw_rounds w))" for w
    by (auto simp: healthy_ahead_def intro: checkUpgradeHealth_all)
  show ?thesis
    unfolding check_health_def
    by (rule completes_bind [OF completes_step [where Q = "\<lambda>_ w. healthy_ahead w \<and> R (uw_disk w)"]])
      (use c assms in \<open>auto simp: completes_def\<close>)
qed

text \<open>After a restart every service runs with the files of the disk.\<close>

definition runs_all :: "string list \<Rightarrow> udisk \<Rightarrow> bool" where
  "runs_all services d \<longleftrightarrow> (\<forall>s \<in> set services. ud_running d s = ud_files d)"

lemma completes_restart:
  assumes "\<And>w. P w \<Longrightarrow> healthy_ahead w"
  shows "completes P (restartAndCheck services c) (\<lambda>_ w. runs_all services (uw_disk w))"
proof -
  define I where "I ys w \<longleftrightarrow> healthy_ahead w \<and> runs_all (take (length ys) services) (uw_disk w)" for ys :: "unit list" and w
  have "completes (I ys) (restart (services ! k)) (\<lambda>y. I (ys @ [y]))" if "k < length services" "length ys = k" for k ys
    unfolding restart_def
    by (rule completes_step) (use that in \<open>auto simp: I_def runs_all_def take_Suc_conv_app_nth\<close>)
  then have each: "completes (I []) (up_each restart services) (\<lambda>ys w. I ys w \<and> length ys = length services)"
    by (rule completes_each)
  have reload: "completes P (step ''daemon-reload'' id) (\<lambda>_. I [])"
    by (rule completes_step) (use assms in \<open>simp add: I_def runs_all_def\<close>)
  show ?thesis
    unfolding restartAndCheck_def
    by (rule completes_bind [OF reload], rule completes_bind [OF each], rule completes_health) (auto simp: I_def)
qed

section \<open>A recovery completes\<close>

lemma new_files_known:
  assumes "t \<in> ua_target ` set as"
  shows "\<exists>f. new_files old dir as t = Some (Regular f)"
proof (cases "find (\<lambda>a. ua_target a = t) as")
  case None
  then show ?thesis using assms by (auto simp: find_None_iff)
qed (auto simp: new_files_def new_entry_def)

lemma rolling_backup:
  assumes "rolling old dir as j js d" "b \<in> set (uj_backups j)"
  shows "ub_existed b \<Longrightarrow> ud_tx d (ub_copy b) \<noteq> None" "ud_files d (ub_target b) \<noteq> Some Directory"
proof -
  obtain n where n: "n < length as" "backup_ok old (as ! n) b (ud_tx d)"
    using assms unfolding rolling_def journal_ok_def by (metis in_set_conv_nth)
  then have t: "ub_target b \<in> ua_target ` set as" by (simp add: backup_ok_def)
  have o: "old (ub_target b) \<noteq> Some Directory" using n(2) by (auto simp: backup_ok_def split: option.splits)
  show "ub_existed b \<Longrightarrow> ud_tx d (ub_copy b) \<noteq> None" using n(2) by (auto simp: backup_ok_def split: option.splits entry.splits)
  have "ud_files d (ub_target b) = old (ub_target b) \<or> ud_files d (ub_target b) = new_files old dir as (ub_target b)"
    using assms(1) by (simp add: rolling_def mixed_def)
  then show "ud_files d (ub_target b) \<noteq> Some Directory" using o new_files_known [OF t, of old dir] by auto
qed

lemma completes_install:
  assumes "\<And>w. P w \<Longrightarrow> ud_tx (uw_disk w) source \<noteq> None \<and> ud_files (uw_disk w) target \<noteq> Some Directory"
    and "\<And>w x. P w \<Longrightarrow> Q () (on_disk (\<lambda>d. d\<lparr>ud_files := (ud_files d)(target \<mapsto> Regular \<lparr>uf_data = x, uf_mode = mode\<rparr>)\<rparr>) (w\<lparr>uw_faults := []\<rparr>))"
  shows "completes P (atomicInstallFile source target mode) Q"
  unfolding atomicInstallFile_def
proof (rule completes_get)
  fix d
  show "completes (\<lambda>w. P w \<and> uw_disk w = d) (case ud_tx d source of None \<Rightarrow> up_fail ''open source''
      | Some data \<Rightarrow> if ud_files d target = Some Directory then up_fail ''rename''
         else step ''install'' (\<lambda>d. d\<lparr>ud_files := (ud_files d)(target \<mapsto> Regular \<lparr>uf_data = data, uf_mode = mode\<rparr>)\<rparr>)) Q"
  proof (cases "\<exists>w. P w \<and> uw_disk w = d")
    case True
    then obtain x where "ud_tx d source = Some x" "ud_files d target \<noteq> Some Directory" using assms(1) by auto
    then show ?thesis using assms(2) by (auto intro: completes_step)
  qed (auto simp: completes_def)
qed

lemma completes_restore:
  assumes b: "b \<in> set (uj_backups j)"
  shows "completes (\<lambda>w. healthy_ahead w \<and> rolling old dir as j js (uw_disk w)) (restore b)
    (\<lambda>_ w. healthy_ahead w \<and> rolling old dir as j js (uw_disk w))"
proof -
  let ?P = "\<lambda>w. healthy_ahead w \<and> rolling old dir as j js (uw_disk w)"
  have "completes ?P (restore b) (\<lambda>_. healthy_ahead)"
  proof (cases "ub_existed b")
    case True
    show ?thesis unfolding restore_def if_P [OF True]
      by (rule completes_install) (use rolling_backup [OF _ b] True in auto)
  next
    case False
    have "completes (\<lambda>w. ?P w \<and> uw_disk w = d) (if ud_files d (ub_target b) = None then up_return ()
        else step ''remove new target'' (\<lambda>d. d\<lparr>ud_files := (ud_files d)(ub_target b := None)\<rparr>)) (\<lambda>_. healthy_ahead)" for d
      by (auto intro!: completes_return completes_step)
    then show ?thesis unfolding restore_def if_not_P [OF False] by (rule completes_get)
  qed
  from completes_spec [OF this spec_restore [OF b, where S = "{}" and old = old and dir = dir and as = as and js = js]]
  show ?thesis by (auto elim: completes_post)
qed

lemma completes_rollback:
  "completes (\<lambda>w. healthy_ahead w \<and> rolling old dir as j js (uw_disk w)) (rollbackUpgrade j) (\<lambda>_ w. runs_all (uj_services j) (uw_disk w))"
proof -
  let ?bs = "rev (uj_backups j)"
  define I where "I ys w \<longleftrightarrow> (healthy_ahead w \<and> rolling old dir as j js (uw_disk w)) \<and> (\<forall>r \<in> set ys. \<exists>u. r = Inr u)"
    for ys :: "(string + unit) list" and w
  have each: "completes (I ys) (up_try (restore (?bs ! k))) (\<lambda>y. I (ys @ [y]))" if k: "k < length ?bs" for k ys
  proof (cases "\<forall>r \<in> set ys. \<exists>u. r = Inr u")
    case True
    have b: "?bs ! k \<in> set (uj_backups j)" using k by (metis nth_mem set_rev)
    show ?thesis
      by (rule completes_try [OF completes_pre [OF completes_restore [OF b, where old = old and dir = dir and as = as and js = js]]])
        (use True in \<open>auto simp: I_def\<close>)
  qed (auto simp: I_def completes_def)
  have all: "completes (I []) (up_each (\<lambda>b. up_try (restore b)) ?bs) (\<lambda>ys w. I ys w \<and> length ys = length ?bs)"
    by (rule completes_each) (use each in blast)
  show ?thesis
    unfolding rollbackUpgrade_def list_ex_iff isl_def
  proof (rule completes_bind [OF completes_pre [OF all]], goal_cases)
    case (2 rs)
    show ?case
    proof (cases "\<exists>r \<in> set rs. \<exists>e. r = Inl e")
      case True
      then show ?thesis by (auto simp: I_def completes_def)
    next
      case False
      show ?thesis unfolding if_not_P [OF False] by (rule completes_restart) (simp add: I_def)
    qed
  qed (simp add: I_def)
qed

lemma completes_any_step: "completes P (step m f) (\<lambda>_ _. True)"
  by (rule completes_step) simp

text \<open>Committing takes three steps.\<close>

lemma completes_commit:
  "completes P (up_bind (appendUpgradeAudit p i s) (\<lambda>_. up_bind (write_journal j) (\<lambda>_. remove_journal))) (\<lambda>_ _. True)"
  unfolding appendUpgradeAudit_def Let_def write_journal_def remove_journal_def
  by (intro completes_bind [OF completes_any_step] completes_any_step)

lemma completes_recover_from:
  "completes (\<lambda>w. healthy_ahead w \<and> rolling old dir as j (Some (Some j)) (uw_disk w)) (recover_from j) (\<lambda>_ _. True)"
proof (cases "uj_phase j = Healthy")
  case True
  have "completes (\<lambda>w. healthy_ahead w \<and> rolling old dir as j (Some (Some j)) (uw_disk w))
      (up_bind (up_try (check_health (uj_services j) (uj_healthChecks j))) (\<lambda>r. up_return (case r of Inr _ \<Rightarrow> True | Inl _ \<Rightarrow> False)))
      (\<lambda>b w. b)"
    by (rule completes_bind_try [OF completes_health [where R = "\<lambda>_. True"]]) (auto intro: completes_return)
  then show ?thesis
    unfolding recover_from_def isl_def if_P [OF True]
    by (rule completes_bind) (auto simp: completes_def intro: completesD [OF completes_commit, simplified])
next
  case False
  have n: "length (uj_backups j) = length (uj_artifacts j) \<and> uj_transaction j \<noteq> []" if "rolling old dir as j (Some (Some j)) d" for d
    using that by (simp add: rolling_def journal_ok_def)
  have "completes (\<lambda>w. healthy_ahead w \<and> rolling old dir as j (Some (Some j)) (uw_disk w))
     (up_bind (up_try (rollbackUpgrade j)) (\<lambda>rb.
       up_bind (up_try (appendUpgradeAudit (uj_auditLog j) (uj_id j) (case rb of Inr _ \<Rightarrow> ''recovered_after_interruption'' | Inl _ \<Rightarrow> ''recovery_failed''))) (\<lambda>au.
         case rb of Inl e \<Rightarrow> up_fail e | Inr _ \<Rightarrow> up_bind (up_try remove_journal) (\<lambda>rm.
           if (\<exists>e. au = Inl e) \<or> (\<exists>e. rm = Inl e) then up_fail ''audit or journal'' else up_return ())))) (\<lambda>_ _. True)"
    unfolding appendUpgradeAudit_def Let_def remove_journal_def
    by (rule completes_bind_try [OF completes_rollback], rule completes_bind_try [OF completes_any_step], unfold sum.case,
        rule completes_bind_try [OF completes_any_step]) (simp add: completes_return)
  then show ?thesis
    unfolding recover_from_def isl_def if_not_P [OF False] bind_return Let_def
    using n by (cases "length (uj_backups j) \<noteq> length (uj_artifacts j) \<or> uj_transaction j = []") (auto simp: completes_def)
qed

lemma completes_recover:
  "completes (\<lambda>w. healthy_ahead w \<and> upgrade_inv old dir as (uw_disk w)) recoverInterruptedUpgrade (\<lambda>_ _. True)"
  unfolding recoverInterruptedUpgrade_def
proof (rule completes_bind [OF completes_step [where Q = "\<lambda>_ w. healthy_ahead w \<and> upgrade_inv old dir as (uw_disk w)"]], simp, rule completes_get)
  fix d
  show "completes (\<lambda>w. (healthy_ahead w \<and> upgrade_inv old dir as (uw_disk w)) \<and> uw_disk w = d)
    (case ud_journal d of None \<Rightarrow> up_return () | Some None \<Rightarrow> up_fail ''decode active upgrade journal''
     | Some (Some j) \<Rightarrow> if uj_phase j = Committed then remove_journal else recover_from j) (\<lambda>_ _. True)"
  proof (cases "ud_journal d")
    case (Some o')
    show ?thesis
    proof (cases o')
      case None
      then show ?thesis using Some by (auto simp: completes_def upgrade_inv_def)
    next
      case (Some j)
      have "completes (\<lambda>w. (healthy_ahead w \<and> upgrade_inv old dir as (uw_disk w)) \<and> uw_disk w = d) (recover_from j) (\<lambda>_ _. True)"
        by (rule completes_pre [OF completes_recover_from [of old dir as]])
          (use Some \<open>ud_journal d = Some o'\<close> in \<open>auto simp: upgrade_inv_def rolling_def\<close>)
      then show ?thesis
        using Some \<open>ud_journal d = Some o'\<close> by (simp add: remove_journal_def completes_any_step)
    qed
  qed (auto intro: completes_return)
qed

section \<open>An upgrade completes\<close>

text \<open>A release that can be installed: its sources are there with the digests of the manifest and readable
  configurations, and no target is a directory or a special file.\<close>

definition installable :: "(string \<Rightarrow> bytes \<Rightarrow> bool) \<Rightarrow> (string \<Rightarrow> entry option) \<Rightarrow> string \<Rightarrow> upgradeArtifact list \<Rightarrow> bool" where
  "installable decodes old dir as \<longleftrightarrow> (\<forall>a \<in> set as.
     (\<exists>f. old (source_of dir a) = Some (Regular f)) \<and> digest_ok old dir a \<and>
     validateStagedConfig decodes (ua_target a) (source_data old dir a) \<and>
     (\<forall>e. old (ua_target a) = Some e \<longrightarrow> (\<exists>f. e = Regular f)))"

text \<open>The transaction has staged \<open>s\<close> files and made \<open>b\<close> backups.\<close>

definition underway :: "string \<Rightarrow> nat \<Rightarrow> nat \<Rightarrow> uworld \<Rightarrow> bool" where
  "underway i s b w \<longleftrightarrow> healthy_ahead w \<and>
     (\<forall>n. ud_tx (uw_disk w) (i, Staging, n) = None \<longleftrightarrow> s \<le> n) \<and> (\<forall>n \<ge> b. ud_tx (uw_disk w) (i, Backup, n) = None)"

lemma underway_quiet [simp]:
  "underway i s b (on_disk (\<lambda>d. d\<lparr>ud_ran := r d\<rparr>) w) = underway i s b w"
  "underway i s b (on_disk (\<lambda>d. d\<lparr>ud_journal := jr\<rparr>) w) = underway i s b w"
  "underway i s b (on_disk (\<lambda>d. d\<lparr>ud_files := g d\<rparr>) w) = underway i s b w"
  "underway i s b (on_disk id w) = underway i s b w"
  "underway i s b (w\<lparr>uw_faults := fs\<rparr>) = underway i s b w"
  by (simp_all add: underway_def)

lemma completes_copy:
  assumes "\<And>w. P w \<Longrightarrow> ud_tx (uw_disk w) k = None"
    and "\<And>w. P w \<Longrightarrow> Q () (on_disk (\<lambda>d. d\<lparr>ud_tx := (ud_tx d)(k \<mapsto> x)\<rparr>) (w\<lparr>uw_faults := []\<rparr>))"
  shows "completes P (copyFileSync x k) Q"
  unfolding copyFileSync_def
proof (rule completes_get)
  fix d
  show "completes (\<lambda>w. P w \<and> uw_disk w = d)
    (if ud_tx d k \<noteq> None then up_fail ''file exists'' else step ''copy'' (\<lambda>d. d\<lparr>ud_tx := (ud_tx d)(k \<mapsto> x)\<rparr>)) Q"
  proof (cases "ud_tx d k")
    case None
    then show ?thesis using assms(2) by (auto intro: completes_step)
  next
    case (Some y)
    then show ?thesis using assms(1) by (fastforce simp: completes_def)
  qed
qed

lemma completes_stage:
  assumes "installable dec old dir as" "a \<in> set as"
  shows "completes (\<lambda>w. underway i n 0 w \<and> ud_files (uw_disk w) = old) (stage_artifact dec i dir (n, a))
    (\<lambda>_ w. underway i (Suc n) 0 w \<and> ud_files (uw_disk w) = old)"
proof -
  let ?Q = "\<lambda>w. underway i (Suc n) 0 w \<and> ud_files (uw_disk w) = old"
  obtain f where f: "old (source_of dir a) = Some (Regular f)" using assms by (auto simp: installable_def)
  then have data: "source_data old dir a = uf_data f" by (simp add: source_data_def)
  have ok: "concat (map hex_byte (sha256 (uf_data f))) = ua_sha a" "validateStagedConfig dec (ua_target a) (uf_data f)"
    using assms data by (auto simp: installable_def digest_ok_def)
  have copy: "completes (\<lambda>w. underway i n 0 w \<and> ud_files (uw_disk w) = old) (copyFileSync (uf_data f) (i, Staging, n)) (\<lambda>_. ?Q)"
    by (rule completes_copy) (auto simp: underway_def)
  have run: "completes ?Q (run_binary k args) (\<lambda>_. ?Q)" for k args
    unfolding run_binary_def by (rule completes_step) simp
  have rest: "completes ?Q (if verify_args a \<noteq> [] then up_bind (run_binary (i, Staging, n) (verify_args a)) (\<lambda>_. up_return x) else up_return x) (\<lambda>_. ?Q)"
    for x :: "string \<times> string"
    using completes_bind [OF run completes_return [of ?Q "\<lambda>_. ?Q"]] by (auto intro: completes_return)
  have "completes (\<lambda>w. (underway i n 0 w \<and> ud_files (uw_disk w) = old) \<and> uw_disk w = d)
     (case ud_files d (source_of dir a) of
        Some (Regular f) \<Rightarrow>
          up_bind (copyFileSync (uf_data f) (i, Staging, n)) (\<lambda>_.
            if concat (map hex_byte (sha256 (uf_data f))) \<noteq> ua_sha a then up_fail ''SHA-256 mismatch''
            else if \<not> validateStagedConfig dec (ua_target a) (uf_data f) then up_fail ''validate staged config''
            else if verify_args a \<noteq> []
            then up_bind (run_binary (i, Staging, n) (verify_args a)) (\<lambda>_. up_return (ua_target a, concat (map hex_byte (sha256 (uf_data f)))))
            else up_return (ua_target a, concat (map hex_byte (sha256 (uf_data f)))))
      | _ \<Rightarrow> up_fail ''artifact source must be a regular file'') (\<lambda>_. ?Q)" for d
  proof (cases "ud_files d = old")
    case True
    show ?thesis unfolding True f option.case entry.case
      by (rule completes_bind [OF completes_pre [OF copy]]) (use ok rest in auto)
  qed (auto simp: completes_def)
  then show ?thesis unfolding stage_artifact_def split source_of_def Let_def by (rule completes_get)
qed

lemma completes_stage_all:
  assumes "installable dec old dir as"
  shows "completes (\<lambda>w. underway i 0 0 w \<and> ud_files (uw_disk w) = old) (stageUpgradeArtifacts dec i dir as)
    (\<lambda>_ w. underway i (length as) 0 w \<and> ud_files (uw_disk w) = old)"
proof -
  let ?I = "\<lambda>n w. underway i n 0 w \<and> ud_files (uw_disk w) = old"
  have each: "completes (?I 0) (up_each (stage_artifact dec i dir) (enumerate 0 as)) (\<lambda>ys w. ?I (length as) w)"
  proof (rule completes_post [OF completes_each [where I = "\<lambda>ys. ?I (length ys)", simplified]], goal_cases)
    case (1 k ys)
    then have "enumerate 0 as ! k = (k, as ! k)" "as ! k \<in> set as" by (simp_all add: nth_enumerate_eq)
    then show ?case using completes_stage [OF assms, of "as ! k" i k] 1 by simp
  qed auto
  have sync: "completes (?I n) (step m id) (\<lambda>_. ?I n)" for n m by (rule completes_step) simp
  show ?thesis
    unfolding stageUpgradeArtifacts_def
    by (rule completes_bind [OF sync], rule completes_bind [OF each], rule completes_bind [OF sync], rule completes_return)
qed

lemma completes_backup:
  assumes "installable dec old dir as" "a \<in> set as"
  shows "completes (\<lambda>w. underway i s n w \<and> ud_files (uw_disk w) = old) (backup_target i (n, a))
    (\<lambda>_ w. underway i s (Suc n) w \<and> ud_files (uw_disk w) = old)"
proof -
  let ?P = "\<lambda>w. underway i s n w \<and> ud_files (uw_disk w) = old" and ?Q = "\<lambda>w. underway i s (Suc n) w \<and> ud_files (uw_disk w) = old"
  have pq: "underway i s n w \<Longrightarrow> underway i s (Suc n) w" for w by (simp add: underway_def)
  have reg: "old (ua_target a) = None \<or> (\<exists>f. old (ua_target a) = Some (Regular f))" using assms by (cases "old (ua_target a)") (auto simp: installable_def)
  have copy: "completes ?P (copyFileSync x (i, Backup, n)) (\<lambda>_. ?Q)" for x
    by (rule completes_copy) (auto simp: underway_def)
  have "completes (\<lambda>w. ?P w \<and> uw_disk w = d)
     (case ud_files d (ua_target a) of
        None \<Rightarrow> up_return \<lparr>ub_target = ua_target a, ub_copy = (i, Backup, n), ub_existed = False, ub_mode = 0\<rparr>
      | Some (Regular f) \<Rightarrow> up_bind (copyFileSync (uf_data f) (i, Backup, n)) (\<lambda>_.
            up_return \<lparr>ub_target = ua_target a, ub_copy = (i, Backup, n), ub_existed = True, ub_mode = uf_mode f\<rparr>)
      | Some _ \<Rightarrow> up_fail ''upgrade target must be a regular file'') (\<lambda>_. ?Q)" for d
  proof (cases "ud_files d = old")
    case True
    show ?thesis using reg unfolding True
      by (elim disjE exE) (auto intro!: completes_return completes_bind [OF completes_pre [OF copy]] pq)
  qed (auto simp: completes_def)
  then have "completes ?P (up_bind up_get (\<lambda>d. case ud_files d (ua_target a) of
        None \<Rightarrow> up_return \<lparr>ub_target = ua_target a, ub_copy = (i, Backup, n), ub_existed = False, ub_mode = 0\<rparr>
      | Some (Regular f) \<Rightarrow> up_bind (copyFileSync (uf_data f) (i, Backup, n)) (\<lambda>_.
            up_return \<lparr>ub_target = ua_target a, ub_copy = (i, Backup, n), ub_existed = True, ub_mode = uf_mode f\<rparr>)
      | Some _ \<Rightarrow> up_fail ''upgrade target must be a regular file'')) (\<lambda>_. ?Q)" by (rule completes_get)
  moreover have "completes ?P (step ''inspect upgrade target'' id) (\<lambda>_. ?P)" by (rule completes_step) simp
  ultimately show ?thesis unfolding backup_target_def split by (blast intro: completes_bind)
qed

lemma completes_backup_all:
  assumes "installable dec old dir as"
  shows "completes (\<lambda>w. underway i s 0 w \<and> ud_files (uw_disk w) = old) (backupUpgradeTargets i as)
    (\<lambda>_ w. underway i s (length as) w \<and> ud_files (uw_disk w) = old)"
proof -
  let ?I = "\<lambda>n w. underway i s n w \<and> ud_files (uw_disk w) = old"
  have each: "completes (?I 0) (up_each (backup_target i) (enumerate 0 as)) (\<lambda>ys w. ?I (length as) w)"
  proof (rule completes_post [OF completes_each [where I = "\<lambda>ys. ?I (length ys)", simplified]], goal_cases)
    case (1 k ys)
    then have "enumerate 0 as ! k = (k, as ! k)" "as ! k \<in> set as" by (simp_all add: nth_enumerate_eq)
    then show ?case using completes_backup [OF assms, of "as ! k" i s k] 1 by simp
  qed auto
  have sync: "completes (?I n) (step m id) (\<lambda>_. ?I n)" for n m by (rule completes_step) simp
  show ?thesis
    unfolding backupUpgradeTargets_def
    by (rule completes_bind [OF sync], rule completes_bind [OF each], rule completes_bind [OF sync], rule completes_return)
qed

lemma completes_checks: "completes (\<lambda>w. underway i s b w \<and> ud_files (uw_disk w) = old) (runUpgradeConfigChecks stateDir i m)
    (\<lambda>_ w. underway i s b w \<and> ud_files (uw_disk w) = old)"
proof -
  let ?P = "\<lambda>w. underway i s b w \<and> ud_files (uw_disk w) = old"
  have "completes ?P (run_binary k args) (\<lambda>_. ?P)" for k args
    unfolding run_binary_def by (rule completes_step) simp
  then have "completes ?P (up_each (\<lambda>c. run_binary (staged_for i (um_artifacts m) (cc_binary c))
       (config_check_args stateDir i (um_artifacts m) c)) (um_configChecks m)) (\<lambda>ys w. ?P w \<and> length ys = length (um_configChecks m))"
    by (intro completes_each [where I = "\<lambda>_. ?P"])
  then show ?thesis unfolding runUpgradeConfigChecks_def by (rule completes_bind) (auto intro: completes_return)
qed

text \<open>Installing: the staged files are there and no target is a directory.\<close>

lemma completes_apply:
  "completes (\<lambda>w. underway i (length as) b w \<and> (\<forall>a \<in> set as. ud_files (uw_disk w) (ua_target a) \<noteq> Some Directory)) (applyUpgrade i as)
    (\<lambda>_. healthy_ahead)"
proof -
  define P where "P w \<longleftrightarrow> underway i (length as) b w \<and> (\<forall>a \<in> set as. ud_files (uw_disk w) (ua_target a) \<noteq> Some Directory)" for w
  have "completes P ((\<lambda>(n, a). atomicInstallFile (i, Staging, n) (ua_target a) (mode_of a)) (enumerate 0 as ! k)) (\<lambda>_. P)"
    if k: "k < length as" for k
  proof -
    have e: "enumerate 0 as ! k = (k, as ! k)" using k by (simp add: nth_enumerate_eq)
    show ?thesis unfolding e split
    proof (rule completes_install)
      fix w assume w: "P w"
      then show "ud_tx (uw_disk w) (i, Staging, k) \<noteq> None \<and> ud_files (uw_disk w) (ua_target (as ! k)) \<noteq> Some Directory"
        using k by (auto simp: P_def underway_def)
      show "P (on_disk (\<lambda>d. d\<lparr>ud_files := (ud_files d)(ua_target (as ! k) \<mapsto> Regular \<lparr>uf_data = x, uf_mode = mode_of (as ! k)\<rparr>)\<rparr>) (w\<lparr>uw_faults := []\<rparr>))" for x
        using w by (auto simp: P_def)
    qed
  qed
  then have "completes P (up_each (\<lambda>(n, a). atomicInstallFile (i, Staging, n) (ua_target a) (mode_of a)) (enumerate 0 as)) (\<lambda>_. P)"
    by (intro completes_post [OF completes_each [where I = "\<lambda>_. P"]]) auto
  then show ?thesis unfolding applyUpgrade_def P_def
    by (rule completes_bind) (auto intro: completes_return simp: underway_def)
qed

lemma completes_switch:
  assumes "uj_artifacts j = as" "uj_id j = i"
  shows "completes (\<lambda>w. underway i (length as) b w \<and> (\<forall>a \<in> set as. ud_files (uw_disk w) (ua_target a) \<noteq> Some Directory)) (switch_upgrade j)
    (\<lambda>_ w. runs_all (uj_services j) (uw_disk w))"
proof -
  have w1: "completes healthy_ahead (write_journal j') (\<lambda>_. healthy_ahead)" for j'
    unfolding write_journal_def by (rule completes_step) simp
  have w2: "completes (\<lambda>w. runs_all s (uw_disk w)) (write_journal j') (\<lambda>_ w. runs_all s (uw_disk w))" for j' s
    unfolding write_journal_def by (rule completes_step) (simp add: runs_all_def)
  show ?thesis
    unfolding switch_upgrade_def assms
    by (rule completes_bind [OF completes_apply], rule completes_bind [OF w1], rule completes_bind [OF completes_restart]) (auto intro: w2)
qed

lemma completes_transaction:
  assumes ok: "installable dec old dir (um_artifacts m)"
  shows "completes (\<lambda>w. underway i 0 0 w \<and> ud_files (uw_disk w) = old) (run_transaction dec stateDir i dir m)
    (\<lambda>_ w. runs_all (um_services m) (uw_disk w))"
proof -
  let ?as = "um_artifacts m"
  let ?I = "\<lambda>s b w. underway i s b w \<and> ud_files (uw_disk w) = old"
  have mk: "completes (?I 0 0) (step ''create upgrade transaction directory'' id) (\<lambda>_. ?I 0 0)" by (rule completes_step) simp
  have prep: "completes (?I 0 0) (up_bind (stageUpgradeArtifacts dec i dir ?as) (\<lambda>hashes. up_bind (runUpgradeConfigChecks stateDir i m) (\<lambda>_. up_return hashes)))
      (\<lambda>_. ?I (length ?as) 0)"
    by (rule completes_bind [OF completes_stage_all [OF ok]], rule completes_bind [OF completes_checks], rule completes_return)
  have dirs: "\<forall>a \<in> set ?as. old (ua_target a) \<noteq> Some Directory" using ok by (auto simp: installable_def)
  have commit: "completes (\<lambda>w. runs_all s (uw_disk w)) (commit_upgrade j) (\<lambda>_ w. runs_all s (uw_disk w))" for s j
    unfolding commit_upgrade_def appendUpgradeAudit_def Let_def write_journal_def remove_journal_def
    by (rule completes_bind, rule completes_step [where Q = "\<lambda>_ w. runs_all s (uw_disk w)"], simp add: runs_all_def,
        rule completes_bind, rule completes_step [where Q = "\<lambda>_ w. runs_all s (uw_disk w)"], simp add: runs_all_def,
        rule completes_step, simp add: runs_all_def)
  have go: "completes (?I (length ?as) (length ?as)) (up_bind (write_journal j) (\<lambda>_. up_bind (up_try (switch_upgrade j)) (\<lambda>sw.
      case sw of Inr _ \<Rightarrow> commit_upgrade j | Inl _ \<Rightarrow> abort_upgrade j))) (\<lambda>_ w. runs_all (um_services m) (uw_disk w))"
    if j: "uj_artifacts j = ?as" "uj_id j = i" "uj_services j = um_services m" for j
  proof -
    have w: "completes (?I (length ?as) (length ?as)) (write_journal j)
        (\<lambda>_ w. underway i (length ?as) (length ?as) w \<and> (\<forall>a \<in> set ?as. ud_files (uw_disk w) (ua_target a) \<noteq> Some Directory))"
      unfolding write_journal_def by (rule completes_step) (use dirs in auto)
    show ?thesis
      by (rule completes_bind [OF w], rule completes_bind_try [OF completes_switch [OF j(1,2)]]) (simp add: j(3) commit)
  qed
  show ?thesis
    unfolding run_transaction_def Let_def
    by (rule completes_bind [OF mk], rule completes_bind_try [OF prep], unfold sum.case,
        rule completes_bind_try [OF completes_backup_all [OF ok]], unfold sum.case, rule go) simp_all
qed

lemma execute_inv:
  assumes "validateUpgradeManifest m0 = Inr m" "ud_journal (uw_disk w) = None" "ud_files (uw_disk w) = old"
    and "executeUpgrade dec i dir locked (Some m0) w = (r, w1)"
  shows "upgrade_inv old dir (um_artifacts m) (uw_disk w1)"
proof -
  let ?v = "upgrade_inv old dir (um_artifacts m)"
  have "spec (at_rest old) (executeUpgrade dec i dir locked (Some m0)) (\<lambda>_. ?v) ?v ?v"
    by (rule spec_post [OF spec_execute [OF assms(1)]]) (auto intro: recovered_inv recovered_quiet)
  from spec_disk [OF this, of w] show ?thesis using assms(2-4) by (simp add: at_rest_def)
qed

section \<open>Correctness\<close>

lemma hex_byte_is_hex: "list_all lower_hex (hex_byte b)"
proof -
  have "lower_hex (hex_digit n)" if "n < 16" for n
    using that by (auto simp: lower_hex_def is_digit_def hex_digit_def code_def)
  moreover have "unat b div 16 < 16" "unat b mod 16 < 16" using unat_byte_less [of b] by simp_all
  ultimately show ?thesis by (simp add: hex_byte_def)
qed

lemma digest_is_hex: "list_all lower_hex (concat (map hex_byte (sha256 x)))" "length (concat (map hex_byte (sha256 x))) = 64"
  using hex_byte_is_hex length_concat_const [of _ hex_byte 2] by (auto simp: list_all_iff hex_byte_def)

lemma TrimSpace_hex: "list_all lower_hex s \<Longrightarrow> TrimSpace s = s"
proof (cases s)
  case (Cons c t)
  assume h: "list_all lower_hex s"
  then have c: "code c < 128" "\<not> IsSpace (code c)" using Cons by (auto simp: lower_hex_def is_digit_def IsSpace_def)
  have l: "code (last s) < 128" "\<not> IsSpace (code (last s))"
    using h Cons last_in_set [of s] by (auto simp: list_all_iff lower_hex_def is_digit_def IsSpace_def)
  have "s \<noteq> []" using Cons by simp
  then have "decode_last (map code s) = (code (last s), 1)" using l by (simp add: decode_last_def Let_def last_map)
  then show ?thesis using c l Cons by (simp add: TrimSpace_def TrimLeft.simps TrimRight.simps)
qed (simp add: TrimSpace_def TrimLeft.simps TrimRight.simps)

lemma ascii_lower_hex: "list_all lower_hex s \<Longrightarrow> ascii_lower s = s"
  by (induction s) (auto simp: ascii_lower_def lower_hex_def is_digit_def)

lemma digest_normal: "ascii_lower (TrimSpace (concat (map hex_byte (sha256 x)))) = concat (map hex_byte (sha256 x))"
  using digest_is_hex(1) by (simp only: TrimSpace_hex ascii_lower_hex)

definition sample_artifact :: "string \<Rightarrow> string \<Rightarrow> bytes \<Rightarrow> upgradeArtifact" where
  "sample_artifact src target x =
     \<lparr>ua_source = src, ua_target = target, ua_sha = concat (map hex_byte (sha256 x)), ua_mode = ''0755'', ua_verify = []\<rparr>"

definition sample_release :: upgradeManifest where
  "sample_release = \<lparr>um_version = ''2'',
     um_artifacts = [sample_artifact ''bin'' ''/t/trojan-go'' [1, 2], sample_artifact ''/r/d'' ''/t/d'' [3]],
     um_services = [''trojan''], um_configChecks = [], um_healthChecks = [], um_stateDir = [], um_auditLog = [], um_healthTimeout = 30\<rparr>"

definition sample_files :: "string \<Rightarrow> entry option" where
  "sample_files = [''/r/bin'' \<mapsto> Regular \<lparr>uf_data = [1, 2], uf_mode = 420\<rparr>, ''/r/d'' \<mapsto> Regular \<lparr>uf_data = [3], uf_mode = 420\<rparr>,
     ''/t/trojan-go'' \<mapsto> Regular \<lparr>uf_data = [1], uf_mode = 493\<rparr>]"

definition sample_disk :: udisk where
  "sample_disk = \<lparr>ud_files = sample_files, ud_tx = (\<lambda>_. None), ud_journal = None, ud_audit = [], ud_running = (\<lambda>_. sample_files), ud_ran = []\<rparr>"

definition all_up :: round where
  "all_up = \<lparr>rd_active = (\<lambda>_. True), rd_health = (\<lambda>_. True)\<rparr>"

lemma sample_release_valid: "validateUpgradeManifest sample_release = Inr sample_release"
proof -
  have [simp]: "TrimSpace ''2'' = ''2''" by (rule TrimSpace_hex) (simp add: lower_hex_def is_digit_def code_def)
  have m: "parseFileMode ''0755'' = Some 493" by (simp add: parseFileMode_def is_octal_def octal_val_def code_def)
  have c: "Clean ''/t/trojan-go'' = ''/t/trojan-go''" "Clean ''/t/d'' = ''/t/d''" by code_simp+
  have "serviceNamePattern ''trojan''" by code_simp
  then show ?thesis
    by (simp add: validateUpgradeManifest_def sample_release_def sample_artifact_def digest_normal digest_is_hex m c IsAbs_def HasPrefix_def Let_def)
qed

text \<open>C5. All or nothing. An upgrade is started on an installation without an active journal, any of its steps may fail and the
  process may die at any point. If it returns success, every file is new, with the digest of the manifest, and the journal is gone.
  However it ends, without a journal the files are all old or all new; with one, a recovery that returns leaves all old or
  all new files, provided a journal that says healthy lies over new files.
\<close>

theorem upgrade_all_or_nothing:
  assumes "validateUpgradeManifest m0 = Inr m" "ud_journal (uw_disk w) = None" "ud_files (uw_disk w) = old"
    and "executeUpgrade dec i dir locked (Some m0) w = (r, w1)"
  shows "(r = Done () \<longrightarrow> ud_journal (uw_disk w1) = None \<and> ud_files (uw_disk w1) = new_files old dir (um_artifacts m) \<and>
           (\<forall>a \<in> set (um_artifacts m). digest_ok old dir a)) \<and>
     (ud_journal (uw_disk w1) = None \<longrightarrow> recovered old dir (um_artifacts m) (uw_disk w1)) \<and>
     (\<forall>w2 w3. uw_disk w2 = uw_disk w1 \<and> trusted old dir (um_artifacts m) (uw_disk w1) \<and> recoverInterruptedUpgrade w2 = (Done (), w3) \<longrightarrow>
        recovered old dir (um_artifacts m) (uw_disk w3))"
proof -
  let ?v = "upgrade_inv old dir (um_artifacts m)"
  have e: "ends (\<lambda>_ d. at_rest (new_files old dir (um_artifacts m)) d \<and> (\<forall>a \<in> set (um_artifacts m). digest_ok old dir a)) ?v ?v (r, w1)"
    using spec_execute [OF assms(1), of old dec i dir locked] assms(2-4) by (auto simp: spec_def at_rest_def)
  have v: "?v (uw_disk w1)" by (rule execute_inv [OF assms])
  then have n: "ud_journal (uw_disk w1) = None \<longrightarrow> recovered old dir (um_artifacts m) (uw_disk w1)"
    by (auto simp: recovered_def upgrade_inv_def)
  have "recovered old dir (um_artifacts m) (uw_disk w3)"
    if "uw_disk w2 = uw_disk w1" "trusted old dir (um_artifacts m) (uw_disk w1)" "recoverInterruptedUpgrade w2 = (Done (), w3)" for w2 w3
    by (rule recover_done [OF _ _ that(3)]) (use that v in simp_all)
  moreover have "r = Done () \<longrightarrow> ud_journal (uw_disk w1) = None \<and> ud_files (uw_disk w1) = new_files old dir (um_artifacts m) \<and>
      (\<forall>a \<in> set (um_artifacts m). digest_ok old dir a)"
    using e by (auto simp: ends_def at_rest_def)
  ultimately show ?thesis using n by blast
qed

text \<open>C11. An interrupted upgrade is repaired. Whatever happened to an upgrade before it was found healthy, and however many recoveries failed or
  were themselves interrupted, the next recovery whose steps succeed and whose services come up returns, removes the journal and leaves all
  old or all new files.
\<close>

theorem interrupted_upgrade_recovers:
  assumes "validateUpgradeManifest m0 = Inr m" "ud_journal (uw_disk w) = None" "ud_files (uw_disk w) = old"
    and "executeUpgrade dec i dir locked (Some m0) w = (r, w1)" "unhealthy (uw_disk w1)"
    and "uw_disk w2 = recoveries xs (uw_disk w1)" "uw_faults w2 = []" "healthy_ahead w2"
  shows "\<exists>w3. recoverInterruptedUpgrade w2 = (Done (), w3) \<and> recovered old dir (um_artifacts m) (uw_disk w3)"
proof -
  let ?v = "upgrade_inv old dir (um_artifacts m)"
  have "?v (uw_disk w1)" by (rule execute_inv [OF assms(1-4)])
  then have v2: "?v (uw_disk w2)" "unhealthy (uw_disk w2)" using recoveries_inv assms(5,6) by simp_all
  obtain w3 where "recoverInterruptedUpgrade w2 = (Done (), w3)"
    using completesD [OF completes_recover assms(7)] assms(8) v2(1) by fastforce
  then show ?thesis using recover_done [OF v2(1) unhealthy_trusted [OF v2(2)]] by blast
qed

text \<open>C12. A good release is installed. With sources that have the digests of the manifest, readable configurations, a fresh transaction and
  services that come up, an upgrade whose steps succeed returns, all files are new and every service of the manifest runs with them.
\<close>

theorem upgrade_installs_release:
  assumes "validateUpgradeManifest m0 = Inr m" "ud_journal (uw_disk w) = None" "ud_files (uw_disk w) = old"
    and "\<And>ar n. ud_tx (uw_disk w) (i, ar, n) = None" "uw_faults w = []" "healthy_ahead w"
    and "installable dec old dir (um_artifacts m)"
  shows "\<exists>w1. executeUpgrade dec i dir True (Some m0) w = (Done (), w1) \<and>
     ud_files (uw_disk w1) = new_files old dir (um_artifacts m) \<and> ud_journal (uw_disk w1) = None \<and>
     (\<forall>s \<in> set (um_services m). ud_running (uw_disk w1) s = new_files old dir (um_artifacts m))"
proof -
  define P where "P w \<longleftrightarrow> underway i 0 0 w \<and> ud_files (uw_disk w) = old \<and> ud_journal (uw_disk w) = None" for w
  have load: "loadUpgradeManifest (Some m0) = up_return m" using assms(1) by (simp add: loadUpgradeManifest_def)
  have mk: "completes P (step t id) (\<lambda>_. P)" for t by (rule completes_step) (simp add: P_def)
  have rec: "completes P recoverInterruptedUpgrade (\<lambda>_. P)"
    unfolding recoverInterruptedUpgrade_def
  proof (rule completes_bind [OF mk], rule completes_get)
    fix d
    show "completes (\<lambda>w. P w \<and> uw_disk w = d) (case ud_journal d of None \<Rightarrow> up_return () | Some None \<Rightarrow> up_fail ''decode active upgrade journal''
       | Some (Some j) \<Rightarrow> if uj_phase j = Committed then remove_journal else recover_from j) (\<lambda>_. P)"
      by (cases "ud_journal d") (auto simp: completes_def P_def up_return_def)
  qed
  have run: "completes P (run_transaction dec stateDir i dir m) (\<lambda>_ w. runs_all (um_services m) (uw_disk w))" for stateDir
    by (rule completes_pre [OF completes_transaction [OF assms(7)]]) (simp add: P_def)
  have "completes P (executeUpgrade dec i dir True (Some m0)) (\<lambda>_ w. runs_all (um_services m) (uw_disk w))"
    unfolding executeUpgrade_def load bind_return Let_def
    by (rule completes_bind [OF mk], simp only: not_True_eq_False if_False, rule completes_bind [OF rec run])
  from completes_spec [OF this spec_execute [OF assms(1), of old dec i dir True]]
  have c: "completes P (executeUpgrade dec i dir True (Some m0)) (\<lambda>_ w. runs_all (um_services m) (uw_disk w) \<and>
      at_rest (new_files old dir (um_artifacts m)) (uw_disk w))"
    by (auto simp: P_def at_rest_def elim: completes_post)
  have "P w" using assms by (simp add: P_def underway_def)
  then show ?thesis using completesD [OF c assms(5)] by (fastforce simp: runs_all_def at_rest_def)
qed

definition sample_world :: "fault list \<Rightarrow> uworld" where
  "sample_world fs = \<lparr>uw_disk = sample_disk, uw_faults = fs, uw_rounds = [[all_up]]\<rparr>"

text \<open>Single steps in a given world.\<close>

lemma step_eval:
  "step m f \<lparr>uw_disk = d, uw_faults = [], uw_rounds = rs\<rparr> = (Done (), \<lparr>uw_disk = f d, uw_faults = [], uw_rounds = rs\<rparr>)"
  "step m f \<lparr>uw_disk = d, uw_faults = Fine # fs, uw_rounds = rs\<rparr> = (Done (), \<lparr>uw_disk = f d, uw_faults = fs, uw_rounds = rs\<rparr>)"
  "step m f \<lparr>uw_disk = d, uw_faults = Fails # fs, uw_rounds = rs\<rparr> = (Failed m, \<lparr>uw_disk = d, uw_faults = fs, uw_rounds = rs\<rparr>)"
  "step m f \<lparr>uw_disk = d, uw_faults = FailsAfter # fs, uw_rounds = rs\<rparr> = (Failed m, \<lparr>uw_disk = f d, uw_faults = fs, uw_rounds = rs\<rparr>)"
  "step m f \<lparr>uw_disk = d, uw_faults = Dies # fs, uw_rounds = rs\<rparr> = (Dead, \<lparr>uw_disk = d, uw_faults = fs, uw_rounds = rs\<rparr>)"
  by (simp_all add: step_def on_disk_def)

lemmas up_eval = up_bind_def up_return_def up_fail_def up_try_def up_get_def step_eval

lemma sample_paths:
  "source_of ''/r'' (sample_artifact ''bin'' t x) = ''/r/bin''" "source_of ''/r'' (sample_artifact ''/r/d'' t x) = ''/r/d''"
  by code_simp+

lemma sample_config: "validateStagedConfig (\<lambda>_ _. True) ''/t/trojan-go'' x" "validateStagedConfig (\<lambda>_ _. True) ''/t/d'' x"
  by (simp_all add: validateStagedConfig_def filepath_Ext_def ascii_lower_def)

lemma sample_args: "verify_args (sample_artifact s ''/t/trojan-go'' x) = [''-version'']" "verify_args (sample_artifact s ''/t/d'' x) = []"
  by (simp_all add: verify_args_def sample_artifact_def) (code_simp+)

lemma sample_fields [simp]: "ua_target (sample_artifact s t x) = t" "ua_sha (sample_artifact s t x) = concat (map hex_byte (sha256 x))"
   "mode_of (sample_artifact s t x) = 493"
  by (simp_all add: sample_artifact_def mode_of_def) code_simp

definition sample_upgrade :: "fault list \<Rightarrow> unit res \<times> uworld" where
  "sample_upgrade fs = executeUpgrade (\<lambda>_ _. True) ''1'' ''/r'' True (Some sample_release) (sample_world fs)"

definition fines :: "nat \<Rightarrow> fault \<Rightarrow> fault list" where
  "fines n f = replicate n Fine @ [f]"

lemma fines_eval: "fines 15 f = [Fine, Fine, Fine, Fine, Fine, Fine, Fine, Fine, Fine, Fine, Fine, Fine, Fine, Fine, Fine, f]"
  "fines 21 f = [Fine, Fine, Fine, Fine, Fine, Fine, Fine, Fine, Fine, Fine, Fine, Fine, Fine, Fine, Fine, Fine, Fine, Fine, Fine, Fine, Fine, f]"
  by (simp_all add: fines_def eval_nat_numeral)

lemmas sample_eval = executeUpgrade_def loadUpgradeManifest_def sample_release_valid bind_return
  run_transaction_def recoverInterruptedUpgrade_def stageUpgradeArtifacts_def runUpgradeConfigChecks_def backupUpgradeTargets_def
  backup_target_def write_journal_def applyUpgrade_def atomicInstallFile_def switch_upgrade_def commit_upgrade_def appendUpgradeAudit_def
  restartAndCheck_def restart_def check_health_def recover_from_def rollbackUpgrade_def restore_def remove_journal_def
  up_eval stage_artifact_def source_of_def [symmetric] sample_paths Let_def copyFileSync_def sample_config sample_args run_binary_def

lemma sample_crash:
  "fst (sample_upgrade (fines 15 Dies)) = Dead" "unhealthy (uw_disk (snd (sample_upgrade (fines 15 Dies))))"
  "ud_files (uw_disk (snd (sample_upgrade (fines 15 Dies)))) ''/t/trojan-go'' = Some (Regular \<lparr>uf_data = [1, 2], uf_mode = 493\<rparr>)"
  "ud_files (uw_disk (snd (sample_upgrade (fines 15 Dies)))) ''/t/d'' = None"
  "uw_rounds (snd (sample_upgrade (fines 15 Dies))) = [[all_up]]"
proof -
  have "\<exists>w. sample_upgrade (fines 15 Dies) = (Dead, w) \<and> unhealthy (uw_disk w) \<and> uw_rounds w = [[all_up]] \<and>
    ud_files (uw_disk w) ''/t/trojan-go'' = Some (Regular \<lparr>uf_data = [1, 2], uf_mode = 493\<rparr>) \<and> ud_files (uw_disk w) ''/t/d'' = None"
    unfolding sample_upgrade_def executeUpgrade_def loadUpgradeManifest_def sample_release_valid option.case sum.case bind_return fines_eval
    by (simp add: sample_release_def sample_world_def sample_disk_def sample_files_def sample_eval unhealthy_def)
  then show "fst (sample_upgrade (fines 15 Dies)) = Dead" "unhealthy (uw_disk (snd (sample_upgrade (fines 15 Dies))))"
    "ud_files (uw_disk (snd (sample_upgrade (fines 15 Dies)))) ''/t/trojan-go'' = Some (Regular \<lparr>uf_data = [1, 2], uf_mode = 493\<rparr>)"
    "ud_files (uw_disk (snd (sample_upgrade (fines 15 Dies)))) ''/t/d'' = None"
    "uw_rounds (snd (sample_upgrade (fines 15 Dies))) = [[all_up]]" by fastforce+
qed

lemma sample_start: "ud_journal (uw_disk (sample_world fs)) = None" "ud_files (uw_disk (sample_world fs)) = sample_files"
  "uw_faults (sample_world fs) = fs" "ud_tx (uw_disk (sample_world fs)) k = None" "healthy_ahead (sample_world fs)"
  by (simp_all add: sample_world_def sample_disk_def healthy_ahead_def all_up_def)

lemma sample_ran: "executeUpgrade (\<lambda>_ _. True) ''1'' ''/r'' True (Some sample_release) (sample_world fs) = (fst (sample_upgrade fs), snd (sample_upgrade fs))"
  by (simp add: sample_upgrade_def)

lemma sample_after:
  assumes "upgrade_inv sample_files ''/r'' (um_artifacts sample_release) d" 
  shows "\<exists>w3. recoverInterruptedUpgrade \<lparr>uw_disk = d, uw_faults = [], uw_rounds = [[all_up]]\<rparr> = (Done (), w3)"
  using completesD [OF completes_recover [of sample_files "''/r''" "um_artifacts sample_release"], of "\<lparr>uw_disk = d, uw_faults = [], uw_rounds = [[all_up]]\<rparr>"] assms
  by (auto simp: healthy_ahead_def all_up_def)

theorem upgrade_all_or_nothing_witness:
  "recovered sample_files ''/r'' (um_artifacts sample_release) (uw_disk (snd (recoverInterruptedUpgrade
     \<lparr>uw_disk = uw_disk (snd (sample_upgrade (fines 15 Dies))), uw_faults = [], uw_rounds = [[all_up]]\<rparr>)))"
proof -
  let ?w2 = "\<lparr>uw_disk = uw_disk (snd (sample_upgrade (fines 15 Dies))), uw_faults = [], uw_rounds = [[all_up]]\<rparr>"
  have "upgrade_inv sample_files ''/r'' (um_artifacts sample_release) (uw_disk (snd (sample_upgrade (fines 15 Dies))))"
    using execute_inv [OF sample_release_valid sample_start(1,2) sample_ran] .
  from sample_after [OF this] obtain w3 where w3: "recoverInterruptedUpgrade ?w2 = (Done (), w3)" ..
  have "trusted sample_files ''/r'' (um_artifacts sample_release) (uw_disk (snd (sample_upgrade (fines 15 Dies))))"
    by (rule unhealthy_trusted [OF sample_crash(2)])
  then have "recovered sample_files ''/r'' (um_artifacts sample_release) (uw_disk w3)"
    using upgrade_all_or_nothing [OF sample_release_valid sample_start(1,2) sample_ran, of "fines 15 Dies"] w3
    by (metis uworld.select_convs(1))
  then show ?thesis using w3 by simp
qed

theorem interrupted_upgrade_recovers_witness:
  "\<exists>w3. recoverInterruptedUpgrade \<lparr>uw_disk = recoveries [([Fine, Fine, Dies], [])] (uw_disk (snd (sample_upgrade (fines 15 Dies)))),
       uw_faults = [], uw_rounds = [[all_up]]\<rparr> = (Done (), w3) \<and> recovered sample_files ''/r'' (um_artifacts sample_release) (uw_disk w3)"
  by (rule interrupted_upgrade_recovers [OF sample_release_valid sample_start(1,2) sample_ran sample_crash(2), where xs = "[([Fine, Fine, Dies], [])]"])
    (simp_all add: healthy_ahead_def all_up_def)

theorem upgrade_installs_release_witness:
  "\<exists>w1. executeUpgrade (\<lambda>_ _. True) ''1'' ''/r'' True (Some sample_release) (sample_world []) = (Done (), w1) \<and>
     ud_files (uw_disk w1) = new_files sample_files ''/r'' (um_artifacts sample_release) \<and> ud_journal (uw_disk w1) = None \<and>
     (\<forall>s \<in> set (um_services sample_release). ud_running (uw_disk w1) s = new_files sample_files ''/r'' (um_artifacts sample_release))"
proof (rule upgrade_installs_release [OF sample_release_valid sample_start(1,2,4,3,5)])
  show "installable (\<lambda>_ _. True) sample_files ''/r'' (um_artifacts sample_release)"
    by (auto simp: installable_def sample_release_def sample_paths sample_files_def digest_ok_def source_data_def sample_config)
qed

text \<open>
  A rollback does not change the phase in the journal. When a healthy upgrade is recovered while its services are down, the rollback
  that follows runs under a journal that says healthy; if it is interrupted, the next recovery that finds the services up commits the mixture
  of old and new files.
\<close>

theorem interrupted_rollback_commits_mixture:
  "let old = sample_files; as = um_artifacts sample_release;
       d = recoveries [([Fine, Fine, Fine, Dies], [[]])] (uw_disk (snd (sample_upgrade (fines 21 Dies))));
       (r, w) = recoverInterruptedUpgrade \<lparr>uw_disk = d, uw_faults = [], uw_rounds = [[all_up]]\<rparr>
   in r = Done () \<and> ud_journal (uw_disk w) = None \<and> ud_audit (uw_disk w) = [(defaultUpgradeAuditLog, ''1'', ''committed_after_recovery'')] \<and>
      ud_files (uw_disk w) ''/t/trojan-go'' \<noteq> old ''/t/trojan-go'' \<and> ud_files (uw_disk w) ''/t/d'' \<noteq> new_files old ''/r'' as ''/t/d''"
proof -
  have "new_files sample_files ''/r'' (um_artifacts sample_release) ''/t/d'' \<noteq> None"
    by (simp add: new_files_def sample_release_def)
  moreover have "let (r, w) = recoverInterruptedUpgrade \<lparr>uw_disk = recoveries [([Fine, Fine, Fine, Dies], [[]])]
         (uw_disk (snd (sample_upgrade (fines 21 Dies)))), uw_faults = [], uw_rounds = [[all_up]]\<rparr>
     in r = Done () \<and> ud_journal (uw_disk w) = None \<and> ud_audit (uw_disk w) = [(defaultUpgradeAuditLog, ''1'', ''committed_after_recovery'')] \<and>
      ud_files (uw_disk w) ''/t/trojan-go'' \<noteq> sample_files ''/t/trojan-go'' \<and> ud_files (uw_disk w) ''/t/d'' = None"
    unfolding sample_upgrade_def executeUpgrade_def loadUpgradeManifest_def sample_release_valid option.case sum.case bind_return fines_eval
    by (simp add: sample_release_def sample_world_def sample_disk_def sample_files_def sample_eval all_up_def)
  ultimately show ?thesis unfolding Let_def by (auto split: prod.splits)
qed

end
