(* ===== verification/Control_Api.thy ===== *)
theory Control_Api
  imports Memory_Stat
begin

text \<open>
  The gRPC control interface (\<open>api/service/server.go\<close>, \<open>api/service/client.go\<close>) over the authenticator, and the command line client of it
  (\<open>api/control/control.go\<close>). A message is a record with its optional parts; a stream of requests is a list with the way it ends, and
  between two accesses of the authenticator other goroutines may change it. Connections and encoding are gRPC's and not modelled.
\<close>

section \<open>Messages\<close>

record api_traffic =
  at_upload :: u64
  at_download :: u64

record api_speed =
  as_upload :: u64
  as_download :: u64

record api_user =
  au_password :: string
  au_hash :: string

record UserStatus =
  us_user :: "api_user option"
  us_trafficTotal :: "api_traffic option"
  us_speedCurrent :: "api_speed option"
  us_speedLimit :: "api_speed option"
  us_ipCurrent :: "32 word"
  us_ipLimit :: "32 word"

record GetUsersResponse =
  gr_success :: bool
  gr_info :: string
  gr_status :: "UserStatus option"

text \<open>A value of the enumeration that has no name is decoded as it is.\<close>

datatype Operation = ApiAdd | ApiDelete | ApiModify | ApiOther

record SetUsersRequest =
  sq_status :: "UserStatus option"
  sq_operation :: Operation

record SetUsersResponse =
  sr_success :: bool
  sr_info :: string

section \<open>Server\<close>

definition request_hash :: "api_user \<Rightarrow> string" where
  "request_hash u = (if au_hash u = [] then SHA224String (au_password u) else au_hash u)"

definition user_status :: "string \<Rightarrow> mem_user \<Rightarrow> UserStatus" where
  "user_status h u =
     (case (GetTraffic u, GetSpeed u, GetSpeedLimit u) of ((download, upload), (downloadSpeed, uploadSpeed), (downloadLimit, uploadLimit)) \<Rightarrow>
        \<lparr>us_user = Some \<lparr>au_password = [], au_hash = h\<rparr>,
         us_trafficTotal = Some \<lparr>at_upload = upload, at_download = download\<rparr>,
         us_speedCurrent = Some \<lparr>as_upload = uploadSpeed, as_download = downloadSpeed\<rparr>,
         us_speedLimit = Some \<lparr>as_upload = word_of_int uploadLimit, as_download = word_of_int downloadLimit\<rparr>,
         us_ipCurrent = word_of_int (int (GetIP u)), us_ipLimit = word_of_int (GetIPLimit u)\<rparr>)"

definition get_user :: "api_user \<Rightarrow> mem_auth \<Rightarrow> GetUsersResponse" where
  "get_user u a =
     (case AuthUser (request_hash u) a of
        None \<Rightarrow> \<lparr>gr_success = False, gr_info = ''invalid user: '' @ request_hash u, gr_status = None\<rparr>
      | Some p \<Rightarrow> \<lparr>gr_success = True, gr_info = [], gr_status = Some (user_status (request_hash u) (heap a ! p))\<rparr>)"

text \<open>Requests come with the authenticator at that moment and with what sending the answer returns; \<open>fin\<close> is the error at the end of the
  stream, \<open>None\<close> for its regular end. The result lists the answers that were sent.\<close>

fun GetUsers :: "go_error option \<Rightarrow> (api_user option \<times> mem_auth \<times> go_error option) list \<Rightarrow> GetUsersResponse list \<times> go_error option" where
  "GetUsers fin [] = ([], fin)"
| "GetUsers fin ((req, a, sending) # rest) =
     (case req of
        None \<Rightarrow> ([], Some (NewError ''user is unspecified''))
      | Some u \<Rightarrow>
          (case sending of
             Some e \<Rightarrow> ([], Some e)
           | None \<Rightarrow> (case GetUsers fin rest of (rs, e) \<Rightarrow> (get_user u a # rs, e))))"

fun ListUsers_api :: "mem_auth \<Rightarrow> (nat \<times> go_error option) list \<Rightarrow> UserStatus list \<times> go_error option" where
  "ListUsers_api a [] = ([], None)"
| "ListUsers_api a ((p, sending) # rest) =
     (case sending of
        Some e \<Rightarrow> ([], Some e)
      | None \<Rightarrow> (case ListUsers_api a rest of (rs, e) \<Rightarrow> (user_status (hash (heap a ! p)) (heap a ! p) # rs, e)))"

definition apply_status :: "UserStatus \<Rightarrow> mem_user \<Rightarrow> mem_user" where
  "apply_status st u =
     (let u1 = (case us_speedLimit st of None \<Rightarrow> u | Some s \<Rightarrow> SetSpeedLimit (sint (as_download s)) (sint (as_upload s)) u);
          u2 = (case us_trafficTotal st of None \<Rightarrow> u1 | Some t \<Rightarrow> SetTraffic (at_download t) (at_upload t) u1)
      in SetIPLimit (sint (us_ipLimit st)) u2)"

text \<open>\<open>common.Error.Error\<close>; another error is its message.\<close>

fun error_text :: "go_error \<Rightarrow> string" where
  "error_text (Err m None) = m"
| "error_text (Err m (Some e)) = m @ '': '' @ error_text e"
| "error_text EOF = ''EOF''"
| "error_text ErrUnexpectedEOF = ''unexpected EOF''"
| "error_text ErrClosed = ''use of closed network connection''"
| "error_text (Opaque m) = m"

definition set_answer :: "go_error option \<Rightarrow> SetUsersResponse" where
  "set_answer e = (case e of None \<Rightarrow> \<lparr>sr_success = True, sr_info = []\<rparr> | Some x \<Rightarrow> \<lparr>sr_success = False, sr_info = error_text x\<rparr>)"

text \<open>One request: \<open>Ret None\<close> is a request that is not answered. \<open>env\<close> is what others do between the two accesses of an addition.\<close>

definition set_user :: "(mem_auth \<Rightarrow> mem_auth) \<Rightarrow> SetUsersRequest \<Rightarrow> mem_auth \<Rightarrow> SetUsersResponse option outcome \<times> mem_auth" where
  "set_user env req a =
     (case sq_status req of
        None \<Rightarrow> (Raise (NewError ''status is unspecified''), a)
      | Some st \<Rightarrow>
          (case us_user st of
             None \<Rightarrow> (Panic ''nil pointer dereference'', a)
           | Some u \<Rightarrow>
               let h = request_hash u in
               (case sq_operation req of
                  ApiAdd \<Rightarrow>
                    (case AddUser h a of
                       (Some e, a1) \<Rightarrow> (Ret (Some (set_answer (Some (Base (NewError ''failed to add new user'') (Some e))))), a1)
                     | (None, a1) \<Rightarrow>
                         if us_speedLimit st = None then (Ret (Some (set_answer None)), a1)
                         else
                           let a2 = env a1 in
                           (case AuthUser h a2 of
                              None \<Rightarrow> (Ret None, a2)
                            | Some p \<Rightarrow> (Ret (Some (set_answer None)), on_user p (apply_status st) a2)))
                | ApiDelete \<Rightarrow> (case DelUser h a of (e, a1) \<Rightarrow> (Ret (Some (set_answer e)), a1))
                | ApiModify \<Rightarrow>
                    (case AuthUser h a of
                       None \<Rightarrow> (Ret (Some (set_answer (Some (NewError (''invalid user '' @ h))))), a)
                     | Some p \<Rightarrow> (Ret (Some (set_answer None)), on_user p (apply_status st) a))
                | ApiOther \<Rightarrow> (Ret (Some (set_answer None)), a))))"

text \<open>Every request comes with what others do before it and between the accesses of an addition.\<close>

fun SetUsers ::
  "go_error option \<Rightarrow> (SetUsersRequest \<times> (mem_auth \<Rightarrow> mem_auth) \<times> (mem_auth \<Rightarrow> mem_auth)) list \<Rightarrow> mem_auth \<Rightarrow>
   SetUsersResponse list \<times> unit outcome \<times> mem_auth" where
  "SetUsers fin [] a = ([], (case fin of None \<Rightarrow> Ret () | Some e \<Rightarrow> Raise e), a)"
| "SetUsers fin ((req, before, within) # rest) a =
     (case set_user within req (before a) of
        (Ret ans, a1) \<Rightarrow>
          (case SetUsers fin rest a1 of (rs, r, a2) \<Rightarrow> ((case ans of None \<Rightarrow> rs | Some x \<Rightarrow> x # rs), r, a2))
      | (Raise e, a1) \<Rightarrow> ([], Raise e, a1)
      | (Panic m, a1) \<Rightarrow> ([], Panic m, a1)
      | (Hang, a1) \<Rightarrow> ([], Hang, a1))"

text \<open>The client's own interface reports the traffic of its one user; there the meter's first counter is the upload.\<close>

record GetTrafficResponse =
  tr_success :: bool
  tr_total :: api_traffic
  tr_speed :: api_speed

definition GetTraffic_api :: "api_user option \<Rightarrow> mem_auth \<Rightarrow> GetTrafficResponse outcome" where
  "GetTraffic_api req a =
     (case req of
        None \<Rightarrow> Raise (NewError ''User is unspecified'')
      | Some u \<Rightarrow>
          (case AuthUser (request_hash u) a of
             None \<Rightarrow> Raise (NewError (''User '' @ request_hash u @ '' not found''))
           | Some p \<Rightarrow>
               (case (GetTraffic (heap a ! p), GetSpeed (heap a ! p)) of ((s, r), (ss, rs)) \<Rightarrow>
                  Ret \<lparr>tr_success = True, tr_total = \<lparr>at_upload = s, at_download = r\<rparr>,
                       tr_speed = \<lparr>as_upload = ss, as_download = rs\<rparr>\<rparr>)))"

section \<open>Command line client\<close>

record apiController =
  ac_password :: string
  ac_hash :: string
  ac_add :: bool
  ac_delete :: bool
  ac_modify :: bool
  ac_uploadSpeedLimit :: int
  ac_downloadSpeedLimit :: int
  ac_ipLimit :: int

definition controller_user :: "apiController \<Rightarrow> api_user" where
  "controller_user c = \<lparr>au_password = ac_password c, au_hash = ac_hash c\<rparr>"

definition controller_setUsers :: "apiController \<Rightarrow> SetUsersRequest outcome" where
  "controller_setUsers c =
     (let st = \<lparr>us_user = Some (controller_user c), us_trafficTotal = None, us_speedCurrent = None,
                us_speedLimit = Some \<lparr>as_upload = word_of_int (ac_uploadSpeedLimit c), as_download = word_of_int (ac_downloadSpeedLimit c)\<rparr>,
                us_ipCurrent = 0, us_ipLimit = word_of_int (ac_ipLimit c)\<rparr>
      in if ac_add c then Ret \<lparr>sq_status = Some st, sq_operation = ApiAdd\<rparr>
         else if ac_modify c then Ret \<lparr>sq_status = Some st, sq_operation = ApiModify\<rparr>
         else if ac_delete c then Ret \<lparr>sq_status = Some st, sq_operation = ApiDelete\<rparr>
         else Raise (NewError ''Invalid operation''))"

section \<open>What one request changes\<close>

lemma apply_status_hash [simp]: "hash (apply_status st u) = hash u"
  by (simp add: apply_status_def SetSpeedLimit_def SetTraffic_def SetIPLimit_def Let_def split: option.splits)

lemma sint_range: "- (2 ^ 31) \<le> n \<Longrightarrow> n < 2 ^ 31 \<Longrightarrow> sint (word_of_int n :: 32 word) = n"
  by (simp add: sint_sbintrunc' signed_take_bit_int_eq_self)

lemma sint_limit: "0 \<le> n \<Longrightarrow> n < 2 ^ 63 \<Longrightarrow> sint (word_of_int n :: u64) = n"
  by (simp add: sint_sbintrunc' signed_take_bit_int_eq_self)

lemma limits_reported:
  assumes "us_speedLimit st = Some \<lparr>as_upload = word_of_int up, as_download = word_of_int down\<rparr>"
    "0 \<le> up" "up < 2 ^ 63" "0 \<le> down" "down < 2 ^ 63" "us_ipLimit st = word_of_int n" "- (2 ^ 31) \<le> n" "n < 2 ^ 31"
  shows "us_speedLimit (user_status h (apply_status st u)) = us_speedLimit st" "us_ipLimit (user_status h (apply_status st u)) = us_ipLimit st"
proof -
  have s: "sint (word_of_int up :: u64) = up" "sint (word_of_int down :: u64) = down" "sint (word_of_int n :: 32 word) = n"
    using assms by (simp_all only: sint_limit sint_range)
  show "us_speedLimit (user_status h (apply_status st u)) = us_speedLimit st"
    using assms s by (auto simp: user_status_def apply_status_def GetSpeedLimit_def SetSpeedLimit_def SetTraffic_def SetIPLimit_def Let_def
        split: option.splits prod.splits)
  show "us_ipLimit (user_status h (apply_status st u)) = us_ipLimit st"
    using assms s by (auto simp: user_status_def apply_status_def GetIPLimit_def SetIPLimit_def Let_def split: prod.splits)
qed

lemma traffic_reported:
  "us_trafficTotal (user_status h (apply_status st u)) =
     (case us_trafficTotal st of None \<Rightarrow> us_trafficTotal (user_status h u) | Some t \<Rightarrow> Some \<lparr>at_upload = at_upload t, at_download = at_download t\<rparr>)"
  by (simp add: user_status_def apply_status_def GetTraffic_def SetSpeedLimit_def SetTraffic_def SetIPLimit_def Let_def split: option.splits prod.splits)

text \<open>Changing the object of one user leaves what is reported of the others.\<close>

lemma get_other:
  assumes "auth_inv a" "AuthUser h a = Some p" "request_hash u \<noteq> h"
  shows "get_user u (on_user p f a) = get_user u a"
proof -
  have "q \<noteq> p" if q: "AuthUser (request_hash u) a = Some q" for q
  proof
    assume "q = p"
    then have "(request_hash u, p) \<in> set (users a)" "(h, p) \<in> set (users a)" using q assms(2) by (auto dest: AuthUser_SomeD)
    then have "hash (heap a ! p) = request_hash u" "hash (heap a ! p) = h" using assms(1) by (auto simp: auth_inv_def)
    then show False using assms(3) by simp
  qed
  moreover have "AuthUser k (on_user p f a) = AuthUser k a" for k by (simp add: AuthUser_def on_user_def)
  ultimately show ?thesis by (auto simp: get_user_def on_user_def split: option.splits)
qed

lemma get_self:
  assumes "auth_inv a" "AuthUser (request_hash u) a = Some p"
  shows "get_user u (on_user p f a) =
    \<lparr>gr_success = True, gr_info = [], gr_status = Some (user_status (request_hash u) (f (heap a ! p)))\<rparr>"
proof -
  have "AuthUser (request_hash u) (on_user p f a) = Some p" using assms(2) by (simp add: AuthUser_def on_user_def)
  moreover have "p < length (heap a)" using assms by (auto simp: auth_inv_def dest: AuthUser_SomeD)
  ultimately show ?thesis by (simp add: get_user_def on_user_def)
qed

lemma AddUser_new:
  assumes "auth_inv a" "h \<notin> user_names a"
  shows "\<exists>a1 p. AddUser h a = (None, a1) \<and> auth_inv a1 \<and> AuthUser h a1 = Some p \<and> heap a1 ! p = new_user h \<and>
    (\<forall>u. request_hash u \<noteq> h \<longrightarrow> get_user u a1 = get_user u a)"
proof -
  let ?a1 = "a\<lparr>heap := heap a @ [new_user h], users := users a @ [(h, length (heap a))]\<rparr>"
  have add: "AddUser h a = (None, ?a1)" using assms(2) by (simp add: AddUser_def AuthUser_None_iff)
  moreover have "auth_inv ?a1" using AddUser_inv [OF assms(1), of h] add by simp
  moreover have "AuthUser h ?a1 = Some (length (heap a))"
  proof -
    have "map_of (users a) h = None" using assms(2) by (simp add: user_names_def map_of_eq_None_iff)
    then show ?thesis by (simp add: AuthUser_def map_add_def)
  qed
  moreover have "get_user u ?a1 = get_user u a" if "request_hash u \<noteq> h" for u
  proof -
    have "AuthUser (request_hash u) ?a1 = AuthUser (request_hash u) a"
      using that by (simp add: AuthUser_def map_add_def split: option.splits)
    moreover have "q < length (heap a)" if "AuthUser (request_hash u) a = Some q" for q
      using that assms(1) by (auto simp: auth_inv_def dest: AuthUser_SomeD)
    ultimately show ?thesis by (auto simp: get_user_def nth_append split: option.splits)
  qed
  ultimately show ?thesis by (intro exI [of _ ?a1] exI [of _ "length (heap a)"]) (simp add: nth_append)
qed

lemma set_user_inv:
  assumes "auth_inv a" "\<And>b. auth_inv b \<Longrightarrow> auth_inv (env b)"
  shows "auth_inv (snd (set_user env req a))"
proof -
  have on: "auth_inv (on_user p (apply_status st) b)" if "auth_inv b" for p st b
    by (rule on_user_inv(1) [OF that]) simp
  have add: "auth_inv (snd (AddUser h a))" "auth_inv (snd (DelUser h a))" for h
    using AddUser_inv [OF assms(1)] DelUser_inv [OF assms(1)] by simp_all
  show ?thesis
    using assms add on
    by (auto simp: set_user_def Let_def split: option.splits Operation.splits prod.splits) (metis snd_conv)+
qed

lemma SetUsers_inv:
  "auth_inv a \<Longrightarrow> (\<forall>(_, e1, e2) \<in> set reqs. \<forall>b. auth_inv b \<longrightarrow> auth_inv (e1 b) \<and> auth_inv (e2 b)) \<Longrightarrow>
   auth_inv (snd (snd (SetUsers fin reqs a)))"
proof (induction reqs arbitrary: a)
  case (Cons x reqs)
  obtain req e1 e2 where x: "x = (req, e1, e2)" by (cases x)
  have "auth_inv (snd (set_user e2 req (e1 a)))" using Cons.prems x by (intro set_user_inv) auto
  then show ?case using Cons x by (auto split: outcome.splits prod.splits) (metis snd_conv)
qed simp

section \<open>Correctness\<close>

text \<open>C35. What the command line client sets is what the server reports. An addition of a new user and a change of a known one are answered with
  success; then the server reports the speed limits and the address limit that were given, the traffic is zero for a new user and unchanged for a known one,
  what is reported of every other user is unchanged, and the authenticator keeps its invariant. The limits are those a signed number holds.\<close>

theorem api_set_then_get:
  assumes a: "auth_inv a" and req: "controller_setUsers c = Ret req"
    and h: "h = request_hash (controller_user c)" "if ac_add c then h \<notin> user_names a else ac_modify c \<and> h \<in> user_names a"
    and lim: "0 \<le> ac_uploadSpeedLimit c" "ac_uploadSpeedLimit c < 2 ^ 53" "0 \<le> ac_downloadSpeedLimit c" "ac_downloadSpeedLimit c < 2 ^ 53"
      "- (2 ^ 31) \<le> ac_ipLimit c" "ac_ipLimit c < 2 ^ 31"
  shows "\<exists>a' st. SetUsers None [(req, id, id)] a = ([\<lparr>sr_success = True, sr_info = []\<rparr>], Ret (), a') \<and> auth_inv a' \<and>
     get_user (controller_user c) a' = \<lparr>gr_success = True, gr_info = [], gr_status = Some st\<rparr> \<and>
     us_speedLimit st = Some \<lparr>as_upload = word_of_int (ac_uploadSpeedLimit c), as_download = word_of_int (ac_downloadSpeedLimit c)\<rparr> \<and>
     us_ipLimit st = word_of_int (ac_ipLimit c) \<and>
     (if ac_add c then us_trafficTotal st = Some \<lparr>at_upload = 0, at_download = 0\<rparr>
      else Some (us_trafficTotal st) = map_option us_trafficTotal (gr_status (get_user (controller_user c) a))) \<and>
     (\<forall>u. request_hash u \<noteq> h \<longrightarrow> get_user u a' = get_user u a)"
proof -
  let ?u = "controller_user c"
  obtain st where st: "sq_status req = Some st" "us_user st = Some ?u" "us_trafficTotal st = None" "us_ipLimit st = word_of_int (ac_ipLimit c)"
      "us_speedLimit st = Some \<lparr>as_upload = word_of_int (ac_uploadSpeedLimit c), as_download = word_of_int (ac_downloadSpeedLimit c)\<rparr>"
    and op: "sq_operation req = (if ac_add c then ApiAdd else ApiModify)"
    using req h(2) by (auto simp: controller_setUsers_def Let_def split: if_splits)
  have rep: "us_speedLimit (user_status h (apply_status st x)) = us_speedLimit st" "us_ipLimit (user_status h (apply_status st x)) = us_ipLimit st"
    "us_trafficTotal (user_status h (apply_status st x)) = us_trafficTotal (user_status h x)" for x
    using limits_reported [OF st(5) _ _ _ _ st(4)] lim traffic_reported [of h st x] st(3) by simp_all
  obtain a1 p where a1: "auth_inv a1" "AuthUser h a1 = Some p" "\<forall>u. request_hash u \<noteq> h \<longrightarrow> get_user u a1 = get_user u a"
      "set_user id req a = (Ret (Some (set_answer None)), on_user p (apply_status st) a1)"
    and old: "ac_add c \<Longrightarrow> heap a1 ! p = new_user h" "\<not> ac_add c \<Longrightarrow> a1 = a"
  proof (cases "ac_add c")
    case True
    then have "h \<notin> user_names a" using h(2) by simp
    then obtain a1 p where "AddUser h a = (None, a1)" "auth_inv a1" "AuthUser h a1 = Some p" "heap a1 ! p = new_user h"
        "\<forall>u. request_hash u \<noteq> h \<longrightarrow> get_user u a1 = get_user u a"
      using AddUser_new [OF a] by blast
    then show ?thesis using that [of a1 p] True st op h(1) by (simp add: set_user_def)
  next
    case False
    then obtain p where "AuthUser h a = Some p" using h(2) AuthUser_None_iff [of h a] by (cases "AuthUser h a") auto
    then show ?thesis using that [of a p] a False st op h(1) by (simp add: set_user_def)
  qed
  let ?a' = "on_user p (apply_status st) a1" and ?s = "user_status h (apply_status st (heap a1 ! p))"
  have "SetUsers None [(req, id, id)] a = ([\<lparr>sr_success = True, sr_info = []\<rparr>], Ret (), ?a')"
    using a1(4) by (simp add: set_answer_def)
  moreover have "auth_inv ?a'" by (rule on_user_inv(1) [OF a1(1)]) simp
  moreover have g: "get_user ?u ?a' = \<lparr>gr_success = True, gr_info = [], gr_status = Some ?s\<rparr>"
    using get_self [OF a1(1), of ?u p "apply_status st"] a1(2) h(1) by simp
  moreover have "\<forall>u. request_hash u \<noteq> h \<longrightarrow> get_user u ?a' = get_user u a" using get_other [OF a1(1,2)] a1(3) by simp
  moreover have "if ac_add c then us_trafficTotal ?s = Some \<lparr>at_upload = 0, at_download = 0\<rparr>
      else Some (us_trafficTotal ?s) = map_option us_trafficTotal (gr_status (get_user ?u a))"
  proof (cases "ac_add c")
    case True
    then show ?thesis using old(1) rep(3) by (simp add: user_status_def GetTraffic_def new_user_def split: prod.splits)
  next
    case False
    then have "gr_status (get_user ?u a) = Some (user_status h (heap a1 ! p))" using a1(2) old(2) h(1) by (simp add: get_user_def)
    then show ?thesis using False rep(3) by simp
  qed
  moreover have "us_speedLimit ?s = Some \<lparr>as_upload = word_of_int (ac_uploadSpeedLimit c), as_download = word_of_int (ac_downloadSpeedLimit c)\<rparr>"
      "us_ipLimit ?s = word_of_int (ac_ipLimit c)"
    using rep(1,2) st(4,5) by simp_all
  ultimately show ?thesis by (intro exI [of _ ?a'] exI [of _ ?s] conjI)
qed

definition sample_controller :: apiController where
  "sample_controller = \<lparr>ac_password = [], ac_hash = ''h'', ac_add = True, ac_delete = False, ac_modify = False,
     ac_uploadSpeedLimit = 5, ac_downloadSpeedLimit = 7, ac_ipLimit = 2\<rparr>"

definition sample_auth :: mem_auth where
  "sample_auth = snd (AddUser ''k'' empty_auth)"

lemma sample_auth_ok: "auth_inv sample_auth" "user_names sample_auth = {''k''}"
  by (simp_all add: sample_auth_def AddUser_inv AddUser_names)

definition sample_set_request :: SetUsersRequest where
  "sample_set_request = \<lparr>sq_status = Some \<lparr>us_user = Some \<lparr>au_password = [], au_hash = ''h''\<rparr>, us_trafficTotal = None, us_speedCurrent = None,
     us_speedLimit = Some \<lparr>as_upload = 5, as_download = 7\<rparr>, us_ipCurrent = 0, us_ipLimit = 2\<rparr>, sq_operation = ApiAdd\<rparr>"

lemma sample_hash: "request_hash (controller_user sample_controller) = ''h''"
  by (simp add: request_hash_def controller_user_def sample_controller_def)

theorem api_set_then_get_witness:
  "\<exists>a' st. SetUsers None [(sample_set_request, id, id)] sample_auth = ([\<lparr>sr_success = True, sr_info = []\<rparr>], Ret (), a') \<and> auth_inv a' \<and>
     get_user (controller_user sample_controller) a' = \<lparr>gr_success = True, gr_info = [], gr_status = Some st\<rparr> \<and>
     us_speedLimit st = Some \<lparr>as_upload = 5, as_download = 7\<rparr> \<and> us_ipLimit st = 2 \<and>
     us_trafficTotal st = Some \<lparr>at_upload = 0, at_download = 0\<rparr>"
proof -
  have "controller_setUsers sample_controller = Ret sample_set_request"
    by (simp add: controller_setUsers_def sample_controller_def sample_set_request_def controller_user_def)
  from api_set_then_get [OF sample_auth_ok(1) this sample_hash [symmetric]] sample_auth_ok(2)
  show ?thesis by (fastforce simp: sample_controller_def)
qed

text \<open>The list of all users agrees with asking for each of them.\<close>

theorem list_agrees_with_get:
  assumes "auth_inv a" "[] \<notin> user_names a"
  shows "ListUsers_api a (map (\<lambda>p. (p, None)) (ListUsers a)) =
    (map (\<lambda>h. the (gr_status (get_user \<lparr>au_password = [], au_hash = h\<rparr> a))) (map fst (users a)), None)"
proof -
  have list: "ListUsers_api a (map (\<lambda>p. (p, None)) ps) = (map (\<lambda>p. user_status (hash (heap a ! p)) (heap a ! p)) ps, None)" for ps
    by (induction ps) auto
  have "user_status (hash (heap a ! p)) (heap a ! p) = the (gr_status (get_user \<lparr>au_password = [], au_hash = h\<rparr> a))"
    if "(h, p) \<in> set (users a)" for h p
  proof -
    have "h \<in> user_names a" using that by (force simp: user_names_def)
    then have "AuthUser h a = Some p" "hash (heap a ! p) = h" "h \<noteq> []"
      using that assms by (auto simp: AuthUser_def auth_inv_def)
    then show ?thesis by (simp add: get_user_def request_hash_def)
  qed
  then show ?thesis unfolding list ListUsers_def by auto
qed

text \<open>An addition without a speed limit is answered with success although its address limit and its traffic are dropped.\<close>

theorem add_without_speed_limit_drops_limits:
  "set_user env \<lparr>sq_status = Some \<lparr>us_user = Some \<lparr>au_password = [], au_hash = ''h''\<rparr>, us_trafficTotal = Some \<lparr>at_upload = 1, at_download = 2\<rparr>,
       us_speedCurrent = None, us_speedLimit = None, us_ipCurrent = 0, us_ipLimit = 3\<rparr>, sq_operation = ApiAdd\<rparr> empty_auth =
     (Ret (Some \<lparr>sr_success = True, sr_info = []\<rparr>), \<lparr>users = [(''h'', 0)], heap = [new_user ''h'']\<rparr>)"
  by (simp add: set_user_def request_hash_def AddUser_def AuthUser_def empty_auth_def set_answer_def Let_def)

text \<open>An addition that meets the deletion of the same user is never answered, and a status without a user is a nil dereference.\<close>

theorem raced_addition_unanswered:
  "fst (set_user (\<lambda>a. snd (DelUser ''h'' a)) sample_set_request sample_auth) = Ret None"
  by (simp add: set_user_def sample_set_request_def sample_auth_def request_hash_def AddUser_def AuthUser_def DelUser_def empty_auth_def)

theorem status_without_user_panics:
  "fst (set_user env \<lparr>sq_status = Some (st\<lparr>us_user := None\<rparr>), sq_operation = op\<rparr> a) = Panic ''nil pointer dereference''"
  by (simp add: set_user_def)

text \<open>A limit of \<open>2 ^ 63\<close> or more is a negative number and removes the limit.\<close>

theorem huge_limit_unlimited:
  "sendLimiter (apply_status (st\<lparr>us_speedLimit := Some \<lparr>as_upload = 1, as_download = 2 ^ 63\<rparr>\<rparr>) u) = None"
proof -
  have "sint (2 ^ 63 :: u64) \<le> 0" by code_simp
  then show ?thesis by (simp add: apply_status_def SetSpeedLimit_def SetTraffic_def SetIPLimit_def Let_def split: option.splits)
qed

end
