(* ===== verification/Subscription.thy ===== *)
theory Subscription
  imports Transport_Server Admin_Access User_Admin Node_Admin "HOL-Library.Multiset"
begin

text \<open>
  Subscriptions (\<open>internal/webserver/subscription.go\<close>): the address of the main node, the request for a subscription with its cache, and the
  document for the client. \<open>sc\<close> is the encoding of a scalar by the YAML library and \<open>valid\<close> whether it parses a document; \<open>cfg\<close> gives the value of
  a setting, \<open>None\<close> for one that is missing or cannot be read. A document is a list of lines.
\<close>

section \<open>The main node\<close>

definition relative_to :: "string \<Rightarrow> string list \<Rightarrow> string list \<Rightarrow> string list" where
  "relative_to webConfigPath names rest =
     (if webConfigPath = [] then rest else map (filepath_Join (filepath_Dir webConfigPath)) names @ rest)"

definition gatewayPaths :: "string \<Rightarrow> string list" where
  "gatewayPaths webConfigPath =
     relative_to webConfigPath [''gateway.yaml'', ''gateway.yml''] [''gateway.yaml'', ''gateway.yml'', ''/etc/trojan-go/gateway.yaml'']"

definition configPaths :: "string \<Rightarrow> string list" where
  "configPaths webConfigPath =
     relative_to webConfigPath [''config.yaml'', ''config.yml''] [''config.yaml'', ''config.yml'', ''/etc/trojan-go/config.yaml'']"

text \<open>The values of the embedded configuration that have the expected type.\<close>

record legacy_config =
  lc_port :: "int option"
  lc_sni :: "string option"
  lc_wsEnabled :: "bool option"
  lc_wsPath :: "string option"

text \<open>\<open>gf_files\<close> decodes the gateway's files to their address and certificate, \<open>None\<close> when one cannot be read or decoded; \<open>gf_legacy\<close> decodes
  the embedded ones, \<open>Some None\<close> when one can be read and not decoded.\<close>

record node_files =
  gf_webConfig :: string
  gf_files :: "string \<Rightarrow> (string \<times> string) option"
  gf_legacy :: "string \<Rightarrow> legacy_config option option"
  gf_ws :: "bool \<times> string"

definition gateway_port :: "string \<Rightarrow> int" where
  "gateway_port listen =
     (case SplitHostPort listen of
        None \<Rightarrow> 443
      | Some (_, portText) \<Rightarrow> (case ParseInt 64 portText of Some n \<Rightarrow> if n > 0 then n else 443 | None \<Rightarrow> 443))"

definition legacy_info :: "bool \<times> string \<Rightarrow> legacy_config \<Rightarrow> string \<times> int \<times> bool \<times> string" where
  "legacy_info ws c =
     ((case lc_sni c of Some s \<Rightarrow> s | None \<Rightarrow> []), (case lc_port c of Some p \<Rightarrow> p | None \<Rightarrow> 443),
      (case lc_wsEnabled c of Some b \<Rightarrow> b | None \<Rightarrow> fst ws), (case lc_wsPath c of Some p \<Rightarrow> p | None \<Rightarrow> snd ws))"

definition getMainNodeInfo :: "node_files \<Rightarrow> string \<times> int \<times> bool \<times> string" where
  "getMainNodeInfo f =
     (case List.map_filter (gf_files f) (gatewayPaths (gf_webConfig f)) of
        (listen, cert) # _ \<Rightarrow> ((if cert \<noteq> [] then filepath_Base (filepath_Dir cert) else []), gateway_port listen, False, [])
      | [] \<Rightarrow>
          (case List.map_filter (gf_legacy f) (configPaths (gf_webConfig f)) of
             Some c # _ \<Rightarrow> legacy_info (gf_ws f) c
           | _ \<Rightarrow> ([], 443, gf_ws f)))"

section \<open>The document\<close>

definition utf8 :: "nat list \<Rightarrow> string" where
  "utf8 bs = map char_of bs"

definition unlines :: "string list \<Rightarrow> string" where
  "unlines ls = concat (map (\<lambda>l. l @ [CHR 0x0A]) ls)"

definition group_select :: string where
  "group_select = utf8 [0xF0, 0x9F, 0x8C, 0x90, 0x20, 0xE8, 0x8A, 0x82, 0xE7, 0x82, 0xB9, 0xE9, 0x80, 0x89, 0xE6, 0x8B, 0xA9]"

definition group_auto :: string where
  "group_auto = utf8 [0xE2, 0x99, 0xBB, 0xEF, 0xB8, 0x8F, 0x20, 0xE8, 0x87, 0xAA, 0xE5, 0x8A, 0xA8, 0xE9, 0x80, 0x89, 0xE6, 0x8B, 0xA9]"

definition group_ai :: string where
  "group_ai = utf8 [0xF0, 0x9F, 0xA4, 0x96, 0x20, 0x41, 0x49, 0x20, 0xE6, 0x9C, 0x8D, 0xE5, 0x8A, 0xA1]"

definition group_code :: string where
  "group_code = utf8 [0xF0, 0x9F, 0x92, 0xBB, 0x20, 0x41, 0x49, 0x20, 0xE7, 0xBC, 0x96, 0xE7, 0xA8, 0x8B]"

definition group_microsoft :: string where
  "group_microsoft = utf8 [0xE2, 0x93, 0x82, 0xEF, 0xB8, 0x8F, 0x20, 0xE5, 0xBE, 0xAE, 0xE8, 0xBD, 0xAF, 0xE6, 0x9C, 0x8D, 0xE5, 0x8A, 0xA1]"

definition group_direct :: string where
  "group_direct = utf8 [0xF0, 0x9F, 0x8E, 0xAF, 0x20, 0xE5, 0x85, 0xA8, 0xE7, 0x90, 0x83, 0xE7, 0x9B, 0xB4, 0xE8, 0xBF, 0x9E]"

definition group_rest :: string where
  "group_rest = utf8 [0xF0, 0x9F, 0x90, 0x9F, 0x20, 0xE6, 0xBC, 0x8F, 0xE7, 0xBD, 0x91, 0xE4, 0xB9, 0x8B, 0xE9, 0xB1, 0xBC]"

definition quoted :: "string \<Rightarrow> string" where
  "quoted s = ''\"'' @ s @ ''\"''"

text \<open>A setting that is not empty, or its default.\<close>

definition setting :: "(string \<Rightarrow> string option) \<Rightarrow> string \<Rightarrow> string \<Rightarrow> string" where
  "setting cfg key dflt = (case cfg key of Some v \<Rightarrow> if v \<noteq> [] then v else dflt | None \<Rightarrow> dflt)"

definition clash_header :: "string list" where
  "clash_header =
     [''port: 7890'', ''socks-port: 7891'', ''allow-lan: true'', ''mode: rule'', ''log-level: info'', [],
      ''dns:'', ''  enable: true'', ''  ipv6: false'', ''  listen: 0.0.0.0:53'', ''  enhanced-mode: fake-ip'', ''  fake-ip-range: 198.18.0.1/16'',
      ''  nameserver:'', ''    - 223.5.5.5'', ''    - 119.29.29.29'', ''  fallback:'', ''    - 8.8.8.8'', ''    - 1.1.1.1'',
      ''    - https://dns.google/dns-query'', ''  nameserver-policy:'', ''    'geosite:cn': 223.5.5.5'', ''    'github.com': 8.8.8.8'',
      ''    'cdn.jsdelivr.net': 119.29.29.29'', [],
      ''tun:'', ''  enable: true'', ''  stack: gvisor'', ''  auto-route: true'', ''  auto-detect-interface: true'', []]"

definition trojan_proxy :: "(string \<Rightarrow> string) \<Rightarrow> string \<Rightarrow> string \<Rightarrow> int \<Rightarrow> string \<Rightarrow> string \<Rightarrow> string list" where
  "trojan_proxy sc name server port password sni =
     [''  - name: '' @ sc name, ''    type: trojan'', ''    server: '' @ sc server, ''    port: '' @ dec_string port,
      ''    password: '' @ sc password, ''    udp: true'', ''    sni: '' @ sc sni, ''    skip-cert-verify: false'']"

definition ws_options :: "(string \<Rightarrow> string) \<Rightarrow> string \<Rightarrow> string \<Rightarrow> string list" where
  "ws_options sc path host =
     [''    network: ws'', ''    ws-opts:'', ''      path: '' @ sc path, ''      headers:'', ''        Host: '' @ sc host]"

definition hysteria_proxy ::
  "(string \<Rightarrow> string) \<Rightarrow> (string \<Rightarrow> string option) \<Rightarrow> string \<Rightarrow> string \<Rightarrow> string \<Rightarrow> string \<Rightarrow> string list" where
  "hysteria_proxy sc cfg name server password sni =
     [''  - name: '' @ sc name, ''    type: hysteria2'', ''    server: '' @ sc server, ''    port: '' @ sc (setting cfg ''hysteria_port'' ''443''),
      ''    password: '' @ sc password, ''    sni: '' @ sc sni, ''    skip-cert-verify: false'',
      ''    up: '' @ sc (setting cfg ''hysteria_up_mbps'' ''100'' @ '' Mbps''),
      ''    down: '' @ sc (setting cfg ''hysteria_down_mbps'' ''300'' @ '' Mbps''), []]"

definition h2_enabled :: "(string \<Rightarrow> string option) \<Rightarrow> bool" where
  "h2_enabled cfg \<longleftrightarrow> cfg ''hysteria_enabled'' = Some ''true''"

definition node_label :: "panel_node \<Rightarrow> string" where
  "node_label n = (if pn_name n = [] then pn_address n else pn_name n)"

definition is_relay :: "string \<Rightarrow> bool" where
  "is_relay name \<longleftrightarrow> Contains name (utf8 [0x28, 0xE6, 0xB8, 0xAF, 0xE8, 0xBD, 0xAC, 0x29]) \<or> Contains name (utf8 [0x28, 0xE8, 0xBD, 0xAC, 0x29])"

definition sniFor :: "string \<Rightarrow> string \<Rightarrow> string" where
  "sniFor addr custom = (if custom \<noteq> [] then custom else addr)"

text \<open>The main node of the subscription: its domain, port and WebSocket settings.\<close>

type_synonym main_node = "string \<times> int \<times> bool \<times> string"

definition location :: "(string \<Rightarrow> string option) \<Rightarrow> string" where
  "location cfg = setting cfg ''node_location'' (utf8 [0xE8, 0x8A, 0x82, 0xE7, 0x82, 0xB9])"

definition use_ws :: "(string \<Rightarrow> string option) \<Rightarrow> bool \<Rightarrow> bool" where
  "use_ws cfg defaultWS = (if cfg ''sub_use_ws'' = Some ''false'' then False else defaultWS)"

definition test_url :: "(string \<Rightarrow> string option) \<Rightarrow> string" where
  "test_url cfg = (let v = setting cfg ''clash_test_url'' [] in if v \<noteq> [] \<and> v \<noteq> ''0'' then v else ''http://cp.cloudflare.com/generate_204'')"

definition main_proxies :: "(string \<Rightarrow> string) \<Rightarrow> (string \<Rightarrow> string option) \<Rightarrow> string \<Rightarrow> main_node \<Rightarrow> string list" where
  "main_proxies sc cfg password main =
     (case main of (domain, port, ws, wsPath) \<Rightarrow>
        trojan_proxy sc (''tcp-'' @ location cfg) domain port password domain @
        (if use_ws cfg ws \<and> ws then ws_options sc wsPath domain else []) @ [[]] @
        (if h2_enabled cfg then hysteria_proxy sc cfg (''h-'' @ location cfg) domain password domain else []))"

definition node_proxies :: "(string \<Rightarrow> string) \<Rightarrow> (string \<Rightarrow> string option) \<Rightarrow> string \<Rightarrow> bool \<Rightarrow> panel_node \<Rightarrow> string list" where
  "node_proxies sc cfg password ws n =
     trojan_proxy sc (''tcp-'' @ node_label n) (pn_address n) (pn_port n) password (sniFor (pn_address n) (pn_sni n)) @
     (if use_ws cfg ws \<and> pn_wsEnabled n then ws_options sc (pn_wsPath n) (pn_address n) else []) @ [[]] @
     (if is_relay (node_label n) then []
      else if h2_enabled cfg then hysteria_proxy sc cfg (''h-'' @ node_label n) (pn_address n) password (sniFor (pn_address n) (pn_sni n)) else [])"

definition tj_names :: "(string \<Rightarrow> string option) \<Rightarrow> panel_node list \<Rightarrow> string list" where
  "tj_names cfg nodes = (''tcp-'' @ location cfg) # map (\<lambda>n. ''tcp-'' @ node_label n) nodes"

definition h2_names :: "(string \<Rightarrow> string option) \<Rightarrow> panel_node list \<Rightarrow> string list" where
  "h2_names cfg nodes =
     (if h2_enabled cfg then (''h-'' @ location cfg) # map (\<lambda>n. ''h-'' @ node_label n) (filter (\<lambda>n. \<not> is_relay (node_label n)) nodes) else [])"

definition items :: "string list \<Rightarrow> string list" where
  "items xs = map (\<lambda>x. ''      - '' @ x) xs"

definition select_group :: "string \<Rightarrow> string list \<Rightarrow> string list" where
  "select_group name members = [''  - name: '' @ quoted name, ''    type: select'', ''    proxies:''] @ items members"

definition test_group :: "string \<Rightarrow> string \<Rightarrow> string list \<Rightarrow> string list \<Rightarrow> string list" where
  "test_group name url options members =
     [''  - name: '' @ quoted name] @ [hd options, ''    url: '' @ url, ''    interval: 300''] @ tl options @ [''    proxies:''] @ items members"

definition proxy_groups :: "(string \<Rightarrow> string) \<Rightarrow> (string \<Rightarrow> string option) \<Rightarrow> panel_node list \<Rightarrow> string list" where
  "proxy_groups sc cfg nodes =
     (let tj = map sc (tj_names cfg nodes); h2 = map sc (h2_names cfg nodes); url = sc (test_url cfg);
          hy = (if h2 \<noteq> [] then [quoted ''HYSTERIA''] else []) in
      [''proxy-groups:''] @
      select_group group_select ([quoted group_auto, quoted ''TROJAN''] @ hy @ tj @ h2) @
      test_group group_auto url [''    type: url-test'', ''    tolerance: 50''] (tj @ h2) @
      test_group ''TROJAN'' url [''    type: url-test'', ''    tolerance: 50''] tj @
      (if h2 \<noteq> [] then test_group ''HYSTERIA'' url [''    type: fallback''] h2 else []) @
      select_group group_ai ([quoted group_select, quoted ''TROJAN''] @ tj @ hy @ h2) @
      select_group group_code ([quoted group_select, quoted ''TROJAN''] @ tj @ hy @ h2) @
      select_group group_microsoft [quoted group_select, ''DIRECT''] @
      select_group group_direct [quoted group_select, ''DIRECT''] @
      select_group group_rest [quoted group_select, quoted ''TROJAN'', ''DIRECT''])"

definition renderClashConfigMultiNode ::
  "(string \<Rightarrow> string) \<Rightarrow> (string \<Rightarrow> string option) \<Rightarrow> string \<Rightarrow> panel_node list \<Rightarrow> main_node \<Rightarrow> string \<Rightarrow> string \<Rightarrow> string" where
  "renderClashConfigMultiNode sc cfg password nodes main rules providers =
     unlines clash_header @
     (if providers \<noteq> [] then (if Contains providers ''rule-providers:'' then [] else unlines [''rule-providers:'']) @ providers @ unlines [[], []] else []) @
     unlines ([''proxies:''] @ main_proxies sc cfg password main @ concat (map (node_proxies sc cfg password (fst (snd (snd main)))) nodes) @
       proxy_groups sc cfg nodes) @
     unlines [[]] @
     (if rules \<noteq> [] then (if Contains rules ''rules:'' then [] else unlines [''rules:'']) @ rules
      else unlines [''rules:'', ''  - GEOIP,CN,'' @ group_direct] @ ''  - MATCH,'' @ group_rest) @
     unlines [[]]"

definition generateClashConfigMultiNode ::
  "(string \<Rightarrow> string) \<Rightarrow> (string \<Rightarrow> bool) \<Rightarrow> (string \<Rightarrow> string option) \<Rightarrow> string \<Rightarrow> panel_node list \<Rightarrow> main_node \<Rightarrow> string" where
  "generateClashConfigMultiNode sc valid cfg password nodes main =
     (let rules = setting cfg ''clash_rules'' []; providers = setting cfg ''clash_rule_providers'' [];
          config = renderClashConfigMultiNode sc cfg password nodes main rules providers in
      if valid config then config
      else if rules = [] \<and> providers = [] then config
      else renderClashConfigMultiNode sc cfg password nodes main [] [])"

section \<open>The request\<close>

definition sanitizeFilename :: "string \<Rightarrow> string" where
  "sanitizeFilename name =
     (if name = [] then ''config''
      else let safe = TrimSpace (map (\<lambda>c. if c \<in> set [CHR 0x0D, CHR 0x0A, CHR 0x00, CHR 0x22, CHR 0x27, CHR 0x5C, CHR ''/'', CHR '':''] then CHR ''_'' else c) name)
           in if safe = [] then ''config'' else safe)"

text \<open>What a request reads: the users, the nodes (\<open>None\<close> when they cannot be read), the settings and the configuration files, with the credential vault,
  the YAML library, the canonical domain and the role.\<close>

record sub_data =
  sd_users :: "panel_user list"
  sd_nodes :: "panel_node list option"
  sd_cfg :: "string \<Rightarrow> string option"
  sd_files :: node_files
  sd_vault :: vault
  sd_scalar :: "string \<Rightarrow> string"
  sd_valid :: "string \<Rightarrow> bool"
  sd_serverDomain :: string
  sd_isNode :: bool

record sub_request =
  sq_now :: int
  sq_token :: string
  sq_ifNoneMatch :: string

text \<open>The answers: the mask page, a plain status, 304 with the tag, or the document with its tag and the name of the file.\<close>

datatype sub_answer = Mask | Status int | NotModified string | Document string string string

definition main_node_of :: "sub_data \<Rightarrow> main_node" where
  "main_node_of D =
     (case getMainNodeInfo (sd_files D) of (domain, port, ws, wsPath) \<Rightarrow> (if domain = [] then sd_serverDomain D else domain, port, ws, wsPath))"

definition cache_key :: "string \<Rightarrow> main_node \<Rightarrow> string" where
  "cache_key h main =
     (case main of (domain, port, ws, wsPath) \<Rightarrow>
        h @ [CHR 0x00] @ domain @ [CHR 0x00] @ dec_string port @ [CHR 0x00] @ (if ws then ''true'' else ''false'') @ [CHR 0x00] @ wsPath)"

definition generate_for :: "sub_data \<Rightarrow> string \<Rightarrow> panel_node list \<Rightarrow> string" where
  "generate_for D password nodes =
     generateClashConfigMultiNode (sd_scalar D) (sd_valid D) (sd_cfg D) password nodes (main_node_of D)"

text \<open>The user a token stands for with the password, or the status of the refusal.\<close>

definition authorise :: "sub_data \<Rightarrow> sub_request \<Rightarrow> int + (panel_user \<times> string)" where
  "authorise D r =
     (if sq_token r = [] then Inl 400
      else case find (\<lambda>u. du_hash u = sq_token r \<and> du_status u = 0) (sd_users D) of
        None \<Rightarrow> Inl 404
      | Some u \<Rightarrow>
          if expired (sq_now r) (db_user.truncate u) then Inl 403
          else (case UserPassword (sd_vault D) (cred_of u) of
                  Ret password \<Rightarrow> if password = [] then Inl 500 else if fst (main_node_of D) = [] then Inl 500 else Inr (u, password)
                | _ \<Rightarrow> Inl 500))"

definition answer_with :: "sub_request \<Rightarrow> panel_user \<Rightarrow> subscriptionCacheEntry \<Rightarrow> sub_answer" where
  "answer_with r u e =
     (if sq_ifNoneMatch r = sc_ETag e then NotModified (sc_ETag e)
      else Document (sc_ETag e) (''clash-'' @ sanitizeFilename (pu_username u) @ ''.yaml'') (sc_Body e))"

definition handleSub :: "sub_data \<Rightarrow> sub_request \<Rightarrow> admin_server \<Rightarrow> sub_answer \<times> admin_server" where
  "handleSub D r s =
     (if sd_isNode D then (Mask, s)
      else case authorise D r of
        Inl status \<Rightarrow> (Status status, s)
      | Inr (u, password) \<Rightarrow>
          (case getSubscriptionCache (sq_now r) (cache_key (du_hash u) (main_node_of D)) s of
             (Some e, s1) \<Rightarrow> (answer_with r u e, s1)
           | (None, s1) \<Rightarrow>
               (case sd_nodes D of
                  None \<Rightarrow> (Status 500, s1)
                | Some nodes \<Rightarrow>
                    (case cacheSubscription (sq_now r) (cache_key (du_hash u) (main_node_of D)) (generate_for D password nodes) s1 of
                       (e, s2) \<Rightarrow> (answer_with r u e, s2)))))"

section \<open>The cache is transparent\<close>

text \<open>The request answered without the cache.\<close>

definition fresh_entry :: "string \<Rightarrow> subscriptionCacheEntry" where
  "fresh_entry body = \<lparr>sc_Body = body, sc_ETag = ''\"'' @ concat (map hex_byte (sha256 (bytes_of body))) @ ''\"'', sc_ExpiresAt = 0\<rparr>"

definition plain_sub :: "sub_data \<Rightarrow> sub_request \<Rightarrow> sub_answer" where
  "plain_sub D r =
     (if sd_isNode D then Mask
      else case authorise D r of
        Inl status \<Rightarrow> Status status
      | Inr (u, password) \<Rightarrow> (case sd_nodes D of None \<Rightarrow> Status 500 | Some nodes \<Rightarrow> answer_with r u (fresh_entry (generate_for D password nodes))))"

text \<open>What happens to a server: a subscription is asked for, a request of the panel passes the middleware that empties the cache, its handler
  commits new data later, or somebody changes the configuration files of the main node.\<close>

datatype sub_op = Ask sub_request | Mutate string | Commit sub_data | Refile node_files

fun sub_step :: "sub_op \<Rightarrow> sub_data \<times> admin_server \<Rightarrow> sub_data \<times> admin_server" where
  "sub_step (Ask r) (D, s) = (D, snd (handleSub D r s))"
| "sub_step (Mutate verb) (D, s) = (D, invalidateSubscriptionAfterMutation verb s)"
| "sub_step (Commit D') (D, s) = (D', s)"
| "sub_step (Refile f) (D, s) = (D\<lparr>sd_files := f\<rparr>, s)"

text \<open>The nodes can be read, and the parts of the key before the last hold no NUL.\<close>

definition data_ok :: "sub_data \<Rightarrow> bool" where
  "data_ok D \<longleftrightarrow> (\<forall>u \<in> set (sd_users D). CHR 0x00 \<notin> set (du_hash u)) \<and> sd_nodes D \<noteq> None \<and> CHR 0x00 \<notin> set (fst (main_node_of D))"

text \<open>New data are committed while the cache is still empty: no subscription was generated between the middleware and the commit.\<close>

fun op_ok :: "sub_data \<times> admin_server \<Rightarrow> sub_op \<Rightarrow> bool" where
  "op_ok (D, s) (Ask r) = True"
| "op_ok (D, s) (Mutate verb) = True"
| "op_ok (D, s) (Commit D') = (data_ok D' \<and> as_subscriptionCache s = [])"
| "op_ok (D, s) (Refile f) = data_ok (D\<lparr>sd_files := f\<rparr>)"

inductive sub_reach :: "sub_data \<times> admin_server \<Rightarrow> bool" where
  start: "data_ok D \<Longrightarrow> as_subscriptionCache s = [] \<Longrightarrow> sub_reach (D, s)"
| step: "sub_reach c \<Longrightarrow> op_ok c x \<Longrightarrow> sub_reach (sub_step x c)"

lemma nul_split: "CHR 0x00 \<notin> set a \<Longrightarrow> CHR 0x00 \<notin> set b \<Longrightarrow> a @ CHR 0x00 # x = b @ CHR 0x00 # y \<Longrightarrow> a = b \<and> x = y"
proof (induction a arbitrary: b)
  case Nil
  then show ?case by (cases b) auto
next
  case (Cons c a)
  then show ?case by (cases b) auto
qed

lemma dec_string_no_nul: "CHR 0x00 \<notin> set (dec_string n)"
  using dec_digits_digits [of "CHR 0x00"] by (auto simp: dec_string_def is_digit_def code_def)

lemma dec_digits_inj: "dec_digits m = dec_digits n \<Longrightarrow> m = n"
  by (metis digits_val_dec of_nat_eq_iff)

lemma dec_string_inj: "dec_string m = dec_string n \<Longrightarrow> m = n"
proof -
  assume e: "dec_string m = dec_string n"
  have m: "hd (dec_digits k) \<noteq> CHR ''-''" for k
    using dec_digits_digits [of "hd (dec_digits k)" k] by (auto simp: is_digit_def code_def)
  have s: "dec_digits k \<noteq> CHR ''-'' # ds" for k ds using m [of k] by auto
  show ?thesis
  proof (cases "m < 0"; cases "n < 0")
    assume "m < 0" "n < 0"
    then have "dec_digits (nat (- m)) = dec_digits (nat (- n))" using e unfolding dec_string_def by simp
    from dec_digits_inj [OF this] show ?thesis using \<open>m < 0\<close> \<open>n < 0\<close> by simp
  next
    assume "\<not> m < 0" "\<not> n < 0"
    then have "dec_digits (nat m) = dec_digits (nat n)" using e unfolding dec_string_def by simp
    from dec_digits_inj [OF this] show ?thesis using \<open>\<not> m < 0\<close> \<open>\<not> n < 0\<close> by simp
  next
    assume "m < 0" "\<not> n < 0"
    then have "dec_digits (nat n) = CHR ''-'' # dec_digits (nat (- m))" using e unfolding dec_string_def by simp
    then show ?thesis using s by blast
  next
    assume "\<not> m < 0" "n < 0"
    then have "dec_digits (nat m) = CHR ''-'' # dec_digits (nat (- n))" using e unfolding dec_string_def by simp
    then show ?thesis using s by blast
  qed
qed

lemma cache_key_inj:
  assumes "cache_key h main = cache_key h' main'" "CHR 0x00 \<notin> set h" "CHR 0x00 \<notin> set h'" "CHR 0x00 \<notin> set (fst main)" "CHR 0x00 \<notin> set (fst main')"
  shows "h = h' \<and> main = main'"
proof -
  obtain d p w x d' p' w' x' where m: "main = (d, p, w, x)" "main' = (d', p', w', x')" by (cases main, cases main') auto
  note N = nul_split
  have 1: "h = h'" "d @ CHR 0x00 # dec_string p @ CHR 0x00 # (if w then ''true'' else ''false'') @ CHR 0x00 # x =
      d' @ CHR 0x00 # dec_string p' @ CHR 0x00 # (if w' then ''true'' else ''false'') @ CHR 0x00 # x'"
    using N [OF assms(2,3), of "d @ CHR 0x00 # dec_string p @ CHR 0x00 # (if w then ''true'' else ''false'') @ CHR 0x00 # x"] assms(1)
    unfolding m cache_key_def by auto
  have 2: "d = d'" "dec_string p @ CHR 0x00 # (if w then ''true'' else ''false'') @ CHR 0x00 # x =
      dec_string p' @ CHR 0x00 # (if w' then ''true'' else ''false'') @ CHR 0x00 # x'"
    using N [OF _ _ 1(2)] assms(4,5) m by auto
  have 3: "dec_string p = dec_string p'" "(if w then ''true'' else ''false'') @ CHR 0x00 # x = (if w' then ''true'' else ''false'') @ CHR 0x00 # x'"
    using N [OF dec_string_no_nul dec_string_no_nul 2(2)] by auto
  have "(if w then ''true'' else ''false'') = (if w' then ''true'' else ''false'') \<and> x = x'" by (rule N [OF _ _ 3(2)]) auto
  then have "w = w'" "x = x'" by (auto split: if_splits)
  then show ?thesis using 1 2 dec_string_inj [OF 3(1)] m by simp
qed

text \<open>What every entry of the cache holds: the document of an active user for some main node, under the key of the two.\<close>

definition entry_ok :: "sub_data \<Rightarrow> string \<Rightarrow> subscriptionCacheEntry \<Rightarrow> bool" where
  "entry_ok D k e \<longleftrightarrow>
     (\<exists>u password nodes main. find (\<lambda>v. du_hash v = du_hash u \<and> du_status v = 0) (sd_users D) = Some u \<and> CHR 0x00 \<notin> set (du_hash u) \<and>
        CHR 0x00 \<notin> set (fst main) \<and> UserPassword (sd_vault D) (cred_of u) = Ret password \<and> sd_nodes D = Some nodes \<and>
        k = cache_key (du_hash u) main \<and>
        sc_Body e = generateClashConfigMultiNode (sd_scalar D) (sd_valid D) (sd_cfg D) password nodes main \<and>
        sc_ETag e = sc_ETag (fresh_entry (sc_Body e)))"

definition cache_ok :: "sub_data \<Rightarrow> admin_server \<Rightarrow> bool" where
  "cache_ok D s \<longleftrightarrow> (\<forall>k e. map_of (as_subscriptionCache s) k = Some e \<longrightarrow> entry_ok D k e)"

lemma cache_ok_empty: "as_subscriptionCache s = [] \<Longrightarrow> cache_ok D s"
  by (simp add: cache_ok_def)

lemma getSubscriptionCache_ok:
  assumes "cache_ok D s" "getSubscriptionCache now k s = (r, s')"
  shows "cache_ok D s'" "\<And>e. r = Some e \<Longrightarrow> entry_ok D k e"
  using assms unfolding getSubscriptionCache_def cache_ok_def
  by (auto simp: AList.delete_conv' split: option.splits if_splits)

lemma cacheSubscription_ok:
  assumes "cache_ok D s" "cacheSubscription now k body s = (e, s')" "entry_ok D k e"
  shows "cache_ok D s'"
  using assms unfolding cacheSubscription_def cache_ok_def by (auto simp: AList.update_conv' Let_def split: if_splits)

lemma cacheSubscription_fresh:
  "cacheSubscription now k body s = (e, s') \<Longrightarrow> sc_Body e = body \<and> sc_ETag e = sc_ETag (fresh_entry body)"
  unfolding cacheSubscription_def fresh_entry_def by (auto simp: Let_def)

lemma answer_with_fresh:
  "sc_Body e = body \<Longrightarrow> sc_ETag e = sc_ETag (fresh_entry body) \<Longrightarrow> answer_with r u e = answer_with r u (fresh_entry body)"
  by (simp add: answer_with_def fresh_entry_def)

lemma authorise_user:
  assumes "authorise D r = Inr (u, password)"
  shows "find (\<lambda>v. du_hash v = du_hash u \<and> du_status v = 0) (sd_users D) = Some u" "u \<in> set (sd_users D)"
    "UserPassword (sd_vault D) (cred_of u) = Ret password"
proof -
  have f: "find (\<lambda>v. du_hash v = sq_token r \<and> du_status v = 0) (sd_users D) = Some u"
    and p: "UserPassword (sd_vault D) (cred_of u) = Ret password"
    using assms unfolding authorise_def by (auto split: if_splits option.splits outcome.splits)
  from f have "du_hash u = sq_token r" "u \<in> set (sd_users D)" by (auto simp: find_Some_iff)
  with f p show "find (\<lambda>v. du_hash v = du_hash u \<and> du_status v = 0) (sd_users D) = Some u" "u \<in> set (sd_users D)"
    "UserPassword (sd_vault D) (cred_of u) = Ret password" by auto
qed

lemma entry_ok_refile [simp]: "entry_ok (D\<lparr>sd_files := f\<rparr>) k e = entry_ok D k e"
  by (simp add: entry_ok_def)

lemma entry_ok_answer:
  assumes "entry_ok D (cache_key (du_hash u) (main_node_of D)) e" "authorise D r = Inr (u, password)" "data_ok D"
  shows "\<exists>nodes. sd_nodes D = Some nodes \<and> sc_Body e = generate_for D password nodes \<and> sc_ETag e = sc_ETag (fresh_entry (sc_Body e))"
proof -
  note a = authorise_user [OF assms(2)]
  obtain v pw nodes main where v: "find (\<lambda>w. du_hash w = du_hash v \<and> du_status w = 0) (sd_users D) = Some v" "CHR 0x00 \<notin> set (du_hash v)"
      "CHR 0x00 \<notin> set (fst main)" "UserPassword (sd_vault D) (cred_of v) = Ret pw" "sd_nodes D = Some nodes"
      "cache_key (du_hash u) (main_node_of D) = cache_key (du_hash v) main"
      "sc_Body e = generateClashConfigMultiNode (sd_scalar D) (sd_valid D) (sd_cfg D) pw nodes main" "sc_ETag e = sc_ETag (fresh_entry (sc_Body e))"
    using assms(1) unfolding entry_ok_def by blast
  have "du_hash u = du_hash v \<and> main_node_of D = main"
    using cache_key_inj [OF v(6) _ v(2) _ v(3)] a(2) assms(3) unfolding data_ok_def by blast
  moreover from this have "v = u" using v(1) a(1) by simp
  ultimately show ?thesis using v a(3) by (simp add: generate_for_def)
qed

lemma handleSub_transparent:
  assumes "cache_ok D s" "data_ok D"
  shows "fst (handleSub D r s) = plain_sub D r \<and> cache_ok D (snd (handleSub D r s))"
proof (cases "sd_isNode D \<or> (\<exists>n. authorise D r = Inl n)")
  case True
  then show ?thesis using assms(1) by (auto simp: handleSub_def plain_sub_def)
next
  case False
  then obtain u password where a: "authorise D r = Inr (u, password)" "\<not> sd_isNode D" by (cases "authorise D r") auto
  let ?k = "cache_key (du_hash u) (main_node_of D)"
  obtain e s1 where g: "getSubscriptionCache (sq_now r) ?k s = (e, s1)" by fastforce
  note g_ok = getSubscriptionCache_ok [OF assms(1) g]
  obtain nodes where n: "sd_nodes D = Some nodes" using assms(2) by (auto simp: data_ok_def)
  let ?body = "generate_for D password nodes"
  show ?thesis
  proof (cases e)
    case (Some x)
    from entry_ok_answer [OF g_ok(2) [OF Some] a(1) assms(2)] n have "sc_Body x = ?body" "sc_ETag x = sc_ETag (fresh_entry ?body)" by auto
    from answer_with_fresh [OF this] show ?thesis using a g g_ok(1) Some n by (simp add: handleSub_def plain_sub_def)
  next
    case None
    obtain x s2 where c: "cacheSubscription (sq_now r) ?k ?body s1 = (x, s2)" by fastforce
    note f = cacheSubscription_fresh [OF c]
    have "CHR 0x00 \<notin> set (du_hash u)" "CHR 0x00 \<notin> set (fst (main_node_of D))"
      using authorise_user(2) [OF a(1)] assms(2) by (auto simp: data_ok_def)
    then have "entry_ok D ?k x"
      unfolding entry_ok_def using authorise_user(1,3) [OF a(1)] f n
      by (intro exI [of _ u] exI [of _ password] exI [of _ nodes] exI [of _ "main_node_of D"]) (simp add: generate_for_def)
    from cacheSubscription_ok [OF g_ok(1) c this] answer_with_fresh [of x ?body r u] f show ?thesis
      using a g None n c by (simp add: handleSub_def plain_sub_def)
  qed
qed

lemma sub_reach_ok: "sub_reach c \<Longrightarrow> data_ok (fst c) \<and> cache_ok (fst c) (snd c)"
proof (induction rule: sub_reach.induct)
  case (start D s)
  then show ?case by (simp add: cache_ok_empty)
next
  case (step c x)
  obtain D s where c: "c = (D, s)" by fastforce
  with step show ?case
  proof (cases x)
    case (Ask r)
    then show ?thesis using step handleSub_transparent [of D s r] c by simp
  next
    case (Mutate verb)
    then show ?thesis using step c by (auto simp: invalidateSubscriptionAfterMutation_def invalidateSubscriptionCache_def cache_ok_def)
  next
    case (Commit D')
    then show ?thesis using step c by (simp add: cache_ok_empty)
  next
    case (Refile f)
    then show ?thesis using step c by (simp add: cache_ok_def)
  qed
qed

text \<open>C39. The subscription cache is transparent: whatever requests, changes of the panel and changes of the configuration files came before, and
  whatever the clock says, a request is answered as if the document were generated anew from the present data, with the status, the tag, the
  304 and the file name of that, as long as no subscription was generated between the middleware that empties the cache and the commit of its
  handler, and the nodes can be read. Entries of other users and of former addresses of the main node are never served.\<close>

theorem subscription_cache_transparent:
  assumes "sub_reach (D, s)"
  shows "fst (handleSub D r s) = plain_sub D r"
  using handleSub_transparent sub_reach_ok [OF assms] by simp

definition sample_subscriber :: panel_user where
  "sample_subscriber = \<lparr>du_hash = ''a1'', du_quota = 0, du_used = 0, du_upload = 0, du_download = 0, du_expiry = None, du_ip_limit = 0, du_status = 0,
     pu_id = 1, pu_created = 0, pu_username = ''ann'', pu_password = ''pw'', pu_ciphertext = [], pu_keyID = []\<rparr>"

definition sample_sub :: sub_data where
  "sample_sub = \<lparr>sd_users = [sample_subscriber], sd_nodes = Some [], sd_cfg = (\<lambda>_. None),
     sd_files = \<lparr>gf_webConfig = [], gf_files = (\<lambda>_. None), gf_legacy = (\<lambda>_. None), gf_ws = (False, [])\<rparr>,
     sd_vault = sample_vault, sd_scalar = (\<lambda>s. s), sd_valid = (\<lambda>_. True), sd_serverDomain = ''vpn.example'', sd_isNode = False\<rparr>"

definition sample_ask :: sub_request where
  "sample_ask = \<lparr>sq_now = 1, sq_token = ''a1'', sq_ifNoneMatch = []\<rparr>"

lemma sample_sub_main: "main_node_of sample_sub = (''vpn.example'', 443, False, [])"
  by (simp add: main_node_of_def sample_sub_def getMainNodeInfo_def gatewayPaths_def configPaths_def relative_to_def List.map_filter_def)

theorem subscription_cache_transparent_witness:
  "authorise sample_sub sample_ask = Inr (sample_subscriber, ''pw'') \<and>
   fst (handleSub sample_sub sample_ask (snd (handleSub sample_sub sample_ask sample_admin))) = plain_sub sample_sub sample_ask"
proof
  show "authorise sample_sub sample_ask = Inr (sample_subscriber, ''pw'')"
    using sample_sub_main
    by (simp add: authorise_def sample_ask_def sample_sub_def sample_subscriber_def expired_def UserPassword_def cred_of_def db_user.defs)
  have "data_ok sample_sub" using sample_sub_main by (simp add: data_ok_def sample_sub_def sample_subscriber_def)
  then have "sub_reach (sample_sub, sample_admin)" by (rule start) (simp add: sample_admin_def)
  from step [OF this, of "Ask sample_ask"] have "sub_reach (sample_sub, snd (handleSub sample_sub sample_ask sample_admin))" by simp
  then show "fst (handleSub sample_sub sample_ask (snd (handleSub sample_sub sample_ask sample_admin))) = plain_sub sample_sub sample_ask"
    by (rule subscription_cache_transparent)
qed

text \<open>The middleware runs before the handler. A subscription asked for between the two puts the old document into the emptied cache, and a request
  after the commit is answered with it, until the entry expires.\<close>

theorem stale_subscription:
  assumes "verb \<noteq> ''GET''" "verb \<noteq> ''HEAD''" "\<not> sd_isNode D" "\<not> sd_isNode D'"
    "authorise D r = Inr (u, password)" "sd_nodes D = Some nodes" "authorise D' r' = Inr (u', password')"
    "sq_token r = sq_token r'" "main_node_of D' = main_node_of D" "sq_now r' < sq_now r + subscriptionCacheTTL"
  shows "fst (handleSub D' r' (snd (sub_step (Commit D') (sub_step (Ask r) (sub_step (Mutate verb) (D, s)))))) =
    answer_with r' u' (fresh_entry (generate_for D password nodes))"
proof -
  have h: "du_hash u = sq_token r" "du_hash u' = sq_token r'"
    using assms(5,7) unfolding authorise_def by (auto simp: find_Some_iff split: if_splits option.splits outcome.splits)
  let ?k = "cache_key (sq_token r) (main_node_of D)"
  let ?s = "s\<lparr>as_subscriptionCache := []\<rparr>"
  obtain e s' where c: "cacheSubscription (sq_now r) ?k (generate_for D password nodes) ?s = (e, s')" by fastforce
  have "handleSub D r ?s = (answer_with r u e, s')" using assms(3,5,6) h c by (simp add: handleSub_def getSubscriptionCache_def)
  moreover have "map_of (as_subscriptionCache s') ?k = Some e" "sc_ExpiresAt e = sq_now r + subscriptionCacheTTL"
    using c by (auto simp: cacheSubscription_def Let_def)
  ultimately show ?thesis
    using assms(1,2,4,7-10) h answer_with_fresh [of e _ r' u'] cacheSubscription_fresh [OF c]
    by (simp add: invalidateSubscriptionAfterMutation_def invalidateSubscriptionCache_def handleSub_def getSubscriptionCache_def)
qed

section \<open>The document is usable\<close>

text \<open>Fragments of the operator never make a document unusable: it parses whenever the built-in template does.\<close>

lemma generated_document_parses:
  "valid (renderClashConfigMultiNode sc cfg password nodes main [] []) \<Longrightarrow> valid (generateClashConfigMultiNode sc valid cfg password nodes main)"
  by (auto simp: generateClashConfigMultiNode_def Let_def)

text \<open>The groups offer exactly the proxies of the document: each name of a group is the name of a proxy and each proxy can be chosen.\<close>

definition proxy_names :: "string list \<Rightarrow> string list" where
  "proxy_names ls = map (drop 10) (filter (\<lambda>l. take 10 l = ''  - name: '') ls)"

lemma proxy_names_simps:
  "proxy_names [] = []" "proxy_names (xs @ ys) = proxy_names xs @ proxy_names ys"
  "proxy_names (trojan_proxy sc name server port password sni) = [sc name]"
  "proxy_names (ws_options sc path host) = []" "proxy_names ([] # xs) = proxy_names xs"
  "proxy_names (hysteria_proxy sc cfg name server password sni) = [sc name]"
  by (simp_all add: proxy_names_def trojan_proxy_def ws_options_def hysteria_proxy_def)

lemma main_names:
  "proxy_names (main_proxies sc cfg password main) =
     sc (''tcp-'' @ location cfg) # (if h2_enabled cfg then [sc (''h-'' @ location cfg)] else [])"
  by (cases main) (simp add: main_proxies_def proxy_names_simps)

lemma node_names:
  "proxy_names (node_proxies sc cfg password ws n) =
     sc (''tcp-'' @ node_label n) # (if \<not> is_relay (node_label n) \<and> h2_enabled cfg then [sc (''h-'' @ node_label n)] else [])"
  by (simp add: node_proxies_def proxy_names_simps)

theorem published_proxies:
  "mset (proxy_names (main_proxies sc cfg password main @ concat (map (node_proxies sc cfg password ws) nodes))) =
     mset (map sc (tj_names cfg nodes @ h2_names cfg nodes))"
  by (induction nodes) (auto simp: proxy_names_simps main_names node_names tj_names_def h2_names_def)

end
