(* ===== verification/Spec2Isabelle.thy ===== *)
theory Spec2Isabelle
  imports Node_Master Migrations Router Admin_Access Mux_Tunnel Simple_Socks Socks_Server Proxy_Relay Admin_Workers User_Admin Node_Admin Atomic_Upgrade Control_Api Admin_Operations Subscription
begin

text \<open>
  A verification library for trojan-go: the proxy protocol and its server, the accounting of traffic from
  the meters of the data plane to the ledger of the control plane, the synchronisation of worker
  nodes, the management panel and its access, the public gateway, stored credentials, schema migrations,
  upgrades, routing, and the local entrance of the client. Paths are relative to \<open>src/\<close>.

  \<^bold>\<open>The program.\<close> A client accepts SOCKS5 or HTTP connections (\<open>tunnel/adapter\<close>, \<open>tunnel/socks\<close>),
  decides by rules whether to proxy, bypass or block them (\<open>tunnel/router\<close>) and carries them over a
  stack of tunnels (\<open>proxy/stack.go\<close>): the trojan protocol (\<open>tunnel/trojan\<close>), optionally
  multiplexed (\<open>tunnel/mux\<close> with \<open>tunnel/simplesocks\<close> on the streams). The server authenticates
  each connection by the hash of a password against the users of an authenticator
  (\<open>statistic\<close>), hands everything that does not authenticate to a fallback site
  (\<open>redirector\<close>), and relays the rest (\<open>proxy/proxy.go\<close>). Meters count per user. A data
  plane drains its meters into a durable outbox (\<open>internal/trafficoutbox\<close>) and reports batches to
  the control plane (\<open>internal/webserver\<close>), which charges them once, by receipts; a worker node does the
  same through \<open>internal/nodesync\<close> and gets the valid users back. The control plane keeps users,
  nodes, credentials and settings in a database (\<open>internal/database\<close>) whose schema is migrated under
  a lease, and serves a management panel.

  \<^bold>\<open>Theories.\<close> Each models one part, from the source, with one definition per operation:

  \<^item> \<open>Go_Prelude\<close>: bytes, strings and integers of Go, errors as values, the four ways a call can end
    (\<open>Ret\<close>, \<open>Raise\<close>, \<open>Panic\<close>, \<open>Hang\<close>) and state-passing sequencing. \<open>Go_Net\<close>: what the sources
    use of \<open>net\<close>, \<open>strconv\<close> and \<open>strings\<close>. \<open>Sha224\<close>: the password hash.
  \<^item> \<open>Byte_Reader\<close>: \<open>common/io.go\<close>. A connection delivers segments chosen by the network; the locale
    \<open>byte_reader\<close> is the contract all parsers rely on, interpreted on the network reader, the
    rewinding reader (a sublocale) and the duplex connection of \<open>Socks_Server\<close>.
  \<^item> \<open>Address_Codec\<close> (\<open>tunnel/metadata.go\<close>), \<open>Trojan_Packet\<close>, \<open>Trojan_Client\<close>, \<open>Trojan_Server\<close>
    (\<open>tunnel/trojan\<close>, \<open>redirector\<close>): wire formats with their round trips for every segmentation, and
    the server's handler: who is queued, who is handed to the fallback, and that nothing of the
    stream is lost.
  \<^item> \<open>Memory_Stat\<close> (\<open>statistic/memory\<close>): users in a heap, the authenticator as a table; the locale
    \<open>authenticator\<close> is what the server relies on. \<open>User_Policy\<close>: the places that decide from the user
    table who may use the proxy, and the MySQL and SQLite updaters.
  \<^item> \<open>Traffic_Outbox\<close> (with the locale \<open>durable_store\<close>), \<open>Data_Plane_Reporter\<close>, \<open>Traffic_Store\<close>,
    \<open>Traffic_Pipeline\<close>: the reporter, the receiving side, and both together under crashes, lost messages
    and failing saves.
  \<^item> \<open>Node_Sync\<close>, \<open>Node_Master\<close>: the worker's and the control plane's side of node synchronisation.
  \<^item> \<open>Secret_File\<close>, \<open>Credentials\<close>, \<open>Admin_Access\<close>: secret files, encrypted credentials, and sessions, rate
    limits, login and change of credentials of the panel.
  \<^item> \<open>Migrations\<close>: the migration engine with any number of interleaved processes.
  \<^item> \<open>Geodata\<close>, \<open>Router\<close>: the geodata scanner and the routing client.
  \<^item> \<open>Mux_Tunnel\<close>, \<open>Simple_Socks\<close>, \<open>Socks_Server\<close>, \<open>Proxy_Relay\<close>: multiplexing, the requests on its
    streams, the SOCKS5 entrance with its UDP sessions, the relays and the stack of tunnels.
  \<^item> \<open>Edge_Gateway\<close> (\<open>gateway.go\<close>, \<open>service_router.go\<close>), \<open>Transport_Server\<close> (\<open>tunnel/transport\<close>): the public
    port, which tries to read a request and hands every other connection to the data plane with a PROXY header, and
    the end that reads the header; the locale \<open>rewind_over\<close> of \<open>Byte_Reader\<close> is interpreted on its buffered reader.
  \<^item> \<open>Go_Time\<close>, \<open>Field_Validation\<close> (\<open>validation.go\<close>), \<open>User_Admin\<close> (\<open>users.go\<close>), \<open>Node_Admin\<close> (\<open>nodes.go\<close>),
    \<open>Admin_Operations\<close> (\<open>operations.go\<close>), \<open>Admin_Workers\<close> (\<open>workers.go\<close>), \<open>Subscription\<close> (\<open>subscription.go\<close>): what
    the panel does to users and nodes, backup and restore, the periodic work, and the client configurations with their
    cache. The state is a table of rows with the authenticators; a handler takes the outcome of each access as an
    argument and gives the status with the state it leaves.
  \<^item> \<open>Control_Api\<close> (\<open>api\<close>): the gRPC handlers over the authenticator of \<open>Memory_Stat\<close>.
  \<^item> \<open>Atomic_Upgrade\<close> (\<open>cmd/trojan/actions/upgrade.go\<close>): staging, the journal, switching, rolling back and recovery on
    a model of the disk in which every access may fail or be the last one before a crash. A triple \<open>spec\<close> bounds the
    states a crash can leave and \<open>completes\<close> adds that the operation ends; both compose along the code.

  \<^bold>\<open>What the lemmas show.\<close> Round trips of the wire formats; safety of the server (fallback is transparent,
  queues hold authenticated connections only); exactly-once charging, end to end and per component;
  refinement of the authenticator to a set and of the node's outbox to the data plane's; one policy
  for admitting users; credentials that survive storage and rotation; that changing the password ends
  all sessions, and bounds on failed logins; migrations applied once and in order whatever
  the interleaving; routing decisions and the equivalence of the range match with a prefix match;
  per-stream order through the multiplexed connection; soundness of the relays; that a connection through the gateway
  reaches the data plane with its address and every byte; that the panel keeps its tables well-formed, that a password
  matches its hash and a node's secret its node; that validated fields are safe to paste; that a restore changes
  everything or nothing; that the subscription cache is transparent; and that an upgrade leaves the old or the new
  release whatever the point of a crash, once recovery has run, except when a rollback of a release found healthy is itself
  interrupted, which is a finding. Where the code does
  not do what it means to, the theorem states what it does, and the manifest lists the finding.

  \<^bold>\<open>Choices.\<close> Concurrency is explicit: operations under a lock are steps, and theorems about concurrent
  parts quantify over all interleavings (step relations in \<open>Traffic_Pipeline\<close>, \<open>Migrations\<close>,
  \<open>Mux_Tunnel\<close>, \<open>Socks_Server\<close> and \<open>Proxy_Relay\<close>). What the environment decides (which save fails,
  which segment arrives, random ids, the order in which Go visits a map, which ready branch a select
  takes) is an argument. Code outside the repository is an argument too: AES-GCM, JWT and bcrypt,
  regular expressions, protobuf decoding, the resolver; what is assumed of it is a named
  predicate with an instance that satisfies it.

  \<^bold>\<open>Fuel.\<close> \<open>io_ReadFull\<close> and \<open>io_CopyN_Discard\<close> run with one more round than bytes wanted, which
  suffices because a read that returns no error delivers at least one byte. The geodata scanner runs
  on fuel: on a well-formed file some fuel suffices, and on the malformed file of the finding none
  does. The trial parse of the gateway needs two rounds more than the limit of its buffer, since each round reads a byte or
  ends, and reading the PROXY line needs twice the bytes that can arrive; the theorems state both bounds. A migration run takes at most two steps per migration and two more. The retries of
  \<open>EnsureCredentialKey\<close> are as many as the list of attempts it is given. Everything else is
  structurally recursive or has a termination proof.

  \<^bold>\<open>Not modelled.\<close> The command line programs and installers (\<open>cmd\<close>, except the upgrade), logging, the generated
  protobuf and gRPC code, the web page: they run other programs, print, or are generated. The settings pages, which edit a
  file through a YAML library, the HTTP proxy entrance, the services behind the gateway and the custom stacks. TLS, websocket,
  shadowsocks, transparent proxying and the sockets themselves: they are the crypto and system
  libraries they call. The HTTP framework is represented by the status a handler answers with, the
  database by its tables and by which statements fail, the file system by what a path shows when it is
  opened. Rate limiters only delay and are kept as their settings.
\<close>

end
